(* ===== verification/Prelude.thy ===== *)
theory Prelude
  imports Complex_Main "HOL-Library.Word"
begin

text \<open>
  Shared vocabulary of the development: how the program stops early (\<open>error\<close>), results
  that may be such a stop (\<open>res\<close>) with the sequencing, mapping and folding operators the
  component models use, signed 32-bit conversion, and the generic lemmas the components share.

  A call of \<^verbatim>\<open>fatal()\<close> (src/common/common.cpp) prints a message and ends the process, an
  explicit \<^verbatim>\<open>exit(n)\<close> ends it with a code, an exception nobody catches ends it too, a blocking call may never return, and an access
  outside an array or through a null pointer has no defined behaviour. All of these are values of \<open>error\<close>; \<open>Fatal\<close> carries the
  head of the format string of the call, so that different error paths stay apart.
\<close>

named_theorems res_simps \<open>evaluation of the result operators\<close>

datatype error =
    Fatal string   \<comment> \<open>\<^verbatim>\<open>fatal(fmt, ...)\<close>\<close>
  | Exit int       \<comment> \<open>\<^verbatim>\<open>exit(code)\<close>\<close>
  | Uncaught string \<comment> \<open>a C++ exception nobody catches\<close>
  | Blocked string \<comment> \<open>a call that waits for something that never comes\<close>
  | UB string      \<comment> \<open>undefined behaviour: null pointer, index out of range\<close>

type_synonym 'a res = "error + 'a"

type_synonym double = real   \<comment> \<open>C++ \<^verbatim>\<open>double\<close> in computations: exact arithmetic\<close>

fun rbind :: "'a res \<Rightarrow> ('a \<Rightarrow> 'b res) \<Rightarrow> 'b res" where
  "rbind (Inl e) f = Inl e"
| "rbind (Inr x) f = f x"

primrec rfold :: "('a \<Rightarrow> 's \<Rightarrow> 's res) \<Rightarrow> 'a list \<Rightarrow> 's \<Rightarrow> 's res" where
  "rfold f [] s = Inr s"
| "rfold f (x # xs) s = rbind (f x s) (rfold f xs)"

primrec rmap :: "('a \<Rightarrow> 'b res) \<Rightarrow> 'a list \<Rightarrow> 'b list res" where
  "rmap f [] = Inr []"
| "rmap f (x # xs) = rbind (f x) (\<lambda>y. rbind (rmap f xs) (\<lambda>ys. Inr (y # ys)))"

definition rassert :: "bool \<Rightarrow> error \<Rightarrow> unit res" where
  "rassert b e = (if b then Inr () else Inl e)"

declare rassert_def [res_simps]

definition ok :: "'a res \<Rightarrow> bool" where
  "ok r = (case r of Inl _ \<Rightarrow> False | Inr _ \<Rightarrow> True)"

subsection \<open>Sequencing\<close>

lemma rbind_cong [fundef_cong]:
  "m = m' \<Longrightarrow> (\<And>x. m' = Inr x \<Longrightarrow> f x = g x) \<Longrightarrow> rbind m f = rbind m' g"
  by (cases m') auto

lemma rbind_eq_Inr: "rbind m f = Inr y \<longleftrightarrow> (\<exists>x. m = Inr x \<and> f x = Inr y)"
  by (cases m) auto

lemma rbind_eq_Inl: "rbind m f = Inl e \<longleftrightarrow> m = Inl e \<or> (\<exists>x. m = Inr x \<and> f x = Inl e)"
  by (cases m) auto

lemma rbind_InrE [elim!]:
  assumes "rbind m f = Inr y"
  obtains x where "m = Inr x" and "f x = Inr y"
  using assms by (auto simp: rbind_eq_Inr)

lemma rbind_assoc: "rbind (rbind m f) g = rbind m (\<lambda>x. rbind (f x) g)"
  by (cases m) auto

lemma rbind_Inr_right [simp]: "rbind m Inr = m"
  by (cases m) auto

lemma ok_simps [simp]: "ok (Inr x)" "\<not> ok (Inl e)"
  by (auto simp: ok_def)

lemma ok_iff: "ok r \<longleftrightarrow> (\<exists>x. r = Inr x)"
  by (cases r) auto

subsection \<open>Loops over lists\<close>

lemma rfold_append: "rfold f (xs @ ys) s = rbind (rfold f xs s) (rfold f ys)"
proof (induction xs arbitrary: s)
  case (Cons x xs)
  then show ?case by (cases "f x s") auto
qed simp

lemma rfold_inv:
  assumes "rfold f xs s = Inr s'" and "P s"
    and "\<And>x s s'. x \<in> set xs \<Longrightarrow> P s \<Longrightarrow> f x s = Inr s' \<Longrightarrow> P s'"
  shows "P s'"
  using assms
proof (induction xs arbitrary: s)
  case (Cons x xs)
  then obtain s1 where s1: "f x s = Inr s1" "rfold f xs s1 = Inr s'" by auto
  with Cons.prems have "P s1" by (metis list.set_intros(1))
  with s1(2) Cons.prems(3) show ?case by (intro Cons.IH) auto
qed simp

lemma rfold_le:
  fixes \<mu> :: "'s \<Rightarrow> nat"
  assumes "rfold f xs s = Inr s'" and step: "\<And>x s s'. f x s = Inr s' \<Longrightarrow> \<mu> s' \<le> \<mu> s"
  shows "\<mu> s' \<le> \<mu> s"
  using assms(1)
proof (induction xs arbitrary: s)
  case (Cons x xs)
  then obtain s1 where "f x s = Inr s1" "rfold f xs s1 = Inr s'" by auto
  then show ?case using Cons.IH step le_trans by blast
qed simp

lemma rfold_ok:
  assumes "P s" and "\<And>x s. x \<in> set xs \<Longrightarrow> P s \<Longrightarrow> \<exists>s'. f x s = Inr s' \<and> P s'"
  shows "\<exists>s'. rfold f xs s = Inr s' \<and> P s'"
  using assms
proof (induction xs arbitrary: s)
  case (Cons x xs)
  then obtain s1 where "f x s = Inr s1" "P s1" by (metis list.set_intros(1))
  moreover have "\<exists>s'. rfold f xs s1 = Inr s' \<and> P s'"
    using Cons.prems(2) \<open>P s1\<close> by (intro Cons.IH) auto
  ultimately show ?case by auto
qed simp

lemma rfold_pure: "(\<And>x s. x \<in> set xs \<Longrightarrow> f x s = Inr (g x s)) \<Longrightarrow> rfold f xs s = Inr (fold g xs s)"
  by (induction xs arbitrary: s) auto

lemma rmap_eq_Inr: "rmap f xs = Inr ys \<longleftrightarrow> list_all2 (\<lambda>x y. f x = Inr y) xs ys"
proof (induction xs arbitrary: ys)
  case (Cons x xs)
  then show ?case by (cases ys) (auto simp: rbind_eq_Inr)
qed auto

lemma rmap_length: "rmap f xs = Inr ys \<Longrightarrow> length ys = length xs"
  by (auto simp: rmap_eq_Inr dest: list_all2_lengthD)

lemma rmap_pure: "(\<And>x. x \<in> set xs \<Longrightarrow> f x = Inr (g x)) \<Longrightarrow> rmap f xs = Inr (map g xs)"
  by (induction xs) auto

subsection \<open>Signed 32-bit integers\<close>

text \<open>The value a C++ \<^verbatim>\<open>int\<close> holds after conversion of a wider integer.\<close>

definition to_int32 :: "int \<Rightarrow> int" where
  "to_int32 v = (v + 2 ^ 31) mod 2 ^ 32 - 2 ^ 31"

lemma to_int32_range: "- (2 ^ 31) \<le> to_int32 v \<and> to_int32 v < 2 ^ 31"
  by (simp add: to_int32_def)

lemma to_int32_id: "- (2 ^ 31) \<le> v \<Longrightarrow> v < 2 ^ 31 \<Longrightarrow> to_int32 v = v"
  by (simp add: to_int32_def mod_pos_pos_trivial)

subsection \<open>Lists of lists\<close>

lemma distinct_concat_map:
  "distinct ts \<Longrightarrow> (\<And>t. t \<in> set ts \<Longrightarrow> distinct (f t)) \<Longrightarrow>
   (\<And>t u. t \<in> set ts \<Longrightarrow> u \<in> set ts \<Longrightarrow> t \<noteq> u \<Longrightarrow> set (f t) \<inter> set (f u) = {}) \<Longrightarrow>
   distinct (concat (map f ts))"
proof (induction ts)
  case (Cons t ts)
  have "set (f t) \<inter> set (f u) = {}" if "u \<in> set ts" for u
    using Cons.prems(1) Cons.prems(3)[of t u] that by auto
  then show ?case using Cons by auto
qed simp

end
