(* ===== verification/Int_Set.thy ===== *)
theory Int_Set
  imports Prelude
begin

text \<open>
  \<^verbatim>\<open>fmitcp::int_set\<close> (include/fmitcp/fmitcp-common.h, a \<^verbatim>\<open>std::unordered_set<int>\<close>): the sets of
  FMU identifiers and value references. A set is the list of its elements in iteration order; a
  new element goes to the front, which is one of the orders the C++ standard allows. The
  interface every client of these sets relies on is the locale \<open>int_set\<close>: its laws speak of the
  elements only, and the lemmas about the program's \<^verbatim>\<open>for (int i : xs) s.insert(i)\<close> and
  \<^verbatim>\<open>s.erase(i)\<close> loops are proved from them once.
  \<^verbatim>\<open>std::includes\<close>, which the program calls on the iteration order, is defined on lists.
\<close>

type_synonym int_set = "int list"

definition is_insert :: "int \<Rightarrow> int_set \<Rightarrow> int_set" where
  "is_insert x s = (if x \<in> set s then s else x # s)"

definition is_erase :: "int \<Rightarrow> int_set \<Rightarrow> int_set" where
  "is_erase x s = filter (\<lambda>y. y \<noteq> x) s"

definition is_count :: "int_set \<Rightarrow> int \<Rightarrow> nat" where
  "is_count s x = (if x \<in> set s then 1 else 0)"

definition is_size :: "int_set \<Rightarrow> nat" where
  "is_size s = length s"

definition is_insert_all :: "int list \<Rightarrow> int_set \<Rightarrow> int_set" where
  "is_insert_all xs s = fold is_insert xs s"

definition is_erase_all :: "int list \<Rightarrow> int_set \<Rightarrow> int_set" where
  "is_erase_all xs s = fold is_erase xs s"

text \<open>\<^verbatim>\<open>std::includes(first1, last1, first2, last2)\<close>: the merge of two sorted ranges, which
  compares elements in iteration order whether or not the ranges are sorted.\<close>

fun std_includes :: "int list \<Rightarrow> int list \<Rightarrow> bool" where
  "std_includes xs [] = True"
| "std_includes [] (y # ys) = False"
| "std_includes (x # xs) (y # ys) =
     (if y < x then False
      else if x < y then std_includes xs (y # ys)
      else std_includes xs ys)"

subsection \<open>The interface\<close>

locale int_set =
  fixes ins :: "int \<Rightarrow> 's \<Rightarrow> 's"
    and del :: "int \<Rightarrow> 's \<Rightarrow> 's"
    and cnt :: "'s \<Rightarrow> int \<Rightarrow> nat"
    and siz :: "'s \<Rightarrow> nat"
    and elems :: "'s \<Rightarrow> int set"
    and inv :: "'s \<Rightarrow> bool"
  assumes finite_elems: "inv s \<Longrightarrow> finite (elems s)"
    and elems_insert: "elems (ins x s) = insert x (elems s)"
    and elems_erase: "elems (del x s) = elems s - {x}"
    and count_elems: "cnt s x = (if x \<in> elems s then 1 else 0)"
    and size_elems: "inv s \<Longrightarrow> siz s = card (elems s)"
    and inv_insert: "inv s \<Longrightarrow> inv (ins x s)"
    and inv_erase: "inv s \<Longrightarrow> inv (del x s)"
begin

lemma elems_insert_all: "elems (fold ins xs s) = set xs \<union> elems s"
  by (induction xs arbitrary: s) (auto simp: elems_insert)

lemma elems_erase_all: "elems (fold del xs s) = elems s - set xs"
  by (induction xs arbitrary: s) (auto simp: elems_erase)

lemma inv_insert_all: "inv s \<Longrightarrow> inv (fold ins xs s)"
  by (induction xs arbitrary: s) (auto simp: inv_insert)

lemma inv_erase_all: "inv s \<Longrightarrow> inv (fold del xs s)"
  by (induction xs arbitrary: s) (auto simp: inv_erase)

lemma size_zero_iff: "inv s \<Longrightarrow> siz s = 0 \<longleftrightarrow> elems s = {}"
  by (simp add: size_elems finite_elems)

lemma size_move:
  assumes "inv s" "inv t" "x \<in> elems s" "x \<notin> elems t"
  shows "siz (del x s) + siz (ins x t) = siz s + siz t"
proof -
  have "card (elems s - {x}) = card (elems s) - 1" "card (elems s) > 0"
    using assms finite_elems by (auto simp: card_gt_0_iff)
  then show ?thesis
    using assms by (simp add: size_elems inv_erase inv_insert elems_erase elems_insert finite_elems)
qed

end

interpretation fis: int_set is_insert is_erase is_count is_size set distinct
proof unfold_locales
  fix s :: int_set
  show "distinct s \<Longrightarrow> is_size s = card (set s)"
    by (simp add: is_size_def distinct_card)
qed (auto simp: is_insert_def is_erase_def is_count_def)

lemma set_is_insert [simp]: "set (is_insert x s) = insert x (set s)"
  by (rule fis.elems_insert)

lemma set_is_erase [simp]: "set (is_erase x s) = set s - {x}"
  by (rule fis.elems_erase)

lemma set_is_insert_all [simp]: "set (is_insert_all xs s) = set xs \<union> set s"
  unfolding is_insert_all_def by (rule fis.elems_insert_all)

lemma set_is_erase_all [simp]: "set (is_erase_all xs s) = set s - set xs"
  unfolding is_erase_all_def by (rule fis.elems_erase_all)

lemma distinct_is_insert [simp]: "distinct s \<Longrightarrow> distinct (is_insert x s)"
  by (rule fis.inv_insert)

lemma distinct_is_erase [simp]: "distinct s \<Longrightarrow> distinct (is_erase x s)"
  by (rule fis.inv_erase)

lemma distinct_is_insert_all [simp]: "distinct s \<Longrightarrow> distinct (is_insert_all xs s)"
  unfolding is_insert_all_def by (rule fis.inv_insert_all)

lemma distinct_is_erase_all [simp]: "distinct s \<Longrightarrow> distinct (is_erase_all xs s)"
  unfolding is_erase_all_def by (rule fis.inv_erase_all)

lemma is_count_pos [simp]: "is_count s x = 0 \<longleftrightarrow> x \<notin> set s" "is_count s x = Suc 0 \<longleftrightarrow> x \<in> set s"
  by (auto simp: is_count_def)

lemma is_size_card: "distinct s \<Longrightarrow> is_size s = card (set s)"
  by (rule fis.size_elems)

lemma is_size_zero [simp]: "is_size s = 0 \<longleftrightarrow> s = []" "0 < is_size s \<longleftrightarrow> s \<noteq> []"
  by (simp_all add: is_size_def)

lemma is_insert_fresh: "x \<notin> set s \<Longrightarrow> is_insert x s = x # s"
  by (simp add: is_insert_def)

lemma is_insert_all_fresh:
  "distinct xs \<Longrightarrow> set xs \<inter> set s = {} \<Longrightarrow> is_insert_all xs s = rev xs @ s"
  unfolding is_insert_all_def by (induction xs arbitrary: s) (auto simp: is_insert_fresh)

subsection \<open>Set inclusion by merging\<close>

lemma std_includes_sound: "std_includes xs ys \<Longrightarrow> set ys \<subseteq> set xs"
  by (induction xs ys rule: std_includes.induct) (auto split: if_splits)

lemma std_includes_sorted:
  "sorted xs \<Longrightarrow> sorted ys \<Longrightarrow> distinct ys \<Longrightarrow> set ys \<subseteq> set xs \<Longrightarrow> std_includes xs ys"
proof (induction xs ys rule: std_includes.induct)
  case (3 x xs y ys)
  have "\<not> y < x" using 3 by fastforce
  moreover have "std_includes xs (y # ys)" if "x < y"
  proof -
    have "x \<notin> set (y # ys)" using 3 that by auto
    then show ?thesis using 3 that by (intro 3) auto
  qed
  moreover have "std_includes xs ys" if "\<not> x < y" "\<not> y < x"
    using 3 that by (intro 3) auto
  ultimately show ?case by simp
qed auto

end
