(* ===== verification/Rends.thy ===== *)
theory Rends
  imports Int_Set
begin

text \<open>
  The rendezvous structure of an execution order (\<^verbatim>\<open>class Rend\<close>, include/master/parseargs.h): a
  rend waits for its parent FMUs and then releases its children. This theory holds the data type,
  the well-formedness the master demands of a list of rends, the precedence it induces between
  FMUs, and a sufficient condition for an order to be fulfillable.
\<close>

record Rend =
  parents :: int_set
  children :: int_set

definition empty_Rend :: Rend where
  "empty_Rend = \<lparr>parents = [], children = []\<rparr>"

lemma empty_Rend_simps [simp]: "parents empty_Rend = []" "children empty_Rend = []"
  by (simp_all add: empty_Rend_def)

definition all_children :: "Rend list \<Rightarrow> int list" where
  "all_children rs = concat (map children rs)"

definition all_parents :: "Rend list \<Rightarrow> int list" where
  "all_parents rs = concat (map parents rs)"

text \<open>Every FMU of \<open>n\<close> is the child of exactly one rend and the parent of exactly one rend.\<close>

definition wf_rends :: "nat \<Rightarrow> Rend list \<Rightarrow> bool" where
  "wf_rends n rs \<longleftrightarrow> 2 \<le> length rs
     \<and> distinct (all_children rs) \<and> set (all_children rs) = {0..<int n}
     \<and> distinct (all_parents rs) \<and> set (all_parents rs) = {0..<int n}"

text \<open>Every parent of a rend is the child of an earlier one, and every rend but the root that has
  children has a parent to wait for: rends listed like this can all be triggered, in order.\<close>

definition topo_rends :: "Rend list \<Rightarrow> bool" where
  "topo_rends rs \<longleftrightarrow>
     (\<forall>r < length rs. set (parents (rs ! r)) \<subseteq> set (all_children (take r rs)))
     \<and> (\<forall>r < length rs. 0 < r \<longrightarrow> children (rs ! r) \<noteq> [] \<longrightarrow> parents (rs ! r) \<noteq> [])"

text \<open>\<open>a\<close> must be done before \<open>b\<close> starts: some rend has \<open>a\<close> as parent and \<open>b\<close> as child.\<close>

definition precedes :: "Rend list \<Rightarrow> (int \<times> int) set" where
  "precedes rs = {(a, b). \<exists>r < length rs. a \<in> set (parents (rs ! r)) \<and> b \<in> set (children (rs ! r))}"

subsection \<open>Which rend an FMU belongs to\<close>

lemma mem_all_children: "x \<in> set (all_children rs) \<longleftrightarrow> (\<exists>r < length rs. x \<in> set (children (rs ! r)))"
  by (auto simp: all_children_def in_set_conv_nth[of _ rs] intro!: bexI[OF _ nth_mem])

lemma mem_all_parents: "x \<in> set (all_parents rs) \<longleftrightarrow> (\<exists>r < length rs. x \<in> set (parents (rs ! r)))"
  by (auto simp: all_parents_def in_set_conv_nth[of _ rs] intro!: bexI[OF _ nth_mem])

lemma mem_concat_take:
  assumes "i < j" "i < length xss" "x \<in> set (xss ! i)"
  shows "x \<in> set (concat (take j xss))"
proof -
  have "xss ! i \<in> set (take j xss)"
    using assms(1,2) nth_mem[of i "take j xss"] by simp
  then show ?thesis using assms(3) by auto
qed

lemma distinct_concat_nth_unique:
  assumes "distinct (concat xss)" "i < length xss" "j < length xss" "x \<in> set (xss ! i)" "x \<in> set (xss ! j)"
  shows "i = j"
proof (rule ccontr)
  assume "i \<noteq> j"
  then consider "i < j" | "j < i" by linarith
  then show False
  proof cases
    case 1
    have "xss = take j xss @ xss ! j # drop (Suc j) xss" using assms(3) by (rule id_take_nth_drop)
    then have "distinct (concat (take j xss) @ concat (xss ! j # drop (Suc j) xss))"
      using assms(1) by (metis concat_append)
    moreover have "x \<in> set (concat (take j xss))" by (rule mem_concat_take[OF 1 assms(2,4)])
    ultimately show False using assms(5) by auto
  next
    case 2
    have "xss = take i xss @ xss ! i # drop (Suc i) xss" using assms(2) by (rule id_take_nth_drop)
    then have "distinct (concat (take i xss) @ concat (xss ! i # drop (Suc i) xss))"
      using assms(1) by (metis concat_append)
    moreover have "x \<in> set (concat (take i xss))" by (rule mem_concat_take[OF 2 assms(3,5)])
    ultimately show False using assms(4) by auto
  qed
qed

lemma child_rend_unique:
  "wf_rends n rs \<Longrightarrow> r < length rs \<Longrightarrow> r' < length rs \<Longrightarrow>
   x \<in> set (children (rs ! r)) \<Longrightarrow> x \<in> set (children (rs ! r')) \<Longrightarrow> r = r'"
  using distinct_concat_nth_unique[of "map children rs" r r' x] by (auto simp: wf_rends_def all_children_def)

lemma parent_rend_unique:
  "wf_rends n rs \<Longrightarrow> r < length rs \<Longrightarrow> r' < length rs \<Longrightarrow>
   x \<in> set (parents (rs ! r)) \<Longrightarrow> x \<in> set (parents (rs ! r')) \<Longrightarrow> r = r'"
  using distinct_concat_nth_unique[of "map parents rs" r r' x] by (auto simp: wf_rends_def all_parents_def)

lemma wf_rends_distinct:
  assumes "wf_rends n rs" "r < length rs"
  shows "distinct (children (rs ! r))" "distinct (parents (rs ! r))"
  using assms by (auto simp: wf_rends_def all_children_def all_parents_def distinct_concat_iff)

lemma wf_rends_child:
  "wf_rends n rs \<Longrightarrow> 0 \<le> x \<Longrightarrow> x < int n \<Longrightarrow> \<exists>r < length rs. x \<in> set (children (rs ! r))"
  using mem_all_children[of x rs] by (auto simp: wf_rends_def)

lemma wf_rends_parent:
  "wf_rends n rs \<Longrightarrow> 0 \<le> x \<Longrightarrow> x < int n \<Longrightarrow> \<exists>r < length rs. x \<in> set (parents (rs ! r))"
  using mem_all_parents[of x rs] by (auto simp: wf_rends_def)

lemma wf_rends_range:
  assumes "wf_rends n rs" "r < length rs"
  shows "set (children (rs ! r)) \<subseteq> {0..<int n}" "set (parents (rs ! r)) \<subseteq> {0..<int n}"
proof -
  have "set (children (rs ! r)) \<subseteq> set (all_children rs)" "set (parents (rs ! r)) \<subseteq> set (all_parents rs)"
    using assms(2) by (auto simp: mem_all_children mem_all_parents)
  then show "set (children (rs ! r)) \<subseteq> {0..<int n}" "set (parents (rs ! r)) \<subseteq> {0..<int n}"
    using assms(1) by (auto simp: wf_rends_def)
qed

lemma topo_root: "wf_rends n rs \<Longrightarrow> topo_rends rs \<Longrightarrow> parents (rs ! 0) = []"
  by (cases rs) (auto simp: wf_rends_def topo_rends_def all_children_def)

lemma mem_all_children_take:
  "x \<in> set (all_children (take r rs)) \<longleftrightarrow> (\<exists>r' < length rs. r' < r \<and> x \<in> set (children (rs ! r')))"
  by (auto simp: mem_all_children)

end
