(* ===== verification/Text_Utils.thy ===== *)
theory Text_Utils
  imports Prelude
begin

text \<open>
  Text handling: the string helpers of src/common/common.cpp, \<^verbatim>\<open>escapeSplit\<close> and
  \<^verbatim>\<open>type_from_char\<close> of src/master/parseargs.cpp, the CSV reader of src/common/CSV-parser.cpp, and the
  parts of the C and C++ libraries they use (\<^verbatim>\<open>atoi\<close>, \<^verbatim>\<open>std::getline\<close>, extraction of an \<^verbatim>\<open>int\<close> from a
  stream, decimal output).
\<close>

subsection \<open>Numbers\<close>

definition isdigit :: "char \<Rightarrow> bool" where
  "isdigit c \<longleftrightarrow> 48 \<le> (of_char c :: nat) \<and> (of_char c :: nat) \<le> 57"

definition isspace :: "char \<Rightarrow> bool" where
  "isspace c \<longleftrightarrow> (of_char c :: nat) = 32 \<or> (9 \<le> (of_char c :: nat) \<and> (of_char c :: nat) \<le> 13)"

definition digit_value :: "char \<Rightarrow> int" where
  "digit_value c = of_char c - 48"

definition digits_value :: "string \<Rightarrow> int" where
  "digits_value s = foldl (\<lambda>acc c. acc * 10 + digit_value c) 0 s"

text \<open>The sign and leading digits of a text after white space, as \<^verbatim>\<open>strtol\<close> reads them; a value out
  of the range of \<^verbatim>\<open>long\<close> saturates.\<close>

definition strtol :: "string \<Rightarrow> int" where
  "strtol s = (let s = dropWhile isspace s;
      (neg, s) = (case s of [] \<Rightarrow> (False, s)
                  | c # cs \<Rightarrow> if c = CHR ''-'' then (True, cs) else if c = CHR ''+'' then (False, cs) else (False, s));
      v = digits_value (takeWhile isdigit s);
      v = (if neg then - v else v)
    in max (- (2 ^ 63)) (min (2 ^ 63 - 1) v))"

definition atoi :: "string \<Rightarrow> int" where
  "atoi s = to_int32 (strtol s)"

text \<open>\<^verbatim>\<open>atof\<close> on decimal numbers: sign, digits with an optional point, optional exponent, and 0 when there is no number.
  Hexadecimal numbers, infinities and not-a-number are not read.\<close>

definition strip_sign :: "string \<Rightarrow> bool \<times> string" where
  "strip_sign s = (case s of [] \<Rightarrow> (False, s)
     | c # cs \<Rightarrow> if c = CHR ''-'' then (True, cs) else if c = CHR ''+'' then (False, cs) else (False, s))"

definition exponent_value :: "string \<Rightarrow> int" where
  "exponent_value s = (case s of [] \<Rightarrow> 0
     | c # cs \<Rightarrow> if c = CHR ''e'' \<or> c = CHR ''E''
         then let (neg, ds) = strip_sign cs; v = digits_value (takeWhile isdigit ds) in if neg then - v else v
         else 0)"

definition atof :: "string \<Rightarrow> double" where
  "atof s = (let (neg, s) = strip_sign (dropWhile isspace s);
      ip = takeWhile isdigit s; r = dropWhile isdigit s;
      fp = (case r of [] \<Rightarrow> [] | c # cs \<Rightarrow> if c = CHR ''.'' then takeWhile isdigit cs else []);
      r = (case r of [] \<Rightarrow> [] | c # cs \<Rightarrow> if c = CHR ''.'' then dropWhile isdigit cs else r);
      e = exponent_value r;
      m = of_int (digits_value (ip @ fp)) / 10 ^ length fp;
      v = (if 0 \<le> e then m * 10 ^ nat e else m / 10 ^ nat (- e))
    in if neg then - v else v)"

text \<open>\<^verbatim>\<open>istringstream >> int\<close>: 0 when there is no number, saturation at the range of \<^verbatim>\<open>int\<close>.\<close>

definition stream_int :: "string \<Rightarrow> int" where
  "stream_int s = max (- (2 ^ 31)) (min (2 ^ 31 - 1) (strtol s))"

definition string_to_int :: "string \<Rightarrow> int" where
  "string_to_int s = stream_int s"

fun nat_to_string :: "nat \<Rightarrow> string" where
  "nat_to_string n =
     (if n < 10 then [char_of (48 + n)] else nat_to_string (n div 10) @ [char_of (48 + n mod 10)])"

declare nat_to_string.simps [simp del]

definition int_to_string :: "int \<Rightarrow> string" where
  "int_to_string i = (if i < 0 then CHR ''-'' # nat_to_string (nat (- i)) else nat_to_string (nat i))"

subsection \<open>Splitting\<close>

text \<open>All \<^verbatim>\<open>getline(ss, item, delim)\<close> results of a stream: text after the last delimiter counts only
  when there is some.\<close>

fun getlines :: "char \<Rightarrow> string \<Rightarrow> string list" where
  "getlines d [] = []"
| "getlines d (c # cs) =
     (let item = takeWhile (\<lambda>x. x \<noteq> d) (c # cs); rest = dropWhile (\<lambda>x. x \<noteq> d) (c # cs)
      in item # (case rest of [] \<Rightarrow> [] | _ # rest' \<Rightarrow> getlines d (drop (Suc (length item)) (c # cs))))"

definition split_str :: "string \<Rightarrow> char \<Rightarrow> string list" where
  "split_str s delim = getlines delim s"

fun join :: "char \<Rightarrow> string list \<Rightarrow> string" where
  "join d [] = []"
| "join d [s] = s"
| "join d (s # t # ss) = s @ d # join d (t # ss)"

definition escapable :: "char \<Rightarrow> bool" where
  "escapable c \<longleftrightarrow> c = CHR '','' \<or> c = CHR '':'' \<or> c = CHR 0x5C"

text \<open>One character of \<^verbatim>\<open>escapeSplit\<close>: the finished items, the text of the current one, and whether
  the previous character was a backslash.\<close>

definition escapeSplit_char ::
  "char \<Rightarrow> char \<Rightarrow> string list \<times> string \<times> bool \<Rightarrow> (string list \<times> string \<times> bool) res" where
  "escapeSplit_char delim c = (\<lambda>(ret, oss, escaped).
     if escaped then
       (if \<not> escapable c then Inl (Fatal ''Only comma, colon and backslash may be escaped'')
        else Inr (ret, oss @ [c], False))
     else if c = CHR 0x5C then Inr (ret, oss, True)
     else if c = delim then Inr (ret @ [oss], [], False)
     else Inr (ret, oss @ [c], False))"

definition escapeSplit :: "string \<Rightarrow> char \<Rightarrow> string list res" where
  "escapeSplit str delim =
     rbind (rfold (escapeSplit_char delim) str ([], [], False)) (\<lambda>(ret, oss, escaped).
     if escaped then Inl (Fatal ''Trailing backslash in program option'') else Inr (ret @ [oss]))"

definition escape :: "string \<Rightarrow> string" where
  "escape s = concat (map (\<lambda>c. if escapable c then [CHR 0x5C, c] else [c]) s)"

subsection \<open>Recognisers\<close>

definition isVR :: "string \<Rightarrow> bool" where
  "isVR input = list_all isdigit input"

definition isReal :: "string \<Rightarrow> bool" where
  "isReal input = list_all (\<lambda>c. c \<in> set ''+-0123456789.eE'') input"

definition isInteger :: "string \<Rightarrow> bool" where
  "isInteger input = list_all (\<lambda>c. c \<in> set ''+-0123456789'') input"

definition isBoolean :: "string \<Rightarrow> bool" where
  "isBoolean input \<longleftrightarrow> input = ''true'' \<or> input = ''false''"

text \<open>\<^verbatim>\<open>jm_log_level_enu_t\<close> (FMI Library) and its copy in the protocol have the same eight levels.\<close>

datatype jm_log_level =
    jm_log_level_nothing | jm_log_level_fatal | jm_log_level_error | jm_log_level_warning
  | jm_log_level_info | jm_log_level_verbose | jm_log_level_debug | jm_log_level_all

definition logOptionToJMLogLevel :: "string \<Rightarrow> jm_log_level res" where
  "logOptionToJMLogLevel option = (let logging = stream_int option in
     if logging = 0 then Inr jm_log_level_nothing
     else if logging = 1 then Inr jm_log_level_fatal
     else if logging = 2 then Inr jm_log_level_error
     else if logging = 3 then Inr jm_log_level_warning
     else if logging = 4 then Inr jm_log_level_info
     else if logging = 5 then Inr jm_log_level_verbose
     else if logging = 6 then Inr jm_log_level_debug
     else if logging = 7 then Inr jm_log_level_all
     else Inl (Fatal ''Invalid logging''))"

subsection \<open>CSV input\<close>

record csv_matrix =
  matrix :: "string \<rightharpoonup> (string \<rightharpoonup> string)"
  headers :: "string list"
  time :: "string list"

definition csv_cell :: "string list \<Rightarrow> string \<Rightarrow> (nat \<times> (string \<rightharpoonup> string)) \<Rightarrow> (nat \<times> (string \<rightharpoonup> string)) res" where
  "csv_cell hs cell = (\<lambda>(i, params).
     if length hs \<le> i then Inl (Exit 1) else Inr (Suc i, params(hs ! i \<mapsto> cell)))"

text \<open>A line whose first \<^verbatim>\<open>getline\<close> fails (an empty one) has the empty time.\<close>

definition csv_row :: "string \<Rightarrow> csv_matrix \<Rightarrow> csv_matrix res" where
  "csv_row line m =
     (let cells = getlines (CHR '','') line;
          t = (case cells of [] \<Rightarrow> [] | c # _ \<Rightarrow> c)
      in rbind (rfold (csv_cell (headers m)) (tl cells) (0, Map.empty)) (\<lambda>(i, params).
         if i \<noteq> length (headers m) then Inl (Exit 1)
         else if matrix m t \<noteq> None then Inl (Exit 1)
         else Inr (m\<lparr>matrix := (matrix m)(t \<mapsto> params), time := time m @ [t]\<rparr>)))"

definition fmigo_CSV_matrix :: "string \<Rightarrow> char \<Rightarrow> csv_matrix res" where
  "fmigo_CSV_matrix file c =
     (case getlines (CHR 0x0A) file of
        [] \<Rightarrow> Inr \<lparr>matrix = Map.empty, headers = [], time = []\<rparr>
      | line # rows \<Rightarrow>
          (case line of
             [] \<Rightarrow> Inl (Uncaught ''std::out_of_range'')
           | x # xs \<Rightarrow>
               if x = CHR ''#'' then
                 rfold csv_row rows \<lparr>matrix = Map.empty, headers = tl (getlines c xs), time = []\<rparr>
               else Inl (Exit 1)))"


subsection \<open>Printing and reading numbers\<close>

lemma digits_value_snoc: "digits_value (s @ [c]) = digits_value s * 10 + digit_value c"
  by (simp add: digits_value_def)

lemma digit_char:
  assumes "n < 10"
  shows "isdigit (char_of (48 + n))" "digit_value (char_of (48 + n)) = int n"
proof -
  have of: "(of_char (char_of (48 + n) :: char) :: nat) = 48 + n" using assms by (simp add: of_char_of)
  then show "isdigit (char_of (48 + n))" using assms by (simp add: isdigit_def)
  have "(of_char (char_of (48 + n) :: char) :: int) = int (of_char (char_of (48 + n) :: char))"
    by (simp only: of_nat_of_char)
  then show "digit_value (char_of (48 + n)) = int n" using of by (simp add: digit_value_def)
qed

lemma nat_to_string_digits: "list_all isdigit (nat_to_string n)"
proof (induction n rule: nat_to_string.induct)
  case (1 n)
  then show ?case using digit_char(1) by (subst nat_to_string.simps) auto
qed

lemma nat_to_string_value: "digits_value (nat_to_string n) = int n"
proof (induction n rule: nat_to_string.induct)
  case (1 n)
  have "int n div 10 * 10 + int n mod 10 = int n" by simp
  then show ?case
    using 1 digit_char(2)[of n] digit_char(2)[of "n mod 10"]
    by (subst nat_to_string.simps) (auto simp: digits_value_snoc zdiv_int zmod_int, simp add: digits_value_def)
qed

lemma nat_to_string_nonempty [simp]: "nat_to_string n \<noteq> []"
  by (subst nat_to_string.simps) auto

lemma isdigit_not: "isdigit c \<Longrightarrow> \<not> isspace c \<and> c \<noteq> CHR ''-'' \<and> c \<noteq> CHR ''+''"
  by (auto simp: isdigit_def isspace_def)

lemma strtol_digits:
  assumes "list_all isdigit s"
  shows "strtol s = max (- (2 ^ 63)) (min (2 ^ 63 - 1) (digits_value s))"
proof (cases s)
  case (Cons c cs)
  then have c: "isdigit c" using assms by simp
  have "dropWhile isspace s = s" "takeWhile isdigit s = s"
    using Cons isdigit_not[OF c] assms by (auto simp: list_all_iff takeWhile_eq_all_conv)
  then show ?thesis using Cons isdigit_not[OF c] by (simp add: strtol_def Let_def)
qed (simp add: strtol_def digits_value_def)

lemma strtol_negative:
  assumes "list_all isdigit s"
  shows "strtol (CHR ''-'' # s) = max (- (2 ^ 63)) (min (2 ^ 63 - 1) (- digits_value s))"
proof -
  have "takeWhile isdigit s = s" using assms by (auto simp: list_all_iff takeWhile_eq_all_conv)
  moreover have "\<not> isspace (CHR ''-'')" by (simp add: isspace_def)
  ultimately show ?thesis by (simp add: strtol_def Let_def del: takeWhile_eq_all_conv)
qed

lemma atoi_int_to_string:
  assumes "- (2 ^ 31) \<le> i" "i < 2 ^ 31"
  shows "atoi (int_to_string i) = i"
proof -
  have "strtol (int_to_string i) = i"
  proof (cases "i < 0")
    case True
    then show ?thesis
      using assms strtol_negative[OF nat_to_string_digits, of "nat (- i)"]
      by (simp add: int_to_string_def nat_to_string_value)
  next
    case False
    then show ?thesis
      using assms strtol_digits[OF nat_to_string_digits, of "nat i"]
      by (simp add: int_to_string_def nat_to_string_value)
  qed
  then show ?thesis using assms by (simp add: atoi_def to_int32_id)
qed

lemma int_to_string_nonempty [simp]: "int_to_string i \<noteq> []"
  by (simp add: int_to_string_def)

subsection \<open>Splitting what was joined\<close>

lemma takeWhile_neq_append: "d \<notin> set s \<Longrightarrow> takeWhile (\<lambda>x. x \<noteq> d) (s @ d # t) = s"
  by (induction s) auto

lemma dropWhile_neq_append: "d \<notin> set s \<Longrightarrow> dropWhile (\<lambda>x. x \<noteq> d) (s @ d # t) = d # t"
  by (induction s) auto

lemma getlines_delim: "d \<notin> set s \<Longrightarrow> getlines d (s @ d # t) = s # getlines d t"
proof -
  assume d: "d \<notin> set s"
  obtain c cs where cs: "s @ d # t = c # cs" by (cases s) auto
  have "drop (Suc (length s)) (c # cs) = t" using cs[symmetric] by simp
  then have "getlines d (c # cs) = s # getlines d t"
    using takeWhile_neq_append[OF d, of t] dropWhile_neq_append[OF d, of t] unfolding cs
    by (simp only: getlines.simps Let_def list.case)
  then show ?thesis using cs by simp
qed

lemma getlines_single: "d \<notin> set s \<Longrightarrow> s \<noteq> [] \<Longrightarrow> getlines d s = [s]"
proof -
  assume d: "d \<notin> set s" and "s \<noteq> []"
  then obtain c cs where "s = c # cs" by (cases s) auto
  moreover have "takeWhile (\<lambda>x. x \<noteq> d) s = s" using d by (auto simp: takeWhile_eq_all_conv)
  moreover have "dropWhile (\<lambda>x. x \<noteq> d) s = []" using d by (auto simp: dropWhile_eq_Nil_conv)
  ultimately show ?thesis by (simp add: Let_def)
qed

text \<open>\<^verbatim>\<open>split\<close> is a left inverse of joining, except that an empty last item is dropped.\<close>

lemma split_join:
  "\<forall>s\<in>set ss. d \<notin> set s \<Longrightarrow> ss = [] \<or> last ss \<noteq> [] \<Longrightarrow> split_str (join d ss) d = ss"
  unfolding split_str_def
proof (induction d ss rule: join.induct)
  case (2 d s)
  then show ?case by (simp add: getlines_single)
next
  case (3 d s t ss)
  then show ?case by (simp add: getlines_delim)
qed simp

lemma getlines_no_delim: "x \<in> set (getlines d s) \<Longrightarrow> d \<notin> set x"
proof (induction d s rule: getlines.induct)
  case (2 d c cs)
  have "d \<notin> set (takeWhile (\<lambda>x. x \<noteq> d) (c # cs))" using set_takeWhileD by fast
  then show ?case using 2 by (auto simp: Let_def split: list.splits if_splits)
qed simp

lemma escapeSplit_escape:
  assumes "escapable d" "d \<noteq> CHR 0x5C"
  shows "rfold (escapeSplit_char d) (escape s) (ret, oss, False) = Inr (ret, oss @ s, False)"
proof (induction s arbitrary: oss)
  case (Cons c s)
  have "rfold (escapeSplit_char d) (escape (c # s)) (ret, oss, False)
      = rfold (escapeSplit_char d) (escape s) (ret, oss @ [c], False)"
    using assms by (cases "escapable c") (auto simp: escape_def escapeSplit_char_def rfold_append escapable_def)
  then show ?case using Cons.IH by simp
qed (simp add: escape_def)

text \<open>The items of an option come back from their escaped and joined form, whatever they contain.\<close>

lemma escapeSplit_join:
  assumes d: "d = CHR '','' \<or> d = CHR '':''" and "ss \<noteq> []"
  shows "escapeSplit (join d (map escape ss)) d = Inr ss"
proof -
  have esc: "escapable d" "d \<noteq> CHR 0x5C" using d by (auto simp: escapable_def)
  have "rfold (escapeSplit_char d) (join d (map escape ss)) (ret, [], False) = Inr (ret @ butlast ss, last ss, False)" for ret
    using assms(2)
  proof (induction ss arbitrary: ret)
    case (Cons s ss)
    show ?case
    proof (cases ss)
      case Nil
      then show ?thesis using escapeSplit_escape[OF esc, of s ret "[]"] by simp
    next
      case (Cons t ts)
      have "escapeSplit_char d d (ret, s, False) = Inr (ret @ [s], [], False)"
        using esc by (simp add: escapeSplit_char_def)
      then show ?thesis
        using Cons Cons.IH[of "ret @ [s]"] escapeSplit_escape[OF esc, of s ret "[]"]
        by (simp add: rfold_append)
    qed
  qed simp
  then show ?thesis using assms(2) by (simp add: escapeSplit_def)
qed

subsection \<open>Properties\<close>

text \<open>Splitting a program option undoes escaping and joining: a list of strings, each with its commas, colons and backslashes
  escaped, joined with commas or with colons, is split into exactly these strings.\<close>

theorem escapeSplit_roundtrip:
  assumes "d = CHR '','' \<or> d = CHR '':''" and "ss \<noteq> []"
  shows "escapeSplit (join d (map escape ss)) d = Inr ss"
  using escapeSplit_join[OF assms] .

theorem escapeSplit_roundtrip_witness:
  "escapeSplit (join (CHR '':'') (map escape [''C:a,b'', [], [CHR 0x5C]])) (CHR '':'') = Inr [''C:a,b'', [], [CHR 0x5C]]"
  using escapeSplit_roundtrip[of "CHR '':''" "[''C:a,b'', [], [CHR 0x5C]]"] by simp

text \<open>The decimal text of an \<^verbatim>\<open>int\<close> read by \<^verbatim>\<open>atoi\<close> is that \<^verbatim>\<open>int\<close>, for all 32-bit values.\<close>

theorem atoi_roundtrip:
  assumes "- (2 ^ 31) \<le> i" and "i < 2 ^ 31"
  shows "atoi (int_to_string i) = i"
  using atoi_int_to_string[OF assms] .

theorem atoi_roundtrip_witness: "atoi (int_to_string (- 2147483648)) = - 2147483648"
  using atoi_roundtrip[of "- 2147483648"] by simp

end
