(* ===== verification/Exec_Order.thy ===== *)
theory Exec_Order
  imports Rends Text_Utils "HOL-Library.Multiset"
begin

text \<open>
  The execution order given as XML (src/master/parseargs.cpp, lines 123--416) and the orders made
  for \<^verbatim>\<open>-m jacobi\<close> and \<^verbatim>\<open>-m gs\<close> (lines 884--914). The expat parser is the source of a list of
  events; the three handlers build the tree of parallel and serial groups through a stack of
  pointers into it, and \<^verbatim>\<open>traverse\<close> turns the tree into rends.
\<close>

subsection \<open>The tree\<close>

datatype parallel = Parallel (fmus: "int list") (serials: "serial list")
  and serial = Serial (elements: "serialElement list")
  and serialElement = SE_p parallel | SE_f int   \<comment> \<open>\<^verbatim>\<open>is_p\<close> true, false\<close>

subsection \<open>Parsing\<close>

datatype xml_event = StartElement string | CharacterData string | EndElement string

text \<open>A pointer of \<^verbatim>\<open>ParserStruct::pointers\<close> is null or the path to a \<^verbatim>\<open>Parallel\<close> (even length) or a
  \<^verbatim>\<open>Serial\<close> (odd length) inside the tree: the indices in \<^verbatim>\<open>serials\<close> and \<^verbatim>\<open>elements\<close>, alternating.\<close>

type_synonym path = "nat list"

record ParserStruct =
  depth :: int
  text_buf :: string
  tree :: parallel
  pointers :: "int \<Rightarrow> path option"

definition MAX_DEPTH :: int where
  "MAX_DEPTH = 256"

definition init_ParserStruct :: ParserStruct where
  "init_ParserStruct = \<lparr>depth = 0, text_buf = [], tree = Parallel [] [], pointers = (\<lambda>_. None)(0 := Some [])\<rparr>"

text \<open>Apply an update to the \<^verbatim>\<open>Parallel\<close> or \<^verbatim>\<open>Serial\<close> at a path.\<close>

fun upd_p :: "path \<Rightarrow> (parallel \<Rightarrow> parallel) \<Rightarrow> (serial \<Rightarrow> serial) \<Rightarrow> parallel \<Rightarrow> parallel"
  and upd_s :: "path \<Rightarrow> (parallel \<Rightarrow> parallel) \<Rightarrow> (serial \<Rightarrow> serial) \<Rightarrow> serial \<Rightarrow> serial" where
  "upd_p [] f g p = f p"
| "upd_p (i # is) f g (Parallel fs ss) = Parallel fs (ss[i := upd_s is f g (ss ! i)])"
| "upd_s [] f g s = g s"
| "upd_s (i # is) f g (Serial es) =
     (case es ! i of SE_p p \<Rightarrow> Serial (es[i := SE_p (upd_p is f g p)]) | SE_f x \<Rightarrow> Serial es)"

fun size_at_p :: "path \<Rightarrow> parallel \<Rightarrow> nat"
  and size_at_s :: "path \<Rightarrow> serial \<Rightarrow> nat" where
  "size_at_p [] p = length (serials p)"
| "size_at_p (i # is) p = size_at_s is (serials p ! i)"
| "size_at_s [] s = length (elements s)"
| "size_at_s (i # is) s = (case elements s ! i of SE_p p \<Rightarrow> size_at_p is p | SE_f x \<Rightarrow> 0)"

definition push_serial :: "serial \<Rightarrow> parallel \<Rightarrow> parallel" where
  "push_serial s p = Parallel (fmus p) (serials p @ [s])"

definition push_element :: "serialElement \<Rightarrow> serial \<Rightarrow> serial" where
  "push_element e s = Serial (elements s @ [e])"

definition insert_fmu :: "int \<Rightarrow> parallel \<Rightarrow> parallel" where
  "insert_fmu f p = Parallel (is_insert f (fmus p)) (serials p)"

definition tagMatches :: "string \<Rightarrow> string \<Rightarrow> bool" where
  "tagMatches tag expected \<longleftrightarrow> tag = expected \<or> ''http://umit.math.umu.se/FmiGo.xsd'' @ '':'' @ expected = tag"

definition deref :: "ParserStruct \<Rightarrow> int \<Rightarrow> path res" where
  "deref st i = (if i < 0 then Inl (UB ''pointers[-1]'')
     else case pointers st i of None \<Rightarrow> Inl (UB ''null pointer'') | Some q \<Rightarrow> Inr q)"

definition startElement :: "string \<Rightarrow> ParserStruct \<Rightarrow> ParserStruct res" where
  "startElement name st =
     rbind
      (if tagMatches name ''f'' then Inr (st\<lparr>pointers := (pointers st)(depth st := None)\<rparr>)
       else if depth st mod 2 = 0 then
         (if \<not> tagMatches name ''p'' then Inl (Fatal ''Expected <p> tag'')
          else if depth st > 0 then
            rbind (deref st (depth st - 1)) (\<lambda>q.
              Inr (st\<lparr>tree := upd_p q (\<lambda>x. x) (push_element (SE_p (Parallel [] []))) (tree st),
                      pointers := (pointers st)(depth st := Some (q @ [size_at_p q (tree st)]))\<rparr>))
          else Inr st)
       else
         (if \<not> tagMatches name ''s'' then Inl (Fatal ''Expected <s> tag'')
          else rbind (deref st (depth st - 1)) (\<lambda>q.
              Inr (st\<lparr>tree := upd_p q (push_serial (Serial [])) (\<lambda>x. x) (tree st),
                      pointers := (pointers st)(depth st := Some (q @ [size_at_p q (tree st)]))\<rparr>))))
      (\<lambda>st. let st = st\<lparr>depth := depth st + 1\<rparr> in
         if depth st \<ge> MAX_DEPTH then Inl (Fatal ''Stepping order spec too deep'')
         else Inr (st\<lparr>text_buf := []\<rparr>))"

definition characterDataHandler :: "string \<Rightarrow> ParserStruct \<Rightarrow> ParserStruct" where
  "characterDataHandler s st = st\<lparr>text_buf := text_buf st @ s\<rparr>"

definition endElement :: "string \<Rightarrow> ParserStruct \<Rightarrow> ParserStruct res" where
  "endElement name st =
     (let st = st\<lparr>depth := depth st - 1\<rparr> in
      rbind
       (if tagMatches name ''f'' then
          (if text_buf st = [] then Inl (Fatal ''<f> tag missing content'')
           else let f = atoi (text_buf st) in
             rbind (deref st (depth st - 1)) (\<lambda>q.
               if depth st mod 2 = 1
               then Inr (st\<lparr>tree := upd_p q (insert_fmu f) (\<lambda>x. x) (tree st)\<rparr>)
               else Inr (st\<lparr>tree := upd_p q (\<lambda>x. x) (push_element (SE_f f)) (tree st)\<rparr>)))
        else Inr st)
       (\<lambda>st. Inr (st\<lparr>text_buf := []\<rparr>)))"

fun handle_event :: "xml_event \<Rightarrow> ParserStruct \<Rightarrow> ParserStruct res" where
  "handle_event (StartElement name) st = startElement name st"
| "handle_event (CharacterData s) st = Inr (characterDataHandler s st)"
| "handle_event (EndElement name) st = endElement name st"

definition parse_events :: "xml_event list \<Rightarrow> parallel res" where
  "parse_events evs = rbind (rfold handle_event evs init_ParserStruct) (\<lambda>st. Inr (tree st))"

subsection \<open>From the tree to rends\<close>

record TraverseRet =
  head :: int_set
  tail :: int_set

definition add_children :: "nat \<Rightarrow> int list \<Rightarrow> Rend list \<Rightarrow> Rend list" where
  "add_children i ids rends = rends[i := (rends ! i)\<lparr>children := is_insert_all ids (children (rends ! i))\<rparr>]"

function (sequential)
      traverse_p :: "parallel \<Rightarrow> Rend list \<Rightarrow> nat \<Rightarrow> (TraverseRet \<times> Rend list) res"
  and traverse_serials :: "serial list \<Rightarrow> TraverseRet \<Rightarrow> Rend list \<Rightarrow> nat \<Rightarrow> (TraverseRet \<times> Rend list) res"
  and traverse_s :: "serial \<Rightarrow> Rend list \<Rightarrow> nat \<Rightarrow> (TraverseRet \<times> Rend list) res"
  and traverse_elements :: "serialElement list \<Rightarrow> Rend list \<Rightarrow> nat \<Rightarrow> (TraverseRet \<times> Rend list) res"
  and traverse_element :: "serialElement \<Rightarrow> Rend list \<Rightarrow> nat \<Rightarrow> (TraverseRet \<times> Rend list) res"
where
  "traverse_p (Parallel fs ss) rends parent_rend =
     traverse_serials ss \<lparr>head = fs, tail = fs\<rparr> rends parent_rend"
| "traverse_serials [] ret rends parent_rend = Inr (ret, rends)"
| "traverse_serials (s # ss) ret rends parent_rend =
     rbind (traverse_s s rends parent_rend) (\<lambda>(ret2, rends).
       traverse_serials ss \<lparr>head = is_insert_all (head ret2) (head ret),
                            tail = is_insert_all (tail ret2) (tail ret)\<rparr> rends parent_rend)"
| "traverse_s (Serial es) rends parent_rend =
     (if length es \<le> 1 then Inl (Fatal ''serial elements in execution order must have two or more elements'')
      else traverse_elements es rends parent_rend)"
| "traverse_elements [] rends parent_rend = Inr (\<lparr>head = [], tail = []\<rparr>, rends)"
| "traverse_elements [SE_p p] rends parent_rend =
     rbind (traverse_p p rends parent_rend) (\<lambda>(ret2, rends).
       Inr (\<lparr>head = [], tail = tail ret2\<rparr>,
            rends[parent_rend := (rends ! parent_rend)\<lparr>children := tail ret2\<rparr>]))"
| "traverse_elements [SE_f f] rends parent_rend =
     Inr (\<lparr>head = [], tail = is_insert f []\<rparr>, add_children parent_rend [f] rends)"
| "traverse_elements (e # e' # es) rends parent_rend =
     rbind (traverse_element e rends parent_rend) (\<lambda>(ret2, rends).
       let r = empty_Rend\<lparr>parents := tail ret2\<rparr>;
           rends = add_children parent_rend (head ret2) rends @ [r]
       in traverse_elements (e' # es) rends (length rends - 1))"
| "traverse_element (SE_p p) rends parent_rend = traverse_p p rends parent_rend"
| "traverse_element (SE_f f) rends parent_rend =
     Inr (\<lparr>head = is_insert f [], tail = is_insert f []\<rparr>, rends)"
  by pat_completeness auto
termination by size_change

text \<open>\<^verbatim>\<open>executionOrderFromXML\<close> after expat: parse the events, then traverse. An error status of
  \<^verbatim>\<open>XML_Parse\<close> is \<open>None\<close>.\<close>

definition executionOrderFromTree :: "parallel \<Rightarrow> Rend list res" where
  "executionOrderFromTree p =
     rbind (traverse_p p [empty_Rend] 0) (\<lambda>(ret, rends).
       Inr (add_children 0 (head ret) rends @ [empty_Rend\<lparr>parents := tail ret\<rparr>]))"

definition executionOrderFromXML :: "(string \<Rightarrow> xml_event list option) \<Rightarrow> string \<Rightarrow> Rend list res" where
  "executionOrderFromXML XML_Parse xml =
     (case XML_Parse xml of
        None \<Rightarrow> Inl (Fatal ''XML error'')
      | Some evs \<Rightarrow> rbind (parse_events evs) executionOrderFromTree)"

definition rend_lines :: "nat \<times> Rend \<Rightarrow> string" where
  "rend_lines = (\<lambda>(x, r). ''rend '' @ int_to_string (int x) @ [CHR 0x0A]
     @ concat (map (\<lambda>i. '' parent '' @ int_to_string i @ [CHR 0x0A]) (parents r))
     @ concat (map (\<lambda>i. '' child '' @ int_to_string i @ [CHR 0x0A]) (children r)))"

definition executionOrderToString :: "Rend list \<Rightarrow> string" where
  "executionOrderToString rends = concat (map rend_lines (enumerate 0 rends))"

subsection \<open>The orders of the command line\<close>

definition jacobiOrder :: "nat \<Rightarrow> Rend list" where
  "jacobiOrder numFMUs =
     fold (\<lambda>x eo. [(eo ! 0)\<lparr>children := is_insert (int x) (children (eo ! 0))\<rparr>,
                   (eo ! 1)\<lparr>parents := is_insert (int x) (parents (eo ! 1))\<rparr>])
       [0..<numFMUs] (replicate 2 empty_Rend)"

definition gs_step :: "int list \<Rightarrow> nat \<Rightarrow> Rend list \<Rightarrow> Rend list" where
  "gs_step g x eo = (let eo = eo[x := (eo ! x)\<lparr>children := is_insert (g ! x) (children (eo ! x))\<rparr>]
     in eo[x + 1 := (eo ! (x + 1))\<lparr>parents := is_insert (g ! x) (parents (eo ! (x + 1)))\<rparr>])"

definition gsOrder :: "int list \<Rightarrow> nat \<Rightarrow> Rend list res" where
  "gsOrder g0 numFMUs = (let g = (if length g0 = 0 then map int [0..<numFMUs] else g0) in
     if length g \<noteq> numFMUs then Inl (Fatal ''The number of entries in -g does not match the number of FMUs'')
     else Inr (fold (gs_step g) [0..<numFMUs] (replicate (numFMUs + 1) empty_Rend)))"

end
