(* ===== verification/Exec_Order_Parse.thy ===== *)
theory Exec_Order_Parse
  imports Exec_Order
begin

text \<open>
  The expat handlers of the execution order read back what a tree prints: the events of a tree
  nested less than \<^verbatim>\<open>MAX_DEPTH\<close> deep are parsed to that tree, and no handler leaves the pointer stack.
\<close>

subsection \<open>Printing a tree\<close>

definition events_f :: "int \<Rightarrow> xml_event list" where
  "events_f f = [StartElement ''f'', CharacterData (int_to_string f), EndElement ''f'']"

text \<open>The FMUs of a parallel group are printed last inserted first, so that reading them back
  reproduces the iteration order.\<close>

function (sequential)
      events_p :: "parallel \<Rightarrow> xml_event list"
  and events_ss :: "serial list \<Rightarrow> xml_event list"
  and events_s :: "serial \<Rightarrow> xml_event list"
  and events_es :: "serialElement list \<Rightarrow> xml_event list" where
  "events_p (Parallel fs ss) =
     StartElement ''p'' # concat (map events_f (rev fs)) @ events_ss ss @ [EndElement ''p'']"
| "events_ss [] = []"
| "events_ss (s # ss) = events_s s @ events_ss ss"
| "events_s (Serial es) = StartElement ''s'' # events_es es @ [EndElement ''s'']"
| "events_es [] = []"
| "events_es (SE_p p # es) = events_p p @ events_es es"
| "events_es (SE_f f # es) = events_f f @ events_es es"
  by pat_completeness auto
termination by size_change

function (sequential)
      depth_p :: "parallel \<Rightarrow> int"
  and depth_ss :: "serial list \<Rightarrow> int"
  and depth_s :: "serial \<Rightarrow> int"
  and depth_es :: "serialElement list \<Rightarrow> int" where
  "depth_p (Parallel fs ss) = 1 + max 1 (depth_ss ss)"
| "depth_ss [] = 1"
| "depth_ss (s # ss) = max (depth_s s) (depth_ss ss)"
| "depth_s (Serial es) = 1 + depth_es es"
| "depth_es [] = 1"
| "depth_es (SE_p p # es) = max (depth_p p) (depth_es es)"
| "depth_es (SE_f f # es) = max 1 (depth_es es)"
  by pat_completeness auto
termination by size_change

text \<open>Trees whose identifiers are C++ \<^verbatim>\<open>int\<close>s, each at most once in a parallel group.\<close>

definition int32 :: "int \<Rightarrow> bool" where
  "int32 i \<longleftrightarrow> - (2 ^ 31) \<le> i \<and> i < 2 ^ 31"

function (sequential)
      wf_p :: "parallel \<Rightarrow> bool"
  and wf_ss :: "serial list \<Rightarrow> bool"
  and wf_s :: "serial \<Rightarrow> bool"
  and wf_es :: "serialElement list \<Rightarrow> bool" where
  "wf_p (Parallel fs ss) = (distinct fs \<and> list_all int32 fs \<and> wf_ss ss)"
| "wf_ss [] = True"
| "wf_ss (s # ss) = (wf_s s \<and> wf_ss ss)"
| "wf_s (Serial es) = wf_es es"
| "wf_es [] = True"
| "wf_es (SE_p p # es) = (wf_p p \<and> wf_es es)"
| "wf_es (SE_f f # es) = (int32 f \<and> wf_es es)"
  by pat_completeness auto
termination by size_change

subsection \<open>Paths into the tree\<close>

fun at_p :: "path \<Rightarrow> parallel \<Rightarrow> (parallel + serial) option"
  and at_s :: "path \<Rightarrow> serial \<Rightarrow> (parallel + serial) option" where
  "at_p [] p = Some (Inl p)"
| "at_p (i # is) (Parallel fs ss) = (if i < length ss then at_s is (ss ! i) else None)"
| "at_s [] s = Some (Inr s)"
| "at_s (i # is) (Serial es) =
     (if i < length es then (case es ! i of SE_p p \<Rightarrow> at_p is p | SE_f _ \<Rightarrow> None) else None)"

lemma upd_snoc:
  "upd_p (q @ [i]) f g p = upd_p q (upd_p [i] f g) (upd_s [i] f g) p"
  "upd_s (q @ [i]) f g s = upd_s q (upd_p [i] f g) (upd_s [i] f g) s"
  by (induction q f g p and q f g s rule: upd_p_upd_s.induct) (auto split: serialElement.splits)

lemma upd_upd:
  "upd_p q f g (upd_p q f' g' p) = upd_p q (f \<circ> f') (g \<circ> g') p"
  "upd_s q f g (upd_s q f' g' s) = upd_s q (f \<circ> f') (g \<circ> g') s"
proof (induction q f g p and q f g s rule: upd_p_upd_s.induct)
  case (2 i "is" f g fs ss)
  then show ?case by (cases "i < length ss") (auto simp: not_less list_update_beyond)
next
  case (4 i "is" f g es)
  then show ?case by (cases "i < length es") (auto simp: not_less list_update_beyond split: serialElement.splits)
qed auto

lemma at_upd:
  "at_p q p = Some n \<Longrightarrow> at_p q (upd_p q f g p) = Some (map_sum f g n)"
  "at_s q s = Some n \<Longrightarrow> at_s q (upd_s q f g s) = Some (map_sum f g n)"
  by (induction q p and q s arbitrary: n and n rule: at_p_at_s.induct)
     (auto split: serialElement.splits if_splits)

lemma upd_at:
  "at_p q p = Some n \<Longrightarrow> (\<And>P. n = Inl P \<Longrightarrow> f P = f' P) \<Longrightarrow> (\<And>S. n = Inr S \<Longrightarrow> g S = g' S) \<Longrightarrow>
     upd_p q f g p = upd_p q f' g' p"
  "at_s q s = Some n \<Longrightarrow> (\<And>P. n = Inl P \<Longrightarrow> f P = f' P) \<Longrightarrow> (\<And>S. n = Inr S \<Longrightarrow> g S = g' S) \<Longrightarrow>
     upd_s q f g s = upd_s q f' g' s"
  by (induction q p and q s arbitrary: n and n rule: at_p_at_s.induct)
     (auto split: serialElement.splits if_splits)

fun at_node :: "path \<Rightarrow> parallel + serial \<Rightarrow> (parallel + serial) option" where
  "at_node q (Inl p) = at_p q p"
| "at_node q (Inr s) = at_s q s"

lemma at_append:
  "at_p q p = Some n \<Longrightarrow> at_p (q @ r) p = at_node r n"
  "at_s q s = Some n \<Longrightarrow> at_s (q @ r) s = at_node r n"
  by (induction q p and q s arbitrary: n and n rule: at_p_at_s.induct)
     (auto split: serialElement.splits if_splits)

fun node_size :: "parallel + serial \<Rightarrow> nat" where
  "node_size (Inl p) = length (serials p)"
| "node_size (Inr s) = length (elements s)"

lemma size_at:
  "at_p q p = Some n \<Longrightarrow> size_at_p q p = node_size n"
  "at_s q s = Some n \<Longrightarrow> size_at_s q s = node_size n"
  by (induction q p and q s arbitrary: n and n rule: at_p_at_s.induct)
     (auto split: serialElement.splits if_splits)


subsection \<open>Runs of the handlers\<close>

text \<open>The innermost open element is the node \<open>n\<close> at path \<open>q\<close>.\<close>

definition focus :: "ParserStruct \<Rightarrow> path \<Rightarrow> parallel + serial \<Rightarrow> bool" where
  "focus st q n \<longleftrightarrow> 0 < depth st \<and> pointers st (depth st - 1) = Some q \<and> at_p q (tree st) = Some n"

text \<open>The events replace the node at \<open>q\<close> by \<open>n\<close> and leave everything else as it was.\<close>

definition moves :: "ParserStruct \<Rightarrow> xml_event list \<Rightarrow> path \<Rightarrow> parallel + serial \<Rightarrow> bool" where
  "moves st evs q n \<longleftrightarrow> (\<exists>st'. rfold handle_event evs st = Inr st' \<and> depth st' = depth st
     \<and> (\<forall>i < depth st. pointers st' i = pointers st i)
     \<and> tree st' = upd_p q (\<lambda>_. projl n) (\<lambda>_. projr n) (tree st))"

lemma upd_same:
  assumes "at_p q p = Some n"
  shows "upd_p q (\<lambda>_. projl n) (\<lambda>_. projr n) p = p"
proof -
  have id: "upd_p q (\<lambda>x. x) (\<lambda>x. x) p = p" "upd_s q (\<lambda>x. x) (\<lambda>x. x) s = s" for p q s
    by (induction q "\<lambda>x::parallel. x" "\<lambda>x::serial. x" p and q "\<lambda>x::parallel. x" "\<lambda>x::serial. x" s rule: upd_p_upd_s.induct)
       (auto split: serialElement.splits simp: list_update_same_conv, (metis list_update_beyond list_update_id not_less)+)
  have "upd_p q (\<lambda>_. projl n) (\<lambda>_. projr n) p = upd_p q (\<lambda>x. x) (\<lambda>x. x) p"
    using assms by (rule upd_at) auto
  then show ?thesis using id by simp
qed

lemma moves_Nil: "focus st q n \<Longrightarrow> moves st [] q n"
  by (auto simp: moves_def focus_def upd_same)

lemma moves_append:
  assumes "focus st q n" "moves st evs q n1" "isl n = isl n1"
    and "\<And>st1. depth st1 = depth st \<Longrightarrow> focus st1 q n1 \<Longrightarrow> moves st1 evs' q n2"
  shows "moves st (evs @ evs') q n2"
proof -
  obtain st1 where 1: "rfold handle_event evs st = Inr st1" "depth st1 = depth st"
    "\<forall>i < depth st. pointers st1 i = pointers st i"
    "tree st1 = upd_p q (\<lambda>_. projl n1) (\<lambda>_. projr n1) (tree st)"
    using assms(2) by (auto simp: moves_def)
  have "at_p q (tree st1) = Some n1"
    using assms(1,3) at_upd(1)[of q "tree st" n] 1(4) by (cases n; cases n1) (auto simp: focus_def)
  then have "focus st1 q n1" using assms(1) 1(2,3) by (simp add: focus_def)
  from assms(4)[OF 1(2) this] obtain st2 where 2: "rfold handle_event evs' st1 = Inr st2" "depth st2 = depth st1"
    "\<forall>i < depth st1. pointers st2 i = pointers st1 i"
    "tree st2 = upd_p q (\<lambda>_. projl n2) (\<lambda>_. projr n2) (tree st1)"
    by (auto simp: moves_def)
  have "tree st2 = upd_p q (\<lambda>_. projl n2) (\<lambda>_. projr n2) (tree st)"
    using 1(4) 2(4) by (simp add: upd_upd comp_def)
  then show ?thesis using 1 2 by (auto simp: moves_def rfold_append)
qed

lemma tag_simps [simp]:
  "tagMatches ''f'' ''f''" "tagMatches ''p'' ''p''" "tagMatches ''s'' ''s''"
  "\<not> tagMatches ''p'' ''f''" "\<not> tagMatches ''s'' ''f''"
  by (simp_all add: tagMatches_def)

lemma events_f_run:
  assumes "focus st q n" "int32 f" "depth st < 255"
  shows "rfold handle_event (events_f f) st = Inr (st\<lparr>text_buf := [],
     pointers := (pointers st)(depth st := None),
     tree := (if depth st mod 2 = 1 then upd_p q (insert_fmu f) (\<lambda>x. x) (tree st)
              else upd_p q (\<lambda>x. x) (push_element (SE_f f)) (tree st))\<rparr>)"
proof -
  have "atoi (int_to_string f) = f" using assms(2) by (intro atoi_int_to_string) (auto simp: int32_def)
  then show ?thesis
    using assms(1,3)
    by (simp add: events_f_def startElement_def characterDataHandler_def endElement_def deref_def
        focus_def MAX_DEPTH_def Let_def)
qed

lemma events_f_parallel:
  assumes "focus st q (Inl P)" "int32 f" "depth st < 255" "depth st mod 2 = 1"
  shows "moves st (events_f f) q (Inl (insert_fmu f P))"
proof -
  have "upd_p q (insert_fmu f) (\<lambda>x. x) (tree st) = upd_p q (\<lambda>_. insert_fmu f P) (\<lambda>_. undefined) (tree st)"
    using assms(1) by (intro upd_at(1)[of q _ "Inl P"]) (auto simp: focus_def)
  moreover have "upd_p q (\<lambda>_. insert_fmu f P) (\<lambda>_. undefined) (tree st)
      = upd_p q (\<lambda>_. projl (Inl (insert_fmu f P))) (\<lambda>_. projr (Inl (insert_fmu f P))) (tree st)"
    using assms(1) by (intro upd_at(1)[of q _ "Inl P"]) (auto simp: focus_def)
  ultimately show ?thesis
    using events_f_run[OF assms(1-3)] assms(4) by (auto simp: moves_def)
qed

lemma events_f_serial:
  assumes "focus st q (Inr S)" "int32 f" "depth st < 255" "depth st mod 2 = 0"
  shows "moves st (events_f f) q (Inr (push_element (SE_f f) S))"
proof -
  have "upd_p q (\<lambda>x. x) (push_element (SE_f f)) (tree st)
      = upd_p q (\<lambda>_. projl (Inr (push_element (SE_f f) S))) (\<lambda>_. projr (Inr (push_element (SE_f f) S))) (tree st)"
    using assms(1) by (intro upd_at(1)[of q _ "Inr S"]) (auto simp: focus_def)
  then show ?thesis
    using events_f_run[OF assms(1-3)] assms(4) by (auto simp: moves_def)
qed

lemma events_fs_parallel:
  "focus st q (Inl (Parallel acc ss)) \<Longrightarrow> list_all int32 fs \<Longrightarrow> depth st < 255 \<Longrightarrow> depth st mod 2 = 1 \<Longrightarrow>
   moves st (concat (map events_f fs)) q (Inl (Parallel (is_insert_all fs acc) ss))"
proof (induction fs arbitrary: st acc)
  case (Cons f fs)
  have "moves st (events_f f) q (Inl (Parallel (is_insert f acc) ss))"
    using events_f_parallel[OF Cons.prems(1)] Cons.prems by (simp add: insert_fmu_def)
  then show ?case
    using moves_append[OF Cons.prems(1), of "events_f f" "Inl (Parallel (is_insert f acc) ss)"] Cons
    by (simp add: is_insert_all_def)
qed (simp add: moves_Nil is_insert_all_def)

lemma nested_parallel:
  assumes foc: "focus st q (Inr (Serial acc))" and d: "depth st < 255" "depth st mod 2 = 0"
    and inner: "\<And>st1 q1. depth st1 = depth st + 1 \<Longrightarrow> focus st1 q1 (Inl (Parallel [] [])) \<Longrightarrow> moves st1 evs q1 (Inl P)"
  shows "moves st (StartElement ''p'' # evs @ [EndElement ''p'']) q (Inr (Serial (acc @ [SE_p P])))"
proof -
  let ?q = "q @ [length acc]"
  let ?t = "upd_p q (\<lambda>x. x) (push_element (SE_p (Parallel [] []))) (tree st)"
  let ?st = "st\<lparr>tree := ?t, pointers := (pointers st)(depth st := Some ?q), depth := depth st + 1, text_buf := []\<rparr>"
  have at: "at_p q (tree st) = Some (Inr (Serial acc))" and ptr: "pointers st (depth st - 1) = Some q" "0 < depth st"
    using foc by (auto simp: focus_def)
  have start: "startElement ''p'' st = Inr ?st"
    using d ptr size_at(1)[OF at] by (simp add: startElement_def deref_def MAX_DEPTH_def Let_def)
  have at1: "at_p q ?t = Some (Inr (Serial (acc @ [SE_p (Parallel [] [])])))"
    using at_upd(1)[OF at] by (simp add: push_element_def)
  have "focus ?st ?q (Inl (Parallel [] []))"
    using at_append(1)[OF at1] ptr by (auto simp: focus_def)
  then obtain st2 where 2: "rfold handle_event evs ?st = Inr st2" "depth st2 = depth st + 1"
    "\<forall>i < depth st + 1. pointers st2 i = pointers ?st i"
    "tree st2 = upd_p ?q (\<lambda>_. P) (\<lambda>_. projr (Inl P)) ?t"
    using inner[of ?st] by (auto simp: moves_def)
  have "endElement ''p'' st2 = Inr (st2\<lparr>depth := depth st, text_buf := []\<rparr>)"
    using 2(2) by (simp add: endElement_def Let_def)
  moreover have "tree st2 = upd_p q (\<lambda>_. projl (Inr (Serial (acc @ [SE_p P])))) (\<lambda>_. Serial (acc @ [SE_p P])) (tree st)"
    unfolding 2(4) upd_snoc upd_upd using at
    by (intro upd_at(1)[of q _ "Inr (Serial acc)"]) (auto simp: push_element_def)
  ultimately show ?thesis
    using start 2 by (auto simp: moves_def rfold_append)
qed

lemma nested_serial:
  assumes foc: "focus st q (Inl (Parallel fs acc))" and d: "depth st < 255" "depth st mod 2 = 1"
    and inner: "\<And>st1 q1. depth st1 = depth st + 1 \<Longrightarrow> focus st1 q1 (Inr (Serial [])) \<Longrightarrow> moves st1 evs q1 (Inr S)"
  shows "moves st (StartElement ''s'' # evs @ [EndElement ''s'']) q (Inl (Parallel fs (acc @ [S])))"
proof -
  let ?q = "q @ [length acc]"
  let ?t = "upd_p q (push_serial (Serial [])) (\<lambda>x. x) (tree st)"
  let ?st = "st\<lparr>tree := ?t, pointers := (pointers st)(depth st := Some ?q), depth := depth st + 1, text_buf := []\<rparr>"
  have at: "at_p q (tree st) = Some (Inl (Parallel fs acc))" and ptr: "pointers st (depth st - 1) = Some q" "0 < depth st"
    using foc by (auto simp: focus_def)
  have start: "startElement ''s'' st = Inr ?st"
    using d ptr size_at(1)[OF at] by (simp add: startElement_def deref_def MAX_DEPTH_def Let_def)
  have at1: "at_p q ?t = Some (Inl (Parallel fs (acc @ [Serial []])))"
    using at_upd(1)[OF at] by (simp add: push_serial_def)
  have "focus ?st ?q (Inr (Serial []))"
    using at_append(1)[OF at1] ptr by (auto simp: focus_def)
  then obtain st2 where 2: "rfold handle_event evs ?st = Inr st2" "depth st2 = depth st + 1"
    "\<forall>i < depth st + 1. pointers st2 i = pointers ?st i"
    "tree st2 = upd_p ?q (\<lambda>_. projl (Inr S)) (\<lambda>_. S) ?t"
    using inner[of ?st] by (auto simp: moves_def)
  have "endElement ''s'' st2 = Inr (st2\<lparr>depth := depth st, text_buf := []\<rparr>)"
    using 2(2) by (simp add: endElement_def Let_def)
  moreover have "tree st2 = upd_p q (\<lambda>_. Parallel fs (acc @ [S])) (\<lambda>_. projr (Inl (Parallel fs (acc @ [S])))) (tree st)"
    unfolding 2(4) upd_snoc upd_upd using at
    by (intro upd_at(1)[of q _ "Inl (Parallel fs acc)"]) (auto simp: push_serial_def)
  ultimately show ?thesis
    using start 2 by (auto simp: moves_def rfold_append)
qed


text \<open>The content of a group: its FMUs and serials, or its elements.\<close>

definition body_p :: "parallel \<Rightarrow> xml_event list" where
  "body_p p = concat (map events_f (rev (fmus p))) @ events_ss (serials p)"

lemma depth_pos: "1 \<le> depth_p p" "1 \<le> depth_ss ss" "1 \<le> depth_s s" "1 \<le> depth_es es"
  by (induction p and ss and s and es rule: depth_p_depth_ss_depth_s_depth_es.induct) auto

lemma body_run:
  "wf_p p \<Longrightarrow> focus st q (Inl (Parallel [] [])) \<Longrightarrow> depth st mod 2 = 1 \<Longrightarrow> depth st - 1 + depth_p p \<le> 255 \<Longrightarrow>
     moves st (body_p p) q (Inl p)"
  "wf_ss ss \<Longrightarrow> focus st q (Inl (Parallel fs acc)) \<Longrightarrow> depth st mod 2 = 1 \<Longrightarrow> depth st + depth_ss ss \<le> 255 \<Longrightarrow>
     moves st (events_ss ss) q (Inl (Parallel fs (acc @ ss)))"
  "wf_s s \<Longrightarrow> focus st q (Inl (Parallel fs acc)) \<Longrightarrow> depth st mod 2 = 1 \<Longrightarrow> depth st + depth_s s \<le> 255 \<Longrightarrow>
     moves st (events_s s) q (Inl (Parallel fs (acc @ [s])))"
  "wf_es es \<Longrightarrow> focus st q (Inr (Serial acc')) \<Longrightarrow> depth st mod 2 = 0 \<Longrightarrow> depth st + depth_es es \<le> 255 \<Longrightarrow>
     moves st (events_es es) q (Inr (Serial (acc' @ es)))"
proof (induction p and ss and s and es arbitrary: st q and st q fs acc and st q fs acc and st q acc'
    rule: events_p_events_ss_events_s_events_es.induct)
  case (1 fs ss)
  have "moves st (concat (map events_f (rev fs))) q (Inl (Parallel (is_insert_all (rev fs) []) []))"
    using 1 depth_pos(2)[of ss] by (intro events_fs_parallel) auto
  moreover have "is_insert_all (rev fs) [] = fs" using 1(2) by (simp add: is_insert_all_fresh)
  ultimately have first: "moves st (concat (map events_f (rev fs))) q (Inl (Parallel fs []))" by simp
  have "moves st1 (events_ss ss) q (Inl (Parallel fs ss))"
    if "depth st1 = depth st" "focus st1 q (Inl (Parallel fs []))" for st1
    using 1(1)[of st1 q fs "[]"] 1(2-) that by simp
  then show ?case using moves_append[OF 1(3) first] by (simp add: body_p_def)
next
  case (3 s ss)
  have "moves st (events_s s) q (Inl (Parallel fs (acc @ [s])))" using 3 by (intro 3(1)) auto
  moreover have "moves st1 (events_ss ss) q (Inl (Parallel fs (acc @ s # ss)))"
    if "depth st1 = depth st" "focus st1 q (Inl (Parallel fs (acc @ [s])))" for st1
    using 3(2)[of st1 q fs "acc @ [s]"] 3(3-) that by simp
  ultimately show ?case using moves_append[OF 3(4)] by simp
next
  case (4 es)
  have "moves st1 (events_es es) q1 (Inr (Serial es))"
    if "depth st1 = depth st + 1" "focus st1 q1 (Inr (Serial []))" for st1 q1
  proof -
    have "depth st1 mod 2 = 0" using 4(4) that(1) by presburger
    then show ?thesis using 4(1)[of st1 q1 "[]"] 4(2-) that by auto
  qed
  then show ?case using nested_serial[OF 4(3)] 4(4,5) depth_pos(4)[of es] by auto
next
  case (6 p es)
  obtain fs ss where p: "p = Parallel fs ss" by (cases p)
  have "moves st (events_p p) q (Inr (Serial (acc' @ [SE_p p])))"
  proof -
    have "moves st1 (body_p p) q1 (Inl p)"
      if "depth st1 = depth st + 1" "focus st1 q1 (Inl (Parallel [] []))" for st1 q1
    proof (rule 6(1)[OF _ that(2)])
      show "depth st1 mod 2 = 1" using 6(5) that(1) by presburger
    qed (use 6 that in auto)
    then show ?thesis
      using nested_parallel[OF 6(4) _ 6(5), of "body_p p" p] 6(6) depth_pos(2)[of ss]
      by (auto simp: body_p_def p)
  qed
  moreover have "moves st1 (events_es es) q (Inr (Serial (acc' @ SE_p p # es)))"
    if "depth st1 = depth st" "focus st1 q (Inr (Serial (acc' @ [SE_p p])))" for st1
    using 6(2)[of st1 q "acc' @ [SE_p p]"] 6(3-) that by simp
  ultimately show ?case using moves_append[OF 6(4)] by simp
next
  case (7 f es)
  have "moves st (events_f f) q (Inr (Serial (acc' @ [SE_f f])))"
    using events_f_serial[OF 7(3)] 7 by (simp add: push_element_def)
  moreover have "moves st1 (events_es es) q (Inr (Serial (acc' @ SE_f f # es)))"
    if "depth st1 = depth st" "focus st1 q (Inr (Serial (acc' @ [SE_f f])))" for st1
    using 7(1)[of st1 q "acc' @ [SE_f f]"] 7(2-) that by simp
  ultimately show ?case using moves_append[OF 7(3)] by simp
qed (auto simp: moves_Nil)

lemma parse_events_p:
  assumes wf: "wf_p p" and d: "depth_p p < MAX_DEPTH"
  shows "parse_events (events_p p) = Inr p"
proof -
  let ?st = "init_ParserStruct\<lparr>depth := 1\<rparr>"
  obtain fs ss where p: "p = Parallel fs ss" by (cases p)
  have "startElement ''p'' init_ParserStruct = Inr ?st"
    by (simp add: startElement_def init_ParserStruct_def MAX_DEPTH_def)
  moreover have "focus ?st [] (Inl (Parallel [] []))"
    by (simp add: focus_def init_ParserStruct_def)
  then have "moves ?st (body_p p) [] (Inl p)"
    using body_run(1)[OF wf, of ?st] d by (simp add: MAX_DEPTH_def)
  then obtain st where "rfold handle_event (body_p p) ?st = Inr st" "tree st = p"
    by (auto simp: moves_def)
  moreover have "events_p p = StartElement ''p'' # body_p p @ [EndElement ''p'']"
    by (simp add: body_p_def p)
  ultimately show ?thesis
    by (auto simp: parse_events_def rfold_append endElement_def Let_def)
qed

subsection \<open>Properties\<close>

text \<open>The XML of an execution order read by the expat handlers gives the tree it was printed from, for
  every tree with at most 254 nested elements: no handler leaves the pointer stack or stops the program.\<close>

theorem executionOrder_xml_roundtrip:
  assumes "wf_p p" and "depth_p p < MAX_DEPTH"
  shows "parse_events (events_p p) = Inr p"
  using parse_events_p[OF assms] .

theorem executionOrder_xml_roundtrip_witness:
  "parse_events (events_p (Parallel [2] [Serial [SE_f 0, SE_p (Parallel [1, 3] [])]]))
     = Inr (Parallel [2] [Serial [SE_f 0, SE_p (Parallel [1, 3] [])]])"
  by (rule executionOrder_xml_roundtrip) (simp_all add: int32_def MAX_DEPTH_def)

end
