(* ===== verification/Scheduler.thy ===== *)
theory Scheduler
  imports Rends "HOL-Library.Multiset"
begin

text \<open>
  The scheduling core of \<^verbatim>\<open>StrongMaster\<close> (src/master/StrongMaster.cpp): the checks its constructor
  makes of the rends, the three sets \<^verbatim>\<open>done\<close>, \<^verbatim>\<open>open\<close> and \<^verbatim>\<open>todo\<close> with the rend counters,
  \<^verbatim>\<open>moveCranked\<close>, the loop of \<^verbatim>\<open>crankIt\<close> and the skeleton of \<^verbatim>\<open>runIteration\<close>. What a batch of FMUs does
  when it is stepped is the argument \<open>act\<close> (\<open>kin\<close> for the kinematic FMUs), which
  the theory of the master supplies.
\<close>

subsection \<open>Model\<close>

record sched =
  done_set :: int_set
  open_set :: int_set
  todo_set :: int_set
  counters :: "int list"

text \<open>The constructor's pass over the rends. \<^verbatim>\<open>clientrend[id] = i\<close> comes before the range check
  of \<open>id\<close>, so a parent outside the range is an access outside the vector.\<close>

definition check_parent :: "nat \<Rightarrow> nat \<Rightarrow> int \<Rightarrow> nat list \<times> int_set \<Rightarrow> (nat list \<times> int_set) res" where
  "check_parent n i cid = (\<lambda>(clientrend, ps).
     if cid < 0 \<or> int n \<le> cid then Inl (UB ''clientrend'')
     else if is_count ps cid \<noteq> 0 then Inl (Fatal ''parent id occurs more than once'')
     else Inr (clientrend[nat cid := i], is_insert cid ps))"

definition check_child :: "nat \<Rightarrow> int \<Rightarrow> int_set \<Rightarrow> int_set res" where
  "check_child n cid cs =
     (if is_count cs cid \<noteq> 0 then Inl (Fatal ''child id occurs more than once'')
      else if cid < 0 \<or> int n \<le> cid then Inl (Fatal ''child id outside the valid range'')
      else Inr (is_insert cid cs))"

definition check_rend ::
  "nat \<Rightarrow> nat \<times> Rend \<Rightarrow> nat list \<times> int_set \<times> int_set \<Rightarrow> (nat list \<times> int_set \<times> int_set) res" where
  "check_rend n = (\<lambda>(i, r) (clientrend, cs, ps).
     rbind (rfold (check_parent n i) (parents r) (clientrend, ps)) (\<lambda>(clientrend, ps).
     rbind (rfold (check_child n) (children r) cs) (\<lambda>cs.
     Inr (clientrend, cs, ps))))"

definition checkRends :: "nat \<Rightarrow> Rend list \<Rightarrow> nat list res" where
  "checkRends n rends =
     (if length rends < 2 then Inl (Fatal ''rends too small'')
      else rbind (rfold (check_rend n) (enumerate 0 rends) (replicate n 0, [], [])) (\<lambda>(clientrend, cs, ps).
        if is_size cs \<noteq> n then Inl (Fatal ''execution order child count'')
        else if is_size ps \<noteq> n then Inl (Fatal ''execution order parent count'')
        else Inr clientrend))"

definition poke :: "nat list \<Rightarrow> int \<Rightarrow> sched \<times> nat list \<Rightarrow> (sched \<times> nat list) res" where
  "poke clientrend cid = (\<lambda>(s, triggered).
     if cid < 0 \<or> int (length clientrend) \<le> cid \<or> length (counters s) \<le> clientrend ! nat cid
     then Inl (UB ''counters'')
     else let r = clientrend ! nat cid; v = counters s ! r - 1;
              s = s\<lparr>counters := (counters s)[r := v]\<rparr>
       in if v < 0 then Inl (Fatal ''negative rend counter'')
          else Inr (s\<lparr>done_set := is_insert cid (done_set s), open_set := is_erase cid (open_set s)\<rparr>,
                    if v = 0 then List.insert r triggered else triggered))"

definition release :: "int \<Rightarrow> sched \<Rightarrow> sched res" where
  "release cid s =
     (if is_count (todo_set s) cid \<noteq> 1 then Inl (Fatal ''rend child not in todo set'')
      else Inr (s\<lparr>todo_set := is_erase cid (todo_set s), open_set := is_insert cid (open_set s)\<rparr>))"

definition moveCranked :: "Rend list \<Rightarrow> nat list \<Rightarrow> int list \<Rightarrow> sched \<Rightarrow> sched res" where
  "moveCranked rends clientrend cranked s =
     rbind (rfold (poke clientrend) cranked (s, [])) (\<lambda>(s, triggered).
     rfold (\<lambda>t. rfold release (children (rends ! t))) triggered s)"

definition sched_size :: "sched \<Rightarrow> nat" where
  "sched_size s = 2 * length (todo_set s) + length (open_set s)"

text \<open>The condition of the \<^verbatim>\<open>while\<close> loop of \<^verbatim>\<open>crankIt\<close>, and the FMUs one pass steps.\<close>

definition crank_more :: "nat \<Rightarrow> int_set \<Rightarrow> sched \<Rightarrow> bool" where
  "crank_more n target s \<longleftrightarrow>
     is_size (done_set s) < n \<and> (is_size target = 0 \<or> \<not> std_includes (open_set s) target)"

definition toStep :: "int_set \<Rightarrow> sched \<Rightarrow> int_set" where
  "toStep target s = is_erase_all target (open_set s)"

lemma length_is_erase: "length (is_erase x s) \<le> length s" "x \<in> set s \<Longrightarrow> length (is_erase x s) < length s"
  by (auto simp: is_erase_def length_filter_le intro: length_filter_less)

lemma length_is_insert: "length (is_insert x s) \<le> Suc (length s)"
  by (simp add: is_insert_def)

lemma release_size: "release cid s = Inr s' \<Longrightarrow> sched_size s' \<le> sched_size s"
  using length_is_erase(2)[of cid "todo_set s"] length_is_insert[of cid "open_set s"]
  by (auto simp: release_def sched_size_def split: if_splits)

lemma poke_size: "poke cr cid (s, tr) = Inr (s', tr') \<Longrightarrow> sched_size s' \<le> sched_size s"
  using length_is_erase(1)[of cid "open_set s"]
  by (auto simp: poke_def sched_size_def Let_def split: if_splits)

lemma poke_size_less: "poke cr cid (s, tr) = Inr (s', tr') \<Longrightarrow> cid \<in> set (open_set s) \<Longrightarrow> sched_size s' < sched_size s"
  using length_is_erase(2)[of cid "open_set s"]
  by (auto simp: poke_def sched_size_def Let_def split: if_splits)

lemma pokes_size: "rfold (poke cr) xs st = Inr st' \<Longrightarrow> sched_size (fst st') \<le> sched_size (fst st)"
  by (erule rfold_le) (use poke_size in fastforce)

lemma releases_size: "rfold (\<lambda>t. rfold release (f t)) ts s = Inr s' \<Longrightarrow> sched_size s' \<le> sched_size s"
  by (erule rfold_le, erule rfold_le, erule release_size)

lemma moveCranked_size:
  assumes "moveCranked rends cr xs s = Inr s'" and "xs \<noteq> []" and "set xs \<subseteq> set (open_set s)"
  shows "sched_size s' < sched_size s"
proof -
  obtain s1 tr1 where 1: "rfold (poke cr) xs (s, []) = Inr (s1, tr1)"
    and 2: "rfold (\<lambda>t. rfold release (children (rends ! t))) tr1 s1 = Inr s'"
    using assms(1) by (auto simp: moveCranked_def)
  obtain x ys where xs: "xs = x # ys" using assms(2) by (cases xs) auto
  obtain s2 tr2 where "poke cr x (s, []) = Inr (s2, tr2)" "rfold (poke cr) ys (s2, tr2) = Inr (s1, tr1)"
    using 1 unfolding xs by auto
  then have "sched_size s1 < sched_size s"
    using poke_size_less pokes_size assms(3) xs by fastforce
  with releases_size[OF 2] show ?thesis by simp
qed

lemma set_toStep: "set (toStep target s) = set (open_set s) - set target"
  by (simp add: toStep_def)

text \<open>\<^verbatim>\<open>crankIt\<close>: the loop ends because every pass moves an FMU out of \<^verbatim>\<open>open\<close>.\<close>

function crank :: "(int list \<Rightarrow> 'm \<Rightarrow> 'm res) \<Rightarrow> nat \<Rightarrow> Rend list \<Rightarrow> nat list \<Rightarrow> int_set \<Rightarrow> 'm \<Rightarrow> sched \<Rightarrow> ('m \<times> sched) res" where
  "crank act n rends clientrend target m s =
     (if crank_more n target s then
        (if is_size (toStep target s) = 0 then Inl (Fatal ''toStep = 0? Stepping order must be unfulfillable'')
         else rbind (act (toStep target s) m) (\<lambda>m'.
              rbind (moveCranked rends clientrend (toStep target s) s) (\<lambda>s'.
              crank act n rends clientrend target m' s')))
      else Inr (m, s))"
  by pat_completeness auto
termination
  by (relation "measure (\<lambda>(act, n, rends, cr, target, m, s). sched_size s)")
     (auto intro!: moveCranked_size simp: set_toStep)

declare crank.simps [simp del]

text \<open>\<^verbatim>\<open>runIteration\<close>, lines 507--536: reset the sets and counters, crank until the kinematic FMUs are
  open, step those together with everything else that is open, crank the rest.\<close>

definition init_sched :: "nat \<Rightarrow> Rend list \<Rightarrow> sched" where
  "init_sched n rends = (let open0 = children (rends ! 0) in
     \<lparr>done_set = [], open_set = open0,
      todo_set = fold (\<lambda>cid todo. if is_count open0 cid = 0 then is_insert cid todo else todo) (map int [0..<n]) [],
      counters = map (\<lambda>r. int (is_size (parents r))) rends\<rparr>)"

definition run_sched ::
  "(int list \<Rightarrow> 'm \<Rightarrow> 'm res) \<Rightarrow> (int list \<Rightarrow> 'm \<Rightarrow> 'm res) \<Rightarrow> nat \<Rightarrow> Rend list \<Rightarrow> nat list \<Rightarrow> int_set \<Rightarrow> 'm
     \<Rightarrow> ('m \<times> sched) res" where
  "run_sched act kin n rends clientrend kins m =
     rbind (crank act n rends clientrend kins m (init_sched n rends)) (\<lambda>(m, s).
       if is_size (open_set s) > 0 then
         rbind (kin (open_set s) m) (\<lambda>m.
         rbind (moveCranked rends clientrend (open_set s) s) (\<lambda>s.
         crank act n rends clientrend [] m s))
       else if is_size (todo_set s) > 0 then Inl (Fatal ''open.size() == 0 but todo.size() > 0'')
       else Inr (m, s))"


subsection \<open>What the constructor accepts\<close>

lemma check_parents:
  "rfold (check_parent n i) xs (cr, ps) = Inr (cr', ps') \<longleftrightarrow>
     set xs \<subseteq> {0..<int n} \<and> distinct xs \<and> set xs \<inter> set ps = {}
     \<and> cr' = fold (\<lambda>x cr. cr[nat x := i]) xs cr \<and> ps' = rev xs @ ps"
proof (induction xs arbitrary: cr ps)
  case (Cons x xs)
  show ?case
  proof (cases "x < 0 \<or> int n \<le> x \<or> x \<in> set ps")
    case True
    then show ?thesis by (auto simp: check_parent_def)
  next
    case False
    then have "rfold (check_parent n i) (x # xs) (cr, ps) = rfold (check_parent n i) xs (cr[nat x := i], x # ps)"
      by (simp add: check_parent_def is_insert_fresh)
    then show ?thesis using False Cons.IH by auto
  qed
qed auto

lemma check_children:
  "rfold (check_child n) xs cs = Inr cs' \<longleftrightarrow>
     set xs \<subseteq> {0..<int n} \<and> distinct xs \<and> set xs \<inter> set cs = {} \<and> cs' = rev xs @ cs"
proof (induction xs arbitrary: cs)
  case (Cons x xs)
  show ?case
  proof (cases "x < 0 \<or> int n \<le> x \<or> x \<in> set cs")
    case True
    then show ?thesis by (auto simp: check_child_def)
  next
    case False
    then have "rfold (check_child n) (x # xs) cs = rfold (check_child n) xs (x # cs)"
      by (simp add: check_child_def is_insert_fresh)
    then show ?thesis using False Cons.IH by auto
  qed
qed auto

definition assign_rends :: "nat \<Rightarrow> Rend list \<Rightarrow> nat list \<Rightarrow> nat list" where
  "assign_rends k rs cr =
     fold (\<lambda>(i, r). fold (\<lambda>x cr. cr[nat x := i]) (parents r)) (enumerate k rs) cr"

lemma all_children_Cons [simp]: "all_children (r # rs) = children r @ all_children rs"
  and all_children_Nil [simp]: "all_children [] = []"
  and all_parents_Cons [simp]: "all_parents (r # rs) = parents r @ all_parents rs"
  and all_parents_Nil [simp]: "all_parents [] = []"
  by (simp_all add: all_children_def all_parents_def)

lemma check_rend_eq:
  "check_rend n (i, r) (cr, cs, ps) = Inr (cr', cs', ps') \<longleftrightarrow>
     set (parents r) \<subseteq> {0..<int n} \<and> distinct (parents r) \<and> set (parents r) \<inter> set ps = {}
     \<and> set (children r) \<subseteq> {0..<int n} \<and> distinct (children r) \<and> set (children r) \<inter> set cs = {}
     \<and> cr' = fold (\<lambda>x cr. cr[nat x := i]) (parents r) cr
     \<and> cs' = rev (children r) @ cs \<and> ps' = rev (parents r) @ ps"
  by (auto simp: check_rend_def rbind_eq_Inr check_parents check_children)

lemma check_rends_eq:
  "rfold (check_rend n) (enumerate k rs) (cr, cs, ps) = Inr (cr', cs', ps') \<longleftrightarrow>
     set (all_parents rs) \<subseteq> {0..<int n} \<and> distinct (all_parents rs) \<and> set (all_parents rs) \<inter> set ps = {}
     \<and> set (all_children rs) \<subseteq> {0..<int n} \<and> distinct (all_children rs) \<and> set (all_children rs) \<inter> set cs = {}
     \<and> cr' = assign_rends k rs cr \<and> cs' = rev (all_children rs) @ cs \<and> ps' = rev (all_parents rs) @ ps"
proof (induction rs arbitrary: k cr cs ps)
  case (Cons r rs)
  have "rfold (check_rend n) (enumerate k (r # rs)) (cr, cs, ps) = Inr (cr', cs', ps') \<longleftrightarrow>
    (\<exists>cr1 cs1 ps1. check_rend n (k, r) (cr, cs, ps) = Inr (cr1, cs1, ps1)
        \<and> rfold (check_rend n) (enumerate (Suc k) rs) (cr1, cs1, ps1) = Inr (cr', cs', ps'))"
    by (auto simp: rbind_eq_Inr)
  then show ?case
    unfolding check_rend_eq Cons.IH by (auto simp: assign_rends_def)
qed (auto simp: assign_rends_def)

lemma all_ids_of_size:
  assumes "distinct xs" "set xs \<subseteq> {0..<int n}"
  shows "length xs = n \<longleftrightarrow> set xs = {0..<int n}"
proof -
  have "length xs = card (set xs)" using assms(1) by (simp add: distinct_card)
  moreover have "card {0..<int n} = n" by simp
  ultimately show ?thesis using assms(2) by (metis card_subset_eq finite_atLeastLessThan_int)
qed

lemma checkRends_eq: "checkRends n rs = Inr cr \<longleftrightarrow> wf_rends n rs \<and> cr = assign_rends 0 rs (replicate n 0)"
proof (cases "length rs < 2")
  case False
  then have "checkRends n rs = Inr cr \<longleftrightarrow>
     (\<exists>cs ps. rfold (check_rend n) (enumerate 0 rs) (replicate n 0, [], []) = Inr (cr, cs, ps)
        \<and> is_size cs = n \<and> is_size ps = n)"
    by (auto simp: checkRends_def rbind_eq_Inr split: if_splits)
  then show ?thesis
    using False all_ids_of_size[of "all_children rs" n] all_ids_of_size[of "all_parents rs" n]
    unfolding check_rends_eq by (auto simp: wf_rends_def is_size_def)
qed (auto simp: checkRends_def wf_rends_def)

lemma length_assign [simp]: "length (fold (\<lambda>x cr. cr[nat x := i]) xs cr) = length cr"
  by (induction xs arbitrary: cr) auto

lemma fold_assign_nth:
  "\<forall>y\<in>set xs. 0 \<le> y \<Longrightarrow> 0 \<le> x \<Longrightarrow> nat x < length cr \<Longrightarrow>
   fold (\<lambda>x cr. cr[nat x := i]) xs cr ! nat x = (if x \<in> set xs then i else cr ! nat x)"
  by (induction xs arbitrary: cr) (auto simp: nth_list_update)

lemma assign_rends_Cons:
  "assign_rends k (r # rs) cr = assign_rends (Suc k) rs (fold (\<lambda>x cr. cr[nat x := k]) (parents r) cr)"
  by (simp add: assign_rends_def)

lemma assign_rends_other:
  "\<forall>y\<in>set (all_parents rs). 0 \<le> y \<Longrightarrow> 0 \<le> x \<Longrightarrow> nat x < length cr \<Longrightarrow> x \<notin> set (all_parents rs) \<Longrightarrow>
   assign_rends k rs cr ! nat x = cr ! nat x"
proof (induction rs arbitrary: k cr)
  case (Cons r rs)
  then show ?case by (simp add: assign_rends_Cons fold_assign_nth)
qed (simp add: assign_rends_def)

lemma length_assign_rends [simp]: "length (assign_rends k rs cr) = length cr"
  by (induction rs arbitrary: k cr) (auto simp: assign_rends_Cons, simp add: assign_rends_def)

lemma assign_rends_nth:
  "\<forall>y\<in>set (all_parents rs). 0 \<le> y \<Longrightarrow> distinct (all_parents rs) \<Longrightarrow> r < length rs \<Longrightarrow>
   x \<in> set (parents (rs ! r)) \<Longrightarrow> nat x < length cr \<Longrightarrow> assign_rends k rs cr ! nat x = k + r"
proof (induction rs arbitrary: k r cr)
  case (Cons q rs)
  show ?case
  proof (cases r)
    case 0
    then have "x \<notin> set (all_parents rs)" "x \<in> set (parents q)" using Cons.prems by auto
    then show ?thesis
      using Cons.prems 0 by (simp add: assign_rends_Cons assign_rends_other fold_assign_nth)
  next
    case (Suc r')
    then show ?thesis using Cons.prems Cons.IH[of r' _ "Suc k"] by (simp add: assign_rends_Cons)
  qed
qed simp

lemma checkRends_nth:
  assumes "checkRends n rs = Inr cr" "r < length rs" "x \<in> set (parents (rs ! r))"
  shows "cr ! nat x = r" "length cr = n"
proof -
  have wf: "wf_rends n rs" and cr: "cr = assign_rends 0 rs (replicate n 0)"
    using assms(1) by (auto simp: checkRends_eq)
  have "0 \<le> x" "x < int n" using wf_rends_range(2)[OF wf assms(2)] assms(3) by auto
  then show "cr ! nat x = r"
    using wf assign_rends_nth[of rs r x "replicate n 0" 0] assms(2,3)
    by (auto simp: cr wf_rends_def)
  show "length cr = n" by (simp add: cr)
qed


subsection \<open>The scheduling invariant\<close>

definition triggered :: "Rend list \<Rightarrow> int set \<Rightarrow> nat \<Rightarrow> bool" where
  "triggered rs D r \<longleftrightarrow> r = 0 \<or> parents (rs ! r) \<noteq> [] \<and> set (parents (rs ! r)) \<subseteq> D"

text \<open>The three sets partition the FMUs and each counter is the number of parents still missing.\<close>

definition sets_inv :: "nat \<Rightarrow> Rend list \<Rightarrow> sched \<Rightarrow> bool" where
  "sets_inv n rs s \<longleftrightarrow>
     distinct (done_set s @ open_set s @ todo_set s)
     \<and> set (done_set s) \<union> set (open_set s) \<union> set (todo_set s) = {0..<int n}
     \<and> counters s = map (\<lambda>r. int (card (set (parents r) - set (done_set s)))) rs"

text \<open>The children of a triggered rend have left \<^verbatim>\<open>todo\<close>, those of any other are in it.\<close>

definition sched_inv :: "nat \<Rightarrow> Rend list \<Rightarrow> sched \<Rightarrow> bool" where
  "sched_inv n rs s \<longleftrightarrow> sets_inv n rs s
     \<and> (\<forall>r < length rs. if triggered rs (set (done_set s)) r
          then set (children (rs ! r)) \<subseteq> set (done_set s) \<union> set (open_set s)
          else set (children (rs ! r)) \<subseteq> set (todo_set s))"

lemma sched_inv_triggered:
  "sched_inv n rs s \<Longrightarrow> r < length rs \<Longrightarrow> triggered rs (set (done_set s)) r \<Longrightarrow>
   set (children (rs ! r)) \<subseteq> set (done_set s) \<union> set (open_set s)"
  unfolding sched_inv_def by presburger

lemma sched_inv_waiting:
  "sched_inv n rs s \<Longrightarrow> r < length rs \<Longrightarrow> \<not> triggered rs (set (done_set s)) r \<Longrightarrow>
   set (children (rs ! r)) \<subseteq> set (todo_set s)"
  unfolding sched_inv_def by presburger

lemma release_concat: "rfold (\<lambda>t. rfold release (f t)) ts s = rfold release (concat (map f ts)) s"
proof (induction ts arbitrary: s)
  case (Cons t ts)
  have "rfold (\<lambda>t. rfold release (f t)) ts = rfold release (concat (map f ts))"
    using Cons.IH by blast
  then show ?case by (simp add: rfold_append)
qed simp

lemma releases:
  assumes "distinct ids" "set ids \<subseteq> set (todo_set s)" "sets_inv n rs s"
  shows "\<exists>s'. rfold release ids s = Inr s' \<and> sets_inv n rs s' \<and> done_set s' = done_set s
     \<and> set (open_set s') = set (open_set s) \<union> set ids \<and> set (todo_set s') = set (todo_set s) - set ids"
  using assms
proof (induction ids arbitrary: s)
  case (Cons x ids)
  let ?s = "s\<lparr>todo_set := is_erase x (todo_set s), open_set := is_insert x (open_set s)\<rparr>"
  have x: "x \<in> set (todo_set s)" using Cons.prems by simp
  then have "release x s = Inr ?s" by (simp add: release_def is_count_def)
  moreover have "sets_inv n rs ?s"
    using Cons.prems(3) x by (auto simp: sets_inv_def is_insert_def)
  moreover have "set ids \<subseteq> set (todo_set ?s)" using Cons.prems by auto
  ultimately show ?case
    using Cons.IH[of ?s] Cons.prems(1) by auto
qed auto

definition newly :: "Rend list \<Rightarrow> int set \<Rightarrow> int set \<Rightarrow> nat set" where
  "newly rs D0 D = {r. r < length rs \<and> parents (rs ! r) \<noteq> [] \<and> set (parents (rs ! r)) \<subseteq> D \<and> \<not> set (parents (rs ! r)) \<subseteq> D0}"

lemma int_card_remove: "finite A \<Longrightarrow> x \<in> A \<Longrightarrow> int (card (A - {x})) = int (card A) - 1"
  by (metis add_diff_cancel_left' card_Suc_Diff1 of_nat_Suc)

lemma poke_ok:
  assumes chk: "checkRends n rs = Inr cr" and inv: "sets_inv n rs s" and x: "x \<in> set (open_set s)"
    and D0: "D0 \<subseteq> set (done_set s)" and tr: "distinct tr" "set tr = newly rs D0 (set (done_set s))"
  shows "\<exists>s' tr'. poke cr x (s, tr) = Inr (s', tr') \<and> sets_inv n rs s'
     \<and> set (done_set s') = insert x (set (done_set s)) \<and> set (open_set s') = set (open_set s) - {x}
     \<and> set (todo_set s') = set (todo_set s)
     \<and> distinct tr' \<and> set tr' = newly rs D0 (insert x (set (done_set s)))"
proof -
  have wf: "wf_rends n rs" using chk by (simp add: checkRends_eq)
  have range: "0 \<le> x" "x < int n" and xd: "x \<notin> set (done_set s)"
    using inv x by (auto simp: sets_inv_def)
  obtain r where r: "r < length rs" "x \<in> set (parents (rs ! r))"
    using wf_rends_parent[OF wf range] by auto
  have cr: "cr ! nat x = r" "length cr = n" using checkRends_nth[OF chk r] by auto
  let ?m = "\<lambda>D r. int (card (set (parents (rs ! r)) - D))"
  let ?D = "set (done_set s)" and ?D' = "insert x (set (done_set s))"
  have cnt: "counters s ! q = ?m ?D q" if "q < length rs" for q
    using inv that by (simp add: sets_inv_def)
  have len: "length (counters s) = length rs" using inv by (simp add: sets_inv_def)
  have "set (parents (rs ! r)) - ?D' = (set (parents (rs ! r)) - ?D) - {x}" by auto
  then have v: "?m ?D r - 1 = ?m ?D' r" using r(2) xd int_card_remove[of "set (parents (rs ! r)) - ?D" x] by simp
  have other: "?m ?D' q = ?m ?D q" if "q < length rs" "q \<noteq> r" for q
  proof -
    have "x \<notin> set (parents (rs ! q))" using parent_rend_unique[OF wf] r that by blast
    then have "set (parents (rs ! q)) - ?D' = set (parents (rs ! q)) - ?D" by auto
    then show ?thesis by simp
  qed
  have cs: "(counters s)[r := ?m ?D' r] = map (\<lambda>q. int (card (set (parents q) - ?D'))) rs"
  proof (rule nth_equalityI)
    fix i assume "i < length ((counters s)[r := ?m ?D' r])"
    then show "(counters s)[r := ?m ?D' r] ! i = map (\<lambda>q. int (card (set (parents q) - ?D'))) rs ! i"
      using len other[of i] cnt[of i] by (cases "i = r") simp_all
  qed (simp add: len)
  let ?s = "s\<lparr>counters := (counters s)[r := ?m ?D' r], done_set := is_insert x (done_set s), open_set := is_erase x (open_set s)\<rparr>"
  let ?tr = "if ?m ?D' r = 0 then List.insert r tr else tr"
  have "poke cr x (s, tr) = Inr (?s, ?tr)"
  proof -
    have "counters s ! r - 1 = ?m ?D' r" using cnt[OF r(1)] v by simp
    then show ?thesis using range r(1) cr len by (simp add: poke_def Let_def)
  qed
  moreover have "sets_inv n rs ?s"
    using inv x cs by (auto simp: sets_inv_def is_insert_def)
  moreover have "set ?tr = newly rs D0 ?D'"
  proof -
    have zero: "?m ?D' r = 0 \<longleftrightarrow> set (parents (rs ! r)) \<subseteq> ?D'" by (auto simp: card_eq_0_iff)
    have "q \<in> newly rs D0 ?D' \<longleftrightarrow> q \<in> newly rs D0 ?D \<or> (q = r \<and> set (parents (rs ! r)) \<subseteq> ?D')" for q
    proof (cases "q = r")
      case True
      then show ?thesis using r xd D0 by (auto simp: newly_def)
    next
      case False
      then have "q < length rs \<Longrightarrow> x \<notin> set (parents (rs ! q))" using parent_rend_unique[OF wf] r by blast
      then show ?thesis using False by (auto simp: newly_def)
    qed
    then show ?thesis using tr(2) zero by auto
  qed
  ultimately show ?thesis using tr(1) by auto
qed

lemma pokes_ok:
  assumes chk: "checkRends n rs = Inr cr"
  shows "sets_inv n rs s \<Longrightarrow> distinct C \<Longrightarrow> set C \<subseteq> set (open_set s) \<Longrightarrow> D0 \<subseteq> set (done_set s) \<Longrightarrow>
     distinct tr \<Longrightarrow> set tr = newly rs D0 (set (done_set s)) \<Longrightarrow>
   \<exists>s' tr'. rfold (poke cr) C (s, tr) = Inr (s', tr') \<and> sets_inv n rs s'
     \<and> set (done_set s') = set (done_set s) \<union> set C \<and> set (open_set s') = set (open_set s) - set C
     \<and> set (todo_set s') = set (todo_set s)
     \<and> distinct tr' \<and> set tr' = newly rs D0 (set (done_set s) \<union> set C)"
proof (induction C arbitrary: s tr)
  case (Cons x C)
  then obtain s1 tr1 where 1: "poke cr x (s, tr) = Inr (s1, tr1)" "sets_inv n rs s1"
     "set (done_set s1) = insert x (set (done_set s))" "set (open_set s1) = set (open_set s) - {x}"
     "set (todo_set s1) = set (todo_set s)" "distinct tr1" "set tr1 = newly rs D0 (insert x (set (done_set s)))"
    using poke_ok[OF chk, of s x D0 tr] by auto
  have "set C \<subseteq> set (open_set s1)" "D0 \<subseteq> set (done_set s1)" using 1 Cons.prems by auto
  with Cons.IH[of s1 tr1] 1 Cons.prems(2) obtain s' tr' where
    "rfold (poke cr) C (s1, tr1) = Inr (s', tr')" "sets_inv n rs s'"
    "set (done_set s') = set (done_set s1) \<union> set C" "set (open_set s') = set (open_set s1) - set C"
    "set (todo_set s') = set (todo_set s1)"
    "distinct tr'" "set tr' = newly rs D0 (set (done_set s1) \<union> set C)" by auto
  with 1 show ?case by auto
qed auto

text \<open>One \<^verbatim>\<open>moveCranked\<close> of FMUs that are open never fails, keeps the invariant and marks exactly
  these FMUs as done.\<close>

lemma moveCranked_ok:
  assumes chk: "checkRends n rs = Inr cr" and root: "parents (rs ! 0) = []"
    and inv: "sched_inv n rs s" and C: "distinct C" "set C \<subseteq> set (open_set s)"
  shows "\<exists>s'. moveCranked rs cr C s = Inr s' \<and> sched_inv n rs s' \<and> set (done_set s') = set (done_set s) \<union> set C"
proof -
  have wf: "wf_rends n rs" using chk by (simp add: checkRends_eq)
  let ?D = "set (done_set s)" and ?T = "newly rs (set (done_set s)) (set (done_set s) \<union> set C)"
  have sets: "sets_inv n rs s" using inv by (simp add: sched_inv_def)
  obtain s1 tr where 1: "rfold (poke cr) C (s, []) = Inr (s1, tr)" "sets_inv n rs s1"
     "set (done_set s1) = ?D \<union> set C" "set (open_set s1) = set (open_set s) - set C"
     "set (todo_set s1) = set (todo_set s)" "distinct tr" "set tr = ?T"
    using pokes_ok[OF chk sets C, of ?D "[]"] by (auto simp: newly_def)
  let ?ids = "concat (map (\<lambda>t. children (rs ! t)) tr)"
  have not0: "t \<noteq> 0" if "t \<in> ?T" for t using that root by (auto simp: newly_def intro: Nat.gr0I)
  have T: "t < length rs \<and> \<not> triggered rs ?D t \<and> triggered rs (?D \<union> set C) t" if "t \<in> ?T" for t
    using that not0[OF that] by (auto simp: newly_def triggered_def)
  have sub: "set ?ids \<subseteq> set (todo_set s1)"
  proof -
    have "set (children (rs ! t)) \<subseteq> set (todo_set s)" if "t \<in> ?T" for t
      using inv T[OF that] unfolding sched_inv_def by presburger
    then show ?thesis using 1(5,7) by auto
  qed
  have dist: "distinct ?ids"
  proof (rule distinct_concat_map)
    fix t u assume "t \<in> set tr" "u \<in> set tr" "t \<noteq> u"
    then show "set (children (rs ! t)) \<inter> set (children (rs ! u)) = {}"
      using T 1(7) child_rend_unique[OF wf] by blast
  qed (use 1(6,7) T wf_rends_distinct(1)[OF wf] in auto)
  obtain s' where 2: "rfold release ?ids s1 = Inr s'" "sets_inv n rs s'" "done_set s' = done_set s1"
    "set (open_set s') = set (open_set s1) \<union> set ?ids" "set (todo_set s') = set (todo_set s1) - set ?ids"
    using releases[OF dist sub 1(2)] by auto
  have "moveCranked rs cr C s = Inr s'"
    using 1(1) 2(1) by (simp add: moveCranked_def release_concat)
  moreover have "sched_inv n rs s'"
    unfolding sched_inv_def
  proof (intro conjI allI impI)
    fix r assume r: "r < length rs"
    show "if triggered rs (set (done_set s')) r then set (children (rs ! r)) \<subseteq> set (done_set s') \<union> set (open_set s')
          else set (children (rs ! r)) \<subseteq> set (todo_set s')"
    proof (cases "triggered rs ?D r")
      case True
      then have "triggered rs (set (done_set s')) r" using 1(3) 2(3) by (auto simp: triggered_def)
      moreover have "set (children (rs ! r)) \<subseteq> ?D \<union> set (open_set s)"
        using inv r True by (auto simp: sched_inv_def)
      ultimately show ?thesis using 1(3,4) 2(3,4) by auto
    next
      case False
      then have todo: "set (children (rs ! r)) \<subseteq> set (todo_set s)" using inv r by (auto simp: sched_inv_def)
      show ?thesis
      proof (cases "r \<in> ?T")
        case True
        then show ?thesis using T[OF True] 1(3,7) 2(3,4) by auto
      next
        case nT: False
        then have "\<not> triggered rs (set (done_set s')) r"
          using False r 1(3) 2(3) by (auto simp: triggered_def newly_def)
        moreover have "set (children (rs ! r)) \<inter> set ?ids = {}"
          using nT 1(7) T child_rend_unique[OF wf r] by auto
        ultimately show ?thesis using todo 1(5) 2(5) by auto
      qed
    qed
  qed (rule 2(2))
  ultimately show ?thesis using 1(3) 2(3) by auto
qed


subsection \<open>Start and end of an iteration\<close>

lemma fold_todo:
  "fold (\<lambda>cid todo. if cid \<notin> set o0 then is_insert cid todo else todo) xs t0
     = is_insert_all (filter (\<lambda>x. x \<notin> set o0) xs) t0"
  unfolding is_insert_all_def by (induction xs arbitrary: t0) auto

lemma ids_set: "set (map int [0..<n]) = {0..<int n}"
  by (auto simp: image_int_atLeastLessThan)

lemma init_sched_inv:
  assumes wf: "wf_rends n rs" and root: "parents (rs ! 0) = []"
  shows "sched_inv n rs (init_sched n rs)"
proof -
  let ?s = "init_sched n rs" and ?c = "children (rs ! 0)"
  have len: "0 < length rs" using wf by (auto simp: wf_rends_def)
  have sets: "done_set ?s = []" "open_set ?s = ?c" "set (todo_set ?s) = {0..<int n} - set ?c"
    "distinct (todo_set ?s)"
    using ids_set[of n] by (auto simp: init_sched_def Let_def fold_todo)
  have "sets_inv n rs ?s"
    unfolding sets_inv_def
  proof (intro conjI)
    show "counters ?s = map (\<lambda>r. int (card (set (parents r) - set (done_set ?s)))) rs"
      using wf_rends_distinct(2)[OF wf] sets(1)
      by (auto simp: init_sched_def Let_def is_size_card in_set_conv_nth)
  qed (use sets wf_rends_distinct(1)[OF wf len] wf_rends_range(1)[OF wf len] in auto)
  moreover have "if triggered rs (set (done_set ?s)) r
          then set (children (rs ! r)) \<subseteq> set (done_set ?s) \<union> set (open_set ?s)
          else set (children (rs ! r)) \<subseteq> set (todo_set ?s)" if r: "r < length rs" for r
  proof (cases "r = 0")
    case False
    then have "set (children (rs ! r)) \<inter> set ?c = {}" using child_rend_unique[OF wf r len] by blast
    moreover have "set (children (rs ! r)) \<subseteq> {0..<int n}" by (rule wf_rends_range(1)[OF wf r])
    ultimately show ?thesis using False sets by (auto simp: triggered_def)
  qed (use sets in \<open>auto simp: triggered_def\<close>)
  ultimately show ?thesis by (simp add: sched_inv_def)
qed

lemma sched_inv_all_done:
  assumes "sched_inv n rs s" "\<not> is_size (done_set s) < n"
  shows "set (done_set s) = {0..<int n}" "open_set s = []" "todo_set s = []"
proof -
  have d: "distinct (done_set s @ open_set s @ todo_set s)"
    and u: "set (done_set s) \<union> set (open_set s) \<union> set (todo_set s) = {0..<int n}"
    using assms(1) by (auto simp: sched_inv_def sets_inv_def)
  have "card (set (done_set s @ open_set s @ todo_set s)) = length (done_set s @ open_set s @ todo_set s)"
    using d distinct_card by blast
  moreover have "set (done_set s @ open_set s @ todo_set s) = {0..<int n}" using u by auto
  ultimately have "length (done_set s) + length (open_set s) + length (todo_set s) = n" by simp
  with assms(2) show "open_set s = []" "todo_set s = []" by (auto simp: is_size_def)
  with u show "set (done_set s) = {0..<int n}" by simp
qed

text \<open>With a topologically listed order, some FMU is open as long as one is not done.\<close>

lemma open_nonempty:
  assumes wf: "wf_rends n rs" and topo: "topo_rends rs" and inv: "sched_inv n rs s"
    and more: "is_size (done_set s) < n"
  shows "open_set s \<noteq> []"
proof
  assume no_open: "open_set s = []"
  let ?D = "set (done_set s)"
  have part: "?D \<union> set (todo_set s) = {0..<int n}" "?D \<inter> set (todo_set s) = {}" "distinct (done_set s)"
    using inv no_open by (auto simp: sched_inv_def sets_inv_def)
  have inv': "triggered rs ?D r \<Longrightarrow> set (children (rs ! r)) \<subseteq> ?D" if "r < length rs" for r
    using sched_inv_triggered[OF inv that] no_open by auto
  have all_done: "r < length rs \<Longrightarrow> set (children (rs ! r)) \<subseteq> ?D" for r
  proof (induction r rule: less_induct)
    case (less r)
    have "triggered rs ?D r" if "children (rs ! r) \<noteq> []" "r \<noteq> 0"
    proof -
      have "set (parents (rs ! r)) \<subseteq> set (all_children (take r rs))" "parents (rs ! r) \<noteq> []"
        using topo less.prems that by (auto simp: topo_rends_def)
      moreover have "set (all_children (take r rs)) \<subseteq> ?D"
        using less by (fastforce simp: mem_all_children_take)
      ultimately show ?thesis by (auto simp: triggered_def)
    qed
    then show ?case using inv'[OF less.prems] by (cases "children (rs ! r) = [] \<or> r = 0") (auto simp: triggered_def)
  qed
  have "{0..<int n} \<subseteq> ?D"
  proof
    fix x assume "x \<in> {0..<int n}"
    then obtain r where "r < length rs" "x \<in> set (children (rs ! r))" using wf_rends_child[OF wf] by auto
    then show "x \<in> ?D" using all_done by auto
  qed
  then have "card {0..<int n} \<le> card ?D" by (intro card_mono) auto
  with more part(3) show False by (simp add: is_size_card)
qed

subsection \<open>Batches\<close>

text \<open>What a run of the scheduler does, as the list of the batches it stepped: every FMU of \<open>D\<close>
  in exactly one batch, and all parents of its rend in strictly earlier batches.\<close>

definition hist_ok :: "Rend list \<Rightarrow> int list list \<Rightarrow> int set \<Rightarrow> bool" where
  "hist_ok rs bs D \<longleftrightarrow> distinct (concat bs) \<and> set (concat bs) = D
     \<and> (\<forall>i < length bs. \<forall>b \<in> set (bs ! i). \<forall>r < length rs. b \<in> set (children (rs ! r)) \<longrightarrow>
          set (parents (rs ! r)) \<subseteq> set (concat (take i bs)))"

lemma hist_ok_snoc:
  assumes root: "parents (rs ! 0) = []" and inv: "sched_inv n rs s"
    and bs: "hist_ok rs bs (set (done_set s))" and C: "distinct C" "set C \<subseteq> set (open_set s)"
  shows "hist_ok rs (bs @ [C]) (set (done_set s) \<union> set C)"
  unfolding hist_ok_def
proof (intro conjI allI ballI impI)
  have "set C \<inter> set (done_set s) = {}" using inv C(2) by (auto simp: sched_inv_def sets_inv_def)
  then show "distinct (concat (bs @ [C]))" using bs C(1) by (auto simp: hist_ok_def)
  show "set (concat (bs @ [C])) = set (done_set s) \<union> set C" using bs by (auto simp: hist_ok_def)
  fix i b r assume i: "i < length (bs @ [C])" and b: "b \<in> set ((bs @ [C]) ! i)"
    and r: "r < length rs" "b \<in> set (children (rs ! r))"
  show "set (parents (rs ! r)) \<subseteq> set (concat (take i (bs @ [C])))"
  proof (cases "i < length bs")
    case True
    then show ?thesis using bs b r by (auto simp: hist_ok_def nth_append)
  next
    case False
    then have "b \<in> set (open_set s)" "i = length bs" using i b C(2) by (auto simp: nth_append)
    moreover from this have "triggered rs (set (done_set s)) r"
      using sched_inv_waiting[OF inv r(1)] r(2) inv by (auto simp: sched_inv_def sets_inv_def)
    ultimately show ?thesis using root bs by (auto simp: triggered_def hist_ok_def)
  qed
qed


subsection \<open>The interface between the scheduler and the stepping of a batch\<close>

text \<open>\<open>effect S m m'\<close> is what is known of stepping the batch \<open>S\<close>; \<open>minv\<close> is what the master keeps. A sequence of batches
  composes their effects.\<close>

fun batches :: "(int list \<Rightarrow> 'm \<Rightarrow> 'm \<Rightarrow> bool) \<Rightarrow> int list list \<Rightarrow> 'm \<Rightarrow> 'm \<Rightarrow> bool" where
  "batches R [] m m' \<longleftrightarrow> m' = m"
| "batches R (S # bs) m m' \<longleftrightarrow> (\<exists>m1. R S m m1 \<and> batches R bs m1 m')"

lemma batches_snoc: "batches R bs m m1 \<Longrightarrow> R S m1 m' \<Longrightarrow> batches R (bs @ [S]) m m'"
  by (induction bs arbitrary: m) auto

locale cranker =
  fixes act :: "int list \<Rightarrow> 'm \<Rightarrow> 'm res"
    and effect :: "int list \<Rightarrow> 'm \<Rightarrow> 'm \<Rightarrow> bool"
    and minv :: "'m \<Rightarrow> bool"
    and n :: nat
  assumes act_effect: "minv m \<Longrightarrow> distinct S \<Longrightarrow> set S \<subseteq> {0..<int n} \<Longrightarrow> act S m = Inr m' \<Longrightarrow> minv m' \<and> effect S m m'"
begin

lemma crank_partial:
  assumes chk: "checkRends n rs = Inr cr" and root: "parents (rs ! 0) = []"
  shows "crank act n rs cr target m s = Inr (m', s') \<Longrightarrow> sched_inv n rs s \<Longrightarrow>
     minv m \<and> batches effect bs h0 m \<Longrightarrow> hist_ok rs bs (set (done_set s)) \<Longrightarrow>
     \<exists>bs'. minv m' \<and> batches effect bs' h0 m' \<and> hist_ok rs bs' (set (done_set s')) \<and> sched_inv n rs s'
       \<and> \<not> crank_more n target s'"
proof (induction "sched_size s" arbitrary: m s bs rule: less_induct)
  case less
  show ?case
  proof (cases "crank_more n target s")
    case False
    then show ?thesis using less.prems by (auto simp: crank.simps[of _ _ _ _ _ m])
  next
    case True
    let ?C = "toStep target s"
    from less.prems(1) True obtain m1 s1 where 1: "?C \<noteq> []" "act ?C m = Inr m1"
      "moveCranked rs cr ?C s = Inr s1" "crank act n rs cr target m1 s1 = Inr (m', s')"
      by (subst (asm) crank.simps) (auto split: if_splits)
    have C: "distinct ?C" "set ?C \<subseteq> set (open_set s)"
      using less.prems(2) by (auto simp: toStep_def sched_inv_def sets_inv_def)
    have s1: "sched_inv n rs s1" "set (done_set s1) = set (done_set s) \<union> set ?C"
      using moveCranked_ok[OF chk root less.prems(2) C] 1(3) by auto
    have "sched_size s1 < sched_size s" using moveCranked_size[OF 1(3,1) C(2)] .
    moreover have "set ?C \<subseteq> {0..<int n}" using C(2) less.prems(2) by (auto simp: sched_inv_def sets_inv_def)
    then have "minv m1 \<and> batches effect (bs @ [?C]) h0 m1" using act_effect[OF _ C(1) _ 1(2)] less.prems(3) batches_snoc[of effect bs h0 m ?C m1] by auto
    moreover have "hist_ok rs (bs @ [?C]) (set (done_set s1))"
      using hist_ok_snoc[OF root less.prems(2,4) C] s1(2) by simp
    ultimately show ?thesis using less.hyps 1(4) s1(1) by blast
  qed
qed

text \<open>Without kinematic FMUs the first crank runs to the end.\<close>

lemma run_without_kins:
  assumes chk: "checkRends n rs = Inr cr" and root: "parents (rs ! 0) = []"
    and m: "minv m" and run: "run_sched act kin n rs cr [] m = Inr (m', s')"
  shows "\<exists>bs. minv m' \<and> batches effect bs m m' \<and> hist_ok rs bs {0..<int n}"
proof -
  have wf: "wf_rends n rs" using chk by (simp add: checkRends_eq)
  obtain m1 s1 where 1: "crank act n rs cr [] m (init_sched n rs) = Inr (m1, s1)"
    using run by (auto simp: run_sched_def)
  have "hist_ok rs [] (set (done_set (init_sched n rs)))" by (simp add: hist_ok_def init_sched_def Let_def)
  with crank_partial[OF chk root 1 init_sched_inv[OF wf root], of "[]" m] m obtain bs where
    bs: "minv m1 \<and> batches effect bs m m1" "hist_ok rs bs (set (done_set s1))" "sched_inv n rs s1" "\<not> crank_more n [] s1" by auto
  then have "open_set s1 = []" "set (done_set s1) = {0..<int n}" using sched_inv_all_done by (auto simp: crank_more_def)
  with bs run 1 show ?thesis by (auto simp: run_sched_def split: if_splits)
qed

end

text \<open>The kinematic FMUs are stepped by an action of their own.\<close>

locale stepper = cranker +
  fixes kin :: "int list \<Rightarrow> 'a \<Rightarrow> 'a res"
  assumes kin_effect: "minv m \<Longrightarrow> distinct S \<Longrightarrow> set S \<subseteq> {0..<int n} \<Longrightarrow> kin S m = Inr m' \<Longrightarrow> minv m' \<and> effect S m m'"
begin

text \<open>Whatever \<open>kins\<close> is, an iteration that returns has stepped every FMU exactly once, with
  the parents of each FMU's rend in earlier batches.\<close>

lemma run_partial:
  assumes chk: "checkRends n rs = Inr cr" and root: "parents (rs ! 0) = []"
    and m: "minv m" and run: "run_sched act kin n rs cr kins m = Inr (m', s')"
  shows "\<exists>bs. minv m' \<and> batches effect bs m m' \<and> hist_ok rs bs {0..<int n}"
proof -
  have wf: "wf_rends n rs" using chk by (simp add: checkRends_eq)
  obtain m1 s1 where 1: "crank act n rs cr kins m (init_sched n rs) = Inr (m1, s1)"
    using run by (auto simp: run_sched_def)
  have "hist_ok rs [] (set (done_set (init_sched n rs)))" by (simp add: hist_ok_def init_sched_def Let_def)
  with crank_partial[OF chk root 1 init_sched_inv[OF wf root], of "[]" m] obtain bs where
    bs: "minv m1 \<and> batches effect bs m m1" "hist_ok rs bs (set (done_set s1))" "sched_inv n rs s1" using m by auto
  show ?thesis
  proof (cases "open_set s1 = []")
    case True
    with run 1 have "m' = m1" "todo_set s1 = []" by (auto simp: run_sched_def split: if_splits)
    moreover from this have "set (done_set s1) = {0..<int n}"
      using bs(3) True by (simp add: sched_inv_def sets_inv_def)
    ultimately show ?thesis using bs by auto
  next
    case False
    let ?C = "open_set s1"
    from run 1 False obtain m2 s2 where 2: "kin ?C m1 = Inr m2" "moveCranked rs cr ?C s1 = Inr s2"
      "crank act n rs cr [] m2 s2 = Inr (m', s')"
      by (auto simp: run_sched_def split: if_splits)
    have C: "distinct ?C" "set ?C \<subseteq> set (open_set s1)" using bs(3) by (auto simp: sched_inv_def sets_inv_def)
    have s2: "sched_inv n rs s2" "set (done_set s2) = set (done_set s1) \<union> set ?C"
      using moveCranked_ok[OF chk root bs(3) C] 2(2) by auto
    have "set ?C \<subseteq> {0..<int n}" using bs(3) by (auto simp: sched_inv_def sets_inv_def)
    then have "minv m2 \<and> batches effect (bs @ [?C]) m m2" using kin_effect[OF _ C(1) _ 2(1)] bs(1) batches_snoc[of effect bs m m1 ?C m2] by auto
    moreover have "hist_ok rs (bs @ [?C]) (set (done_set s2))"
      using hist_ok_snoc[OF root bs(3,2) C] s2(2) by simp
    ultimately obtain bs' where "minv m' \<and> batches effect bs' m m'" "hist_ok rs bs' (set (done_set s'))"
      "sched_inv n rs s'" "\<not> crank_more n [] s'"
      using crank_partial[OF chk root 2(3) s2(1)] by blast
    moreover from this have "set (done_set s') = {0..<int n}"
      using sched_inv_all_done(1) by (auto simp: crank_more_def)
    ultimately show ?thesis by auto
  qed
qed

end

text \<open>An action that succeeds from every state that satisfies \<open>good\<close>.\<close>

locale total_cranker = cranker +
  fixes good :: "'a \<Rightarrow> bool"
  assumes act_total: "good m \<Longrightarrow> distinct S \<Longrightarrow> set S \<subseteq> {0..<int n} \<Longrightarrow> \<exists>m'. act S m = Inr m' \<and> good m'"
begin

lemma crank_total:
  assumes chk: "checkRends n rs = Inr cr" and topo: "topo_rends rs"
  shows "sched_inv n rs s \<Longrightarrow> good m \<Longrightarrow>
     \<exists>m' s'. crank act n rs cr [] m s = Inr (m', s') \<and> good m' \<and> sched_inv n rs s' \<and> set (done_set s') = {0..<int n}"
proof (induction "sched_size s" arbitrary: m s rule: less_induct)
  case less
  have wf: "wf_rends n rs" using chk by (simp add: checkRends_eq)
  then have root: "parents (rs ! 0) = []" using topo by (rule topo_root)
  show ?case
  proof (cases "crank_more n [] s")
    case False
    then show ?thesis
      using less.prems sched_inv_all_done(1)[OF less.prems(1)] by (auto simp: crank.simps[of _ _ _ _ _ m] crank_more_def)
  next
    case True
    let ?C = "toStep [] s"
    have C: "distinct ?C" "set ?C \<subseteq> set (open_set s)" "set ?C \<subseteq> {0..<int n}" "?C \<noteq> []"
      using less.prems(1) open_nonempty[OF wf topo less.prems(1)] True
      by (auto simp: toStep_def sched_inv_def sets_inv_def crank_more_def is_erase_all_def)
    obtain m1 where m1: "act ?C m = Inr m1" "good m1" using act_total[OF less.prems(2) C(1,3)] by auto
    obtain s1 where s1: "moveCranked rs cr ?C s = Inr s1" "sched_inv n rs s1"
      using moveCranked_ok[OF chk root less.prems(1) C(1,2)] by auto
    have "crank act n rs cr [] m s = crank act n rs cr [] m1 s1"
      using True C(4) m1(1) s1(1) by (subst crank.simps) simp
    then show ?thesis
      using less.hyps[OF moveCranked_size[OF s1(1) C(4,2)] s1(2) m1(2)] by simp
  qed
qed

lemma run_total:
  assumes chk: "checkRends n rs = Inr cr" and topo: "topo_rends rs" and good: "good m"
  shows "\<exists>m' s'. run_sched act kin n rs cr [] m = Inr (m', s') \<and> good m'"
proof -
  have wf: "wf_rends n rs" using chk by (simp add: checkRends_eq)
  then have root: "parents (rs ! 0) = []" using topo by (rule topo_root)
  obtain m' s' where 1: "crank act n rs cr [] m (init_sched n rs) = Inr (m', s')" "good m'"
    "sched_inv n rs s'" "set (done_set s') = {0..<int n}"
    using crank_total[OF chk topo init_sched_inv[OF wf root] good] by auto
  have "\<not> is_size (done_set s') < n"
    using 1(3,4) is_size_card[of "done_set s'"] by (auto simp: sched_inv_def sets_inv_def)
  then have "open_set s' = []" "todo_set s' = []" using sched_inv_all_done[OF 1(3)] by auto
  with 1 show ?thesis by (auto simp: run_sched_def)
qed

end

subsection \<open>Properties\<close>

text \<open>C11: the constructor of \<^verbatim>\<open>StrongMaster\<close> accepts a list of rends if and only if there are two or more, and the
  identifiers of the clients are, each exactly once, the children of the rends, and also the parents.\<close>

theorem checkRends_accepts: "ok (checkRends n rs) \<longleftrightarrow> wf_rends n rs"
  by (auto simp: ok_iff checkRends_eq)

text \<open>C10: \<^verbatim>\<open>moveCranked\<close> never stops the program when the rends were accepted and the cranked FMUs are
  open, and it keeps the invariant: the three sets partition the clients, every counter is the number of parents of
  its rend that are not done, and an FMU is in \<^verbatim>\<open>todo\<close> exactly when the rend it is a child of still waits.\<close>

theorem moveCranked_preserves:
  assumes "checkRends n rs = Inr cr" and "parents (rs ! 0) = []" and "sched_inv n rs s"
    and "distinct C" and "set C \<subseteq> set (open_set s)"
  shows "\<exists>s'. moveCranked rs cr C s = Inr s' \<and> sched_inv n rs s' \<and> set (done_set s') = set (done_set s) \<union> set C"
  using moveCranked_ok[OF assms] .

definition two_in_order :: "Rend list" where
  "two_in_order = [\<lparr>parents = [], children = [0]\<rparr>, \<lparr>parents = [0], children = [1]\<rparr>, \<lparr>parents = [1], children = []\<rparr>]"

lemma two_in_order_wf: "wf_rends 2 two_in_order" "topo_rends two_in_order"
  by (auto simp: wf_rends_def topo_rends_def two_in_order_def all_children_def all_parents_def less_Suc_eq numeral_3_eq_3)

theorem moveCranked_preserves_witness:
  "\<exists>s'. moveCranked two_in_order [1, 2] [0] (init_sched 2 two_in_order) = Inr s' \<and> sched_inv 2 two_in_order s'
     \<and> set (done_set s') = {0}"
proof -
  have 1: "checkRends 2 two_in_order = Inr [1, 2]" by code_simp
  have 2: "parents (two_in_order ! 0) = []" by (simp add: two_in_order_def)
  have 3: "set (open_set (init_sched 2 two_in_order)) = {0}" "set (done_set (init_sched 2 two_in_order)) = {}"
    by (simp_all add: init_sched_def two_in_order_def Let_def)
  show ?thesis
    using moveCranked_preserves[OF 1 2 init_sched_inv[OF two_in_order_wf(1) 2], of "[0]"] 3 by simp
qed

end
