(* ===== verification/Messages.thy ===== *)
theory Messages
  imports Text_Utils
begin

text \<open>
  The FMI enumerations the program uses, their numbers in the protocol (src/fmitcp/fmitcp-common.cpp,
  src/fmitcp/fmitcp.proto), the requests of the master and the responses of the server
  as data, and the functions of src/fmitcp/serialize.cpp that make requests. What protobuf does with a
  message (serialise it and parse it back) is not part of the sources; the messages the program lays out
  byte by byte itself are in the theory of the wire format.
\<close>

subsection \<open>Enumerations\<close>

datatype fmi2_base_type = fmi2_base_type_real | fmi2_base_type_int | fmi2_base_type_bool
  | fmi2_base_type_str | fmi2_base_type_enum

text \<open>\<^verbatim>\<open>std::map\<close>s keyed by a base type iterate in the order of the enumeration.\<close>

fun base_type_number :: "fmi2_base_type \<Rightarrow> nat" where
  "base_type_number fmi2_base_type_real = 0"
| "base_type_number fmi2_base_type_int = 1"
| "base_type_number fmi2_base_type_bool = 2"
| "base_type_number fmi2_base_type_str = 3"
| "base_type_number fmi2_base_type_enum = 4"

lemma base_type_number_inject: "base_type_number a = base_type_number b \<Longrightarrow> a = b"
  by (cases a; cases b) auto

instantiation fmi2_base_type :: linorder
begin

definition less_eq_fmi2_base_type :: "fmi2_base_type \<Rightarrow> fmi2_base_type \<Rightarrow> bool" where
  "less_eq_fmi2_base_type a b \<longleftrightarrow> base_type_number a \<le> base_type_number b"

definition less_fmi2_base_type :: "fmi2_base_type \<Rightarrow> fmi2_base_type \<Rightarrow> bool" where
  "less_fmi2_base_type a b \<longleftrightarrow> base_type_number a < base_type_number b"

instance
  by standard
     (auto simp: less_eq_fmi2_base_type_def less_fmi2_base_type_def intro: base_type_number_inject)

end

definition all_base_types :: "fmi2_base_type list" where
  "all_base_types = [fmi2_base_type_real, fmi2_base_type_int, fmi2_base_type_bool, fmi2_base_type_str, fmi2_base_type_enum]"

lemma all_base_types: "set all_base_types = UNIV" "distinct all_base_types" "sorted all_base_types"
proof -
  show "set all_base_types = UNIV"
    by (auto simp: all_base_types_def) (metis fmi2_base_type.exhaust)
qed (auto simp: all_base_types_def less_eq_fmi2_base_type_def)

definition type_from_char :: "string \<Rightarrow> fmi2_base_type res" where
  "type_from_char t =
     (case t of
        [c] \<Rightarrow> Inr (if c = CHR ''i'' then fmi2_base_type_int
                    else if c = CHR ''b'' then fmi2_base_type_bool
                    else if c = CHR ''s'' then fmi2_base_type_str
                    else fmi2_base_type_real)
      | _ \<Rightarrow> Inl (Fatal ''Bad type''))"

datatype fmi2_status = fmi2_status_ok | fmi2_status_warning | fmi2_status_discard
  | fmi2_status_error | fmi2_status_fatal | fmi2_status_pending

fun fmi2StatusToProtofmi2Status :: "fmi2_status \<Rightarrow> int" where
  "fmi2StatusToProtofmi2Status fmi2_status_ok = 0"
| "fmi2StatusToProtofmi2Status fmi2_status_warning = 1"
| "fmi2StatusToProtofmi2Status fmi2_status_discard = 2"
| "fmi2StatusToProtofmi2Status fmi2_status_error = 3"
| "fmi2StatusToProtofmi2Status fmi2_status_fatal = 4"
| "fmi2StatusToProtofmi2Status fmi2_status_pending = 5"

datatype jm_status = jm_status_error | jm_status_success | jm_status_warning

fun fmiJMStatusToProtoJMStatus :: "jm_status \<Rightarrow> int" where
  "fmiJMStatusToProtoJMStatus jm_status_error = 0"
| "fmiJMStatusToProtoJMStatus jm_status_success = 1"
| "fmiJMStatusToProtoJMStatus jm_status_warning = 2"

fun fmiJMLogLevelToProtoJMLogLevel :: "jm_log_level \<Rightarrow> int" where
  "fmiJMLogLevelToProtoJMLogLevel jm_log_level_nothing = 0"
| "fmiJMLogLevelToProtoJMLogLevel jm_log_level_fatal = 1"
| "fmiJMLogLevelToProtoJMLogLevel jm_log_level_error = 2"
| "fmiJMLogLevelToProtoJMLogLevel jm_log_level_warning = 3"
| "fmiJMLogLevelToProtoJMLogLevel jm_log_level_info = 4"
| "fmiJMLogLevelToProtoJMLogLevel jm_log_level_verbose = 5"
| "fmiJMLogLevelToProtoJMLogLevel jm_log_level_debug = 6"
| "fmiJMLogLevelToProtoJMLogLevel jm_log_level_all = 7"

definition protoJMLogLevelToFmiJMLogLevel :: "int \<Rightarrow> jm_log_level" where
  "protoJMLogLevelToFmiJMLogLevel n =
     (if n = 0 then jm_log_level_nothing else if n = 1 then jm_log_level_fatal
      else if n = 2 then jm_log_level_error else if n = 3 then jm_log_level_warning
      else if n = 4 then jm_log_level_info else if n = 5 then jm_log_level_verbose
      else if n = 6 then jm_log_level_debug else if n = 7 then jm_log_level_all
      else jm_log_level_nothing)"

datatype fmi2_status_kind = fmi2_do_step_status | fmi2_pending_status | fmi2_last_successful_time | fmi2_terminated

definition protoStatusKindToFmiStatusKind :: "int \<Rightarrow> fmi2_status_kind" where
  "protoStatusKindToFmiStatusKind k =
     (if k = 0 then fmi2_do_step_status else if k = 1 then fmi2_pending_status
      else if k = 2 then fmi2_last_successful_time else if k = 3 then fmi2_terminated
      else fmi2_do_step_status)"

text \<open>\<^verbatim>\<open>statusIsOK\<close> of src/fmitcp/Client.cpp, for the two kinds of status.\<close>

definition statusIsOK_jm :: "int \<Rightarrow> bool" where
  "statusIsOK_jm jm \<longleftrightarrow> jm = 1"

definition statusIsOK :: "int \<Rightarrow> bool" where
  "statusIsOK fmi2 \<longleftrightarrow> fmi2 = 0"

record event_info =
  newDiscreteStatesNeeded :: bool
  terminateSimulation :: bool
  nominalsOfContinuousStatesChanged :: bool
  valuesOfContinuousStatesChanged :: bool
  nextEventTimeDefined :: bool
  nextEventTime :: double

subsection \<open>Requests and responses\<close>

record deriv_req =
  v_ref :: "int list"
  z_ref :: "int list"
  dv :: "double list"

text \<open>\<^verbatim>\<open>fmi2_kinematic_req\<close>: optional inputs, the references whose future values are wanted, and
  directional derivatives.\<close>

record kinematic_req =
  kin_reals :: "(int list \<times> double list) option"
  kin_ints :: "(int list \<times> int list) option"
  kin_bools :: "(int list \<times> bool list) option"
  kin_strings :: "(int list \<times> string list) option"
  future_velocity_vrs :: "int list"
  kin_point :: double
  kin_stepsize :: double
  get_derivs :: "deriv_req list"

definition empty_kinematic_req :: kinematic_req where
  "empty_kinematic_req = \<lparr>kin_reals = None, kin_ints = None, kin_bools = None, kin_strings = None,
     future_velocity_vrs = [], kin_point = 0, kin_stepsize = 0, get_derivs = []\<rparr>"

record kinematic_res =
  kin_status :: int
  future_velocities :: "double list"
  derivs :: "(int \<times> double list) list"   \<comment> \<open>status and \<^verbatim>\<open>dz\<close> of each\<close>

datatype (plugins only: code) request =
    get_version_req
  | set_debug_logging_req bool "string list"
  | instantiate_req bool "int option"
  | free_instance_req
  | setup_experiment_req bool double double bool double
  | enter_initialization_mode_req
  | exit_initialization_mode_req
  | terminate_req
  | reset_req
  | get_real_req "int list"
  | get_integer_req "int list"
  | get_boolean_req "int list"
  | get_string_req "int list"
  | set_real_req "int list" "double list"
  | set_integer_req "int list" "int list"
  | set_boolean_req "int list" "bool list"
  | set_string_req "int list" "string list"
  | get_fmu_state_req
  | set_fmu_state_req int
  | free_fmu_state_req int
  | set_free_last_fmu_state_req
  | get_directional_derivative_req deriv_req
  | enter_event_mode_req
  | new_discrete_states_req
  | enter_continuous_time_mode_req
  | completed_integrator_step_req
  | set_time_req double
  | set_continuous_states_req int "double list"
  | get_event_indicators_req int
  | get_continuous_states_req int
  | get_derivatives_req int
  | get_nominal_continuous_states_req int
  | set_real_input_derivatives_req "int list" "int list" "double list"
  | get_real_output_derivatives_req "int list" "int list"
  | do_step_req double double bool
  | cancel_step_req
  | get_status_req int
  | get_real_status_req int
  | get_integer_status_req int
  | get_boolean_status_req int
  | get_string_status_req int
  | kinematic_request kinematic_req
  | get_xml_req

datatype (plugins only: code) response =
    get_version_res string
  | set_debug_logging_res int
  | instantiate_res int
  | free_instance_res
  | setup_experiment_res int
  | enter_initialization_mode_res int
  | exit_initialization_mode_res int
  | terminate_res int
  | reset_res int
  | get_real_res int "double list"
  | get_integer_res int "int list"
  | get_boolean_res int "bool list"
  | get_string_res int "string list"
  | set_real_res int
  | set_integer_res int
  | set_boolean_res int
  | set_string_res int
  | get_fmu_state_res int int
  | set_fmu_state_res int
  | free_fmu_state_res int
  | set_free_last_fmu_state_res int
  | get_directional_derivative_res int "double list"
  | enter_event_mode_res int
  | new_discrete_states_res event_info
  | enter_continuous_time_mode_res int
  | completed_integrator_step_res bool int
  | set_time_res int
  | set_continuous_states_res int
  | get_event_indicators_res int "double list"
  | get_continuous_states_res int "double list"
  | get_derivatives_res int "double list"
  | get_nominal_continuous_states_res int "double list"
  | set_real_input_derivatives_res int
  | get_real_output_derivatives_res int "double list"
  | do_step_res int
  | cancel_step_res int
  | get_status_res int
  | get_real_status_res double
  | get_integer_status_res int
  | get_boolean_status_res bool
  | get_string_status_res string
  | kinematic_response kinematic_res
  | get_xml_res int string

text \<open>The numbers of \<^verbatim>\<open>fmitcp_message_Type\<close>.\<close>

primrec request_type :: "request \<Rightarrow> nat" where
  "request_type (set_real_input_derivatives_req _ _ _) = 101"
| "request_type (get_real_output_derivatives_req _ _) = 103"
| "request_type (do_step_req _ _ _) = 105"
| "request_type cancel_step_req = 107"
| "request_type (get_status_req _) = 109"
| "request_type (get_real_status_req _) = 111"
| "request_type (get_integer_status_req _) = 113"
| "request_type (get_boolean_status_req _) = 115"
| "request_type (get_string_status_req _) = 117"
| "request_type enter_event_mode_req = 201"
| "request_type new_discrete_states_req = 203"
| "request_type enter_continuous_time_mode_req = 205"
| "request_type completed_integrator_step_req = 207"
| "request_type (set_time_req _) = 209"
| "request_type (set_continuous_states_req _ _) = 211"
| "request_type (get_event_indicators_req _) = 213"
| "request_type (get_continuous_states_req _) = 215"
| "request_type (get_derivatives_req _) = 217"
| "request_type (get_nominal_continuous_states_req _) = 219"
| "request_type get_version_req = 301"
| "request_type (set_debug_logging_req _ _) = 303"
| "request_type (instantiate_req _ _) = 305"
| "request_type free_instance_req = 307"
| "request_type (setup_experiment_req _ _ _ _ _) = 309"
| "request_type enter_initialization_mode_req = 311"
| "request_type exit_initialization_mode_req = 313"
| "request_type terminate_req = 315"
| "request_type reset_req = 317"
| "request_type (get_real_req _) = 319"
| "request_type (get_integer_req _) = 321"
| "request_type (get_boolean_req _) = 323"
| "request_type (get_string_req _) = 325"
| "request_type (set_real_req _ _) = 327"
| "request_type (set_integer_req _ _) = 329"
| "request_type (set_boolean_req _ _) = 331"
| "request_type (set_string_req _ _) = 333"
| "request_type get_fmu_state_req = 335"
| "request_type (set_fmu_state_req _) = 337"
| "request_type (free_fmu_state_req _) = 339"
| "request_type (get_directional_derivative_req _) = 347"
| "request_type set_free_last_fmu_state_req = 349"
| "request_type (kinematic_request _) = 351"
| "request_type get_xml_req = 401"

primrec response_type :: "response \<Rightarrow> nat" where
  "response_type (set_real_input_derivatives_res _) = 102"
| "response_type (get_real_output_derivatives_res _ _) = 104"
| "response_type (do_step_res _) = 106"
| "response_type (cancel_step_res _) = 108"
| "response_type (get_status_res _) = 110"
| "response_type (get_real_status_res _) = 112"
| "response_type (get_integer_status_res _) = 114"
| "response_type (get_boolean_status_res _) = 116"
| "response_type (get_string_status_res _) = 118"
| "response_type (enter_event_mode_res _) = 202"
| "response_type (new_discrete_states_res _) = 204"
| "response_type (enter_continuous_time_mode_res _) = 206"
| "response_type (completed_integrator_step_res _ _) = 208"
| "response_type (set_time_res _) = 210"
| "response_type (set_continuous_states_res _) = 212"
| "response_type (get_event_indicators_res _ _) = 214"
| "response_type (get_continuous_states_res _ _) = 216"
| "response_type (get_derivatives_res _ _) = 218"
| "response_type (get_nominal_continuous_states_res _ _) = 220"
| "response_type (get_version_res _) = 302"
| "response_type (set_debug_logging_res _) = 304"
| "response_type (instantiate_res _) = 306"
| "response_type free_instance_res = 308"
| "response_type (setup_experiment_res _) = 310"
| "response_type (enter_initialization_mode_res _) = 312"
| "response_type (exit_initialization_mode_res _) = 314"
| "response_type (terminate_res _) = 316"
| "response_type (reset_res _) = 318"
| "response_type (get_real_res _ _) = 320"
| "response_type (get_integer_res _ _) = 322"
| "response_type (get_boolean_res _ _) = 324"
| "response_type (get_string_res _ _) = 326"
| "response_type (set_real_res _) = 328"
| "response_type (set_integer_res _) = 330"
| "response_type (set_boolean_res _) = 332"
| "response_type (set_string_res _) = 334"
| "response_type (get_fmu_state_res _ _) = 336"
| "response_type (set_fmu_state_res _) = 338"
| "response_type (free_fmu_state_res _) = 340"
| "response_type (get_directional_derivative_res _ _) = 348"
| "response_type (set_free_last_fmu_state_res _) = 350"
| "response_type (kinematic_response _) = 352"
| "response_type (get_xml_res _ _) = 402"

subsection \<open>Making requests\<close>

definition fmi2_import_instantiate2 :: "bool \<Rightarrow> request" where
  "fmi2_import_instantiate2 visible = instantiate_req visible None"

definition fmi2_import_setup_experiment :: "bool \<Rightarrow> double \<Rightarrow> double \<Rightarrow> bool \<Rightarrow> double \<Rightarrow> request" where
  "fmi2_import_setup_experiment toleranceDefined tolerance startTime stopTimeDefined stopTime =
     setup_experiment_req toleranceDefined tolerance startTime stopTimeDefined stopTime"

definition fmi2_import_do_step :: "double \<Rightarrow> double \<Rightarrow> bool \<Rightarrow> request" where
  "fmi2_import_do_step currentCommunicationPoint communicationStepSize newStep =
     do_step_req currentCommunicationPoint communicationStepSize newStep"

text \<open>The derivatives are never put into these two messages.\<close>

definition fmi2_import_set_real_input_derivatives :: "int list \<Rightarrow> int list \<Rightarrow> double list \<Rightarrow> request" where
  "fmi2_import_set_real_input_derivatives valueRefs orders values = set_real_input_derivatives_req [] [] []"

definition fmi2_import_get_real_output_derivatives :: "int list \<Rightarrow> int list \<Rightarrow> request" where
  "fmi2_import_get_real_output_derivatives valueRefs orders = get_real_output_derivatives_req [] []"

definition fmi2_import_set_continuous_states :: "double list \<Rightarrow> nat \<Rightarrow> request res" where
  "fmi2_import_set_continuous_states x nx =
     (if length x < nx then Inl (UB ''x'') else Inr (set_continuous_states_req (int nx) (take nx x)))"

definition fmi2_import_set_real :: "int list \<Rightarrow> double list \<Rightarrow> request res" where
  "fmi2_import_set_real valueRefs values =
     (if length valueRefs \<noteq> length values then Inl (Fatal ''valueRefs.size() != values.size()'')
      else Inr (set_real_req valueRefs values))"

definition fmi2_import_get_directional_derivative :: "int list \<Rightarrow> int list \<Rightarrow> double list \<Rightarrow> request" where
  "fmi2_import_get_directional_derivative z v d =
     get_directional_derivative_req \<lparr>v_ref = v, z_ref = z, dv = d\<rparr>"

subsection \<open>Numbers of the protocol\<close>

lemma statusIsOK_iff: "statusIsOK (fmi2StatusToProtofmi2Status s) \<longleftrightarrow> s = fmi2_status_ok"
  by (cases s) (simp_all add: statusIsOK_def)

lemma statusIsOK_jm_iff: "statusIsOK_jm (fmiJMStatusToProtoJMStatus s) \<longleftrightarrow> s = jm_status_success"
  by (cases s) (simp_all add: statusIsOK_jm_def)

lemma log_level_roundtrip: "protoJMLogLevelToFmiJMLogLevel (fmiJMLogLevelToProtoJMLogLevel l) = l"
  by (cases l) (simp_all add: protoJMLogLevelToFmiJMLogLevel_def)

end
