(* ===== verification/Server.thy ===== *)
theory Server
  imports Messages
begin

text \<open>
  The FMU server (src/fmitcp/Server.cpp): its state, one handler per message type, the
  kinematic request, directional derivatives computed by stepping the FMU twice, the table of saved FMU states
  and the HDF5 rows. The FMU behind the FMI Library is a parameter: a record of functions over an
  abstract instance state. Logging and timers are left out.
\<close>

subsection \<open>The FMU as a parameter\<close>

datatype causality = causality_parameter | causality_calculated_parameter | causality_input
  | causality_output | causality_local | causality_independent | causality_unknown

datatype start_value = Start_real double | Start_int int | Start_bool bool | Start_str string | Start_enum int

record model_var =
  mv_vr :: int
  mv_constant :: bool   \<comment> \<open>variability is constant\<close>
  mv_causality :: causality
  mv_start :: "start_value option"

record ('f, 's) fmu =
  api_version :: string
  api_set_debug_logging :: "bool \<Rightarrow> 'f \<Rightarrow> fmi2_status \<times> 'f"
  api_instantiate :: "bool \<Rightarrow> bool \<Rightarrow> 'f \<Rightarrow> jm_status \<times> 'f"   \<comment> \<open>model exchange?, visible\<close>
  api_free_instance :: "'f \<Rightarrow> 'f"
  api_setup_experiment :: "bool \<Rightarrow> double \<Rightarrow> double \<Rightarrow> bool \<Rightarrow> double \<Rightarrow> 'f \<Rightarrow> fmi2_status \<times> 'f"
  api_enter_initialization_mode :: "'f \<Rightarrow> fmi2_status \<times> 'f"
  api_exit_initialization_mode :: "'f \<Rightarrow> fmi2_status \<times> 'f"
  api_terminate :: "'f \<Rightarrow> fmi2_status \<times> 'f"
  api_reset :: "'f \<Rightarrow> fmi2_status \<times> 'f"
  api_get_real :: "int list \<Rightarrow> 'f \<Rightarrow> fmi2_status \<times> double list"
  api_get_integer :: "int list \<Rightarrow> 'f \<Rightarrow> fmi2_status \<times> int list"
  api_get_boolean :: "int list \<Rightarrow> 'f \<Rightarrow> fmi2_status \<times> bool list"
  api_get_string :: "int list \<Rightarrow> 'f \<Rightarrow> fmi2_status \<times> string list"
  api_set_real :: "int list \<Rightarrow> double list \<Rightarrow> 'f \<Rightarrow> fmi2_status \<times> 'f"
  api_set_integer :: "int list \<Rightarrow> int list \<Rightarrow> 'f \<Rightarrow> fmi2_status \<times> 'f"
  api_set_boolean :: "int list \<Rightarrow> bool list \<Rightarrow> 'f \<Rightarrow> fmi2_status \<times> 'f"
  api_set_string :: "int list \<Rightarrow> string list \<Rightarrow> 'f \<Rightarrow> fmi2_status \<times> 'f"
  api_get_fmu_state :: "'f \<Rightarrow> fmi2_status \<times> 's option"
  api_set_fmu_state :: "'s option \<Rightarrow> 'f \<Rightarrow> fmi2_status \<times> 'f"
  api_free_fmu_state :: "'s option \<Rightarrow> 'f \<Rightarrow> fmi2_status \<times> 'f"
  api_get_directional_derivative :: "int list \<Rightarrow> int list \<Rightarrow> double list \<Rightarrow> 'f \<Rightarrow> fmi2_status \<times> double list"
  api_enter_event_mode :: "'f \<Rightarrow> fmi2_status \<times> 'f"
  api_new_discrete_states :: "'f \<Rightarrow> event_info \<times> 'f"
  api_enter_continuous_time_mode :: "'f \<Rightarrow> fmi2_status \<times> 'f"
  api_set_time :: "double \<Rightarrow> 'f \<Rightarrow> fmi2_status \<times> 'f"
  api_set_continuous_states :: "double list \<Rightarrow> 'f \<Rightarrow> fmi2_status \<times> 'f"
  api_get_event_indicators :: "nat \<Rightarrow> 'f \<Rightarrow> fmi2_status \<times> double list"
  api_get_continuous_states :: "nat \<Rightarrow> 'f \<Rightarrow> fmi2_status \<times> double list"
  api_get_derivatives :: "nat \<Rightarrow> 'f \<Rightarrow> fmi2_status \<times> double list"
  api_get_nominals :: "nat \<Rightarrow> 'f \<Rightarrow> fmi2_status \<times> double list"
  api_set_real_input_derivatives :: "int list \<Rightarrow> int list \<Rightarrow> double list \<Rightarrow> 'f \<Rightarrow> fmi2_status \<times> 'f"
  api_get_real_output_derivatives :: "int list \<Rightarrow> int list \<Rightarrow> 'f \<Rightarrow> fmi2_status \<times> double list"
  api_do_step :: "double \<Rightarrow> double \<Rightarrow> bool \<Rightarrow> 'f \<Rightarrow> fmi2_status \<times> 'f"
  api_cancel_step :: "'f \<Rightarrow> fmi2_status \<times> 'f"
  api_get_status :: "fmi2_status_kind \<Rightarrow> 'f \<Rightarrow> fmi2_status"
  api_get_real_status :: "fmi2_status_kind \<Rightarrow> 'f \<Rightarrow> double"
  api_get_integer_status :: "fmi2_status_kind \<Rightarrow> 'f \<Rightarrow> int"
  api_get_boolean_status :: "fmi2_status_kind \<Rightarrow> 'f \<Rightarrow> bool"
  api_get_string_status :: "fmi2_status_kind \<Rightarrow> 'f \<Rightarrow> string"
  cap_directionalDerivatives :: bool
  cap_getAndSetFMUstate :: bool
  api_variables :: "model_var list"
  api_outputs :: "(int \<times> fmi2_base_type) list"
  api_modelDescription :: "string option"   \<comment> \<open>content of modelDescription.xml\<close>

text \<open>A buffer of \<open>n\<close> entries the FMU has written \<open>xs\<close> into.\<close>

definition buffer :: "nat \<Rightarrow> 'a \<Rightarrow> 'a list \<Rightarrow> 'a list" where
  "buffer n z xs = take n (xs @ replicate n z)"

lemma length_buffer [simp]: "length (buffer n z xs) = n"
  by (simp add: buffer_def)

lemma buffer_full: "length xs = n \<Longrightarrow> buffer n z xs = xs"
  by (simp add: buffer_def)

subsection \<open>State\<close>

datatype hdf5_cell = Cell_real double | Cell_int int | Cell_bool bool

record ('f, 's) server =
  m_sendDummyResponses :: bool
  m_fmi2Instance :: 'f
  lastStateId :: int
  nextStateId :: int
  stateMap :: "int \<rightharpoonup> 's option"
  currentCommunicationPoint :: double
  communicationStepSize :: double
  m_freed :: bool
  hdf5Filename :: string
  field_offset :: "nat list"
  rowsz :: nat
  nrecords :: nat
  hdf5data :: "hdf5_cell list list"

text \<open>The globals \<^verbatim>\<open>fmigo_loglevel\<close> and \<^verbatim>\<open>alwaysComputeNumericalDirectionalDerivatives\<close>.\<close>

record server_env =
  fmigo_loglevel :: jm_log_level
  alwaysComputeNumericalDirectionalDerivatives :: bool

type_synonym ('f, 's) handled = "(('f, 's) server \<times> response option) res"

definition reply :: "('f, 's) server \<Rightarrow> response \<Rightarrow> ('f, 's) handled" where
  "reply srv r = Inr (srv, Some r)"

text \<open>Most messages call one FMI function unless the server only sends dummy responses.\<close>

definition call_fmu :: "('f \<Rightarrow> fmi2_status \<times> 'f) \<Rightarrow> ('f, 's) server \<Rightarrow> fmi2_status \<times> ('f, 's) server" where
  "call_fmu f srv =
     (if m_sendDummyResponses srv then (fmi2_status_ok, srv)
      else let (st, x) = f (m_fmi2Instance srv) in (st, srv\<lparr>m_fmi2Instance := x\<rparr>))"

definition read_fmu :: "nat \<Rightarrow> 'a \<Rightarrow> ('f \<Rightarrow> fmi2_status \<times> 'a list) \<Rightarrow> ('f, 's) server \<Rightarrow> fmi2_status \<times> 'a list" where
  "read_fmu n z f srv =
     (if m_sendDummyResponses srv then (fmi2_status_ok, replicate n z)
      else let (st, xs) = f (m_fmi2Instance srv) in (st, buffer n z xs))"

text \<open>The loops that copy value references and values: one value is read for each reference.\<close>

definition copy_values :: "int list \<Rightarrow> 'a list \<Rightarrow> 'a list res" where
  "copy_values vrs vals = (if length vals < length vrs then Inl (UB ''values'') else Inr (take (length vrs) vals))"

subsection \<open>Start values\<close>

definition has_settable_start :: "model_var \<Rightarrow> bool" where
  "has_settable_start v \<longleftrightarrow> mv_start v \<noteq> None \<and> \<not> mv_constant v
     \<and> (mv_causality v = causality_parameter \<or> mv_causality v = causality_input)"

definition set_start :: "('f, 's) fmu \<Rightarrow> model_var \<Rightarrow> 'f \<Rightarrow> 'f" where
  "set_start api v x =
     (if has_settable_start v then
        (case mv_start v of
           Some (Start_real r) \<Rightarrow> snd (api_set_real api [mv_vr v] [r] x)
         | Some (Start_int i) \<Rightarrow> snd (api_set_integer api [mv_vr v] [i] x)
         | Some (Start_bool b) \<Rightarrow> snd (api_set_boolean api [mv_vr v] [b] x)
         | Some (Start_str s) \<Rightarrow> snd (api_set_string api [mv_vr v] [s] x)
         | Some (Start_enum i) \<Rightarrow> snd (api_set_integer api [mv_vr v] [i] x)
         | None \<Rightarrow> x)
      else x)"

definition setStartValues :: "('f, 's) fmu \<Rightarrow> 'f \<Rightarrow> 'f" where
  "setStartValues api = fold (set_start api) (api_variables api)"

subsection \<open>Directional derivatives\<close>

definition computeNumericalDirectionalDerivative ::
  "('f, 's) fmu \<Rightarrow> ('f, 's) server \<Rightarrow> int list \<Rightarrow> int list \<Rightarrow> double list \<Rightarrow> (double list \<times> ('f, 's) server) res" where
  "computeNumericalDirectionalDerivative api srv z v d =
     (let t = currentCommunicationPoint srv; dt = communicationStepSize srv;
          x0 = m_fmi2Instance srv;
          state = snd (api_get_fmu_state api x0);
          v0 = buffer (length v) 0 (snd (api_get_real api v x0));
          x1 = snd (api_do_step api t dt False x0);
          z0 = buffer (length z) 0 (snd (api_get_real api z x1));
          x2 = snd (api_set_fmu_state api state x1)
      in if length d < length v then Inl (UB ''dv'') else
      let v1 = map2 (+) v0 d;
          x3 = snd (api_set_real api v v1 x2);
          x4 = snd (api_do_step api t dt False x3);
          z1 = buffer (length z) 0 (snd (api_get_real api z x4));
          x5 = snd (api_set_fmu_state api state x4);
          x6 = snd (api_free_fmu_state api state x5)
      in Inr (map2 (-) z1 z0, srv\<lparr>m_fmi2Instance := x6\<rparr>))"

definition getDirectionalDerivatives ::
  "server_env \<Rightarrow> ('f, 's) fmu \<Rightarrow> ('f, 's) server \<Rightarrow> deriv_req \<Rightarrow> (fmi2_status \<times> double list \<times> ('f, 's) server) res" where
  "getDirectionalDerivatives env api srv r =
     (let n = length (z_ref r) in
      if m_sendDummyResponses srv then Inr (fmi2_status_ok, replicate n 0, srv)
      else if \<not> alwaysComputeNumericalDirectionalDerivatives env \<and> cap_directionalDerivatives api then
        let (st, dz) = api_get_directional_derivative api (v_ref r) (z_ref r) (dv r) (m_fmi2Instance srv)
        in Inr (st, buffer n 0 dz, srv)
      else if cap_getAndSetFMUstate api then
        rbind (computeNumericalDirectionalDerivative api srv (z_ref r) (v_ref r) (dv r)) (\<lambda>(dz, srv).
          Inr (fmi2_status_ok, dz, srv))
      else Inr (fmi2_status_error, replicate n 0, srv))"

subsection \<open>HDF5 rows\<close>

definition fmi2_type_size :: "fmi2_base_type \<Rightarrow> nat res" where
  "fmi2_type_size t =
     (case t of fmi2_base_type_real \<Rightarrow> Inr 8 | fmi2_base_type_int \<Rightarrow> Inr 4 | fmi2_base_type_bool \<Rightarrow> Inr 4
      | _ \<Rightarrow> Inl (Fatal ''Type not supported for HDF5 output''))"

definition getHDF5Info :: "('f, 's) fmu \<Rightarrow> ('f, 's) server \<Rightarrow> ('f, 's) server res" where
  "getHDF5Info api srv =
     (if hdf5Filename srv = [] then Inr srv
      else rbind (rfold (\<lambda>(vr, ty) (offs, ofs). rbind (fmi2_type_size ty) (\<lambda>sz. Inr (offs @ [ofs], ofs + sz)))
                    (api_outputs api) (field_offset srv @ [0], 8)) (\<lambda>(offs, ofs).
        Inr (srv\<lparr>field_offset := offs, rowsz := ofs, nrecords := 0\<rparr>)))"

definition hdf5_cell_of :: "('f, 's) fmu \<Rightarrow> 'f \<Rightarrow> int \<times> fmi2_base_type \<Rightarrow> hdf5_cell res" where
  "hdf5_cell_of api x = (\<lambda>(vr, ty).
     (case ty of
        fmi2_base_type_real \<Rightarrow> Inr (Cell_real (hd (buffer 1 0 (snd (api_get_real api [vr] x)))))
      | fmi2_base_type_int \<Rightarrow> Inr (Cell_int (hd (buffer 1 0 (snd (api_get_integer api [vr] x)))))
      | fmi2_base_type_bool \<Rightarrow> Inr (Cell_bool (hd (buffer 1 False (snd (api_get_boolean api [vr] x)))))
      | _ \<Rightarrow> Inl (Fatal ''Type not supported for HDF5 output'')))"

definition fillHDF5Row :: "('f, 's) fmu \<Rightarrow> 'f \<Rightarrow> double \<Rightarrow> hdf5_cell list res" where
  "fillHDF5Row api x t =
     rbind (rmap (hdf5_cell_of api x) (api_outputs api)) (\<lambda>cells. Inr (Cell_real t # cells))"


subsection \<open>Handlers\<close>

definition handle_get_version :: "('f, 's) fmu \<Rightarrow> ('f, 's) server \<Rightarrow> ('f, 's) handled" where
  "handle_get_version api srv =
     reply srv (get_version_res (if m_sendDummyResponses srv then ''VeRsIoN'' else api_version api))"

definition is_debug_level :: "jm_log_level \<Rightarrow> bool" where
  "is_debug_level l \<longleftrightarrow> l = jm_log_level_debug \<or> l = jm_log_level_all"

definition handle_set_debug_logging :: "server_env \<Rightarrow> ('f, 's) fmu \<Rightarrow> ('f, 's) server \<Rightarrow> ('f, 's) handled" where
  "handle_set_debug_logging env api srv =
     (let (st, srv) = call_fmu (api_set_debug_logging api (is_debug_level (fmigo_loglevel env))) srv
      in reply srv (set_debug_logging_res (fmi2StatusToProtofmi2Status st)))"

definition handle_instantiate :: "('f, 's) fmu \<Rightarrow> bool \<Rightarrow> int option \<Rightarrow> ('f, 's) server \<Rightarrow> ('f, 's) handled" where
  "handle_instantiate api visible fmuType srv =
     (let model_exchange = (fmuType = Some 2);
          (st, srv) = (if m_sendDummyResponses srv then (jm_status_success, srv)
             else let (st, x) = api_instantiate api model_exchange visible (m_fmi2Instance srv)
                  in (st, srv\<lparr>m_fmi2Instance := setStartValues api x\<rparr>))
      in reply srv (instantiate_res (fmiJMStatusToProtoJMStatus st)))"

text \<open>A request behind this one in the same transmission is still handled, on what \<open>api_free_instance\<close> leaves; the program
  hands the freed pointer to the library, and what that does is not specified. The process ends after the transmission.\<close>

definition handle_free_instance :: "('f, 's) fmu \<Rightarrow> ('f, 's) server \<Rightarrow> ('f, 's) handled" where
  "handle_free_instance api srv =
     (let srv = (if hdf5Filename srv \<noteq> [] then srv\<lparr>nrecords := 0, hdf5data := []\<rparr> else srv);
          srv = (if m_sendDummyResponses srv then srv
                 else srv\<lparr>m_fmi2Instance := api_free_instance api (m_fmi2Instance srv)\<rparr>)
      in reply (srv\<lparr>m_freed := True\<rparr>) free_instance_res)"

text \<open>\<^verbatim>\<open>has_tolerancedefined()\<close> and \<^verbatim>\<open>has_stoptimedefined()\<close> say that the required fields are
  present, not what they hold: both are true for every message that parses.\<close>

definition handle_setup_experiment ::
  "('f, 's) fmu \<Rightarrow> bool \<Rightarrow> double \<Rightarrow> double \<Rightarrow> bool \<Rightarrow> double \<Rightarrow> ('f, 's) server \<Rightarrow> ('f, 's) handled" where
  "handle_setup_experiment api tolDefined tolerance starttime stopDefined stoptime srv =
     (let srv = srv\<lparr>currentCommunicationPoint := starttime\<rparr>;
          toleranceDefined = True; stopTimeDefined = True;
          (st, srv) = call_fmu (api_setup_experiment api toleranceDefined tolerance starttime stopTimeDefined stoptime) srv
      in reply srv (setup_experiment_res (fmi2StatusToProtofmi2Status st)))"

definition handle_enter_initialization_mode :: "('f, 's) fmu \<Rightarrow> ('f, 's) server \<Rightarrow> ('f, 's) handled" where
  "handle_enter_initialization_mode api srv =
     (let (st, srv) = call_fmu (api_enter_initialization_mode api) srv
      in reply srv (enter_initialization_mode_res (fmi2StatusToProtofmi2Status st)))"

definition handle_exit_initialization_mode :: "('f, 's) fmu \<Rightarrow> ('f, 's) server \<Rightarrow> ('f, 's) handled" where
  "handle_exit_initialization_mode api srv =
     (let (st, srv) = call_fmu (api_exit_initialization_mode api) srv
      in reply srv (exit_initialization_mode_res (fmi2StatusToProtofmi2Status st)))"

definition handle_terminate :: "('f, 's) fmu \<Rightarrow> ('f, 's) server \<Rightarrow> ('f, 's) handled" where
  "handle_terminate api srv =
     (let (st, srv) = call_fmu (api_terminate api) srv
      in reply srv (terminate_res (fmi2StatusToProtofmi2Status st)))"

definition handle_reset :: "('f, 's) fmu \<Rightarrow> ('f, 's) server \<Rightarrow> ('f, 's) handled" where
  "handle_reset api srv =
     (let (st, srv) = call_fmu (api_reset api) srv
      in reply srv (reset_res (fmi2StatusToProtofmi2Status st)))"

definition handle_get_real :: "('f, 's) fmu \<Rightarrow> int list \<Rightarrow> ('f, 's) server \<Rightarrow> ('f, 's) handled" where
  "handle_get_real api vr srv =
     (let (st, values) = read_fmu (length vr) 0 (api_get_real api vr) srv
      in reply srv (get_real_res (fmi2StatusToProtofmi2Status st) values))"

definition handle_get_integer :: "('f, 's) fmu \<Rightarrow> int list \<Rightarrow> ('f, 's) server \<Rightarrow> ('f, 's) handled" where
  "handle_get_integer api vr srv =
     (let (st, values) = read_fmu (length vr) 0 (api_get_integer api vr) srv
      in reply srv (get_integer_res (fmi2StatusToProtofmi2Status st) values))"

definition handle_get_boolean :: "('f, 's) fmu \<Rightarrow> int list \<Rightarrow> ('f, 's) server \<Rightarrow> ('f, 's) handled" where
  "handle_get_boolean api vr srv =
     (let (st, values) = read_fmu (length vr) False (api_get_boolean api vr) srv
      in reply srv (get_boolean_res (fmi2StatusToProtofmi2Status st) values))"

text \<open>The buffer of strings holds null pointers until the FMU writes it; a dummy response to a
  request for strings would read them.\<close>

definition handle_get_string :: "('f, 's) fmu \<Rightarrow> int list \<Rightarrow> ('f, 's) server \<Rightarrow> ('f, 's) handled" where
  "handle_get_string api vr srv =
     (if m_sendDummyResponses srv then
        (if vr = [] then reply srv (get_string_res (fmi2StatusToProtofmi2Status fmi2_status_ok) [])
         else Inl (UB ''null string''))
      else let (st, xs) = api_get_string api vr (m_fmi2Instance srv)
        in if length xs < length vr then Inl (UB ''null string'')
           else reply srv (get_string_res (fmi2StatusToProtofmi2Status st) (take (length vr) xs)))"

definition handle_set_real :: "('f, 's) fmu \<Rightarrow> int list \<Rightarrow> double list \<Rightarrow> ('f, 's) server \<Rightarrow> ('f, 's) handled" where
  "handle_set_real api vr vals srv =
     rbind (copy_values vr vals) (\<lambda>value.
     let (st, srv) = call_fmu (api_set_real api vr value) srv
     in reply srv (set_real_res (fmi2StatusToProtofmi2Status st)))"

definition handle_set_integer :: "('f, 's) fmu \<Rightarrow> int list \<Rightarrow> int list \<Rightarrow> ('f, 's) server \<Rightarrow> ('f, 's) handled" where
  "handle_set_integer api vr vals srv =
     rbind (copy_values vr vals) (\<lambda>value.
     let (st, srv) = call_fmu (api_set_integer api vr value) srv
     in reply srv (set_integer_res (fmi2StatusToProtofmi2Status st)))"

definition handle_set_boolean :: "('f, 's) fmu \<Rightarrow> int list \<Rightarrow> bool list \<Rightarrow> ('f, 's) server \<Rightarrow> ('f, 's) handled" where
  "handle_set_boolean api vr vals srv =
     rbind (copy_values vr vals) (\<lambda>value.
     let (st, srv) = call_fmu (api_set_boolean api vr value) srv
     in reply srv (set_boolean_res (fmi2StatusToProtofmi2Status st)))"

definition handle_set_string :: "('f, 's) fmu \<Rightarrow> int list \<Rightarrow> string list \<Rightarrow> ('f, 's) server \<Rightarrow> ('f, 's) handled" where
  "handle_set_string api vr vals srv =
     rbind (copy_values vr vals) (\<lambda>value.
     let (st, srv) = call_fmu (api_set_string api vr value) srv
     in reply srv (set_string_res (fmi2StatusToProtofmi2Status st)))"

definition handle_get_fmu_state :: "('f, 's) fmu \<Rightarrow> ('f, 's) server \<Rightarrow> ('f, 's) handled" where
  "handle_get_fmu_state api srv =
     (let stateId = nextStateId srv;
          srv = srv\<lparr>nextStateId := (nextStateId srv + 1) mod 256, lastStateId := stateId\<rparr>;
          (st, srv) = (if m_sendDummyResponses srv then (fmi2_status_ok, srv)
             else let (st, state) = api_get_fmu_state api (m_fmi2Instance srv)
                  in (st, srv\<lparr>stateMap := (stateMap srv)(stateId \<mapsto> state)\<rparr>))
      in reply srv (get_fmu_state_res stateId (fmi2StatusToProtofmi2Status st)))"

text \<open>\<^verbatim>\<open>stateMap[id]\<close> inserts a null state for an unknown identifier.\<close>

definition handle_set_fmu_state :: "('f, 's) fmu \<Rightarrow> int \<Rightarrow> ('f, 's) server \<Rightarrow> ('f, 's) handled" where
  "handle_set_fmu_state api stateId srv =
     (let (st, srv) = (if m_sendDummyResponses srv then (fmi2_status_ok, srv)
        else let state = (case stateMap srv stateId of None \<Rightarrow> None | Some s \<Rightarrow> s);
                 srv = srv\<lparr>stateMap := (stateMap srv)(stateId \<mapsto> state)\<rparr>;
                 (st, x) = api_set_fmu_state api state (m_fmi2Instance srv)
             in (st, srv\<lparr>m_fmi2Instance := x\<rparr>))
      in reply srv (set_fmu_state_res (fmi2StatusToProtofmi2Status st)))"

text \<open>The iterator of an unknown identifier is the end of the map, which has no element.\<close>

definition handle_free_fmu_state :: "('f, 's) fmu \<Rightarrow> int \<Rightarrow> ('f, 's) server \<Rightarrow> ('f, 's) handled" where
  "handle_free_fmu_state api stateId srv =
     (if m_sendDummyResponses srv then reply srv (free_fmu_state_res (fmi2StatusToProtofmi2Status fmi2_status_ok))
      else case stateMap srv stateId of
          None \<Rightarrow> Inl (UB ''stateMap.end()'')
        | Some state \<Rightarrow>
            let (st, x) = api_free_fmu_state api state (m_fmi2Instance srv)
            in reply (srv\<lparr>m_fmi2Instance := x, stateMap := (stateMap srv)(stateId := None)\<rparr>)
                 (free_fmu_state_res (fmi2StatusToProtofmi2Status st)))"

definition handle_set_free_last_fmu_state :: "('f, 's) fmu \<Rightarrow> ('f, 's) server \<Rightarrow> ('f, 's) handled" where
  "handle_set_free_last_fmu_state api srv =
     (let (st, srv) =
        (case stateMap srv (lastStateId srv) of
           None \<Rightarrow> (fmi2_status_error, srv)
         | Some state \<Rightarrow>
             if lastStateId srv \<ge> 0 then
               let (st, x) = api_set_fmu_state api state (m_fmi2Instance srv) in
               if st = fmi2_status_ok then
                 let (st, x) = api_free_fmu_state api state x
                 in (st, srv\<lparr>m_fmi2Instance := x, stateMap := (stateMap srv)(lastStateId srv := None)\<rparr>)
               else (st, srv\<lparr>m_fmi2Instance := x\<rparr>)
             else (fmi2_status_error, srv))
      in reply srv (set_free_last_fmu_state_res (fmi2StatusToProtofmi2Status st)))"

definition handle_get_directional_derivative ::
  "server_env \<Rightarrow> ('f, 's) fmu \<Rightarrow> deriv_req \<Rightarrow> ('f, 's) server \<Rightarrow> ('f, 's) handled" where
  "handle_get_directional_derivative env api r srv =
     rbind (getDirectionalDerivatives env api srv r) (\<lambda>(st, dz, srv).
       reply srv (get_directional_derivative_res (fmi2StatusToProtofmi2Status st) dz))"

definition handle_enter_event_mode :: "('f, 's) fmu \<Rightarrow> ('f, 's) server \<Rightarrow> ('f, 's) handled" where
  "handle_enter_event_mode api srv =
     (let (st, srv) = call_fmu (api_enter_event_mode api) srv
      in reply srv (enter_event_mode_res (fmi2StatusToProtofmi2Status st)))"

text \<open>A dummy response would read an event info nobody has written.\<close>

definition handle_new_discrete_states :: "('f, 's) fmu \<Rightarrow> ('f, 's) server \<Rightarrow> ('f, 's) handled" where
  "handle_new_discrete_states api srv =
     (if m_sendDummyResponses srv then Inl (UB ''eventInfo'')
      else let (info, x) = api_new_discrete_states api (m_fmi2Instance srv)
        in reply (srv\<lparr>m_fmi2Instance := x\<rparr>) (new_discrete_states_res info))"

definition handle_enter_continuous_time_mode :: "('f, 's) fmu \<Rightarrow> ('f, 's) server \<Rightarrow> ('f, 's) handled" where
  "handle_enter_continuous_time_mode api srv =
     (let (st, srv) = call_fmu (api_enter_continuous_time_mode api) srv
      in reply srv (enter_continuous_time_mode_res (fmi2StatusToProtofmi2Status st)))"

definition handle_completed_integrator_step :: "('f, 's) server \<Rightarrow> ('f, 's) handled" where
  "handle_completed_integrator_step srv = Inr (srv, None)"

definition handle_set_time :: "('f, 's) fmu \<Rightarrow> double \<Rightarrow> ('f, 's) server \<Rightarrow> ('f, 's) handled" where
  "handle_set_time api t srv =
     (let (st, srv) = call_fmu (api_set_time api t) srv
      in reply srv (set_time_res (fmi2StatusToProtofmi2Status st)))"

definition handle_set_continuous_states :: "('f, 's) fmu \<Rightarrow> int \<Rightarrow> double list \<Rightarrow> ('f, 's) server \<Rightarrow> ('f, 's) handled" where
  "handle_set_continuous_states api nx x srv =
     (if int (length x) < nx then Inl (UB ''x'')
      else let (st, srv) = call_fmu (api_set_continuous_states api (take (nat nx) x)) srv
        in reply srv (set_continuous_states_res (fmi2StatusToProtofmi2Status st)))"

text \<open>A negative count is a request for a vector no allocator can make.\<close>

definition read_n :: "int \<Rightarrow> (nat \<Rightarrow> 'f \<Rightarrow> fmi2_status \<times> double list) \<Rightarrow> (int \<Rightarrow> double list \<Rightarrow> response)
    \<Rightarrow> ('f, 's) server \<Rightarrow> ('f, 's) handled" where
  "read_n n get mk srv =
     (if n < 0 then Inl (Uncaught ''std::length_error'')
      else let (st, xs) = read_fmu (nat n) 0 (get (nat n)) srv
        in reply srv (mk (fmi2StatusToProtofmi2Status st) xs))"

definition handle_get_event_indicators :: "('f, 's) fmu \<Rightarrow> int \<Rightarrow> ('f, 's) server \<Rightarrow> ('f, 's) handled" where
  "handle_get_event_indicators api nz srv = read_n nz (api_get_event_indicators api) get_event_indicators_res srv"

definition handle_get_continuous_states :: "('f, 's) fmu \<Rightarrow> int \<Rightarrow> ('f, 's) server \<Rightarrow> ('f, 's) handled" where
  "handle_get_continuous_states api nx srv = read_n nx (api_get_continuous_states api) get_continuous_states_res srv"

definition handle_get_derivatives :: "('f, 's) fmu \<Rightarrow> int \<Rightarrow> ('f, 's) server \<Rightarrow> ('f, 's) handled" where
  "handle_get_derivatives api nd srv = read_n nd (api_get_derivatives api) get_derivatives_res srv"

definition handle_get_nominal_continuous_states :: "('f, 's) fmu \<Rightarrow> int \<Rightarrow> ('f, 's) server \<Rightarrow> ('f, 's) handled" where
  "handle_get_nominal_continuous_states api nx srv = read_n nx (api_get_nominals api) get_nominal_continuous_states_res srv"

definition handle_set_real_input_derivatives ::
  "('f, 's) fmu \<Rightarrow> int list \<Rightarrow> int list \<Rightarrow> double list \<Rightarrow> ('f, 's) server \<Rightarrow> ('f, 's) handled" where
  "handle_set_real_input_derivatives api vr ords vals srv =
     rbind (copy_values vr ords) (\<lambda>order. rbind (copy_values vr vals) (\<lambda>value.
     let (st, srv) = call_fmu (api_set_real_input_derivatives api vr order value) srv
     in reply srv (set_real_input_derivatives_res (fmi2StatusToProtofmi2Status st))))"

definition handle_get_real_output_derivatives ::
  "('f, 's) fmu \<Rightarrow> int list \<Rightarrow> int list \<Rightarrow> ('f, 's) server \<Rightarrow> ('f, 's) handled" where
  "handle_get_real_output_derivatives api vr ords srv =
     rbind (copy_values vr ords) (\<lambda>order.
     let (st, values) = read_fmu (length vr) 0 (api_get_real_output_derivatives api vr order) srv
     in reply srv (get_real_output_derivatives_res (fmi2StatusToProtofmi2Status st) values))"

definition handle_do_step :: "('f, 's) fmu \<Rightarrow> double \<Rightarrow> double \<Rightarrow> bool \<Rightarrow> ('f, 's) server \<Rightarrow> ('f, 's) handled" where
  "handle_do_step api point stepsize newStep srv =
     (let srv = (if newStep then srv\<lparr>currentCommunicationPoint := point + stepsize\<rparr> else srv);
          srv = srv\<lparr>communicationStepSize := stepsize\<rparr>
      in rbind (if hdf5Filename srv = [] then Inr srv
                else rbind (fillHDF5Row api (m_fmi2Instance srv) (currentCommunicationPoint srv)) (\<lambda>row.
                     Inr (srv\<lparr>hdf5data := hdf5data srv @ [row], nrecords := nrecords srv + 1\<rparr>))) (\<lambda>srv.
         let (st, srv) = call_fmu (api_do_step api point stepsize newStep) srv
         in reply srv (do_step_res (fmi2StatusToProtofmi2Status st))))"

definition handle_cancel_step :: "('f, 's) fmu \<Rightarrow> ('f, 's) server \<Rightarrow> ('f, 's) handled" where
  "handle_cancel_step api srv =
     (let (st, srv) = call_fmu (api_cancel_step api) srv
      in reply srv (cancel_step_res (fmi2StatusToProtofmi2Status st)))"

definition handle_get_status :: "('f, 's) fmu \<Rightarrow> int \<Rightarrow> ('f, 's) server \<Rightarrow> ('f, 's) handled" where
  "handle_get_status api k srv =
     (let st = (if m_sendDummyResponses srv then fmi2_status_ok
                else api_get_status api (protoStatusKindToFmiStatusKind k) (m_fmi2Instance srv))
      in reply srv (get_status_res (fmi2StatusToProtofmi2Status st)))"

definition handle_get_real_status :: "('f, 's) fmu \<Rightarrow> int \<Rightarrow> ('f, 's) server \<Rightarrow> ('f, 's) handled" where
  "handle_get_real_status api k srv =
     reply srv (get_real_status_res (if m_sendDummyResponses srv then 0
       else api_get_real_status api (protoStatusKindToFmiStatusKind k) (m_fmi2Instance srv)))"

definition handle_get_integer_status :: "('f, 's) fmu \<Rightarrow> int \<Rightarrow> ('f, 's) server \<Rightarrow> ('f, 's) handled" where
  "handle_get_integer_status api k srv =
     reply srv (get_integer_status_res (if m_sendDummyResponses srv then 0
       else api_get_integer_status api (protoStatusKindToFmiStatusKind k) (m_fmi2Instance srv)))"

definition handle_get_boolean_status :: "('f, 's) fmu \<Rightarrow> int \<Rightarrow> ('f, 's) server \<Rightarrow> ('f, 's) handled" where
  "handle_get_boolean_status api k srv =
     reply srv (get_boolean_status_res (if m_sendDummyResponses srv then False
       else api_get_boolean_status api (protoStatusKindToFmiStatusKind k) (m_fmi2Instance srv)))"

definition handle_get_string_status :: "('f, 's) fmu \<Rightarrow> int \<Rightarrow> ('f, 's) server \<Rightarrow> ('f, 's) handled" where
  "handle_get_string_status api k srv =
     reply srv (get_string_status_res (if m_sendDummyResponses srv then []
       else api_get_string_status api (protoStatusKindToFmiStatusKind k) (m_fmi2Instance srv)))"

definition handle_get_xml :: "server_env \<Rightarrow> ('f, 's) fmu \<Rightarrow> ('f, 's) server \<Rightarrow> ('f, 's) handled" where
  "handle_get_xml env api srv =
     (let xml = (if m_sendDummyResponses srv then []
        else case api_modelDescription api of None \<Rightarrow> []
             | Some content \<Rightarrow> concat (map (\<lambda>line. line @ [CHR 0x0A]) (getlines (CHR 0x0A) content)))
      in reply srv (get_xml_res (fmiJMLogLevelToProtoJMLogLevel (fmigo_loglevel env)) xml))"

subsection \<open>The kinematic request\<close>

text \<open>The stages of \<^verbatim>\<open>fmi2_kinematic_req\<close>; one that does not return OK jumps to the response
  (\<^verbatim>\<open>goto bork\<close>). A stage maps the server and the response so far to a status and the new ones.\<close>

type_synonym ('f, 's) stage = "('f, 's) server \<times> kinematic_res \<Rightarrow> (fmi2_status \<times> ('f, 's) server \<times> kinematic_res) res"

fun run_stages :: "('f, 's) stage list \<Rightarrow> ('f, 's) server \<times> kinematic_res \<Rightarrow> (fmi2_status \<times> ('f, 's) server \<times> kinematic_res) res" where
  "run_stages [] sr = Inr (fmi2_status_ok, sr)"
| "run_stages (g # gs) sr = rbind (g sr) (\<lambda>(st, sr). if st \<noteq> fmi2_status_ok then Inr (st, sr) else run_stages gs sr)"

definition kin_set_stage ::
  "(int list \<times> 'a list) option \<Rightarrow> (int list \<Rightarrow> 'a list \<Rightarrow> 'f \<Rightarrow> fmi2_status \<times> 'f) \<Rightarrow> ('f, 's) stage" where
  "kin_set_stage arg setter = (\<lambda>(srv, res).
     (case arg of
        None \<Rightarrow> Inr (fmi2_status_ok, srv, res)
      | Some (vrs, vals) \<Rightarrow> rbind (copy_values vrs vals) (\<lambda>value.
          let (st, x) = setter vrs value (m_fmi2Instance srv)
          in Inr (st, srv\<lparr>m_fmi2Instance := x\<rparr>, res))))"

definition kin_future_stage :: "('f, 's) fmu \<Rightarrow> kinematic_req \<Rightarrow> ('f, 's) stage" where
  "kin_future_stage api r = (\<lambda>(srv, res).
     if future_velocity_vrs r = [] then Inr (fmi2_status_ok, srv, res)
     else let vrs = future_velocity_vrs r;
              (st1, state) = api_get_fmu_state api (m_fmi2Instance srv)
       in if st1 \<noteq> fmi2_status_ok then Inr (st1, srv, res)
     else let (st2, x2) = api_do_step api (kin_point r) (kin_stepsize r) False (m_fmi2Instance srv)
       in if st2 \<noteq> fmi2_status_ok then Inr (st2, srv\<lparr>m_fmi2Instance := x2\<rparr>, res)
     else let (st3, vel) = api_get_real api vrs x2
       in if st3 \<noteq> fmi2_status_ok then Inr (st3, srv\<lparr>m_fmi2Instance := x2\<rparr>, res)
     else let (st4, x4) = api_set_fmu_state api state x2
       in if st4 \<noteq> fmi2_status_ok then Inr (st4, srv\<lparr>m_fmi2Instance := x4\<rparr>, res)
     else let (st5, x5) = api_free_fmu_state api state x4
       in if st5 \<noteq> fmi2_status_ok then Inr (st5, srv\<lparr>m_fmi2Instance := x5\<rparr>, res)
     else Inr (fmi2_status_ok, srv\<lparr>m_fmi2Instance := x5\<rparr>,
               res\<lparr>future_velocities := future_velocities res @ buffer (length vrs) 0 vel\<rparr>))"

definition kin_deriv_stage :: "server_env \<Rightarrow> ('f, 's) fmu \<Rightarrow> deriv_req \<Rightarrow> ('f, 's) stage" where
  "kin_deriv_stage env api get = (\<lambda>(srv, res).
     rbind (getDirectionalDerivatives env api srv get) (\<lambda>(st, dz, srv).
       Inr (st, srv, res\<lparr>derivs := derivs res @ [(fmi2StatusToProtofmi2Status st, dz)]\<rparr>)))"

definition kin_stages :: "server_env \<Rightarrow> ('f, 's) fmu \<Rightarrow> kinematic_req \<Rightarrow> ('f, 's) stage list" where
  "kin_stages env api r =
     [kin_set_stage (kin_reals r) (api_set_real api),
      kin_set_stage (kin_ints r) (api_set_integer api),
      kin_set_stage (kin_bools r) (api_set_boolean api),
      kin_set_stage (kin_strings r) (api_set_string api),
      kin_future_stage api r] @ map (kin_deriv_stage env api) (get_derivs r)"

definition handle_kinematic :: "server_env \<Rightarrow> ('f, 's) fmu \<Rightarrow> kinematic_req \<Rightarrow> ('f, 's) server \<Rightarrow> ('f, 's) handled" where
  "handle_kinematic env api r srv =
     rbind (run_stages (kin_stages env api r) (srv, \<lparr>kin_status = 0, future_velocities = [], derivs = []\<rparr>))
       (\<lambda>(st, srv, res). reply srv (kinematic_response (res\<lparr>kin_status := fmi2StatusToProtofmi2Status st\<rparr>)))"

subsection \<open>Dispatch\<close>

primrec server_clientDataInner ::
  "server_env \<Rightarrow> ('f, 's) fmu \<Rightarrow> request \<Rightarrow> ('f, 's) server \<Rightarrow> ('f, 's) handled" where
  "server_clientDataInner env api get_version_req srv = handle_get_version api srv"
| "server_clientDataInner env api (set_debug_logging_req on cats) srv = handle_set_debug_logging env api srv"
| "server_clientDataInner env api (instantiate_req visible ty) srv = handle_instantiate api visible ty srv"
| "server_clientDataInner env api free_instance_req srv = handle_free_instance api srv"
| "server_clientDataInner env api (setup_experiment_req td tol start sd stop) srv =
     handle_setup_experiment api td tol start sd stop srv"
| "server_clientDataInner env api enter_initialization_mode_req srv = handle_enter_initialization_mode api srv"
| "server_clientDataInner env api exit_initialization_mode_req srv = handle_exit_initialization_mode api srv"
| "server_clientDataInner env api terminate_req srv = handle_terminate api srv"
| "server_clientDataInner env api reset_req srv = handle_reset api srv"
| "server_clientDataInner env api (get_real_req vr) srv = handle_get_real api vr srv"
| "server_clientDataInner env api (get_integer_req vr) srv = handle_get_integer api vr srv"
| "server_clientDataInner env api (get_boolean_req vr) srv = handle_get_boolean api vr srv"
| "server_clientDataInner env api (get_string_req vr) srv = handle_get_string api vr srv"
| "server_clientDataInner env api (set_real_req vr vals) srv = handle_set_real api vr vals srv"
| "server_clientDataInner env api (set_integer_req vr vals) srv = handle_set_integer api vr vals srv"
| "server_clientDataInner env api (set_boolean_req vr vals) srv = handle_set_boolean api vr vals srv"
| "server_clientDataInner env api (set_string_req vr vals) srv = handle_set_string api vr vals srv"
| "server_clientDataInner env api get_fmu_state_req srv = handle_get_fmu_state api srv"
| "server_clientDataInner env api (set_fmu_state_req i) srv = handle_set_fmu_state api i srv"
| "server_clientDataInner env api (free_fmu_state_req i) srv = handle_free_fmu_state api i srv"
| "server_clientDataInner env api set_free_last_fmu_state_req srv = handle_set_free_last_fmu_state api srv"
| "server_clientDataInner env api (get_directional_derivative_req r) srv = handle_get_directional_derivative env api r srv"
| "server_clientDataInner env api enter_event_mode_req srv = handle_enter_event_mode api srv"
| "server_clientDataInner env api new_discrete_states_req srv = handle_new_discrete_states api srv"
| "server_clientDataInner env api enter_continuous_time_mode_req srv = handle_enter_continuous_time_mode api srv"
| "server_clientDataInner env api completed_integrator_step_req srv = handle_completed_integrator_step srv"
| "server_clientDataInner env api (set_time_req t) srv = handle_set_time api t srv"
| "server_clientDataInner env api (set_continuous_states_req nx x) srv = handle_set_continuous_states api nx x srv"
| "server_clientDataInner env api (get_event_indicators_req n) srv = handle_get_event_indicators api n srv"
| "server_clientDataInner env api (get_continuous_states_req n) srv = handle_get_continuous_states api n srv"
| "server_clientDataInner env api (get_derivatives_req n) srv = handle_get_derivatives api n srv"
| "server_clientDataInner env api (get_nominal_continuous_states_req n) srv = handle_get_nominal_continuous_states api n srv"
| "server_clientDataInner env api (set_real_input_derivatives_req vr ords vals) srv =
     handle_set_real_input_derivatives api vr ords vals srv"
| "server_clientDataInner env api (get_real_output_derivatives_req vr ords) srv =
     handle_get_real_output_derivatives api vr ords srv"
| "server_clientDataInner env api (do_step_req point stepsize newStep) srv = handle_do_step api point stepsize newStep srv"
| "server_clientDataInner env api cancel_step_req srv = handle_cancel_step api srv"
| "server_clientDataInner env api (get_status_req k) srv = handle_get_status api k srv"
| "server_clientDataInner env api (get_real_status_req k) srv = handle_get_real_status api k srv"
| "server_clientDataInner env api (get_integer_status_req k) srv = handle_get_integer_status api k srv"
| "server_clientDataInner env api (get_boolean_status_req k) srv = handle_get_boolean_status api k srv"
| "server_clientDataInner env api (get_string_status_req k) srv = handle_get_string_status api k srv"
| "server_clientDataInner env api (kinematic_request r) srv = handle_kinematic env api r srv"
| "server_clientDataInner env api get_xml_req srv = handle_get_xml env api srv"

text \<open>\<^verbatim>\<open>Server::clientData\<close>: all packets of one transmission, answered in order.\<close>

fun server_clientData ::
  "server_env \<Rightarrow> ('f, 's) fmu \<Rightarrow> request list \<Rightarrow> ('f, 's) server \<Rightarrow> (('f, 's) server \<times> response list) res" where
  "server_clientData env api [] srv = Inr (srv, [])"
| "server_clientData env api (r # rs) srv =
     rbind (server_clientDataInner env api r srv) (\<lambda>(srv, out).
     rbind (server_clientData env api rs srv) (\<lambda>(srv, outs).
       Inr (srv, (case out of None \<Rightarrow> outs | Some x \<Rightarrow> x # outs))))"


subsection \<open>One response for each request\<close>

lemmas handler_defs =
  handle_get_version_def handle_set_debug_logging_def handle_instantiate_def handle_free_instance_def
  handle_setup_experiment_def handle_enter_initialization_mode_def handle_exit_initialization_mode_def
  handle_terminate_def handle_reset_def handle_get_real_def handle_get_integer_def handle_get_boolean_def
  handle_get_string_def handle_set_real_def handle_set_integer_def handle_set_boolean_def handle_set_string_def
  handle_get_fmu_state_def handle_set_fmu_state_def handle_free_fmu_state_def handle_set_free_last_fmu_state_def
  handle_get_directional_derivative_def handle_enter_event_mode_def handle_new_discrete_states_def
  handle_enter_continuous_time_mode_def handle_completed_integrator_step_def handle_set_time_def
  handle_set_continuous_states_def handle_get_event_indicators_def handle_get_continuous_states_def
  handle_get_derivatives_def handle_get_nominal_continuous_states_def handle_set_real_input_derivatives_def
  handle_get_real_output_derivatives_def handle_do_step_def handle_cancel_step_def handle_get_status_def
  handle_get_real_status_def handle_get_integer_status_def handle_get_boolean_status_def
  handle_get_string_status_def handle_get_xml_def handle_kinematic_def

lemma reply_eq: "reply srv x = Inr (srv', out) \<longleftrightarrow> srv' = srv \<and> out = Some x"
  by (auto simp: reply_def)

definition answers :: "request \<Rightarrow> response option \<Rightarrow> bool" where
  "answers r out \<longleftrightarrow>
     (case out of None \<Rightarrow> r = completed_integrator_step_req
      | Some x \<Rightarrow> r \<noteq> completed_integrator_step_req \<and> response_type x = request_type r + 1)"

lemma server_answers:
  "server_clientDataInner env api r srv = Inr (srv', out) \<Longrightarrow> answers r out"
  by (cases r)
     (auto simp: handler_defs reply_eq answers_def Let_def read_n_def rbind_eq_Inr case_prod_beta split: if_splits option.splits)

lemma server_clientData_length:
  "server_clientData env api rs srv = Inr (srv', outs) \<Longrightarrow>
   length outs + count_list rs completed_integrator_step_req = length rs"
proof (induction rs arbitrary: srv srv' outs)
  case (Cons r rs)
  then obtain srv1 out outs1 where 1: "server_clientDataInner env api r srv = Inr (srv1, out)"
    "server_clientData env api rs srv1 = Inr (srv', outs1)" "outs = (case out of None \<Rightarrow> outs1 | Some x \<Rightarrow> x # outs1)"
    by (auto split: prod.splits)
  show ?case using Cons.IH[OF 1(2)] server_answers[OF 1(1)] 1(3)
    by (auto simp: answers_def split: option.splits)
qed auto

subsection \<open>Saved states\<close>

text \<open>What the FMI standard says of an FMU that can get and set its state: getting succeeds, setting
  the state brings back the instance it was taken from, freeing a state leaves the instance alone.\<close>

definition state_law :: "('f, 's) fmu \<Rightarrow> bool" where
  "state_law api \<longleftrightarrow>
     (\<forall>x. fst (api_get_fmu_state api x) = fmi2_status_ok)
     \<and> (\<forall>x y. api_set_fmu_state api (snd (api_get_fmu_state api x)) y = (fmi2_status_ok, x))
     \<and> (\<forall>s x. api_free_fmu_state api s x = (fmi2_status_ok, x))"

lemma state_lawD:
  assumes "state_law api"
  shows "fst (api_get_fmu_state api x) = fmi2_status_ok"
    and "api_set_fmu_state api (snd (api_get_fmu_state api x)) y = (fmi2_status_ok, x)"
    and "api_free_fmu_state api s x = (fmi2_status_ok, x)"
    and "api_get_fmu_state api x = (st, s') \<Longrightarrow> st = fmi2_status_ok \<and> api_set_fmu_state api s' y = (fmi2_status_ok, x)"
  using assms unfolding state_law_def by (auto, metis fst_conv, metis snd_conv)

lemma numerical_derivative_eq:
  assumes law: "state_law api" and d: "length v \<le> length d"
  shows "computeNumericalDirectionalDerivative api srv z v d =
     (let t = currentCommunicationPoint srv; dt = communicationStepSize srv; x = m_fmi2Instance srv;
          v0 = buffer (length v) 0 (snd (api_get_real api v x));
          out = \<lambda>y. buffer (length z) 0 (snd (api_get_real api z (snd (api_do_step api t dt False y))))
      in Inr (map2 (-) (out (snd (api_set_real api v (map2 (+) v0 d) x))) (out x), srv))"
  using d by (simp add: computeNumericalDirectionalDerivative_def Let_def state_lawD[OF law])

lemma getDirectionalDerivatives_state:
  assumes law: "state_law api" and r: "getDirectionalDerivatives env api srv r = Inr (st, dz, srv')"
  shows "srv' = srv" "length dz = length (z_ref r)"
proof -
  have "length (v_ref r) \<le> length (dv r)" if "computeNumericalDirectionalDerivative api srv (z_ref r) (v_ref r) (dv r) = Inr q" for q
    using that by (auto simp: computeNumericalDirectionalDerivative_def Let_def split: if_splits)
  then show "srv' = srv" "length dz = length (z_ref r)"
    using r by (auto simp: getDirectionalDerivatives_def Let_def rbind_eq_Inr numerical_derivative_eq[OF law]
        split: if_splits prod.splits)
qed

lemma run_stages_append:
  "run_stages (gs @ hs) sr = rbind (run_stages gs sr) (\<lambda>(st, sr). if st \<noteq> fmi2_status_ok then Inr (st, sr) else run_stages hs sr)"
proof (induction gs arbitrary: sr)
  case (Cons g gs)
  then show ?case by (cases "g sr") (auto split: prod.splits)
qed simp

lemma deriv_stages:
  assumes law: "state_law api"
  shows "run_stages (map (kin_deriv_stage env api) gs) (srv, res) = Inr (st, srv', res') \<Longrightarrow>
     srv' = srv \<and> future_velocities res' = future_velocities res
     \<and> (st = fmi2_status_ok \<longrightarrow> map (length \<circ> snd) (derivs res') = map (length \<circ> snd) (derivs res) @ map (length \<circ> z_ref) gs)"
proof (induction gs arbitrary: srv res)
  case (Cons g gs)
  then obtain st1 dz srv1 where 1: "getDirectionalDerivatives env api srv g = Inr (st1, dz, srv1)"
    by (auto simp: kin_deriv_stage_def)
  note 2 = getDirectionalDerivatives_state[OF law 1]
  let ?res = "res\<lparr>derivs := derivs res @ [(fmi2StatusToProtofmi2Status st1, dz)]\<rparr>"
  show ?case
  proof (cases "st1 = fmi2_status_ok")
    case True
    then have "run_stages (map (kin_deriv_stage env api) gs) (srv, ?res) = Inr (st, srv', res')"
      using Cons.prems 1 2 by (simp add: kin_deriv_stage_def[of env api g])
    from Cons.IH[OF this] show ?thesis using 2 by auto
  next
    case False
    then show ?thesis using Cons.prems 1 2 by (auto simp: kin_deriv_stage_def)
  qed
qed auto

lemma future_stage:
  assumes law: "state_law api" and "kin_future_stage api r (srv, res) = Inr (fmi2_status_ok, srv', res')"
  shows "srv' = srv" "length (future_velocities res') = length (future_velocities res) + length (future_velocity_vrs r)"
    "derivs res' = derivs res"
proof -
  have "m_fmi2Instance srv' = m_fmi2Instance srv \<and> srv' = srv\<lparr>m_fmi2Instance := m_fmi2Instance srv'\<rparr>
     \<and> length (future_velocities res') = length (future_velocities res) + length (future_velocity_vrs r) \<and> derivs res' = derivs res"
    using assms(2) state_lawD(3)[OF law] state_lawD(4)[OF law]
    by (auto simp: kin_future_stage_def Let_def split: if_splits prod.splits)
  then show "srv' = srv" "length (future_velocities res') = length (future_velocities res) + length (future_velocity_vrs r)"
    "derivs res' = derivs res" by (metis (full_types) server.surjective server.update_convs(2), auto)
qed

end
