(* ===== verification/Client.thy ===== *)
theory Client
  imports Messages Int_Set Server
begin

text \<open>
  The master's end of a connection (src/fmitcp/Client.cpp, include/fmitcp/Client.h and the parts of
  src/master/FMIClient.cpp that send and receive): the message queue, the cache of output values, the
  value references being requested, and the handling of every response. The counter of pending requests
  belongs to the master once there is one and to the client before; the operations take and return the
  counter that is in charge. Whether the program was compiled with \<^verbatim>\<open>DEBUG\<close> is an argument where the
  sources depend on it.
\<close>

subsection \<open>State\<close>

datatype fmu_lifecycle = fmu_instantiating | fmu_instantiated | fmu_initializing | fmu_initialized
  | fmu_running | fmu_terminating | fmu_terminated

datatype initial_kind = initial_exact | initial_approx | initial_calculated | initial_unknown

record variable =
  vvr :: int
  vtype :: fmi2_base_type
  vcausality :: causality
  vinitial :: initial_kind
  vname :: string

record client =
  m_id :: int
  m_messageQueue :: "request list"
  messages :: nat
  last_kinematic :: kinematic_res
  m_reals :: "int \<rightharpoonup> double"
  m_ints :: "int \<rightharpoonup> int"
  m_bools :: "int \<rightharpoonup> bool"
  m_strings :: "int \<rightharpoonup> string"
  m_outgoing_reals :: int_set
  m_outgoing_ints :: int_set
  m_outgoing_bools :: int_set
  m_outgoing_strings :: int_set
  m_stateId :: int
  m_event_info :: event_info
  m_fmuState :: fmu_lifecycle
  m_xml :: string
  m_variables :: "string \<rightharpoonup> variable"
  m_vr_variables :: "int \<times> fmi2_base_type \<rightharpoonup> variable"
  m_outputs :: "variable list"

definition new_client :: "int \<Rightarrow> client" where
  "new_client i = \<lparr>m_id = i, m_messageQueue = [], messages = 0,
     last_kinematic = \<lparr>kin_status = 0, future_velocities = [], derivs = []\<rparr>,
     m_reals = Map.empty, m_ints = Map.empty, m_bools = Map.empty, m_strings = Map.empty,
     m_outgoing_reals = [], m_outgoing_ints = [], m_outgoing_bools = [], m_outgoing_strings = [],
     m_stateId = 0, m_event_info = \<lparr>newDiscreteStatesNeeded = False, terminateSimulation = False,
       nominalsOfContinuousStatesChanged = False, valuesOfContinuousStatesChanged = False,
       nextEventTimeDefined = False, nextEventTime = 0\<rparr>,
     m_fmuState = fmu_instantiating, m_xml = [], m_variables = Map.empty, m_vr_variables = Map.empty, m_outputs = []\<rparr>"

type_synonym pclient = "nat \<times> client"   \<comment> \<open>pending requests, client\<close>

subsection \<open>Sending\<close>

definition queueMessage :: "request \<Rightarrow> pclient \<Rightarrow> pclient" where
  "queueMessage s = (\<lambda>(pending, c). (pending + 1, c\<lparr>m_messageQueue := m_messageQueue c @ [s]\<rparr>))"

text \<open>\<^verbatim>\<open>sendQueuedMessages\<close> hands the queue to the transport as one transmission.\<close>

definition sendQueuedMessages :: "client \<Rightarrow> request list \<times> client" where
  "sendQueuedMessages c =
     (if m_messageQueue c = [] then ([], c)
      else (m_messageQueue c, c\<lparr>messages := messages c + 1, m_messageQueue := []\<rparr>))"

definition queueFoo :: "bool \<Rightarrow> int list \<Rightarrow> (int \<rightharpoonup> 'a) \<Rightarrow> int_set \<Rightarrow> int_set" where
  "queueFoo dbg vrs values outgoing =
     is_insert_all (if dbg then filter (\<lambda>vr. values vr = None) vrs else vrs) outgoing"

definition queueReals :: "bool \<Rightarrow> int list \<Rightarrow> client \<Rightarrow> client" where
  "queueReals dbg vrs c = c\<lparr>m_outgoing_reals := queueFoo dbg vrs (m_reals c) (m_outgoing_reals c)\<rparr>"

definition queueInts :: "bool \<Rightarrow> int list \<Rightarrow> client \<Rightarrow> client" where
  "queueInts dbg vrs c = c\<lparr>m_outgoing_ints := queueFoo dbg vrs (m_ints c) (m_outgoing_ints c)\<rparr>"

definition queueBools :: "bool \<Rightarrow> int list \<Rightarrow> client \<Rightarrow> client" where
  "queueBools dbg vrs c = c\<lparr>m_outgoing_bools := queueFoo dbg vrs (m_bools c) (m_outgoing_bools c)\<rparr>"

definition queueStrings :: "bool \<Rightarrow> int list \<Rightarrow> client \<Rightarrow> client" where
  "queueStrings dbg vrs c = c\<lparr>m_outgoing_strings := queueFoo dbg vrs (m_strings c) (m_outgoing_strings c)\<rparr>"

text \<open>\<^verbatim>\<open>SendGetXType\<close>, a map from base types to value references; \<^verbatim>\<open>queueX\<close> visits its entries in
  the order of the types.\<close>

type_synonym SendGetXType = "fmi2_base_type \<rightharpoonup> int list"

definition queueX_type :: "bool \<Rightarrow> SendGetXType \<Rightarrow> fmi2_base_type \<Rightarrow> client \<Rightarrow> client res" where
  "queueX_type dbg refs ty c =
     (case refs ty of
        None \<Rightarrow> Inr c
      | Some vrs \<Rightarrow> (case ty of
            fmi2_base_type_real \<Rightarrow> Inr (queueReals dbg vrs c)
          | fmi2_base_type_int \<Rightarrow> Inr (queueInts dbg vrs c)
          | fmi2_base_type_bool \<Rightarrow> Inr (queueBools dbg vrs c)
          | fmi2_base_type_str \<Rightarrow> Inr (queueStrings dbg vrs c)
          | fmi2_base_type_enum \<Rightarrow> Inl (Fatal ''fmi2_base_type_enum snuck its way into Client::queueX()'')))"

definition queueX :: "bool \<Rightarrow> SendGetXType \<Rightarrow> client \<Rightarrow> client res" where
  "queueX dbg refs c = rfold (queueX_type dbg refs) all_base_types c"

definition client_queueValueRequests :: "pclient \<Rightarrow> pclient" where
  "client_queueValueRequests pc =
     (let pc = (if is_size (m_outgoing_reals (snd pc)) > 0 then queueMessage (get_real_req (m_outgoing_reals (snd pc))) pc else pc);
          pc = (if is_size (m_outgoing_ints (snd pc)) > 0 then queueMessage (get_integer_req (m_outgoing_ints (snd pc))) pc else pc);
          pc = (if is_size (m_outgoing_bools (snd pc)) > 0 then queueMessage (get_boolean_req (m_outgoing_bools (snd pc))) pc else pc)
      in (if is_size (m_outgoing_strings (snd pc)) > 0 then queueMessage (get_string_req (m_outgoing_strings (snd pc))) pc else pc))"

definition client_deleteCachedValues :: "bool \<Rightarrow> client \<Rightarrow> client" where
  "client_deleteCachedValues dbg c =
     (if dbg then c\<lparr>m_reals := Map.empty, m_ints := Map.empty, m_bools := Map.empty, m_strings := Map.empty\<rparr> else c)"

record SendSetXType =
  real_vrs :: "int list"
  int_vrs :: "int list"
  bool_vrs :: "int list"
  string_vrs :: "int list"
  reals :: "double list"
  ints :: "int list"
  bools :: "bool list"
  strings :: "string list"

definition empty_SendSetX :: SendSetXType where
  "empty_SendSetX = \<lparr>real_vrs = [], int_vrs = [], bool_vrs = [], string_vrs = [],
     reals = [], ints = [], bools = [], strings = []\<rparr>"

definition sendSetX :: "SendSetXType \<Rightarrow> pclient \<Rightarrow> pclient res" where
  "sendSetX x pc =
     rbind (if length (reals x) > 0
            then rbind (fmi2_import_set_real (real_vrs x) (reals x)) (\<lambda>m. Inr (queueMessage m pc))
            else Inr pc) (\<lambda>pc.
     let pc = (if length (ints x) > 0 then queueMessage (set_integer_req (int_vrs x) (ints x)) pc else pc);
         pc = (if length (bools x) > 0 then queueMessage (set_boolean_req (bool_vrs x) (bools x)) pc else pc);
         pc = (if length (strings x) > 0 then queueMessage (set_string_req (string_vrs x) (strings x)) pc else pc)
     in Inr pc)"

subsection \<open>Reading the cache\<close>

definition getFoo :: "int list \<Rightarrow> (int \<rightharpoonup> 'a) \<Rightarrow> 'a list res" where
  "getFoo vrs values = rmap (\<lambda>vr. case values vr of None \<Rightarrow> Inl (Fatal ''VR was not requested'') | Some x \<Rightarrow> Inr x) vrs"

definition getReals :: "client \<Rightarrow> int list \<Rightarrow> double list res" where
  "getReals c vrs = getFoo vrs (m_reals c)"

definition getInts :: "client \<Rightarrow> int list \<Rightarrow> int list res" where
  "getInts c vrs = getFoo vrs (m_ints c)"

definition getBools :: "client \<Rightarrow> int list \<Rightarrow> bool list res" where
  "getBools c vrs = getFoo vrs (m_bools c)"

definition getStrings :: "client \<Rightarrow> int list \<Rightarrow> string list res" where
  "getStrings c vrs = getFoo vrs (m_strings c)"

definition getReal :: "client \<Rightarrow> int \<Rightarrow> double res" where
  "getReal c v = rbind (getReals c [v]) (\<lambda>xs. Inr (xs ! 0))"

subsection \<open>Receiving\<close>

text \<open>Vectors of a model exchange FMU go to the master's storage.\<close>

datatype storage_type = states | indicators | derivatives | nominals

type_synonym push = "storage_type \<times> double list"

definition store_values :: "int_set \<Rightarrow> 'a list \<Rightarrow> (int \<rightharpoonup> 'a) \<Rightarrow> (int \<rightharpoonup> 'a)" where
  "store_values outgoing values dest = fold (\<lambda>(vr, x) d. d(vr \<mapsto> x)) (zip outgoing values) dest"

definition handle_get_value_res :: "int \<Rightarrow> 'a list \<Rightarrow> int_set \<Rightarrow> (int \<rightharpoonup> 'a) \<Rightarrow> (int_set \<times> (int \<rightharpoonup> 'a)) res" where
  "handle_get_value_res status values outgoing dest =
     (if \<not> statusIsOK status then Inl (Fatal ''FMI call failed'')
      else if length values < length outgoing then Inl (UB ''values'')
      else Inr ([], store_values outgoing values dest))"

definition check_status :: "int \<Rightarrow> client \<Rightarrow> (client \<times> push list) res" where
  "check_status status c = (if statusIsOK status then Inr (c, []) else Inl (Fatal ''FMI call failed''))"

text \<open>\<^verbatim>\<open>setVariables\<close>: the variables and outputs the FMI Library read from modelDescription.xml.\<close>

definition setVariables :: "variable list \<Rightarrow> variable list \<Rightarrow> client \<Rightarrow> client" where
  "setVariables vs outs c =
     c\<lparr>m_variables := fold (\<lambda>v m. m(vname v \<mapsto> v)) vs (m_variables c),
       m_vr_variables := fold (\<lambda>v m. m((vvr v, vtype v) \<mapsto> v)) vs (m_vr_variables c),
       m_outputs := m_outputs c @ outs\<rparr>"

definition on_get_xml_res :: "(string \<Rightarrow> (variable list \<times> variable list) option) \<Rightarrow> string \<Rightarrow> client \<Rightarrow> client" where
  "on_get_xml_res parse_xml xml c = (let c = c\<lparr>m_xml := xml\<rparr> in
     (case parse_xml xml of None \<Rightarrow> c | Some (vs, outs) \<Rightarrow> setVariables vs outs c))"

primrec dispatch_response ::
  "(string \<Rightarrow> (variable list \<times> variable list) option) \<Rightarrow> response \<Rightarrow> client \<Rightarrow> (client \<times> push list) res" where
  "dispatch_response P (get_version_res v) c = Inr (c, [])"
| "dispatch_response P (set_debug_logging_res s) c = check_status s c"
| "dispatch_response P (instantiate_res s) c =
     (if statusIsOK_jm s then Inr (c\<lparr>m_fmuState := fmu_instantiated\<rparr>, []) else Inl (Fatal ''FMI call failed''))"
| "dispatch_response P free_instance_res c = Inr (c, [])"
| "dispatch_response P (setup_experiment_res s) c = check_status s c"
| "dispatch_response P (enter_initialization_mode_res s) c = check_status s c"
| "dispatch_response P (exit_initialization_mode_res s) c =
     rbind (check_status s c) (\<lambda>(c, ps). Inr (c\<lparr>m_fmuState := fmu_initialized\<rparr>, ps))"
| "dispatch_response P (terminate_res s) c = check_status s c"
| "dispatch_response P (reset_res s) c = check_status s c"
| "dispatch_response P (get_real_res s values) c =
     (if \<not> statusIsOK s then Inl (Fatal ''FMI call failed'')
      else if length values \<noteq> is_size (m_outgoing_reals c) then Inl (Fatal ''fmi2_import_get_real_res vs m_outgoing_reals mismatch'')
      else Inr (c\<lparr>m_reals := store_values (m_outgoing_reals c) values (m_reals c), m_outgoing_reals := []\<rparr>, []))"
| "dispatch_response P (get_integer_res s values) c =
     rbind (handle_get_value_res s values (m_outgoing_ints c) (m_ints c)) (\<lambda>(out, dest).
       Inr (c\<lparr>m_ints := dest, m_outgoing_ints := out\<rparr>, []))"
| "dispatch_response P (get_boolean_res s values) c =
     rbind (handle_get_value_res s values (m_outgoing_bools c) (m_bools c)) (\<lambda>(out, dest).
       Inr (c\<lparr>m_bools := dest, m_outgoing_bools := out\<rparr>, []))"
| "dispatch_response P (get_string_res s values) c =
     rbind (handle_get_value_res s values (m_outgoing_strings c) (m_strings c)) (\<lambda>(out, dest).
       Inr (c\<lparr>m_strings := dest, m_outgoing_strings := out\<rparr>, []))"
| "dispatch_response P (set_real_res s) c = check_status s c"
| "dispatch_response P (set_integer_res s) c = check_status s c"
| "dispatch_response P (set_boolean_res s) c = check_status s c"
| "dispatch_response P (set_string_res s) c = check_status s c"
| "dispatch_response P (get_fmu_state_res i s) c = Inr (c\<lparr>m_stateId := i\<rparr>, [])"
| "dispatch_response P (set_fmu_state_res s) c = check_status s c"
| "dispatch_response P (free_fmu_state_res s) c = Inr (c, [])"
| "dispatch_response P (set_free_last_fmu_state_res s) c = Inr (c, [])"
| "dispatch_response P (get_directional_derivative_res s dz) c = Inr (c, [])"
| "dispatch_response P (enter_event_mode_res s) c = check_status s c"
| "dispatch_response P (new_discrete_states_res info) c = Inr (c\<lparr>m_event_info := info\<rparr>, [])"
| "dispatch_response P (enter_continuous_time_mode_res s) c = check_status s c"
| "dispatch_response P (completed_integrator_step_res b s) c = Inr (c, [])"
| "dispatch_response P (set_time_res s) c = check_status s c"
| "dispatch_response P (set_continuous_states_res s) c = check_status s c"
| "dispatch_response P (get_event_indicators_res s z) c = Inr (c, [(indicators, z)])"
| "dispatch_response P (get_continuous_states_res s x) c = Inr (c, [(states, x)])"
| "dispatch_response P (get_derivatives_res s d) c = Inr (c, [(derivatives, d)])"
| "dispatch_response P (get_nominal_continuous_states_res s x) c = Inr (c, [(nominals, x)])"
| "dispatch_response P (set_real_input_derivatives_res s) c = check_status s c"
| "dispatch_response P (get_real_output_derivatives_res s vals) c = Inr (c, [])"
| "dispatch_response P (do_step_res s) c = check_status s c"
| "dispatch_response P (cancel_step_res s) c = check_status s c"
| "dispatch_response P (get_status_res v) c = Inr (c, [])"
| "dispatch_response P (get_real_status_res v) c = Inr (c, [])"
| "dispatch_response P (get_integer_status_res v) c = Inr (c, [])"
| "dispatch_response P (get_boolean_status_res v) c = Inr (c, [])"
| "dispatch_response P (get_string_status_res v) c = Inr (c, [])"
| "dispatch_response P (kinematic_response k) c = Inr (c\<lparr>last_kinematic := k\<rparr>, [])"
| "dispatch_response P (get_xml_res l xml) c = Inr (on_get_xml_res P xml c, [])"

definition client_clientDataInner ::
  "(string \<Rightarrow> (variable list \<times> variable list) option) \<Rightarrow> response \<Rightarrow> pclient \<Rightarrow> (pclient \<times> push list) res" where
  "client_clientDataInner P r = (\<lambda>(pending, c).
     if pending = 0 then Inl (Fatal ''Got response while m_pendingRequests = 0'')
     else rbind (dispatch_response P r c) (\<lambda>(c, ps). Inr ((pending - 1, c), ps)))"

text \<open>\<^verbatim>\<open>Client::clientData\<close>: all packets of one transmission.\<close>

fun client_clientData ::
  "(string \<Rightarrow> (variable list \<times> variable list) option) \<Rightarrow> response list \<Rightarrow> pclient \<Rightarrow> (pclient \<times> push list) res" where
  "client_clientData P [] pc = Inr (pc, [])"
| "client_clientData P (r # rs) pc =
     rbind (client_clientDataInner P r pc) (\<lambda>(pc, ps).
     rbind (client_clientData P rs pc) (\<lambda>(pc, qs). Inr (pc, ps @ qs)))"

end
