(* ===== verification/Storage.thy ===== *)
theory Storage
  imports Client
begin

text \<open>
  \<^verbatim>\<open>FmigoStorage\<close> (src/common/fmigo_storage.cpp and the header): the vectors of the model exchange FMUs, all clients in
  one vector per kind, with a backup of each. Proved: the segments of the clients
  partition the vectors, a push changes exactly the segment of its client, \<^verbatim>\<open>sync\<close> followed by any
  pushes and \<^verbatim>\<open>cycle\<close> brings the old data back, and \<^verbatim>\<open>past_event\<close> sees exactly
  the changes of sign since the last \<^verbatim>\<open>sync\<close>. \<^verbatim>\<open>signbit\<close> is a negative value: reals have no negative zero.
\<close>

subsection \<open>State\<close>

type_synonym Bounds = "nat \<times> nat"
type_synonym Data = "double list"

record FmigoStorage =
  m_states :: "Data \<times> Data"
  m_indicators :: "Data \<times> Data"
  m_derivatives :: "Data \<times> Data"
  m_nominals :: "Data \<times> Data"
  m_bounds :: "Bounds list"
  m_bounds_i :: "Bounds list"

fun storage_pair :: "storage_type \<Rightarrow> FmigoStorage \<Rightarrow> Data \<times> Data" where
  "storage_pair states s = m_states s"
| "storage_pair indicators s = m_indicators s"
| "storage_pair derivatives s = m_derivatives s"
| "storage_pair nominals s = m_nominals s"

fun set_pair :: "storage_type \<Rightarrow> Data \<times> Data \<Rightarrow> FmigoStorage \<Rightarrow> FmigoStorage" where
  "set_pair states d s = s\<lparr>m_states := d\<rparr>"
| "set_pair indicators d s = s\<lparr>m_indicators := d\<rparr>"
| "set_pair derivatives d s = s\<lparr>m_derivatives := d\<rparr>"
| "set_pair nominals d s = s\<lparr>m_nominals := d\<rparr>"

definition get_current :: "storage_type \<Rightarrow> FmigoStorage \<Rightarrow> Data" where
  "get_current ty s = fst (storage_pair ty s)"

definition get_backup :: "storage_type \<Rightarrow> FmigoStorage \<Rightarrow> Data" where
  "get_backup ty s = snd (storage_pair ty s)"

fun get_bounds :: "storage_type \<Rightarrow> FmigoStorage \<Rightarrow> Bounds list" where
  "get_bounds indicators s = m_bounds_i s"
| "get_bounds _ s = m_bounds s"

fun set_bounds :: "storage_type \<Rightarrow> Bounds list \<Rightarrow> FmigoStorage \<Rightarrow> FmigoStorage" where
  "set_bounds indicators b s = s\<lparr>m_bounds_i := b\<rparr>"
| "set_bounds _ b s = s\<lparr>m_bounds := b\<rparr>"

subsection \<open>Operations\<close>

definition vec_at :: "'a list \<Rightarrow> nat \<Rightarrow> 'a res" where
  "vec_at xs i = (if i < length xs then Inr (xs ! i) else Inl (Uncaught ''std::out_of_range''))"

definition get_offset :: "nat \<Rightarrow> storage_type \<Rightarrow> FmigoStorage \<Rightarrow> nat res" where
  "get_offset i ty s = rbind (vec_at (get_bounds ty s) i) (\<lambda>b. Inr (fst b))"

definition get_end :: "nat \<Rightarrow> storage_type \<Rightarrow> FmigoStorage \<Rightarrow> nat res" where
  "get_end i ty s = rbind (vec_at (get_bounds ty s) i) (\<lambda>b. Inr (snd b))"

definition get_size :: "nat \<Rightarrow> storage_type \<Rightarrow> FmigoStorage \<Rightarrow> nat res" where
  "get_size i ty s = rbind (get_end i ty s) (\<lambda>e. rbind (get_offset i ty s) (\<lambda>ofs. Inr (e - ofs)))"

definition add_bounds :: "nat \<Rightarrow> nat \<times> Bounds list \<Rightarrow> nat \<times> Bounds list" where
  "add_bounds n = (\<lambda>(first, bs). (first + n, bs @ [(first, first + n)]))"

definition allocate_storage_states :: "nat list \<Rightarrow> storage_type \<Rightarrow> FmigoStorage \<Rightarrow> FmigoStorage" where
  "allocate_storage_states size_vec ty s =
     (let (total_size, bs) = fold add_bounds size_vec (0, []); d = replicate total_size 0
      in set_pair ty (d, d) (set_bounds ty bs s))"

definition allocate_storage :: "nat list \<Rightarrow> nat list \<Rightarrow> FmigoStorage \<Rightarrow> FmigoStorage" where
  "allocate_storage number_of_states number_of_indicators s =
     allocate_storage_states number_of_states nominals
       (allocate_storage_states number_of_indicators indicators
         (allocate_storage_states number_of_states derivatives
           (allocate_storage_states number_of_states states s)))"

definition empty_storage :: FmigoStorage where
  "empty_storage = \<lparr>m_states = ([], []), m_indicators = ([], []), m_derivatives = ([], []), m_nominals = ([], []), m_bounds = [], m_bounds_i = []\<rparr>"

definition new_FmigoStorage :: "nat list \<Rightarrow> nat list \<Rightarrow> FmigoStorage" where
  "new_FmigoStorage number_of_states number_of_indicators = allocate_storage number_of_states number_of_indicators empty_storage"

text \<open>\<^verbatim>\<open>std::copy\<close> to the position \<open>ofs\<close> of a vector.\<close>

definition copy_to :: "'a list \<Rightarrow> nat \<Rightarrow> 'a list \<Rightarrow> 'a list" where
  "copy_to vec ofs d = take ofs d @ vec @ drop (ofs + length vec) d"

definition push_to :: "nat \<Rightarrow> storage_type \<Rightarrow> Data \<Rightarrow> FmigoStorage \<Rightarrow> FmigoStorage res" where
  "push_to i ty vec s =
     rbind (get_size i ty s) (\<lambda>sz.
     if sz \<noteq> length vec then Inl (Exit 1)
     else rbind (get_offset i ty s) (\<lambda>ofs.
       Inr (set_pair ty (copy_to vec ofs (get_current ty s), get_backup ty s) s)))"

text \<open>\<^verbatim>\<open>cycle\<close> swaps, \<^verbatim>\<open>sync\<close> copies all entries of the current data over the first entries of the backup.\<close>

definition cycle :: "FmigoStorage \<Rightarrow> FmigoStorage" where
  "cycle s = s\<lparr>m_states := prod.swap (m_states s), m_derivatives := prod.swap (m_derivatives s),
     m_indicators := prod.swap (m_indicators s), m_nominals := prod.swap (m_nominals s)\<rparr>"

definition sync_pair :: "Data \<times> Data \<Rightarrow> Data \<times> Data" where
  "sync_pair d = (fst d, copy_to (fst d) 0 (snd d))"

definition sync :: "FmigoStorage \<Rightarrow> FmigoStorage" where
  "sync s = s\<lparr>m_states := sync_pair (m_states s), m_derivatives := sync_pair (m_derivatives s),
     m_indicators := sync_pair (m_indicators s), m_nominals := sync_pair (m_nominals s)\<rparr>"

text \<open>The values of a client, copied to the same position of a buffer with room for all clients.\<close>

definition get_current_into :: "storage_type \<Rightarrow> Data \<Rightarrow> nat \<Rightarrow> FmigoStorage \<Rightarrow> Data res" where
  "get_current_into ty ret i s =
     rbind (get_offset i ty s) (\<lambda>ofs. rbind (get_end i ty s) (\<lambda>e.
       Inr (copy_to (take (e - ofs) (drop ofs (get_current ty s))) ofs ret)))"

text \<open>\<^verbatim>\<open>get_current_name(id, index)\<close>: the index, which is relative to the client, is compared with the end of the client's
  segment, which is not.\<close>

definition get_current_at :: "storage_type \<Rightarrow> nat \<Rightarrow> nat \<Rightarrow> FmigoStorage \<Rightarrow> double res" where
  "get_current_at ty i index s =
     rbind (get_end i ty s) (\<lambda>e.
     if index > e then Inl (Exit 1)
     else rbind (get_offset i ty s) (\<lambda>ofs.
       if ofs + index < length (get_current ty s) then Inr (get_current ty s ! (ofs + index)) else Inl (UB ''Data::iterator'')))"

definition absmin :: "storage_type \<Rightarrow> FmigoStorage \<Rightarrow> double" where
  "absmin ty s = (case get_current ty s of [] \<Rightarrow> 0 | x # xs \<Rightarrow> fold (\<lambda>z m. if \<bar>z\<bar> < m then \<bar>z\<bar> else m) (x # xs) \<bar>x\<bar>)"

definition signbit :: "double \<Rightarrow> bool" where
  "signbit x \<longleftrightarrow> x < 0"

definition past_event :: "nat \<Rightarrow> FmigoStorage \<Rightarrow> bool res" where
  "past_event i s =
     rbind (get_offset i indicators s) (\<lambda>ofs. rbind (get_end i indicators s) (\<lambda>e.
       Inr (\<exists>k\<in>set [ofs..<e]. signbit (get_current indicators s ! k) \<noteq> signbit (get_backup indicators s ! k))))"

subsection \<open>Segments\<close>

definition starts :: "nat list \<Rightarrow> nat \<Rightarrow> nat" where
  "starts sizes i = sum_list (take i sizes)"

definition bounds_of :: "nat list \<Rightarrow> Bounds list" where
  "bounds_of sizes = map (\<lambda>i. (starts sizes i, starts sizes (Suc i))) [0..<length sizes]"

lemma starts_simps [simp]: "starts sizes 0 = 0" "starts sizes (length sizes) = sum_list sizes"
  by (simp_all add: starts_def)

lemma starts_Suc: "i < length sizes \<Longrightarrow> starts sizes (Suc i) = starts sizes i + sizes ! i"
  by (simp add: starts_def take_Suc_conv_app_nth)

lemma starts_mono: "i \<le> j \<Longrightarrow> starts sizes i \<le> starts sizes j"
proof (induction j)
  case (Suc j)
  then show ?case by (cases "i = Suc j"; cases "j < length sizes") (auto simp: starts_Suc, simp add: starts_def)
qed simp

lemma starts_le: "starts sizes i \<le> sum_list sizes"
  unfolding starts_def by (metis append_take_drop_id le_add1 sum_list_append)

lemma add_bounds_eq: "fold add_bounds sizes (0, []) = (sum_list sizes, bounds_of sizes)"
proof (induction sizes rule: rev_induct)
  case (snoc n sizes)
  have "map (\<lambda>i. (starts (sizes @ [n]) i, starts (sizes @ [n]) (Suc i))) [0..<length sizes] = bounds_of sizes"
    by (auto simp: bounds_of_def starts_def)
  then show ?case using snoc by (simp add: add_bounds_def bounds_of_def starts_def)
qed (simp add: bounds_of_def)

text \<open>The invariant: the vectors of each kind have room for all clients and the bounds are those of the sizes.\<close>

fun sizes_for :: "storage_type \<Rightarrow> nat list \<Rightarrow> nat list \<Rightarrow> nat list" where
  "sizes_for indicators ns nz = nz"
| "sizes_for _ ns nz = ns"

definition storage_ok :: "nat list \<Rightarrow> nat list \<Rightarrow> FmigoStorage \<Rightarrow> bool" where
  "storage_ok ns nz s \<longleftrightarrow> (\<forall>ty. get_bounds ty s = bounds_of (sizes_for ty ns nz)
     \<and> length (get_current ty s) = sum_list (sizes_for ty ns nz) \<and> length (get_backup ty s) = sum_list (sizes_for ty ns nz))"

lemma all_storage: "(\<forall>ty. P ty) \<longleftrightarrow> P states \<and> P indicators \<and> P derivatives \<and> P nominals"
  by (metis storage_type.exhaust)

lemma new_storage_ok: "storage_ok ns nz (new_FmigoStorage ns nz)"
  by (simp add: storage_ok_def all_storage new_FmigoStorage_def allocate_storage_def allocate_storage_states_def add_bounds_eq
      get_current_def get_backup_def Let_def)

lemma segment:
  assumes "storage_ok ns nz s" and "i < length (sizes_for ty ns nz)"
  shows "get_offset i ty s = Inr (starts (sizes_for ty ns nz) i)" "get_end i ty s = Inr (starts (sizes_for ty ns nz) i + sizes_for ty ns nz ! i)"
    "get_size i ty s = Inr (sizes_for ty ns nz ! i)"
  using assms by (simp_all add: get_size_def get_offset_def get_end_def vec_at_def storage_ok_def bounds_of_def starts_Suc)

lemma segment_inside: "i < length sizes \<Longrightarrow> starts sizes i + sizes ! i \<le> sum_list sizes"
  using starts_le[of sizes "Suc i"] by (simp add: starts_Suc)

lemma segment_disjoint: "i < length sizes \<Longrightarrow> j < length sizes \<Longrightarrow> i \<noteq> j \<Longrightarrow>
   starts sizes i + sizes ! i \<le> starts sizes j \<or> starts sizes j + sizes ! j \<le> starts sizes i"
  using starts_mono[of "Suc i" j sizes] starts_mono[of "Suc j" i sizes] by (auto simp: starts_Suc not_less_eq_eq nat_neq_iff)


subsection \<open>Pushing\<close>

lemma set_pair_simps [simp]:
  "get_current ty' (set_pair ty d s) = (if ty' = ty then fst d else get_current ty' s)"
  "get_backup ty' (set_pair ty d s) = (if ty' = ty then snd d else get_backup ty' s)"
  "get_bounds ty' (set_pair ty d s) = get_bounds ty' s"
  by (cases ty; cases ty'; simp add: get_current_def get_backup_def)+

lemma length_copy_to [simp]: "ofs + length vec \<le> length d \<Longrightarrow> length (copy_to vec ofs d) = length d"
  by (simp add: copy_to_def)

definition client_data :: "nat list \<Rightarrow> nat \<Rightarrow> Data \<Rightarrow> Data" where
  "client_data sizes i d = take (sizes ! i) (drop (starts sizes i) d)"

lemma client_data_copy:
  assumes "i < length sizes" and "j < length sizes" and "length vec = sizes ! i" and "length d = sum_list sizes"
  shows "client_data sizes j (copy_to vec (starts sizes i) d) = (if j = i then vec else client_data sizes j d)"
proof (cases "j = i")
  case True
  then show ?thesis using assms segment_inside[OF assms(1)] by (simp add: client_data_def copy_to_def)
next
  case False
  from segment_disjoint[OF assms(1,2)] False consider "starts sizes i + sizes ! i \<le> starts sizes j" | "starts sizes j + sizes ! j \<le> starts sizes i" by auto
  then show ?thesis
  proof cases
    case 1
    then show ?thesis using False assms segment_inside[OF assms(1)] by (simp add: client_data_def copy_to_def)
  next
    case 2
    then show ?thesis using False assms segment_inside[OF assms(1)] by (simp add: client_data_def copy_to_def take_drop min_def)
  qed
qed

lemma push_to_ok:
  assumes "storage_ok ns nz s" and "i < length (sizes_for ty ns nz)" and "length vec = sizes_for ty ns nz ! i"
  shows "push_to i ty vec s = Inr (set_pair ty (copy_to vec (starts (sizes_for ty ns nz) i) (get_current ty s), get_backup ty s) s)"
    "storage_ok ns nz (set_pair ty (copy_to vec (starts (sizes_for ty ns nz) i) (get_current ty s), get_backup ty s) s)"
proof -
  show "push_to i ty vec s = Inr (set_pair ty (copy_to vec (starts (sizes_for ty ns nz) i) (get_current ty s), get_backup ty s) s)"
    using segment[OF assms(1,2)] assms(3) by (simp add: push_to_def)
  show "storage_ok ns nz (set_pair ty (copy_to vec (starts (sizes_for ty ns nz) i) (get_current ty s), get_backup ty s) s)"
    using assms segment_inside[OF assms(2)] by (simp add: storage_ok_def)
qed

lemma push_to_returns:
  assumes "storage_ok ns nz s" and "push_to i ty vec s = Inr s'"
  shows "i < length (sizes_for ty ns nz) \<and> length vec = sizes_for ty ns nz ! i"
proof -
  have "get_bounds ty s = bounds_of (sizes_for ty ns nz)" using assms(1) by (simp add: storage_ok_def)
  then show ?thesis using assms(2)
    by (auto simp: push_to_def get_size_def get_end_def get_offset_def vec_at_def bounds_of_def starts_Suc rbind_eq_Inr split: if_splits)
qed

text \<open>A push succeeds if and only if the client exists and the vector has its size; then it replaces the
  values of this client and leaves those of every other client, every other kind, the backups and the bounds alone.\<close>

theorem push_to_correct:
  assumes "storage_ok ns nz s"
  shows "(ok (push_to i ty vec s) \<longleftrightarrow> i < length (sizes_for ty ns nz) \<and> length vec = sizes_for ty ns nz ! i)
    \<and> (\<forall>s'. push_to i ty vec s = Inr s' \<longrightarrow> storage_ok ns nz s' \<and> (\<forall>ty'. get_backup ty' s' = get_backup ty' s)
      \<and> (\<forall>ty' j. j < length (sizes_for ty' ns nz) \<longrightarrow> client_data (sizes_for ty' ns nz) j (get_current ty' s')
           = (if ty' = ty \<and> j = i then vec else client_data (sizes_for ty' ns nz) j (get_current ty' s))))"
proof (intro conjI allI impI)
  show "ok (push_to i ty vec s) \<longleftrightarrow> i < length (sizes_for ty ns nz) \<and> length vec = sizes_for ty ns nz ! i"
    using push_to_returns[OF assms, of i ty vec] push_to_ok(1)[OF assms, of i ty vec] unfolding ok_iff by blast
  fix s' assume p: "push_to i ty vec s = Inr s'"
  have i: "i < length (sizes_for ty ns nz)" "length vec = sizes_for ty ns nz ! i" using push_to_returns[OF assms p] by auto
  then have s': "s' = set_pair ty (copy_to vec (starts (sizes_for ty ns nz) i) (get_current ty s), get_backup ty s) s" "storage_ok ns nz s'"
    using push_to_ok[OF assms] p by auto
  show "storage_ok ns nz s'" by (rule s')
  show "get_backup ty' s' = get_backup ty' s" for ty' by (simp add: s'(1))
  have l: "length (get_current ty s) = sum_list (sizes_for ty ns nz)" using assms by (simp add: storage_ok_def)
  show "client_data (sizes_for ty' ns nz) j (get_current ty' s') = (if ty' = ty \<and> j = i then vec else client_data (sizes_for ty' ns nz) j (get_current ty' s))"
    if "j < length (sizes_for ty' ns nz)" for ty' j
    using that client_data_copy[OF i(1) _ i(2) l, of j] by (cases "ty' = ty") (auto simp: s'(1))
qed

theorem push_to_correct_witness:
  "push_to 1 states [5, 6] (new_FmigoStorage [1, 2, 1] [0, 0, 0]) = Inr ((new_FmigoStorage [1, 2, 1] [0, 0, 0])\<lparr>m_states := ([0, 5, 6, 0], [0, 0, 0, 0])\<rparr>)
   \<and> client_data [1, 2, 1] 1 (get_current states ((new_FmigoStorage [1, 2, 1] [0, 0, 0])\<lparr>m_states := ([0, 5, 6, 0], [0, 0, 0, 0])\<rparr>)) = [5, 6]"
  (is "_ = Inr ?s \<and> ?c")
proof -
  have 1: "push_to 1 states [5, 6] (new_FmigoStorage [1, 2, 1] [0, 0, 0]) = Inr ?s" by code_simp
  from push_to_correct[OF new_storage_ok, of 1 states "[5, 6]" "[1, 2, 1]" "[0, 0, 0]"] 1
  have "\<forall>j < length (sizes_for states [1, 2, 1] [0, 0, 0]). client_data (sizes_for states [1, 2, 1] [0, 0, 0]) j (get_current states ?s)
      = (if states = states \<and> j = 1 then [5, 6] else client_data (sizes_for states [1, 2, 1] [0, 0, 0]) j (get_current states (new_FmigoStorage [1, 2, 1] [0, 0, 0])))" by blast
  from this[rule_format, of 1] have ?c by simp
  with 1 show ?thesis by blast
qed

subsection \<open>Backup\<close>

lemma sync_simps [simp]:
  "get_current ty (sync s) = get_current ty s" "get_bounds ty (sync s) = get_bounds ty s"
  "storage_ok ns nz s \<Longrightarrow> get_backup ty (sync s) = get_current ty s"
  "get_current ty (cycle s) = get_backup ty s" "get_backup ty (cycle s) = get_current ty s" "get_bounds ty (cycle s) = get_bounds ty s"
proof -
  show "get_backup ty (sync s) = get_current ty s" if "storage_ok ns nz s"
  proof -
    have "length (get_backup ty s) = length (get_current ty s)" using that by (simp add: storage_ok_def)
    then show ?thesis by (cases ty) (simp_all add: sync_def sync_pair_def copy_to_def get_backup_def get_current_def)
  qed
qed (cases ty; simp add: sync_def sync_pair_def cycle_def get_backup_def get_current_def)+

lemma sync_ok: "storage_ok ns nz s \<Longrightarrow> storage_ok ns nz (sync s)"
  unfolding storage_ok_def[of ns nz "sync s"] by (simp add: storage_ok_def sync_simps(3)[of ns nz s])

lemma cycle_ok: "storage_ok ns nz s \<Longrightarrow> storage_ok ns nz (cycle s)"
  by (simp add: storage_ok_def)

definition pushes :: "(nat \<times> storage_type \<times> Data) list \<Rightarrow> FmigoStorage \<Rightarrow> FmigoStorage res" where
  "pushes ps s = rfold (\<lambda>(i, ty, vec). push_to i ty vec) ps s"

lemma push_to_backup: "push_to i ty vec s = Inr s' \<Longrightarrow> get_backup ty' s' = get_backup ty' s"
  by (auto simp: push_to_def rbind_eq_Inr split: if_splits)

lemma pushes_keep:
  "pushes ps s = Inr s' \<Longrightarrow> storage_ok ns nz s \<Longrightarrow> storage_ok ns nz s' \<and> (\<forall>ty. get_backup ty s' = get_backup ty s)"
  unfolding pushes_def
proof (induction ps arbitrary: s)
  case (Cons p ps)
  obtain i ty vec where p: "p = (i, ty, vec)" by (cases p) auto
  obtain s1 where 1: "push_to i ty vec s = Inr s1" "rfold (\<lambda>(i, ty, vec). push_to i ty vec) ps s1 = Inr s'" using Cons.prems(1) p by auto
  have "storage_ok ns nz s1" using push_to_ok[OF Cons.prems(2)] push_to_returns[OF Cons.prems(2) 1(1)] 1(1) by auto
  from Cons.IH[OF 1(2) this] push_to_backup[OF 1(1)] show ?case by simp
qed simp

text \<open>\<^verbatim>\<open>sync\<close>, then any pushes, then \<^verbatim>\<open>cycle\<close>: the current data are again those at the time of
  \<^verbatim>\<open>sync\<close>, the pushed data are the backup, and the invariant holds throughout.\<close>

theorem storage_rollback:
  assumes "storage_ok ns nz s" and "pushes ps (sync s) = Inr s'"
  shows "storage_ok ns nz (cycle s') \<and> get_current ty (cycle s') = get_current ty s \<and> get_backup ty (cycle s') = get_current ty s'"
proof -
  have "storage_ok ns nz s'" "get_backup ty s' = get_backup ty (sync s)" using pushes_keep[OF assms(2) sync_ok[OF assms(1)]] by auto
  then show ?thesis using assms(1) cycle_ok sync_simps(3) by simp
qed

theorem storage_rollback_witness:
  "\<exists>s'. pushes [(0, states, [3]), (1, indicators, [-1])] (sync (new_FmigoStorage [1, 2] [1, 1])) = Inr s'
     \<and> get_current states (cycle s') = [0, 0, 0] \<and> get_backup states (cycle s') = [3, 0, 0]"
proof -
  define s' where "s' = (new_FmigoStorage [1, 2] [1, 1])\<lparr>m_states := ([3, 0, 0], [0, 0, 0]), m_indicators := ([0, -1], [0, 0])\<rparr>"
  have 1: "pushes [(0, states, [3]), (1, indicators, [-1])] (sync (new_FmigoStorage [1, 2] [1, 1])) = Inr s'"
    unfolding s'_def by code_simp
  have "get_current states (new_FmigoStorage [1, 2] [1, 1]) = [0, 0, 0]" by code_simp
  with storage_rollback[OF new_storage_ok 1, of states] 1 show ?thesis by (intro exI[of _ s']) (simp add: s'_def get_current_def)
qed

subsection \<open>Events\<close>

text \<open>After \<^verbatim>\<open>sync\<close> and any pushes, \<^verbatim>\<open>past_event\<close> of a client returns, and is true if and only if one of the client's
  own indicators has another sign than at the time of \<^verbatim>\<open>sync\<close>.\<close>

theorem past_event_correct:
  assumes ok: "storage_ok ns nz s" and p: "pushes ps (sync s) = Inr s'" and i: "i < length nz"
  shows "past_event i s' = Inr (\<exists>k < nz ! i. signbit (client_data nz i (get_current indicators s') ! k)
      \<noteq> signbit (client_data nz i (get_current indicators s) ! k))"
proof -
  have ok': "storage_ok ns nz s'" "get_backup indicators s' = get_current indicators s"
    using pushes_keep[OF p sync_ok[OF ok]] ok sync_simps(3) by auto
  have seg: "get_offset i indicators s' = Inr (starts nz i)" "get_end i indicators s' = Inr (starts nz i + nz ! i)"
    using segment[OF ok'(1), of i indicators] i by simp_all
  have len: "length (get_current indicators s') = sum_list nz" "length (get_current indicators s) = sum_list nz"
    using ok ok'(1) unfolding storage_ok_def all_storage by simp_all
  have nth: "client_data nz i d ! k = d ! (starts nz i + k)" if "k < nz ! i" "length d = sum_list nz" for d k
    using that segment_inside[OF i] by (simp add: client_data_def)
  have "(\<exists>k\<in>set [starts nz i..<starts nz i + nz ! i]. P k) \<longleftrightarrow> (\<exists>k < nz ! i. P (starts nz i + k))" for P
    by (auto simp: atLeastLessThan_iff) (metis add_diff_inverse_nat less_diff_conv2 linorder_not_less nat_add_left_cancel_less)
  then show ?thesis using nth len by (auto simp: past_event_def seg ok'(2))
qed

theorem past_event_correct_witness:
  "\<exists>s'. pushes [(1, indicators, [-1])] (sync (new_FmigoStorage [1, 2] [1, 1])) = Inr s' \<and> past_event 0 s' = Inr False \<and> past_event 1 s' = Inr True"
proof -
  define s where "s = new_FmigoStorage [1, 2] [1, 1]"
  define s' where "s' = s\<lparr>m_indicators := ([0, -1], [0, 0])\<rparr>"
  have 1: "pushes [(1, indicators, [-1])] (sync s) = Inr s'" unfolding s'_def s_def by code_simp
  have ok: "storage_ok [1, 2] [1, 1] s" unfolding s_def by (rule new_storage_ok)
  have d: "get_current indicators s = [0, 0]" "get_current indicators s' = [0, -1]" unfolding s_def s'_def by code_simp+
  from past_event_correct[OF ok 1, of 0] past_event_correct[OF ok 1, of 1]
  have "past_event 0 s' = Inr False" "past_event 1 s' = Inr True" by (simp_all add: d client_data_def starts_def signbit_def)
  then show ?thesis using 1 unfolding s_def by blast
qed

text \<open>\<^verbatim>\<open>get_current_name(id, index)\<close> does not stop at the end of the client's values: the index after the last one, which is out
  of range, reads the first value of the next client.\<close>

theorem get_current_reads_neighbour:
  assumes "storage_ok ns nz s" and "Suc i < length (sizes_for ty ns nz)" and "0 < sizes_for ty ns nz ! Suc i"
  shows "get_current_at ty i (sizes_for ty ns nz ! i) s = Inr (client_data (sizes_for ty ns nz) (Suc i) (get_current ty s) ! 0)"
proof -
  let ?z = "sizes_for ty ns nz"
  have "length (get_current ty s) = sum_list ?z" using assms(1) by (simp add: storage_ok_def)
  then show ?thesis
    using segment[OF assms(1), of i ty] assms(2,3) segment_inside[OF assms(2)] starts_Suc[of i ?z]
    by (simp add: get_current_at_def client_data_def)
qed

theorem get_current_reads_neighbour_witness:
  "get_current_at states 0 1 (new_FmigoStorage [1, 1] [0, 0]) = Inr (client_data [1, 1] 1 (get_current states (new_FmigoStorage [1, 1] [0, 0])) ! 0)"
  using get_current_reads_neighbour[OF new_storage_ok, of 0 states "[1, 1]" "[0, 0]"] by simp

lemma fold_absmin:
  fixes xs :: "double list"
  shows "m \<in> S \<Longrightarrow> (\<forall>x\<in>set xs. \<bar>x\<bar> \<in> S) \<Longrightarrow>
    fold (\<lambda>z m. if \<bar>z\<bar> < m then \<bar>z\<bar> else m) xs m \<in> S \<and> fold (\<lambda>z m. if \<bar>z\<bar> < m then \<bar>z\<bar> else m) xs m \<le> m
     \<and> (\<forall>x\<in>set xs. fold (\<lambda>z m. if \<bar>z\<bar> < m then \<bar>z\<bar> else m) xs m \<le> \<bar>x\<bar>)"
proof (induction xs arbitrary: m)
  case (Cons x xs)
  from Cons.IH[of "if \<bar>x\<bar> < m then \<bar>x\<bar> else m"] Cons.prems show ?case by (auto split: if_splits)
qed simp

lemma absmin_min:
  assumes "get_current ty s \<noteq> []"
  shows "absmin ty s = Min (abs ` set (get_current ty s))"
proof -
  obtain x xs where d: "get_current ty s = x # xs" using assms by (cases "get_current ty s") auto
  let ?m = "fold (\<lambda>z m. if \<bar>z\<bar> < m then \<bar>z\<bar> else m) (x # xs) \<bar>x\<bar>"
  have S: "\<bar>x\<bar> \<in> abs ` set (x # xs)" "\<forall>y\<in>set (x # xs). \<bar>y\<bar> \<in> abs ` set (x # xs)" by auto
  have "?m \<in> abs ` set (x # xs) \<and> (\<forall>y\<in>set (x # xs). ?m \<le> \<bar>y\<bar>)" using fold_absmin[OF S] by (elim conjE) (intro conjI)
  then have "Min (abs ` set (x # xs)) = ?m" by (intro Min_eqI) auto
  then show ?thesis by (simp add: absmin_def d)
qed

end
