(* ===== verification/Weak_Connection.thy ===== *)
theory Weak_Connection
  imports Client
begin

text \<open>
  Weak connections (src/master/WeakConnection.cpp): which outputs a set of connections needs, and
  which inputs they give, with the conversion between base types. Clients are named by
  their position in the master's list, which is their identifier; a map keyed by client pointers is a map keyed
  by position.
\<close>

record connection =
  fromType :: fmi2_base_type
  fromFMU :: nat
  fromOutputVR :: int
  toType :: fmi2_base_type
  toFMU :: nat
  toInputVR :: int
  slope :: double
  intercept :: double

text \<open>\<^verbatim>\<open>WeakConnection\<close>: the pointers \<^verbatim>\<open>from\<close> and \<^verbatim>\<open>to\<close> are the clients at \<^verbatim>\<open>fromFMU\<close> and \<^verbatim>\<open>toFMU\<close>.\<close>

type_synonym WeakConnection = connection
type_synonym OutputRefsType = "nat \<rightharpoonup> SendGetXType"
type_synonym InputRefsValuesType = "nat \<rightharpoonup> SendSetXType"

definition push_ref :: "fmi2_base_type \<Rightarrow> int \<Rightarrow> SendGetXType \<Rightarrow> SendGetXType" where
  "push_ref ty vr refs = refs(ty \<mapsto> (case refs ty of None \<Rightarrow> [] | Some vrs \<Rightarrow> vrs) @ [vr])"

definition push_output_ref :: "WeakConnection \<Rightarrow> OutputRefsType \<Rightarrow> OutputRefsType" where
  "push_output_ref wc refs =
     refs(fromFMU wc \<mapsto> push_ref (fromType wc) (fromOutputVR wc)
            (case refs (fromFMU wc) of None \<Rightarrow> Map.empty | Some r \<Rightarrow> r))"

definition getOutputWeakRefs :: "WeakConnection list \<Rightarrow> OutputRefsType" where
  "getOutputWeakRefs weakConnections = fold push_output_ref weakConnections Map.empty"

definition check :: "WeakConnection \<Rightarrow> (int \<rightharpoonup> 'a) \<Rightarrow> 'a res" where
  "check wc values =
     (case values (fromOutputVR wc) of None \<Rightarrow> Inl (Fatal ''VR was not requested'') | Some x \<Rightarrow> Inr x)"

text \<open>The conversion of a \<^verbatim>\<open>double\<close> to \<^verbatim>\<open>int\<close> drops the fraction; a result that does not fit is undefined.\<close>

definition double_to_int :: "double \<Rightarrow> int res" where
  "double_to_int x = (let i = (if x \<ge> 0 then \<lfloor>x\<rfloor> else \<lceil>x\<rceil>) in
     if i < - (2 ^ 31) \<or> 2 ^ 31 \<le> i then Inl (UB ''double to int'') else Inr i)"

definition bool_to_double :: "bool \<Rightarrow> double" where
  "bool_to_double b = (if b then 1 else 0)"

definition push_real :: "int \<Rightarrow> double \<Rightarrow> SendSetXType \<Rightarrow> SendSetXType" where
  "push_real vr x t = t\<lparr>real_vrs := real_vrs t @ [vr], reals := reals t @ [x]\<rparr>"

definition push_int :: "int \<Rightarrow> int \<Rightarrow> SendSetXType \<Rightarrow> SendSetXType" where
  "push_int vr x t = t\<lparr>int_vrs := int_vrs t @ [vr], ints := ints t @ [x]\<rparr>"

definition push_bool :: "int \<Rightarrow> bool \<Rightarrow> SendSetXType \<Rightarrow> SendSetXType" where
  "push_bool vr x t = t\<lparr>bool_vrs := bool_vrs t @ [vr], bools := bools t @ [x]\<rparr>"

definition push_string :: "int \<Rightarrow> string \<Rightarrow> SendSetXType \<Rightarrow> SendSetXType" where
  "push_string vr x t = t\<lparr>string_vrs := string_vrs t @ [vr], strings := strings t @ [x]\<rparr>"

text \<open>The two \<^verbatim>\<open>switch\<close>es of \<^verbatim>\<open>getInputWeakRefsAndValues_inner\<close> for one connection. The reference and
  the value it gets are appended together: every path that appends only one of them stops the program.\<close>

definition convert_real :: "WeakConnection \<Rightarrow> double \<Rightarrow> SendSetXType \<Rightarrow> SendSetXType res" where
  "convert_real wc x t =
     (case toType wc of
        fmi2_base_type_real \<Rightarrow> Inr (push_real (toInputVR wc) (x * slope wc + intercept wc) t)
      | fmi2_base_type_int \<Rightarrow> rbind (double_to_int (x * slope wc + intercept wc)) (\<lambda>i. Inr (push_int (toInputVR wc) i t))
      | fmi2_base_type_bool \<Rightarrow> Inr (push_bool (toInputVR wc) (\<bar>x * slope wc + intercept wc\<bar> > 1 / 2) t)
      | fmi2_base_type_str \<Rightarrow> Inl (Fatal ''Converting real -> str not supported'')
      | fmi2_base_type_enum \<Rightarrow> Inl (Fatal ''Tried to connect to enum input''))"

definition convert_int :: "WeakConnection \<Rightarrow> int \<Rightarrow> SendSetXType \<Rightarrow> SendSetXType res" where
  "convert_int wc x t =
     (case toType wc of
        fmi2_base_type_real \<Rightarrow> Inr (push_real (toInputVR wc) (of_int x * slope wc + intercept wc) t)
      | fmi2_base_type_int \<Rightarrow>
          if slope wc = 1 \<and> intercept wc = 0 then Inr (push_int (toInputVR wc) x t)
          else rbind (double_to_int (of_int x * slope wc + intercept wc)) (\<lambda>i. Inr (push_int (toInputVR wc) i t))
      | fmi2_base_type_bool \<Rightarrow> Inr (push_bool (toInputVR wc) (\<bar>of_int x * slope wc + intercept wc\<bar> > 1 / 2) t)
      | fmi2_base_type_str \<Rightarrow> Inl (Fatal ''Converting int -> str not supported'')
      | fmi2_base_type_enum \<Rightarrow> Inl (Fatal ''Tried to connect to enum input''))"

definition convert_bool :: "WeakConnection \<Rightarrow> bool \<Rightarrow> SendSetXType \<Rightarrow> SendSetXType res" where
  "convert_bool wc b t =
     (case toType wc of
        fmi2_base_type_real \<Rightarrow> Inr (push_real (toInputVR wc) (bool_to_double b * slope wc + intercept wc) t)
      | fmi2_base_type_int \<Rightarrow>
          rbind (double_to_int (bool_to_double b * slope wc + intercept wc)) (\<lambda>i. Inr (push_int (toInputVR wc) i t))
      | fmi2_base_type_bool \<Rightarrow>
          if slope wc \<noteq> 1 \<or> intercept wc \<noteq> 0
          then Inl (Fatal ''slope or intercept specified on bool -> bool connection'')
          else Inr (push_bool (toInputVR wc) b t)
      | fmi2_base_type_str \<Rightarrow> Inl (Fatal ''Converting bool -> str not supported'')
      | fmi2_base_type_enum \<Rightarrow> Inl (Fatal ''Tried to connect to enum input''))"

definition convert_string :: "WeakConnection \<Rightarrow> string \<Rightarrow> SendSetXType \<Rightarrow> SendSetXType res" where
  "convert_string wc s t =
     (if toType wc = fmi2_base_type_enum then Inl (Fatal ''Tried to connect to enum input'')
      else if toType wc \<noteq> fmi2_base_type_str then Inl (Fatal ''String outputs may only be connected to string inputs'')
      else Inr (push_string (toInputVR wc) s t))"

text \<open>A connection to an enumeration input is refused before the output is looked at.\<close>

definition add_input :: "client list \<Rightarrow> WeakConnection \<Rightarrow> SendSetXType \<Rightarrow> SendSetXType res" where
  "add_input clients wc t =
     (if toType wc = fmi2_base_type_enum then Inl (Fatal ''Tried to connect to enum input'')
      else let from = clients ! fromFMU wc in
        (case fromType wc of
           fmi2_base_type_real \<Rightarrow> rbind (check wc (m_reals from)) (\<lambda>x. convert_real wc x t)
         | fmi2_base_type_int \<Rightarrow> rbind (check wc (m_ints from)) (\<lambda>x. convert_int wc x t)
         | fmi2_base_type_bool \<Rightarrow> rbind (check wc (m_bools from)) (\<lambda>x. convert_bool wc x t)
         | fmi2_base_type_str \<Rightarrow> rbind (check wc (m_strings from)) (\<lambda>x. convert_string wc x t)
         | fmi2_base_type_enum \<Rightarrow> Inl (Fatal ''Tried to connect enum output somewhere'')))"

definition lookup_input :: "InputRefsValuesType \<Rightarrow> nat \<Rightarrow> SendSetXType" where
  "lookup_input refValues c = (case refValues c of None \<Rightarrow> empty_SendSetX | Some t \<Rightarrow> t)"

definition inputs_step ::
  "client list \<Rightarrow> bool \<Rightarrow> int_set \<Rightarrow> WeakConnection \<Rightarrow> InputRefsValuesType \<Rightarrow> InputRefsValuesType res" where
  "inputs_step clients have_cset cset wc refValues =
     (if have_cset \<and> is_count cset (m_id (clients ! toFMU wc)) = 0 then Inr refValues
      else rbind (add_input clients wc (lookup_input refValues (toFMU wc))) (\<lambda>t.
        Inr (refValues(toFMU wc \<mapsto> t))))"

definition getInputWeakRefsAndValues_inner ::
  "client list \<Rightarrow> WeakConnection list \<Rightarrow> bool \<Rightarrow> int_set \<Rightarrow> InputRefsValuesType \<Rightarrow> InputRefsValuesType res" where
  "getInputWeakRefsAndValues_inner clients wcs have_cset cset refValues =
     rfold (inputs_step clients have_cset cset) wcs refValues"

definition getInputWeakRefsAndValues :: "client list \<Rightarrow> WeakConnection list \<Rightarrow> InputRefsValuesType res" where
  "getInputWeakRefsAndValues clients wcs = getInputWeakRefsAndValues_inner clients wcs False [] Map.empty"

definition getInputWeakRefsAndValues_cset ::
  "client list \<Rightarrow> WeakConnection list \<Rightarrow> int_set \<Rightarrow> InputRefsValuesType res" where
  "getInputWeakRefsAndValues_cset clients wcs cset = getInputWeakRefsAndValues_inner clients wcs True cset Map.empty"

definition getInputWeakRefsAndValues_client ::
  "client list \<Rightarrow> WeakConnection list \<Rightarrow> nat \<Rightarrow> SendSetXType res" where
  "getInputWeakRefsAndValues_client clients wcs c =
     rbind (getInputWeakRefsAndValues_inner clients wcs True (is_insert (m_id (clients ! c)) []) Map.empty)
       (\<lambda>temp. Inr (lookup_input temp c))"

definition getInputWeakRefsAndValues_into ::
  "client list \<Rightarrow> WeakConnection list \<Rightarrow> int_set \<Rightarrow> InputRefsValuesType \<Rightarrow> InputRefsValuesType res" where
  "getInputWeakRefsAndValues_into clients wcs cset refValues =
     getInputWeakRefsAndValues_inner clients wcs True cset refValues"

subsection \<open>Shape of the inputs\<close>

text \<open>As many values as references, for every type.\<close>

definition shape_ok :: "SendSetXType \<Rightarrow> bool" where
  "shape_ok t \<longleftrightarrow> length (real_vrs t) = length (reals t) \<and> length (int_vrs t) = length (ints t)
     \<and> length (bool_vrs t) = length (bools t) \<and> length (string_vrs t) = length (strings t)"

definition shapes_ok :: "InputRefsValuesType \<Rightarrow> bool" where
  "shapes_ok refValues \<longleftrightarrow> (\<forall>c t. refValues c = Some t \<longrightarrow> shape_ok t)"

lemmas push_defs = push_real_def push_int_def push_bool_def push_string_def
lemmas convert_defs = convert_real_def convert_int_def convert_bool_def convert_string_def

lemma shape_ok_empty [simp]: "shape_ok empty_SendSetX"
  by (simp add: shape_ok_def empty_SendSetX_def)

lemma shapes_ok_empty [simp]: "shapes_ok Map.empty"
  by (simp add: shapes_ok_def)

lemma shapes_ok_lookup: "shapes_ok rv \<Longrightarrow> shape_ok (lookup_input rv c)"
  by (auto simp: shapes_ok_def lookup_input_def split: option.splits)

lemma add_input_shape: "add_input clients wc t = Inr t' \<Longrightarrow> shape_ok t \<Longrightarrow> shape_ok t'"
  by (cases "fromType wc"; cases "toType wc")
     (auto simp: add_input_def convert_defs push_defs shape_ok_def Let_def rbind_eq_Inr split: if_splits)

lemma inputs_step_shape: "inputs_step clients h cset wc rv = Inr rv' \<Longrightarrow> shapes_ok rv \<Longrightarrow> shapes_ok rv'"
  using shapes_ok_lookup[of rv "toFMU wc"]
  by (auto simp: inputs_step_def shapes_ok_def rbind_eq_Inr dest: add_input_shape split: if_splits)

lemma inputs_shape:
  "getInputWeakRefsAndValues_inner clients wcs h cset rv = Inr rv' \<Longrightarrow> shapes_ok rv \<Longrightarrow> shapes_ok rv'"
  unfolding getInputWeakRefsAndValues_inner_def
  by (rule rfold_inv[where P = shapes_ok]) (auto dest: inputs_step_shape)

lemma sendSetX_ok: "shape_ok t \<Longrightarrow> \<exists>pc'. sendSetX t pc = Inr pc'"
  by (auto simp: sendSetX_def shape_ok_def fmi2_import_set_real_def Let_def)

subsection \<open>The inputs of one client\<close>

text \<open>The client's own connections, one after the other.\<close>

lemma inner_selects:
  "getInputWeakRefsAndValues_inner clients wcs have_cset cset rv = Inr rv' \<Longrightarrow>
   rfold (add_input clients)
     (filter (\<lambda>wc. toFMU wc = c \<and> (have_cset \<longrightarrow> m_id (clients ! toFMU wc) \<in> set cset)) wcs) (lookup_input rv c)
   = Inr (lookup_input rv' c)"
  unfolding getInputWeakRefsAndValues_inner_def
proof (induction wcs arbitrary: rv)
  case (Cons wc wcs)
  show ?case
  proof (cases "have_cset \<and> m_id (clients ! toFMU wc) \<notin> set cset")
    case True
    then have "inputs_step clients have_cset cset wc rv = Inr rv" by (simp add: inputs_step_def)
    then show ?thesis using Cons True by auto
  next
    case False
    with Cons.prems obtain t where t: "add_input clients wc (lookup_input rv (toFMU wc)) = Inr t"
      "rfold (inputs_step clients have_cset cset) wcs (rv(toFMU wc \<mapsto> t)) = Inr rv'"
      by (auto simp: inputs_step_def[of clients have_cset cset wc rv] rbind_eq_Inr split: if_splits)
    show ?thesis
    proof (cases "toFMU wc = c")
      case True
      then show ?thesis using Cons.IH[OF t(2)] t(1) False by (auto simp: lookup_input_def)
    next
      case nc: False
      then have "lookup_input (rv(toFMU wc \<mapsto> t)) c = lookup_input rv c" by (simp add: lookup_input_def)
      then show ?thesis using Cons.IH[OF t(2)] nc by (simp del: fun_upd_apply)
    qed
  qed
qed simp

lemma inner_untouched:
  "getInputWeakRefsAndValues_inner clients wcs have_cset cset rv = Inr rv' \<Longrightarrow>
   (\<forall>wc\<in>set wcs. toFMU wc = c \<longrightarrow> have_cset \<and> m_id (clients ! c) \<notin> set cset) \<Longrightarrow> rv' c = rv c"
  unfolding getInputWeakRefsAndValues_inner_def
proof (induction wcs arbitrary: rv)
  case (Cons wc wcs)
  then obtain rv1 where 1: "inputs_step clients have_cset cset wc rv = Inr rv1"
    "rfold (inputs_step clients have_cset cset) wcs rv1 = Inr rv'" by auto
  have "rv1 c = rv c" using 1(1) Cons.prems(2) by (auto simp: inputs_step_def rbind_eq_Inr split: if_splits)
  then show ?case using Cons.IH[OF 1(2)] Cons.prems(2) by simp
qed simp

end
