(* ===== verification/Base_Master.thy ===== *)
theory Base_Master
  imports Weak_Connection
begin

text \<open>
  \<^verbatim>\<open>BaseMaster\<close> (src/master/BaseMaster.cpp): the clients with the shared counter of pending requests, sending
  and polling (\<^verbatim>\<open>wait\<close>), the control socket (\<^verbatim>\<open>handleZmqControl\<close>) and the loop solver's
  residual. The transport and the servers behind it are a parameter: a state \<open>world\<close> with one function
  that takes a transmission for a client and one that says which replies the next poll finds.
  \<open>trace\<close> is a history variable: the requests queued so far, each with its client.
\<close>

subsection \<open>The control protocol\<close>

datatype command = command_pause | command_unpause | command_stop | command_state

record fmu_results =
  fmu_id :: "int option"
  res_reals :: "(int list \<times> double list) option"
  res_ints :: "(int list \<times> int list) option"
  res_bools :: "(int list \<times> bool list) option"
  res_strings :: "(int list \<times> string list) option"

record control_message =
  version :: "int option"   \<comment> \<open>\<open>None\<close>: the message does not parse\<close>
  command :: "command option"
  ctrl_variables :: "fmu_results list"

datatype master_state = state_initing | state_paused | state_running | state_exiting

record state_message =
  sm_t :: double
  sm_state :: master_state
  sm_fmu_states :: "(int \<times> fmu_lifecycle) list"

subsection \<open>State\<close>

record 'w master =
  m_clients :: "client list"
  m_weakConnections :: "WeakConnection list"
  m_pendingRequests :: nat
  rendezvous :: nat
  initing :: bool
  paused :: bool
  running :: bool
  zmqControl :: bool
  t_now :: double
  initialNonReals :: InputRefsValuesType
  storage_pushes :: "(nat \<times> push) list"
  state_replies :: "state_message list"   \<comment> \<open>replies sent on the control socket\<close>
  world :: 'w
  trace :: "(nat \<times> request) list"

record 'w net =
  net_send :: "nat \<Rightarrow> request list \<Rightarrow> 'w \<Rightarrow> 'w"
  net_poll :: "'w \<Rightarrow> (nat \<times> response list) list \<times> 'w"
  net_control :: "'w \<Rightarrow> control_message list \<times> 'w"   \<comment> \<open>what \<^verbatim>\<open>rep_socket.recv\<close> delivers before it finds nothing\<close>

record config =
  DEBUG :: bool
  parse_xml :: "string \<Rightarrow> (variable list \<times> variable list) option"

definition new_master :: "client list \<Rightarrow> WeakConnection list \<Rightarrow> 'w \<Rightarrow> 'w master" where
  "new_master clients wcs w = \<lparr>m_clients = clients, m_weakConnections = wcs, m_pendingRequests = 0, rendezvous = 0,
     initing = True, paused = False, running = False, zmqControl = False, t_now = 0, initialNonReals = Map.empty,
     storage_pushes = [], state_replies = [], world = w, trace = []\<rparr>"

definition clientWeakRefs :: "'w master \<Rightarrow> OutputRefsType" where
  "clientWeakRefs m = getOutputWeakRefs (m_weakConnections m)"

definition set_client :: "nat \<Rightarrow> client \<Rightarrow> 'w master \<Rightarrow> 'w master" where
  "set_client i c m = m\<lparr>m_clients := (m_clients m)[i := c]\<rparr>"

definition set_pclient :: "nat \<Rightarrow> pclient \<Rightarrow> 'w master \<Rightarrow> 'w master" where
  "set_pclient i pc m = m\<lparr>m_pendingRequests := fst pc, m_clients := (m_clients m)[i := snd pc]\<rparr>"

definition get_pclient :: "'w master \<Rightarrow> nat \<Rightarrow> pclient" where
  "get_pclient m i = (m_pendingRequests m, m_clients m ! i)"

text \<open>The requests an operation has appended to the queue of client \<open>i\<close> go to the history.\<close>

definition note_queued :: "nat \<Rightarrow> 'w master \<Rightarrow> 'w master \<Rightarrow> 'w master" where
  "note_queued i m m' = m'\<lparr>trace := trace m' @
     map (Pair i) (drop (length (m_messageQueue (m_clients m ! i))) (m_messageQueue (m_clients m' ! i)))\<rparr>"

definition queue_at :: "nat \<Rightarrow> (pclient \<Rightarrow> pclient) \<Rightarrow> 'w master \<Rightarrow> 'w master" where
  "queue_at i f m = note_queued i m (set_pclient i (f (get_pclient m i)) m)"

definition master_queueMessage :: "nat \<Rightarrow> request \<Rightarrow> 'w master \<Rightarrow> 'w master" where
  "master_queueMessage i s m = queue_at i (queueMessage s) m"

definition queueMessage_all :: "nat list \<Rightarrow> request \<Rightarrow> 'w master \<Rightarrow> 'w master" where
  "queueMessage_all fmus s m = fold (\<lambda>i. master_queueMessage i s) fmus m"

definition master_sendSetX :: "nat \<Rightarrow> SendSetXType \<Rightarrow> 'w master \<Rightarrow> 'w master res" where
  "master_sendSetX i x m =
     rbind (sendSetX x (get_pclient m i)) (\<lambda>pc. Inr (note_queued i m (set_pclient i pc m)))"

definition master_queueX :: "config \<Rightarrow> nat \<Rightarrow> SendGetXType \<Rightarrow> 'w master \<Rightarrow> 'w master res" where
  "master_queueX cfg i refs m =
     rbind (queueX (DEBUG cfg) refs (m_clients m ! i)) (\<lambda>c. Inr (set_client i c m))"

text \<open>A loop over a map keyed by clients.\<close>

definition queueX_refs :: "config \<Rightarrow> OutputRefsType \<Rightarrow> 'w master \<Rightarrow> 'w master res" where
  "queueX_refs cfg refs m =
     rfold (\<lambda>i m. case refs i of None \<Rightarrow> Inr m | Some r \<Rightarrow> master_queueX cfg i r m) [0..<length (m_clients m)] m"

definition queueValueRequests :: "'w master \<Rightarrow> 'w master" where
  "queueValueRequests m = fold (\<lambda>i. queue_at i client_queueValueRequests) [0..<length (m_clients m)] m"

definition deleteCachedValues :: "config \<Rightarrow> bool \<Rightarrow> int_set \<Rightarrow> 'w master \<Rightarrow> 'w master" where
  "deleteCachedValues cfg cset_set cset m =
     m\<lparr>m_clients := map (\<lambda>c. if \<not> cset_set \<or> is_count cset (m_id c) \<noteq> 0
                              then client_deleteCachedValues (DEBUG cfg) c else c) (m_clients m)\<rparr>"

subsection \<open>The control socket\<close>

definition current_state :: "'w master \<Rightarrow> master_state" where
  "current_state m =
     (if initing m then state_initing else if \<not> running m then state_exiting
      else if paused m then state_paused else state_running)"

definition set_control_variables :: "fmu_results \<Rightarrow> 'w master \<Rightarrow> 'w master res" where
  "set_control_variables var m =
     (case fmu_id var of
        None \<Rightarrow> Inr m
      | Some fid \<Rightarrow>
          if fid < 0 \<or> int (length (m_clients m)) \<le> fid then Inr m
          else let i = nat fid; bad = Fatal ''bad variables''
            in rbind (case res_reals var of None \<Rightarrow> Inr m | Some (vrs, vals) \<Rightarrow>
                   if length vrs \<noteq> length vals then Inl bad
                   else rbind (fmi2_import_set_real vrs vals) (\<lambda>s. Inr (master_queueMessage i s m))) (\<lambda>m.
               rbind (case res_ints var of None \<Rightarrow> Inr m | Some (vrs, vals) \<Rightarrow>
                   if length vrs \<noteq> length vals then Inl bad
                   else Inr (master_queueMessage i (set_integer_req vrs vals) m)) (\<lambda>m.
               rbind (case res_bools var of None \<Rightarrow> Inr m | Some (vrs, vals) \<Rightarrow>
                   if length vrs \<noteq> length vals then Inl bad
                   else Inr (master_queueMessage i (set_boolean_req vrs vals) m)) (\<lambda>m.
               (case res_strings var of None \<Rightarrow> Inr m | Some (vrs, vals) \<Rightarrow>
                   if length vrs \<noteq> length vals then Inl bad
                   else Inr (master_queueMessage i (set_string_req vrs vals) m))))))"

definition run_command :: "command option \<Rightarrow> 'w master \<Rightarrow> 'w master" where
  "run_command c m =
     (case c of
        Some command_pause \<Rightarrow> m\<lparr>paused := True\<rparr>
      | Some command_unpause \<Rightarrow> m\<lparr>paused := False\<rparr>
      | Some command_stop \<Rightarrow> m\<lparr>running := False\<rparr>
      | _ \<Rightarrow> m)"

definition reply_state :: "'w master \<Rightarrow> 'w master" where
  "reply_state m = m\<lparr>state_replies := state_replies m @
     [\<lparr>sm_t = t_now m, sm_state = current_state m, sm_fmu_states = map (\<lambda>c. (m_id c, m_fmuState c)) (m_clients m)\<rparr>]\<rparr>"

text \<open>The loop of \<^verbatim>\<open>handleZmqControl\<close> over the messages that arrive. When there is none, \<^verbatim>\<open>recv\<close> returns
  at once, unless the master is paused: then it blocks.\<close>

fun control_loop :: "control_message list \<Rightarrow> 'w master \<Rightarrow> 'w master res" where
  "control_loop [] m = (if paused m then Inl (Blocked ''rep_socket.recv'') else Inr m)"
| "control_loop (ctrl # msgs) m =
     (if \<not> (initing m \<or> running m) then Inr m
      else rbind
        (if version ctrl = Some 1
         then rfold set_control_variables (ctrl_variables ctrl) (run_command (command ctrl) m)
         else Inr m)
        (\<lambda>m. control_loop msgs (reply_state m)))"

definition handleZmqControl :: "'w net \<Rightarrow> 'w master \<Rightarrow> 'w master res" where
  "handleZmqControl net m =
     (if zmqControl m then let (msgs, w) = net_control net (world m) in control_loop msgs (m\<lparr>world := w\<rparr>)
      else Inr m)"

subsection \<open>Sending and waiting\<close>

definition send_client :: "'w net \<Rightarrow> nat \<Rightarrow> 'w master \<Rightarrow> 'w master" where
  "send_client net i m =
     (let (msgs, c) = sendQueuedMessages (m_clients m ! i)
      in if msgs = [] then m else (set_client i c m)\<lparr>world := net_send net i msgs (world m)\<rparr>)"

definition receiveAndHandleMessage :: "config \<Rightarrow> nat \<times> response list \<Rightarrow> 'w master \<Rightarrow> 'w master res" where
  "receiveAndHandleMessage cfg = (\<lambda>(i, rs) m.
     if length (m_clients m) \<le> i then Inl (Fatal ''MPI rank out of bounds'')
     else rbind (client_clientData (parse_xml cfg) rs (get_pclient m i)) (\<lambda>(pc, ps).
       Inr ((set_pclient i pc m)\<lparr>storage_pushes := storage_pushes m @ map (Pair i) ps\<rparr>)))"

text \<open>The polling loop; \<open>left\<close> is \<^verbatim>\<open>maxPolls - numPolls\<close>.\<close>

fun wait_loop :: "'w net \<Rightarrow> config \<Rightarrow> nat \<Rightarrow> 'w master \<Rightarrow> 'w master res" where
  "wait_loop net cfg left m =
     (if m_pendingRequests m = 0 then Inr m
      else rbind (handleZmqControl net m) (\<lambda>m.
        let (batches, w) = net_poll net (world m) in
        rbind (rfold (receiveAndHandleMessage cfg) batches (m\<lparr>world := w\<rparr>)) (\<lambda>m.
          if m_pendingRequests m > 0 \<and> left \<le> 1 then Inl (Fatal ''Exceeded max number of polls'')
          else case left of 0 \<Rightarrow> Inr m | Suc left' \<Rightarrow> wait_loop net cfg left' m)))"

declare wait_loop.simps [simp del]

definition wait :: "'w net \<Rightarrow> config \<Rightarrow> 'w master \<Rightarrow> 'w master res" where
  "wait net cfg m =
     (let maxPolls = m_pendingRequests m + 60;
          m = (if m_pendingRequests m > 0
               then fold (send_client net) [0..<length (m_clients m)] (m\<lparr>rendezvous := rendezvous m + 1\<rparr>)
               else m)
      in wait_loop net cfg maxPolls m)"

definition sendWait :: "'w net \<Rightarrow> config \<Rightarrow> nat list \<Rightarrow> request \<Rightarrow> 'w master \<Rightarrow> 'w master res" where
  "sendWait net cfg fmus s m = wait net cfg (queueMessage_all fmus s m)"

subsection \<open>Algebraic loops\<close>

text \<open>The reals of all inputs in one vector, in the order of the clients.\<close>

definition input_reals :: "nat \<Rightarrow> InputRefsValuesType \<Rightarrow> double list" where
  "input_reals n inputs = concat (map (\<lambda>i. case inputs i of None \<Rightarrow> [] | Some t \<Rightarrow> reals t) [0..<n])"

text \<open>\<open>put_reals\<close> replaces the reals of the inputs by consecutive entries of \<open>x\<close>.\<close>

fun put_reals :: "nat list \<Rightarrow> double list \<Rightarrow> InputRefsValuesType \<Rightarrow> InputRefsValuesType" where
  "put_reals [] x inputs = inputs"
| "put_reals (i # is) x inputs =
     (case inputs i of
        None \<Rightarrow> put_reals is x inputs
      | Some t \<Rightarrow> let k = length (reals t)
          in put_reals is (drop k x) (inputs(i \<mapsto> t\<lparr>reals := take k x\<rparr>)))"

definition send_inputs :: "InputRefsValuesType \<Rightarrow> 'w master \<Rightarrow> 'w master res" where
  "send_inputs inputs m =
     rfold (\<lambda>i m. case inputs i of None \<Rightarrow> Inr m | Some t \<Rightarrow> master_sendSetX i t m) [0..<length (m_clients m)] m"

definition loop_residual_f :: "'w net \<Rightarrow> config \<Rightarrow> double list \<Rightarrow> 'w master \<Rightarrow> (double list \<times> 'w master) res" where
  "loop_residual_f net cfg x m =
     (let n = length (m_clients m); newInputs = put_reals [0..<n] x (initialNonReals m) in
      if length (input_reals n (initialNonReals m)) \<noteq> length x then Inl (Fatal ''loop solver ordering logic inconsistent'')
      else rbind (send_inputs newInputs m) (\<lambda>m.
        let m = deleteCachedValues cfg False [] m in
        rbind (queueX_refs cfg (clientWeakRefs m) m) (\<lambda>m.
        rbind (wait net cfg (queueValueRequests m)) (\<lambda>m.
        rbind (getInputWeakRefsAndValues (m_clients m) (m_weakConnections m)) (\<lambda>inputs.
          Inr (map2 (-) (input_reals n inputs) x, m))))))"

subsection \<open>What the operations leave alone\<close>

text \<open>The requests to step, in the order they were queued.\<close>

definition is_do_step :: "request \<Rightarrow> bool" where
  "is_do_step r \<longleftrightarrow> request_type r = 105"

lemma is_do_step_iff: "is_do_step r \<longleftrightarrow> (\<exists>t dt b. r = do_step_req t dt b)"
  by (cases r) (simp_all add: is_do_step_def)

definition do_steps :: "'w master \<Rightarrow> (nat \<times> request) list" where
  "do_steps m = filter (\<lambda>(i, r). is_do_step r) (trace m)"

text \<open>Only the control socket starts, stops and pauses.\<close>

definition same_flags :: "'w master \<Rightarrow> 'w master \<Rightarrow> bool" where
  "same_flags m m' \<longleftrightarrow> zmqControl m' = zmqControl m \<and> initing m' = initing m
     \<and> (\<not> zmqControl m \<longrightarrow> paused m' = paused m \<and> running m' = running m)"

lemma same_flags_refl [simp]: "same_flags m m"
  by (simp add: same_flags_def)

lemma same_flags_trans: "same_flags m m' \<Longrightarrow> same_flags m' m'' \<Longrightarrow> same_flags m m''"
  by (simp add: same_flags_def)

text \<open>Most operations neither ask an FMU to step nor change which clients there are.\<close>

definition quiet :: "'w master \<Rightarrow> 'w master \<Rightarrow> bool" where
  "quiet m m' \<longleftrightarrow> map m_id (m_clients m') = map m_id (m_clients m) \<and> do_steps m' = do_steps m \<and> same_flags m m'"

lemma quiet_refl [simp]: "quiet m m"
  by (simp add: quiet_def)

lemma quiet_trans [trans]: "quiet m m' \<Longrightarrow> quiet m' m'' \<Longrightarrow> quiet m m''"
  unfolding quiet_def using same_flags_trans by metis

lemma quiet_length: "quiet m m' \<Longrightarrow> length (m_clients m') = length (m_clients m)"
  unfolding quiet_def by (metis length_map)

lemma rfold_quiet:
  assumes "rfold f xs m = Inr m'" and "\<And>x m m'. x \<in> set xs \<Longrightarrow> f x m = Inr m' \<Longrightarrow> quiet m m'"
  shows "quiet m m'"
  using rfold_inv[where P = "quiet m", OF assms(1)] assms(2) quiet_trans by fastforce

lemma fold_quiet:
  assumes "\<And>x m. x \<in> set xs \<Longrightarrow> quiet m (f x m)"
  shows "quiet m (fold f xs m)"
  using assms
proof (induction xs arbitrary: m)
  case (Cons x xs)
  have "quiet m (f x m)" "quiet (f x m) (fold f xs (f x m))" using Cons by auto
  then show ?case using quiet_trans by simp
qed simp

text \<open>Loops over the positions of clients.\<close>

lemma fold_quiet_clients:
  assumes "\<And>i m. i < length (m_clients m) \<Longrightarrow> quiet m (f i m)"
  shows "set xs \<subseteq> {..<length (m_clients m)} \<Longrightarrow> quiet m (fold f xs m)"
proof (induction xs arbitrary: m)
  case (Cons i xs)
  have "quiet m (f i m)" using assms Cons.prems by simp
  with Cons.IH[of "f i m"] Cons.prems quiet_length show ?case using quiet_trans by fastforce
qed simp

lemma rfold_quiet_clients:
  assumes "\<And>i m m'. i < length (m_clients m) \<Longrightarrow> f i m = Inr m' \<Longrightarrow> quiet m m'"
  shows "rfold f xs m = Inr m' \<Longrightarrow> set xs \<subseteq> {..<length (m_clients m)} \<Longrightarrow> quiet m m'"
proof (induction xs arbitrary: m)
  case (Cons i xs)
  then obtain m1 where 1: "f i m = Inr m1" "rfold f xs m1 = Inr m'" by auto
  have "quiet m m1" using assms[OF _ 1(1)] Cons.prems(2) by simp
  with Cons.IH[OF 1(2)] Cons.prems quiet_length show ?case using quiet_trans by fastforce
qed simp

text \<open>An operation on one client that appends \<open>rs\<close> to its queue.\<close>

definition appends :: "pclient \<Rightarrow> request list \<Rightarrow> pclient \<Rightarrow> bool" where
  "appends pc rs pc' \<longleftrightarrow> m_messageQueue (snd pc') = m_messageQueue (snd pc) @ rs \<and> m_id (snd pc') = m_id (snd pc)
     \<and> fst pc' = fst pc + length rs"

lemma appends_trans: "appends pc rs pc' \<Longrightarrow> appends pc' rs' pc'' \<Longrightarrow> appends pc (rs @ rs') pc''"
  by (simp add: appends_def)

lemma appends_none [simp]: "appends pc [] pc"
  by (simp add: appends_def)

lemma appends_queueMessage: "appends pc [r] (queueMessage r pc)"
  by (simp add: appends_def queueMessage_def split_beta)

lemma appends_if: "appends pc (if b then [r] else []) (if b then queueMessage r pc else pc)"
  by (simp add: appends_queueMessage)

text \<open>The requests of \<^verbatim>\<open>queueValueRequests\<close> and of \<^verbatim>\<open>sendSetX\<close>.\<close>

definition value_requests :: "client \<Rightarrow> request list" where
  "value_requests c =
     (if is_size (m_outgoing_reals c) > 0 then [get_real_req (m_outgoing_reals c)] else [])
   @ (if is_size (m_outgoing_ints c) > 0 then [get_integer_req (m_outgoing_ints c)] else [])
   @ (if is_size (m_outgoing_bools c) > 0 then [get_boolean_req (m_outgoing_bools c)] else [])
   @ (if is_size (m_outgoing_strings c) > 0 then [get_string_req (m_outgoing_strings c)] else [])"

lemma client_queueValueRequests_eq:
  "client_queueValueRequests (p, c) = (p + length (value_requests c), c\<lparr>m_messageQueue := m_messageQueue c @ value_requests c\<rparr>)"
  by (simp add: client_queueValueRequests_def queueMessage_def value_requests_def)

definition setX_requests :: "SendSetXType \<Rightarrow> request list" where
  "setX_requests x =
     (if length (reals x) > 0 then [set_real_req (real_vrs x) (reals x)] else [])
   @ (if length (ints x) > 0 then [set_integer_req (int_vrs x) (ints x)] else [])
   @ (if length (bools x) > 0 then [set_boolean_req (bool_vrs x) (bools x)] else [])
   @ (if length (strings x) > 0 then [set_string_req (string_vrs x) (strings x)] else [])"

lemma sendSetX_eq:
  "sendSetX x (p, c) = Inr pc' \<Longrightarrow> pc' = (p + length (setX_requests x), c\<lparr>m_messageQueue := m_messageQueue c @ setX_requests x\<rparr>)"
  by (auto simp: sendSetX_def queueMessage_def setX_requests_def fmi2_import_set_real_def Let_def split: if_splits)

lemma value_requests_step: "r \<in> set (value_requests c) \<Longrightarrow> \<not> is_do_step r"
  by (auto simp: value_requests_def is_do_step_def split: if_splits)

lemma setX_requests_step: "r \<in> set (setX_requests c) \<Longrightarrow> \<not> is_do_step r"
  by (auto simp: setX_requests_def is_do_step_def split: if_splits)

lemma list_update_map_id: "f (xs ! i) = f x \<Longrightarrow> map f (xs[i := x]) = map f xs"
  by (simp add: map_update list_update_same_conv[symmetric])
     (metis length_map list_update_beyond list_update_id not_le nth_map)

text \<open>Queueing at a client: its queue grows by \<open>rs\<close>, and so does the history.\<close>

definition queued :: "nat \<Rightarrow> request list \<Rightarrow> 'w master \<Rightarrow> 'w master \<Rightarrow> bool" where
  "queued i rs m m' \<longleftrightarrow> map m_id (m_clients m') = map m_id (m_clients m) \<and> trace m' = trace m @ map (Pair i) rs \<and> same_flags m m'"

lemma queue_appends:
  assumes "i < length (m_clients m)" and "appends (get_pclient m i) rs pc"
  shows "queued i rs m (note_queued i m (set_pclient i pc m))"
  using assms by (simp add: queued_def note_queued_def set_pclient_def get_pclient_def appends_def list_update_map_id same_flags_def)

lemma master_queueMessage_queued: "i < length (m_clients m) \<Longrightarrow> queued i [r] m (master_queueMessage i r m)"
  unfolding master_queueMessage_def queue_at_def by (rule queue_appends[OF _ appends_queueMessage])

lemma master_sendSetX_queued:
  assumes "i < length (m_clients m)" and "master_sendSetX i x m = Inr m'"
  shows "queued i (setX_requests x) m m'"
proof -
  obtain pc where 1: "sendSetX x (get_pclient m i) = Inr pc" "m' = note_queued i m (set_pclient i pc m)"
    using assms(2) by (auto simp: master_sendSetX_def)
  have "appends (get_pclient m i) (setX_requests x) pc"
    using sendSetX_eq[of x "m_pendingRequests m" "m_clients m ! i" pc] 1(1) by (simp add: get_pclient_def appends_def)
  then show ?thesis using queue_appends[OF assms(1)] 1(2) by simp
qed

lemma queued_quiet: "queued i rs m m' \<Longrightarrow> (\<And>r. r \<in> set rs \<Longrightarrow> \<not> is_do_step r) \<Longrightarrow> quiet m m'"
  by (auto simp: queued_def quiet_def do_steps_def filter_empty_conv)

lemma queued_length: "queued i rs m m' \<Longrightarrow> length (m_clients m') = length (m_clients m)"
  unfolding queued_def by (metis length_map)

lemma queue_quiet: "i < length (m_clients m) \<Longrightarrow> \<not> is_do_step r \<Longrightarrow> quiet m (master_queueMessage i r m)"
  using queued_quiet[OF master_queueMessage_queued] by auto

lemma queueValueRequests_quiet: "quiet m (queueValueRequests m)"
proof -
  have one: "quiet m' (queue_at i client_queueValueRequests m')" if "i < length (m_clients m')" for i and m' :: "'w master"
    unfolding queue_at_def
    by (rule queued_quiet[OF queue_appends[OF that, of "value_requests (m_clients m' ! i)"]])
       (auto simp: get_pclient_def client_queueValueRequests_eq appends_def dest: value_requests_step)
  show ?thesis unfolding queueValueRequests_def by (rule fold_quiet_clients) (auto intro: one)
qed

lemma queueX_id: "queueX dbg refs c = Inr c' \<Longrightarrow> m_id c' = m_id c \<and> m_messageQueue c' = m_messageQueue c"
  unfolding queueX_def
  by (rule rfold_inv[where P = "\<lambda>c'. m_id c' = m_id c \<and> m_messageQueue c' = m_messageQueue c"])
     (auto simp: queueX_type_def queueReals_def queueInts_def queueBools_def queueStrings_def
       split: option.splits fmi2_base_type.splits)

lemma set_client_quiet: "m_id c = m_id (m_clients m ! i) \<Longrightarrow> quiet m (set_client i c m)"
  by (simp add: quiet_def set_client_def do_steps_def list_update_map_id same_flags_def)

lemma queueX_refs_quiet: "queueX_refs cfg refs m = Inr m' \<Longrightarrow> quiet m m'"
  unfolding queueX_refs_def
  by (erule rfold_quiet)
     (auto simp: master_queueX_def split: option.splits intro!: set_client_quiet dest: queueX_id)

lemma deleteCachedValues_quiet: "quiet m (deleteCachedValues cfg b S m)"
  by (simp add: quiet_def deleteCachedValues_def do_steps_def comp_def client_deleteCachedValues_def if_distrib same_flags_def cong: if_cong)

lemma set_control_variables_quiet: "set_control_variables var m = Inr m' \<Longrightarrow> quiet m m'"
proof -
  have opt: "quiet m m'" if "(case x of None \<Rightarrow> Inr m | Some (vrs, vals) \<Rightarrow> if length vrs \<noteq> length vals then Inl bad else f vrs vals) = Inr m'"
    "\<And>vrs vals. length vrs = length vals \<Longrightarrow> f vrs vals = Inr m' \<Longrightarrow> quiet m m'"
    for x :: "(int list \<times> 'b list) option" and f and m m' :: "'w master" and bad
    using that by (cases x) (auto split: if_splits)
  assume a: "set_control_variables var m = Inr m'"
  show ?thesis
  proof (cases "fmu_id var")
    case None
    then show ?thesis using a by (simp add: set_control_variables_def)
  next
    case (Some fid)
    show ?thesis
    proof (cases "fid < 0 \<or> int (length (m_clients m)) \<le> fid")
      case True
      then show ?thesis using a Some by (simp add: set_control_variables_def)
    next
      case False
      then have i: "nat fid < length (m_clients m)" by auto
      have q: "quiet m0 (master_queueMessage (nat fid) r m0)" if "quiet m m0" "request_type r \<noteq> 105" for m0 r
        using queue_quiet[of "nat fid" m0 r] i quiet_length[OF that(1)] that(2) by (simp add: is_do_step_def)
      obtain m1 m2 m3 where 1:
        "(case res_reals var of None \<Rightarrow> Inr m | Some (vrs, vals) \<Rightarrow> if length vrs \<noteq> length vals then Inl (Fatal ''bad variables'')
            else rbind (fmi2_import_set_real vrs vals) (\<lambda>s. Inr (master_queueMessage (nat fid) s m))) = Inr m1"
        "(case res_ints var of None \<Rightarrow> Inr m1 | Some (vrs, vals) \<Rightarrow> if length vrs \<noteq> length vals then Inl (Fatal ''bad variables'')
            else Inr (master_queueMessage (nat fid) (set_integer_req vrs vals) m1)) = Inr m2"
        "(case res_bools var of None \<Rightarrow> Inr m2 | Some (vrs, vals) \<Rightarrow> if length vrs \<noteq> length vals then Inl (Fatal ''bad variables'')
            else Inr (master_queueMessage (nat fid) (set_boolean_req vrs vals) m2)) = Inr m3"
        "(case res_strings var of None \<Rightarrow> Inr m3 | Some (vrs, vals) \<Rightarrow> if length vrs \<noteq> length vals then Inl (Fatal ''bad variables'')
            else Inr (master_queueMessage (nat fid) (set_string_req vrs vals) m3)) = Inr m'"
        using a Some False by (auto simp: set_control_variables_def Let_def)
      have "quiet m m1" by (rule opt[OF 1(1)]) (auto simp: fmi2_import_set_real_def intro!: q)
      moreover from this have "quiet m m2" using opt[OF 1(2)] q quiet_trans by fastforce
      moreover from this have "quiet m m3" using opt[OF 1(3)] q quiet_trans by fastforce
      ultimately show ?thesis using opt[OF 1(4)] q quiet_trans by fastforce
    qed
  qed
qed

lemma run_command_quiet: "zmqControl m \<Longrightarrow> quiet m (run_command c m)"
  by (auto simp: run_command_def quiet_def do_steps_def same_flags_def split: option.splits command.splits)

lemma reply_state_quiet: "quiet m (reply_state m)"
  by (simp add: reply_state_def quiet_def do_steps_def same_flags_def)

lemma control_loop_quiet: "control_loop msgs m = Inr m' \<Longrightarrow> zmqControl m \<Longrightarrow> quiet m m'"
proof (induction msgs arbitrary: m)
  case Nil
  then show ?case by (auto split: if_splits)
next
  case (Cons ctrl msgs)
  show ?case
  proof (cases "initing m \<or> running m")
    case False
    then show ?thesis using Cons.prems by simp
  next
    case True
    then obtain m1 where 1: "control_loop msgs (reply_state m1) = Inr m'"
      "(if version ctrl = Some 1 then rfold set_control_variables (ctrl_variables ctrl) (run_command (command ctrl) m) else Inr m) = Inr m1"
      using Cons.prems by auto
    have "quiet m m1"
      using 1(2) rfold_quiet[of set_control_variables "ctrl_variables ctrl" "run_command (command ctrl) m" m1, OF _ set_control_variables_quiet]
        run_command_quiet[OF Cons.prems(2)] quiet_trans by (fastforce split: if_splits)
    moreover from this have "zmqControl (reply_state m1)" using Cons.prems(2) by (simp add: quiet_def same_flags_def reply_state_def)
    ultimately show ?thesis using Cons.IH[OF 1(1)] reply_state_quiet quiet_trans by blast
  qed
qed

lemma world_quiet [simp]: "quiet m (m'\<lparr>world := w\<rparr>) \<longleftrightarrow> quiet m m'" "quiet (m\<lparr>world := w\<rparr>) m' \<longleftrightarrow> quiet m m'"
  by (simp_all add: quiet_def do_steps_def same_flags_def)

lemma handleZmqControl_quiet: "handleZmqControl net m = Inr m' \<Longrightarrow> quiet m m'"
  by (auto simp: handleZmqControl_def split: if_splits prod.splits dest: control_loop_quiet)

lemma dispatch_id:
  "dispatch_response P r c = Inr (c', ps) \<Longrightarrow> m_id c' = m_id c \<and> m_messageQueue c' = m_messageQueue c"
  by (cases r) (auto simp: check_status_def on_get_xml_res_def setVariables_def Let_def split: if_splits option.splits)

lemma clientData_id: "client_clientData P rs pc = Inr (pc', ps) \<Longrightarrow> m_id (snd pc') = m_id (snd pc)"
proof (induction rs arbitrary: pc ps)
  case (Cons r rs)
  then obtain pc1 ps1 qs where 1: "client_clientDataInner P r pc = Inr (pc1, ps1)" "client_clientData P rs pc1 = Inr (pc', qs)" by auto
  have "m_id (snd pc1) = m_id (snd pc)" using 1(1) by (auto simp: client_clientDataInner_def split: if_splits prod.splits dest: dispatch_id)
  then show ?case using Cons.IH[OF 1(2)] by simp
qed simp

lemma receive_quiet: "receiveAndHandleMessage cfg b m = Inr m' \<Longrightarrow> quiet m m'"
  by (cases b)
     (auto simp: receiveAndHandleMessage_def quiet_def do_steps_def set_pclient_def get_pclient_def list_update_map_id same_flags_def
       split: if_splits dest!: clientData_id)

lemma receives_quiet: "rfold (receiveAndHandleMessage cfg) bs m = Inr m' \<Longrightarrow> quiet m m'"
  by (erule rfold_quiet, erule receive_quiet)

lemma wait_loop_quiet: "wait_loop net cfg left m = Inr m' \<Longrightarrow> quiet m m'"
proof (induction left arbitrary: m)
  case 0
  show ?case
  proof (cases "m_pendingRequests m = 0")
    case True
    then show ?thesis using 0 by (simp add: wait_loop.simps)
  next
    case False
    then obtain m1 bs w where 1: "handleZmqControl net m = Inr m1" "net_poll net (world m1) = (bs, w)"
      "rfold (receiveAndHandleMessage cfg) bs (m1\<lparr>world := w\<rparr>) = Inr m'"
      using 0 by (subst (asm) wait_loop.simps) (auto split: if_splits prod.splits)
    show ?thesis using handleZmqControl_quiet[OF 1(1)] receives_quiet[OF 1(3)] quiet_trans by auto
  qed
next
  case (Suc left)
  show ?case
  proof (cases "m_pendingRequests m = 0")
    case True
    then show ?thesis using Suc.prems by (simp add: wait_loop.simps)
  next
    case False
    then obtain m1 bs w m2 where 1: "handleZmqControl net m = Inr m1" "net_poll net (world m1) = (bs, w)"
      "rfold (receiveAndHandleMessage cfg) bs (m1\<lparr>world := w\<rparr>) = Inr m2" "wait_loop net cfg left m2 = Inr m'"
      using Suc.prems by (subst (asm) wait_loop.simps) (auto split: if_splits prod.splits)
    have "quiet m m1" "quiet m1 m2" using handleZmqControl_quiet[OF 1(1)] receives_quiet[OF 1(3)] by auto
    then show ?thesis using Suc.IH[OF 1(4)] quiet_trans by blast
  qed
qed

lemma sendQueuedMessages_id: "m_id (snd (sendQueuedMessages c)) = m_id c"
  by (simp add: sendQueuedMessages_def)

lemma send_client_quiet: "quiet m (send_client net i m)"
  using set_client_quiet[of "snd (sendQueuedMessages (m_clients m ! i))" m i] sendQueuedMessages_id[of "m_clients m ! i"]
  by (simp add: send_client_def split_beta)

lemma wait_quiet: "wait net cfg m = Inr m' \<Longrightarrow> quiet m m'"
proof -
  have "quiet m (fold (send_client net) xs (m\<lparr>rendezvous := k\<rparr>))" for xs k
    using fold_quiet[of xs "send_client net" "m\<lparr>rendezvous := k\<rparr>", OF send_client_quiet] by (simp add: quiet_def do_steps_def same_flags_def)
  then show "wait net cfg m = Inr m' \<Longrightarrow> quiet m m'"
    using wait_loop_quiet quiet_trans by (fastforce simp: wait_def Let_def split: if_splits)
qed

end
