(* ===== verification/Sc_Math.thy ===== *)
theory Sc_Math
  imports Prelude
begin

text \<open>
  Vectors, quaternions and matrices of the strong coupling library (tools/strong-coupling-core: Vec3, Quat,
  Mat3). \<^verbatim>\<open>double\<close> is \<^typ>\<open>real\<close>: the theorems are about the formulas, not about rounding.
\<close>

subsection \<open>Vec3\<close>

datatype Vec3 = Vec3 (vx: double) (vy: double) (vz: double)

definition vzero :: Vec3 where
  "vzero = Vec3 0 0 0"

definition cross :: "Vec3 \<Rightarrow> Vec3 \<Rightarrow> Vec3" where
  "cross v u = Vec3 (- (vy u * vz v) + vz u * vy v) (- (vz u * vx v) + vx u * vz v) (- (vx u * vy v) + vy u * vx v)"

definition dot :: "Vec3 \<Rightarrow> Vec3 \<Rightarrow> double" where
  "dot v u = vx u * vx v + vy u * vy v + vz u * vz v"

definition vadd :: "Vec3 \<Rightarrow> Vec3 \<Rightarrow> Vec3" where
  "vadd v u = Vec3 (vx v + vx u) (vy v + vy u) (vz v + vz u)"

definition vsub :: "Vec3 \<Rightarrow> Vec3 \<Rightarrow> Vec3" where
  "vsub v u = Vec3 (vx v - vx u) (vy v - vy u) (vz v - vz u)"

definition vscale :: "Vec3 \<Rightarrow> double \<Rightarrow> Vec3" where
  "vscale v s = Vec3 (vx v * s) (vy v * s) (vz v * s)"

definition vnormalize :: "Vec3 \<Rightarrow> Vec3" where
  "vnormalize v = (let l = sqrt (vx v * vx v + vy v * vy v + vz v * vz v) in
     if l = 0 then Vec3 0 0 1 else vscale v (1 / l))"

lemmas vec_defs = vzero_def cross_def dot_def vadd_def vsub_def vscale_def

lemma dot_comm: "dot u v = dot v u"
  by (simp add: vec_defs)

lemma dot_linear: "dot (vadd u v) w = dot u w + dot v w" "dot (vscale u s) w = s * dot u w"
  by (simp_all add: vec_defs algebra_simps)

lemma cross_anti: "cross u v = vscale (cross v u) (- 1)"
  by (simp add: vec_defs)

lemma dot_cross_self [simp]: "dot (cross u v) u = 0" "dot (cross u v) v = 0"
  by (simp_all add: vec_defs algebra_simps)

lemma triple: "dot (cross u v) w = dot u (cross v w)"
  by (simp add: vec_defs algebra_simps)

lemma vnormalize_unit: "dot (vnormalize v) (vnormalize v) = 1"
proof (cases "sqrt (vx v * vx v + vy v * vy v + vz v * vz v) = 0")
  case True
  then show ?thesis by (simp add: vnormalize_def dot_def)
next
  case False
  let ?q = "vx v * vx v + vy v * vy v + vz v * vz v"
  have "0 \<le> ?q" by simp
  then have "sqrt ?q * sqrt ?q = ?q" by simp
  moreover have "?q \<noteq> 0" using False by auto
  moreover have "dot (vscale v (1 / sqrt ?q)) (vscale v (1 / sqrt ?q)) = ?q / (sqrt ?q * sqrt ?q)"
    by (simp add: dot_def vscale_def flip: add_divide_distrib)
  ultimately show ?thesis using False by (simp add: vnormalize_def Let_def flip: add_divide_distrib)
qed

subsection \<open>Quat\<close>

datatype Quat = Quat (qx: double) (qy: double) (qz: double) (qw: double)

definition quat_identity :: Quat where
  "quat_identity = Quat 0 0 0 1"

definition quat_multiply :: "Quat \<Rightarrow> Quat \<Rightarrow> Quat" where
  "quat_multiply p q =
     (let va = Vec3 (qx p) (qy p) (qz p); vb = Vec3 (qx q) (qy q) (qz q); wa = qw p; wb = qw q; c = cross va vb
      in Quat (wa * vx vb + wb * vx va + vx c) (wa * vy vb + wb * vy va + vy c) (wa * vz vb + wb * vz va + vz c)
              (wa * wb - dot va vb))"

definition quat_multiplyVector :: "Quat \<Rightarrow> Vec3 \<Rightarrow> Vec3" where
  "quat_multiplyVector q v =
     (let x = vx v; y = vy v; z = vz v;
          ix = qw q * x + qy q * z - qz q * y;
          iy = qw q * y + qz q * x - qx q * z;
          iz = qw q * z + qx q * y - qy q * x;
          iw = - qx q * x - qy q * y - qz q * z
      in Vec3 (ix * qw q + iw * - qx q + iy * - qz q - iz * - qy q)
              (iy * qw q + iw * - qy q + iz * - qx q - ix * - qz q)
              (iz * qw q + iw * - qz q + ix * - qy q - iy * - qx q))"

definition quat_norm2 :: "Quat \<Rightarrow> double" where
  "quat_norm2 q = qx q * qx q + qy q * qy q + qz q * qz q + qw q * qw q"

definition quat_normalize :: "Quat \<Rightarrow> Quat" where
  "quat_normalize q = (let l = sqrt (quat_norm2 q) in
     if l = 0 then Quat 0 0 0 1 else let l = 1 / l in Quat (qx q * l) (qy q * l) (qz q * l) (qw q * l))"

definition quat_conjugate :: "Quat \<Rightarrow> Quat" where
  "quat_conjugate q = Quat (- qx q) (- qy q) (- qz q) (qw q)"

lemmas quat_defs = quat_multiply_def quat_multiplyVector_def quat_norm2_def quat_conjugate_def Let_def

text \<open>\<^verbatim>\<open>multiplyVector\<close> is the product of the quaternion, the vector and the conjugate.\<close>

lemma multiplyVector_conjugation:
  "quat_multiply (quat_multiply q (Quat (vx v) (vy v) (vz v) 0)) (quat_conjugate q)
     = (let w = quat_multiplyVector q v in Quat (vx w) (vy w) (vz w) 0)"
  by (simp add: quat_defs vec_defs algebra_simps)

lemma multiplyVector_dot:
  "dot (quat_multiplyVector q u) (quat_multiplyVector q v) = quat_norm2 q * quat_norm2 q * dot u v"
  by (simp add: quat_defs vec_defs algebra_simps)

lemma multiplyVector_cross:
  "cross (quat_multiplyVector q u) (quat_multiplyVector q v) = vscale (quat_multiplyVector q (cross u v)) (quat_norm2 q)"
  by (simp add: quat_defs vec_defs algebra_simps)

lemma multiplyVector_compose:
  "quat_multiplyVector (quat_multiply p q) v = quat_multiplyVector p (quat_multiplyVector q v)"
  by (simp add: quat_defs vec_defs algebra_simps)

lemma multiplyVector_inverse:
  "quat_multiplyVector (quat_conjugate q) (quat_multiplyVector q v) = vscale v (quat_norm2 q * quat_norm2 q)"
  by (cases v) (simp add: quat_defs vec_defs algebra_simps)

lemma quat_normalize_unit: "quat_norm2 (quat_normalize q) = 1"
proof (cases "sqrt (quat_norm2 q) = 0")
  case True
  then show ?thesis by (simp add: quat_normalize_def quat_norm2_def)
next
  case False
  have "0 \<le> quat_norm2 q" by (simp add: quat_norm2_def)
  then have s: "sqrt (quat_norm2 q) * sqrt (quat_norm2 q) = quat_norm2 q" by simp
  have "quat_norm2 (quat_normalize q) = quat_norm2 q / (sqrt (quat_norm2 q) * sqrt (quat_norm2 q))"
    using False by (simp add: quat_normalize_def quat_norm2_def Let_def flip: add_divide_distrib)
  also have "\<dots> = 1" using False s by simp
  finally show ?thesis .
qed

subsection \<open>Mat3\<close>

datatype Mat3 = Mat3 double double double double double double double double double

fun m_data :: "Mat3 \<Rightarrow> double list" where
  "m_data (Mat3 a b c d e f g h i) = [a, b, c, d, e, f, g, h, i]"

definition getElement :: "Mat3 \<Rightarrow> nat \<Rightarrow> nat \<Rightarrow> double" where
  "getElement m row column = m_data m ! (3 * row + column)"

definition getColumn :: "Mat3 \<Rightarrow> nat \<Rightarrow> Vec3" where
  "getColumn m i = Vec3 (m_data m ! (3 * 0 + i)) (m_data m ! (3 * 1 + i)) (m_data m ! (3 * 2 + i))"

text \<open>The matrix whose element in row \<open>i\<close> and column \<open>j\<close> is \<open>f i j\<close>: what the double loops over \<^verbatim>\<open>setElement\<close> fill.\<close>

definition fill_elements :: "(nat \<Rightarrow> nat \<Rightarrow> double) \<Rightarrow> Mat3" where
  "fill_elements f = Mat3 (f 0 0) (f 0 1) (f 0 2) (f 1 0) (f 1 1) (f 1 2) (f 2 0) (f 2 1) (f 2 2)"

definition mat_transpose :: "Mat3 \<Rightarrow> Mat3" where
  "mat_transpose m = fill_elements (\<lambda>i j. getElement m j i)"

definition mat_multiplyVector :: "Mat3 \<Rightarrow> Vec3 \<Rightarrow> Vec3" where
  "mat_multiplyVector m v = Vec3 (dot (getColumn m 0) v) (dot (getColumn m 1) v) (dot (getColumn m 2) v)"

definition mat_multiplyMatrix :: "Mat3 \<Rightarrow> Mat3 \<Rightarrow> Mat3" where
  "mat_multiplyMatrix a m = fill_elements (\<lambda>j i.
     getElement m 0 i * getElement a j 0 + getElement m 1 i * getElement a j 1 + getElement m 2 i * getElement a j 2)"

definition mat_scale :: "Mat3 \<Rightarrow> Vec3 \<Rightarrow> Mat3" where
  "mat_scale m v = fill_elements (\<lambda>i j. [vx v, vy v, vz v] ! j * getElement m i j)"

definition setRotationFromQuaternion :: "Quat \<Rightarrow> Mat3" where
  "setRotationFromQuaternion q =
     (let x = qx q; y = qy q; z = qz q; w = qw q;
          x2 = x + x; y2 = y + y; z2 = z + z;
          xx = x * x2; xy = x * y2; xz = x * z2; yy = y * y2; yz = y * z2; zz = z * z2;
          wx = w * x2; wy = w * y2; wz = w * z2
      in Mat3 (1 - (yy + zz)) (xy - wz) (xz + wy)
              (xy + wz) (1 - (xx + zz)) (yz - wx)
              (xz - wy) (yz + wx) (1 - (xx + yy)))"

lemmas mat_defs = getElement_def getColumn_def fill_elements_def mat_transpose_def mat_multiplyVector_def
  mat_multiplyMatrix_def mat_scale_def setRotationFromQuaternion_def numeral_eq_Suc

text \<open>The product of a matrix and a vector is taken with the columns, so it is the product with the transposed matrix.\<close>

lemma rotation_of_quat:
  assumes "quat_norm2 q = 1"
  shows "mat_multiplyVector (mat_transpose (setRotationFromQuaternion q)) v = quat_multiplyVector q v"
proof -
  have w: "qw q * qw q = 1 - (qx q * qx q + qy q * qy q + qz q * qz q)" using assms by (simp add: quat_norm2_def)
  have e: "a * (qw q * qw q) = a * (1 - (qx q * qx q + qy q * qy q + qz q * qz q))" for a by (simp add: w)
  show ?thesis
    using e[of "vx v"] e[of "vy v"] e[of "vz v"]
    by (simp add: mat_defs quat_defs dot_def Let_def algebra_simps)
qed

lemma multiplyVector_transposes:
  assumes "quat_norm2 q = 1"
  shows "mat_multiplyVector (setRotationFromQuaternion q) v = quat_multiplyVector (quat_conjugate q) v"
proof -
  have "mat_transpose (setRotationFromQuaternion (quat_conjugate q)) = setRotationFromQuaternion q"
    by (simp add: mat_defs quat_conjugate_def Let_def)
  then show ?thesis
    using rotation_of_quat[of "quat_conjugate q" v] assms by (simp add: quat_norm2_def quat_conjugate_def)
qed

subsection \<open>Properties\<close>

text \<open>Turning vectors with a normalised quaternion keeps their scalar products and their cross products, so lengths,
  angles and orientation; turning with the product of two quaternions is turning twice; and turning with the conjugate
  turns back.\<close>

theorem quat_rotation:
  assumes "quat_norm2 q = 1"
  shows "dot (quat_multiplyVector q u) (quat_multiplyVector q v) = dot u v
     \<and> cross (quat_multiplyVector q u) (quat_multiplyVector q v) = quat_multiplyVector q (cross u v)
     \<and> quat_multiplyVector (quat_multiply q p) v = quat_multiplyVector q (quat_multiplyVector p v)
     \<and> quat_multiplyVector (quat_conjugate q) (quat_multiplyVector q v) = v"
  using multiplyVector_dot[of q u v] multiplyVector_cross[of q u v] multiplyVector_compose[of q p v]
    multiplyVector_inverse[of q v] assms
  by (simp add: vscale_def)

theorem quat_rotation_witness:
  "dot (quat_multiplyVector (Quat 0 0 (3 / 5) (4 / 5)) (Vec3 1 2 3)) (quat_multiplyVector (Quat 0 0 (3 / 5) (4 / 5)) (Vec3 4 5 6)) = 32"
  using quat_rotation[of "Quat 0 0 (3 / 5) (4 / 5)" "Vec3 1 2 3" "Vec3 4 5 6"] by (simp add: quat_norm2_def dot_def)

text \<open>\<^verbatim>\<open>Mat3::multiplyVector\<close> takes the scalar products with the columns of the matrix, so the matrix of a normalised
  quaternion turns vectors the other way round than the quaternion: it applies the inverse rotation.\<close>

theorem mat_multiplyVector_inverse_rotation:
  assumes "quat_norm2 q = 1"
  shows "mat_multiplyVector (setRotationFromQuaternion q) (quat_multiplyVector q v) = v"
  using multiplyVector_transposes[OF assms] multiplyVector_inverse[of q v] assms by (simp add: vscale_def)

theorem mat_multiplyVector_inverse_rotation_witness:
  "mat_multiplyVector (setRotationFromQuaternion (Quat 0 0 (3 / 5) (4 / 5)))
     (quat_multiplyVector (Quat 0 0 (3 / 5) (4 / 5)) (Vec3 1 2 3)) = Vec3 1 2 3"
  using mat_multiplyVector_inverse_rotation[of "Quat 0 0 (3 / 5) (4 / 5)"] by (simp add: quat_norm2_def)

end
