(* ===== verification/Sc_Constraint.thy ===== *)
theory Sc_Constraint
  imports Sc_Math
begin

text \<open>
  Connectors, equations and constraints of the strong coupling library (tools/strong-coupling-core). The connectors
  live in a list; a pointer to a connector is its position there, a pointer to a slave the
  position of the client. The violation of an equation is \<open>None\<close> until the first update, because the
  constructor leaves it uninitialised. The theorems say that each equation's Jacobian is the derivative of its
  violation along every rigid motion.
\<close>

subsection \<open>Connectors\<close>

record Connector =
  m_index :: nat
  m_slave :: nat
  m_position :: Vec3
  m_velocity :: Vec3
  m_futureVelocity :: Vec3
  m_futureAngularVelocity :: Vec3
  m_quaternion :: Quat
  m_shaftAngle :: double
  m_angularVelocity :: Vec3
  m_force :: Vec3
  m_torque :: Vec3

definition new_Connector :: "nat \<Rightarrow> Connector" where
  "new_Connector slave = \<lparr>m_index = 0, m_slave = slave, m_position = vzero, m_velocity = vzero, m_futureVelocity = vzero,
     m_futureAngularVelocity = vzero, m_quaternion = quat_identity, m_shaftAngle = 0, m_angularVelocity = vzero,
     m_force = vzero, m_torque = vzero\<rparr>"

text \<open>\<^verbatim>\<open>setOrientation(x, y, z, w)\<close> calls \<^verbatim>\<open>Quat::set(w, x, y, z)\<close>, whose parameters are \<^verbatim>\<open>x, y, z, w\<close>.\<close>

definition setOrientation :: "double \<Rightarrow> double \<Rightarrow> double \<Rightarrow> double \<Rightarrow> Connector \<Rightarrow> Connector" where
  "setOrientation x y z w c = c\<lparr>m_quaternion := Quat w x y z\<rparr>"

definition setFutureVelocity :: "Vec3 \<Rightarrow> Vec3 \<Rightarrow> Connector \<Rightarrow> Connector" where
  "setFutureVelocity v w c = c\<lparr>m_futureVelocity := v, m_futureAngularVelocity := w\<rparr>"

subsection \<open>Equations\<close>

record JacobianElement =
  m_spatial :: Vec3
  m_rotational :: Vec3

definition jzero :: JacobianElement where
  "jzero = \<lparr>m_spatial = vzero, m_rotational = vzero\<rparr>"

definition jmultiply_vec :: "JacobianElement \<Rightarrow> Vec3 \<Rightarrow> Vec3 \<Rightarrow> double" where
  "jmultiply_vec G spatial rotational = dot spatial (m_spatial G) + dot rotational (m_rotational G)"

definition jmultiply :: "JacobianElement \<Rightarrow> JacobianElement \<Rightarrow> double" where
  "jmultiply G e = dot (m_spatial e) (m_spatial G) + dot (m_rotational e) (m_rotational G)"

record Equation =
  m_Gs :: "JacobianElement list"
  m_g :: "double option"
  m_relativeVelocity :: double
  eq_index :: nat
  eq_connectors :: "nat list"
  m_isSpatial :: bool
  m_isRotational :: bool

definition new_Equation :: "nat list \<Rightarrow> Equation" where
  "new_Equation conns = \<lparr>m_Gs = replicate (length conns) jzero, m_g = None, m_relativeVelocity = 0, eq_index = 0,
     eq_connectors = conns, m_isSpatial = True, m_isRotational = True\<rparr>"

text \<open>The constructor from a vector refuses fewer than two connectors.\<close>

definition new_Equation_vec :: "nat list \<Rightarrow> Equation res" where
  "new_Equation_vec conns = (if length conns < 2 then Inl (Exit 1) else Inr (new_Equation conns))"

definition setG :: "Vec3 \<Rightarrow> Vec3 \<Rightarrow> Vec3 \<Rightarrow> Vec3 \<Rightarrow> Equation \<Rightarrow> Equation" where
  "setG sA rA sB rB eq = eq\<lparr>m_Gs := (m_Gs eq)[0 := \<lparr>m_spatial = sA, m_rotational = rA\<rparr>, 1 := \<lparr>m_spatial = sB, m_rotational = rB\<rparr>]\<rparr>"

definition setG_at :: "nat \<Rightarrow> Vec3 \<Rightarrow> Vec3 \<Rightarrow> Equation \<Rightarrow> Equation res" where
  "setG_at i s r eq =
     (if length (m_Gs eq) \<le> i then Inl (Exit 1) else Inr (eq\<lparr>m_Gs := (m_Gs eq)[i := \<lparr>m_spatial = s, m_rotational = r\<rparr>]\<rparr>))"

definition setViolation :: "double \<Rightarrow> Equation \<Rightarrow> Equation" where
  "setViolation x eq = eq\<lparr>m_g := Some x\<rparr>"

definition getViolation :: "Equation \<Rightarrow> double res" where
  "getViolation eq = (case m_g eq of None \<Rightarrow> Inl (UB ''m_g'') | Some x \<Rightarrow> Inr x)"

definition getVelocity :: "Connector list \<Rightarrow> Equation \<Rightarrow> double" where
  "getVelocity cs eq = foldl (\<lambda>ret (G, c). ret + jmultiply_vec G (m_velocity (cs ! c)) (m_angularVelocity (cs ! c)))
     (m_relativeVelocity eq) (zip (m_Gs eq) (eq_connectors eq))"

definition getFutureVelocity :: "Connector list \<Rightarrow> Equation \<Rightarrow> double" where
  "getFutureVelocity cs eq = foldl (\<lambda>ret (G, c). ret + jmultiply_vec G (m_futureVelocity (cs ! c)) (m_futureAngularVelocity (cs ! c)))
     0 (zip (m_Gs eq) (eq_connectors eq))"

definition haveOverlappingFMUs :: "Connector list \<Rightarrow> Equation \<Rightarrow> Equation \<Rightarrow> bool" where
  "haveOverlappingFMUs cs e1 e2 =
     list_ex (\<lambda>c1. list_ex (\<lambda>c2. m_slave (cs ! c1) = m_slave (cs ! c2)) (eq_connectors e2)) (eq_connectors e1)"

fun jacobian_find :: "nat \<Rightarrow> JacobianElement list \<Rightarrow> nat list \<Rightarrow> JacobianElement res" where
  "jacobian_find conn (G # Gs) (c # cs) = (if conn = c then Inr G else jacobian_find conn Gs cs)"
| "jacobian_find conn _ _ = Inl (Exit 1)"

definition jacobianElementForConnector :: "Equation \<Rightarrow> nat \<Rightarrow> JacobianElement res" where
  "jacobianElementForConnector eq conn = jacobian_find conn (m_Gs eq) (eq_connectors eq)"

subsection \<open>Constraints\<close>

datatype constraint_kind =
    BallJoint (localAnchorA: Vec3) (localAnchorB: Vec3)
  | Lock (localAnchorA: Vec3) (localAnchorB: Vec3)
  | Hinge (localAnchorA: Vec3) (localAnchorB: Vec3) (localPivotA: Vec3) (localPivotB: Vec3)
  | HingeMotor (localAxisA: Vec3) (localAxisB: Vec3)
  | Shaft
  | MultiWay (weights: "double list")

record Constraint =
  con_kind :: constraint_kind
  con_connectors :: "nat list"
  con_equations :: "Equation list"

definition ex :: Vec3 where "ex = Vec3 1 0 0"
definition ey :: Vec3 where "ey = Vec3 0 1 0"
definition ez :: Vec3 where "ez = Vec3 0 0 1"

definition neg :: "Vec3 \<Rightarrow> Vec3" where
  "neg v = Vec3 (- vx v) (- vy v) (- vz v)"

definition new_BallJoint :: "nat \<Rightarrow> nat \<Rightarrow> Vec3 \<Rightarrow> Vec3 \<Rightarrow> Constraint" where
  "new_BallJoint a b anchorA anchorB = \<lparr>con_kind = BallJoint anchorA anchorB, con_connectors = [a, b],
     con_equations = replicate 3 (new_Equation [a, b])\<rparr>"

definition new_Lock :: "nat \<Rightarrow> nat \<Rightarrow> Vec3 \<Rightarrow> Vec3 \<Rightarrow> Constraint" where
  "new_Lock a b anchorA anchorB = \<lparr>con_kind = Lock anchorA anchorB, con_connectors = [a, b],
     con_equations = replicate 3 (new_Equation [a, b])
       @ map (\<lambda>e. setG vzero (neg e) vzero e (new_Equation [a, b])) [ex, ey, ez]\<rparr>"

definition new_Hinge :: "nat \<Rightarrow> nat \<Rightarrow> Vec3 \<Rightarrow> Vec3 \<Rightarrow> Vec3 \<Rightarrow> Vec3 \<Rightarrow> Constraint" where
  "new_Hinge a b anchorA anchorB pivotA pivotB = \<lparr>con_kind = Hinge anchorA anchorB pivotA pivotB, con_connectors = [a, b],
     con_equations = replicate 5 (new_Equation [a, b])\<rparr>"

definition new_HingeMotor :: "nat \<Rightarrow> nat \<Rightarrow> Vec3 \<Rightarrow> Vec3 \<Rightarrow> double \<Rightarrow> Constraint" where
  "new_HingeMotor a b axisA axisB v = \<lparr>con_kind = HingeMotor axisA axisB, con_connectors = [a, b],
     con_equations = [(new_Equation [a, b])\<lparr>m_relativeVelocity := v\<rparr>]\<rparr>"

definition new_Shaft :: "nat \<Rightarrow> nat \<Rightarrow> Constraint" where
  "new_Shaft a b = \<lparr>con_kind = Shaft, con_connectors = [a, b],
     con_equations = [(setG vzero (neg ex) vzero ex (new_Equation [a, b]))\<lparr>m_isSpatial := False\<rparr>]\<rparr>"

definition new_MultiWay :: "nat list \<Rightarrow> double list \<Rightarrow> Constraint res" where
  "new_MultiWay conns ws =
     rbind (new_Equation_vec conns) (\<lambda>eq.
     rbind (rfold (\<lambda>(i, w). setG_at i vzero (Vec3 w 0 0)) (enumerate 0 ws) eq) (\<lambda>eq.
       Inr \<lparr>con_kind = MultiWay ws, con_connectors = conns, con_equations = [eq\<lparr>m_isSpatial := False\<rparr>]\<rparr>))"

text \<open>\<^verbatim>\<open>BallJointConstraint::update\<close> on the first three equations.\<close>

definition ball_update :: "Connector \<Rightarrow> Connector \<Rightarrow> Vec3 \<Rightarrow> Vec3 \<Rightarrow> Equation list \<Rightarrow> Equation list" where
  "ball_update A B anchorA anchorB eqs =
     (let ri = quat_multiplyVector (m_quaternion A) anchorA; rj = quat_multiplyVector (m_quaternion B) anchorB;
          gvec = vsub (vsub (vadd (m_position B) rj) (m_position A)) ri;
          upd = (\<lambda>e eq. setG (neg e) (neg (cross ri e)) e (cross rj e) (setViolation (dot gvec e) eq))
      in eqs[0 := upd ex (eqs ! 0), 1 := upd ey (eqs ! 1), 2 := upd ez (eqs ! 2)])"

definition lock_update :: "Connector \<Rightarrow> Connector \<Rightarrow> Equation list \<Rightarrow> Equation list" where
  "lock_update A B eqs =
     (let xi = quat_multiplyVector (m_quaternion A) ex; yi = quat_multiplyVector (m_quaternion A) ey;
          zi = quat_multiplyVector (m_quaternion A) ez;
          xj = quat_multiplyVector (m_quaternion B) ex; yj = quat_multiplyVector (m_quaternion B) ey;
          zj = quat_multiplyVector (m_quaternion B) ez;
          upd = (\<lambda>nj ni eq. setViolation (dot ni nj) (setG vzero (vscale (cross nj ni) (- 1)) vzero (vscale (cross nj ni) 1) eq))
      in eqs[3 := upd zj yi (eqs ! 3), 4 := upd xj zi (eqs ! 4), 5 := upd yj xi (eqs ! 5)])"

definition hinge_update :: "Connector \<Rightarrow> Connector \<Rightarrow> Vec3 \<Rightarrow> Vec3 \<Rightarrow> Vec3 \<Rightarrow> Vec3 \<Rightarrow> Equation list \<Rightarrow> Equation list" where
  "hinge_update A B anchorA anchorB pivotA_local pivotB_local eqs =
     (let qA = m_quaternion A; qB = m_quaternion B;
          nB_local = vnormalize (cross anchorB pivotB_local);
          pivotA = quat_multiplyVector qA pivotA_local;
          anchorB_w = quat_multiplyVector qB anchorB;
          nB = quat_multiplyVector qB nB_local;
          upd = (\<lambda>n eq. setG vzero (cross pivotA n) vzero (vscale (cross pivotA n) (- 1)) (setViolation (dot pivotA n) eq))
      in eqs[3 := upd nB (eqs ! 3), 4 := upd anchorB_w (eqs ! 4)])"

definition constraint_update :: "Connector list \<Rightarrow> Constraint \<Rightarrow> Constraint" where
  "constraint_update cs con =
     (let A = cs ! (con_connectors con ! 0); B = cs ! (con_connectors con ! 1); eqs = con_equations con in
      con\<lparr>con_equations := (case con_kind con of
        BallJoint a b \<Rightarrow> ball_update A B a b eqs
      | Lock a b \<Rightarrow> ball_update A B a b (lock_update A B eqs)
      | Hinge a b p q \<Rightarrow> ball_update A B a b (hinge_update A B a b p q eqs)
      | HingeMotor a b \<Rightarrow> [setG vzero (quat_multiplyVector (m_quaternion A) a) vzero
           (vscale (quat_multiplyVector (m_quaternion B) b) (- 1)) (setViolation 0 (eqs ! 0))]
      | Shaft \<Rightarrow> [setViolation (m_shaftAngle B - m_shaftAngle A) (eqs ! 0)]
      | MultiWay ws \<Rightarrow> [setViolation (foldl (\<lambda>g (c, w). g + m_shaftAngle (cs ! c) * w) 0 (zip (con_connectors con) ws)) (eqs ! 0)])\<rparr>)"

subsection \<open>Motions\<close>

definition vec_deriv :: "(double \<Rightarrow> Vec3) \<Rightarrow> Vec3 \<Rightarrow> double \<Rightarrow> bool" where
  "vec_deriv f f' t \<longleftrightarrow>
     ((\<lambda>s. vx (f s)) has_real_derivative vx f') (at t)
     \<and> ((\<lambda>s. vy (f s)) has_real_derivative vy f') (at t)
     \<and> ((\<lambda>s. vz (f s)) has_real_derivative vz f') (at t)"

lemma vec_deriv_const: "vec_deriv (\<lambda>s. v) vzero t"
  by (simp add: vec_deriv_def vzero_def)

lemma vec_deriv_add: "vec_deriv f f' t \<Longrightarrow> vec_deriv g g' t \<Longrightarrow> vec_deriv (\<lambda>s. vadd (f s) (g s)) (vadd f' g') t"
  by (auto simp: vec_deriv_def vadd_def intro!: derivative_intros)

lemma vec_deriv_sub: "vec_deriv f f' t \<Longrightarrow> vec_deriv g g' t \<Longrightarrow> vec_deriv (\<lambda>s. vsub (f s) (g s)) (vsub f' g') t"
  by (auto simp: vec_deriv_def vsub_def intro!: derivative_intros)

lemma vec_deriv_dot:
  assumes "vec_deriv f f' t" "vec_deriv g g' t"
  shows "((\<lambda>s. dot (f s) (g s)) has_real_derivative dot f' (g t) + dot (f t) g') (at t)"
  using assms unfolding vec_deriv_def dot_def
  by (auto intro!: derivative_eq_intros simp: algebra_simps)

lemma vec_deriv_dot_const:
  assumes "vec_deriv f f' t" shows "((\<lambda>s. dot (f s) e) has_real_derivative dot f' e) (at t)"
  using vec_deriv_dot[OF assms vec_deriv_const] by (simp add: vec_defs)

text \<open>A connector moves as a rigid body at time \<open>t\<close>: the position changes with the velocity, vectors fixed to the body
  turn with the angular velocity, and the angle of a shaft, which lies along the first axis, changes with
  the first component of the angular velocity.\<close>

definition rigid_motion :: "(double \<Rightarrow> Connector) \<Rightarrow> double \<Rightarrow> bool" where
  "rigid_motion c t \<longleftrightarrow>
     vec_deriv (\<lambda>s. m_position (c s)) (m_velocity (c t)) t
     \<and> (\<forall>v. vec_deriv (\<lambda>s. quat_multiplyVector (m_quaternion (c s)) v)
                 (cross (m_angularVelocity (c t)) (quat_multiplyVector (m_quaternion (c t)) v)) t)
     \<and> ((\<lambda>s. m_shaftAngle (c s)) has_real_derivative vx (m_angularVelocity (c t))) (at t)"

lemma rigid_motionD:
  assumes "rigid_motion c t"
  shows "vec_deriv (\<lambda>s. m_position (c s)) (m_velocity (c t)) t"
    and "vec_deriv (\<lambda>s. quat_multiplyVector (m_quaternion (c s)) v)
           (cross (m_angularVelocity (c t)) (quat_multiplyVector (m_quaternion (c t)) v)) t"
    and "((\<lambda>s. m_shaftAngle (c s)) has_real_derivative vx (m_angularVelocity (c t))) (at t)"
  using assms by (auto simp: rigid_motion_def)

definition violation :: "Equation \<Rightarrow> double" where
  "violation eq = (case m_g eq of None \<Rightarrow> 0 | Some x \<Rightarrow> x)"

text \<open>The constraints with a positional violation, as their constructors make them.\<close>

definition holonomic_constraint :: "nat list \<Rightarrow> Constraint \<Rightarrow> bool" where
  "holonomic_constraint conns con \<longleftrightarrow>
     (\<exists>a b. conns = [a, b] \<and>
        ((\<exists>x y. con = new_BallJoint a b x y) \<or> (\<exists>x y. con = new_Lock a b x y)
         \<or> (\<exists>x y p q. con = new_Hinge a b x y p q) \<or> con = new_Shaft a b))
     \<or> (\<exists>ws. length ws = length conns \<and> new_MultiWay conns ws = Inr con)"

lemma getVelocity_two:
  assumes "m_Gs eq = [G, H]" "eq_connectors eq = [a, b]" "m_relativeVelocity eq = 0"
  shows "getVelocity cs eq = jmultiply_vec G (m_velocity (cs ! a)) (m_angularVelocity (cs ! a))
     + jmultiply_vec H (m_velocity (cs ! b)) (m_angularVelocity (cs ! b))"
  using assms by (simp add: getVelocity_def)

definition ball_equation :: "Connector \<Rightarrow> Connector \<Rightarrow> Vec3 \<Rightarrow> Vec3 \<Rightarrow> Vec3 \<Rightarrow> Equation \<Rightarrow> Equation" where
  "ball_equation A B anchorA anchorB e eq =
     (let ri = quat_multiplyVector (m_quaternion A) anchorA; rj = quat_multiplyVector (m_quaternion B) anchorB
      in setG (neg e) (neg (cross ri e)) e (cross rj e)
           (setViolation (dot (vsub (vsub (vadd (m_position B) rj) (m_position A)) ri) e) eq))"

lemma ball_velocity:
  assumes A: "rigid_motion (\<lambda>s. cs s ! a) t" and B: "rigid_motion (\<lambda>s. cs s ! b) t"
    and eq: "eq_connectors eq = [a, b]" "length (m_Gs eq) = 2" "m_relativeVelocity eq = 0"
  shows "((\<lambda>s. violation (ball_equation (cs s ! a) (cs s ! b) p q e eq)) has_real_derivative
     getVelocity (cs t) (ball_equation (cs t ! a) (cs t ! b) p q e eq)) (at t)"
proof -
  have "vec_deriv (\<lambda>s. vsub (vsub (vadd (m_position (cs s ! b)) (quat_multiplyVector (m_quaternion (cs s ! b)) q)) (m_position (cs s ! a)))
      (quat_multiplyVector (m_quaternion (cs s ! a)) p))
     (vsub (vsub (vadd (m_velocity (cs t ! b)) (cross (m_angularVelocity (cs t ! b)) (quat_multiplyVector (m_quaternion (cs t ! b)) q)))
        (m_velocity (cs t ! a))) (cross (m_angularVelocity (cs t ! a)) (quat_multiplyVector (m_quaternion (cs t ! a)) p))) t"
    by (intro vec_deriv_sub vec_deriv_add rigid_motionD A B)
  note d = vec_deriv_dot_const[OF this, of e]
  obtain G H where Gs: "m_Gs eq = [G, H]" using eq(2) by (auto simp: numeral_2_eq_2 length_Suc_conv)
  have v: "violation (ball_equation C D p q e eq) =
      dot (vsub (vsub (vadd (m_position D) (quat_multiplyVector (m_quaternion D) q)) (m_position C)) (quat_multiplyVector (m_quaternion C) p)) e" for C D
    by (simp add: violation_def ball_equation_def setG_def setViolation_def Let_def)
  let ?eq = "ball_equation (cs t ! a) (cs t ! b) p q e eq"
  let ?ri = "quat_multiplyVector (m_quaternion (cs t ! a)) p" and ?rj = "quat_multiplyVector (m_quaternion (cs t ! b)) q"
  have "m_Gs ?eq = [\<lparr>m_spatial = neg e, m_rotational = neg (cross ?ri e)\<rparr>, \<lparr>m_spatial = e, m_rotational = cross ?rj e\<rparr>]"
    "eq_connectors ?eq = [a, b]" "m_relativeVelocity ?eq = 0"
    using eq by (simp_all add: ball_equation_def setG_def setViolation_def Let_def Gs)
  note G = getVelocity_two[OF this]
  have w: "getVelocity (cs t) (ball_equation (cs t ! a) (cs t ! b) p q e eq) =
     dot (vsub (vsub (vadd (m_velocity (cs t ! b)) (cross (m_angularVelocity (cs t ! b)) (quat_multiplyVector (m_quaternion (cs t ! b)) q)))
        (m_velocity (cs t ! a))) (cross (m_angularVelocity (cs t ! a)) (quat_multiplyVector (m_quaternion (cs t ! a)) p))) e"
    unfolding G by (simp add: jmultiply_vec_def vec_defs neg_def algebra_simps)
  show ?thesis unfolding v w by (rule d)
qed

text \<open>Equations whose violation is the scalar product of a vector fixed to the one body and one fixed to the other.\<close>

definition dot_equation :: "Connector \<Rightarrow> Connector \<Rightarrow> Vec3 \<Rightarrow> Vec3 \<Rightarrow> Equation \<Rightarrow> Equation" where
  "dot_equation A B u v eq =
     (let n = quat_multiplyVector (m_quaternion A) u; m = quat_multiplyVector (m_quaternion B) v
      in setG vzero (cross n m) vzero (vscale (cross n m) (- 1)) (setViolation (dot n m) eq))"

lemma dot_velocity:
  assumes A: "rigid_motion (\<lambda>s. cs s ! a) t" and B: "rigid_motion (\<lambda>s. cs s ! b) t"
    and eq: "eq_connectors eq = [a, b]" "length (m_Gs eq) = 2" "m_relativeVelocity eq = 0"
  shows "((\<lambda>s. violation (dot_equation (cs s ! a) (cs s ! b) u v eq)) has_real_derivative
     getVelocity (cs t) (dot_equation (cs t ! a) (cs t ! b) u v eq)) (at t)"
proof -
  note d = vec_deriv_dot[OF rigid_motionD(2)[OF A, of u] rigid_motionD(2)[OF B, of v]]
  obtain G H where Gs: "m_Gs eq = [G, H]" using eq(2) by (auto simp: numeral_2_eq_2 length_Suc_conv)
  have 1: "violation (dot_equation C D u v eq) = dot (quat_multiplyVector (m_quaternion C) u) (quat_multiplyVector (m_quaternion D) v)" for C D
    by (simp add: violation_def dot_equation_def setG_def setViolation_def Let_def)
  let ?n = "quat_multiplyVector (m_quaternion (cs t ! a)) u" and ?m = "quat_multiplyVector (m_quaternion (cs t ! b)) v"
  have "m_Gs (dot_equation (cs t ! a) (cs t ! b) u v eq) = [\<lparr>m_spatial = vzero, m_rotational = cross ?n ?m\<rparr>,
      \<lparr>m_spatial = vzero, m_rotational = vscale (cross ?n ?m) (- 1)\<rparr>]"
    "eq_connectors (dot_equation (cs t ! a) (cs t ! b) u v eq) = [a, b]"
    "m_relativeVelocity (dot_equation (cs t ! a) (cs t ! b) u v eq) = 0"
    using eq by (simp_all add: dot_equation_def setG_def setViolation_def Let_def Gs)
  note G = getVelocity_two[OF this]
  have 2: "getVelocity (cs t) (dot_equation (cs t ! a) (cs t ! b) u v eq) =
     dot (cross (m_angularVelocity (cs t ! a)) (quat_multiplyVector (m_quaternion (cs t ! a)) u)) (quat_multiplyVector (m_quaternion (cs t ! b)) v)
     + dot (quat_multiplyVector (m_quaternion (cs t ! a)) u) (cross (m_angularVelocity (cs t ! b)) (quat_multiplyVector (m_quaternion (cs t ! b)) v))"
    unfolding G by (simp add: jmultiply_vec_def vec_defs algebra_simps)
  show ?thesis unfolding 1 2 by (rule d)
qed

subsection \<open>The Jacobian is the derivative of the violation\<close>

lemma lock_is_dot:
  "setViolation (dot n m) (setG vzero (vscale (cross m n) (- 1)) vzero (vscale (cross m n) 1) eq)
     = setG vzero (cross n m) vzero (vscale (cross n m) (- 1)) (setViolation (dot n m) eq)"
  by (cases eq) (simp add: setViolation_def setG_def vec_defs mult.commute)

lemma new_Equation_simps [simp]:
  "eq_connectors (new_Equation conns) = conns" "length (m_Gs (new_Equation conns)) = length conns"
  "m_relativeVelocity (new_Equation conns) = 0"
  "eq_connectors (setG sA rA sB rB eq) = eq_connectors eq" "length (m_Gs (setG sA rA sB rB eq)) = length (m_Gs eq)"
  "m_relativeVelocity (setG sA rA sB rB eq) = m_relativeVelocity eq"
  by (simp_all add: new_Equation_def setG_def)

lemma update_ball_equations:
  "con_equations (constraint_update cs (new_BallJoint a b p q)) =
     map (\<lambda>e. ball_equation (cs ! a) (cs ! b) p q e (new_Equation [a, b])) [ex, ey, ez]"
  by (simp add: constraint_update_def new_BallJoint_def ball_update_def ball_equation_def Let_def numeral_eq_Suc)

lemma update_lock_equations:
  "\<exists>e0 e1 e2. (\<forall>e\<in>{e0, e1, e2}. eq_connectors e = [a, b] \<and> length (m_Gs e) = 2 \<and> m_relativeVelocity e = 0) \<and>
   (\<forall>cs. con_equations (constraint_update cs (new_Lock a b p q)) =
     map (\<lambda>e. ball_equation (cs ! a) (cs ! b) p q e (new_Equation [a, b])) [ex, ey, ez]
     @ [dot_equation (cs ! a) (cs ! b) ey ez e0, dot_equation (cs ! a) (cs ! b) ez ex e1, dot_equation (cs ! a) (cs ! b) ex ey e2])"
  by (intro exI[of _ "setG vzero (neg ex) vzero ex (new_Equation [a, b])"]
        exI[of _ "setG vzero (neg ey) vzero ey (new_Equation [a, b])"]
        exI[of _ "setG vzero (neg ez) vzero ez (new_Equation [a, b])"])
     (simp add: constraint_update_def new_Lock_def ball_update_def lock_update_def ball_equation_def dot_equation_def Let_def
       numeral_eq_Suc lock_is_dot)

lemma update_hinge_equations:
  "con_equations (constraint_update cs (new_Hinge a b p q u v)) =
     map (\<lambda>e. ball_equation (cs ! a) (cs ! b) p q e (new_Equation [a, b])) [ex, ey, ez]
     @ [dot_equation (cs ! a) (cs ! b) u (vnormalize (cross q v)) (new_Equation [a, b]),
        dot_equation (cs ! a) (cs ! b) u q (new_Equation [a, b])]"
  by (simp add: constraint_update_def new_Hinge_def ball_update_def hinge_update_def ball_equation_def dot_equation_def Let_def
      numeral_eq_Suc)

lemma multiway_Gs:
  "k + length ws \<le> length (m_Gs eq) \<Longrightarrow>
   rfold (\<lambda>(i, w). setG_at i vzero (Vec3 w 0 0)) (enumerate k ws) eq
     = Inr (eq\<lparr>m_Gs := take k (m_Gs eq) @ map (\<lambda>w. \<lparr>m_spatial = vzero, m_rotational = Vec3 w 0 0\<rparr>) ws @ drop (k + length ws) (m_Gs eq)\<rparr>)"
proof (induction ws arbitrary: k eq)
  case (Cons w ws)
  then show ?case
    by (simp add: setG_at_def Cons.IH upd_conv_take_nth_drop take_Suc_conv_app_nth add.commute)
qed simp

lemma multiway_equation:
  assumes "new_MultiWay conns ws = Inr con" "length ws = length conns"
  shows "\<exists>eq. con_equations con = [eq] \<and> con_kind con = MultiWay ws \<and> con_connectors con = conns \<and> eq_connectors eq = conns
     \<and> m_relativeVelocity eq = 0 \<and> m_Gs eq = map (\<lambda>w. \<lparr>m_spatial = vzero, m_rotational = Vec3 w 0 0\<rparr>) ws"
  using assms multiway_Gs[of 0 ws "new_Equation conns"]
  by (auto simp: new_MultiWay_def new_Equation_vec_def split: if_splits)

lemma multiway_deriv:
  assumes "(f has_real_derivative f') (at t)" and "\<forall>(c, w)\<in>set ps. rigid_motion (\<lambda>s. cs s ! c) t"
  shows "((\<lambda>s. foldl (\<lambda>g (c, w). g + m_shaftAngle (cs s ! c) * w) (f s) ps) has_real_derivative
     foldl (\<lambda>g (c, w). g + vx (m_angularVelocity (cs t ! c)) * w) f' ps) (at t)"
  using assms
proof (induction ps arbitrary: f f')
  case (Cons p ps)
  obtain c w where p: "p = (c, w)" by (cases p)
  have "((\<lambda>s. f s + m_shaftAngle (cs s ! c) * w) has_real_derivative f' + vx (m_angularVelocity (cs t ! c)) * w) (at t)"
    using Cons.prems p by (auto intro!: derivative_eq_intros rigid_motionD(3))
  from Cons.IH[OF this] Cons.prems(2) p show ?case by simp
qed simp

lemma multiway_velocity:
  "length ws = length conns \<Longrightarrow>
   foldl (\<lambda>ret (G, c). ret + jmultiply_vec G (m_velocity (cs ! c)) (m_angularVelocity (cs ! c))) r
     (zip (map (\<lambda>w. \<lparr>m_spatial = vzero, m_rotational = Vec3 w 0 0\<rparr>) ws) conns)
   = foldl (\<lambda>g (c, w). g + vx (m_angularVelocity (cs ! c)) * w) r (zip conns ws)"
proof (induction ws conns arbitrary: r rule: list_induct2)
  case (Cons w ws c conns)
  then show ?case by (simp add: jmultiply_vec_def vec_defs mult.commute)
qed simp

lemma shaft_velocity:
  assumes A: "rigid_motion (\<lambda>s. cs s ! a) t" and B: "rigid_motion (\<lambda>s. cs s ! b) t"
  shows "((\<lambda>s. violation (con_equations (constraint_update (cs s) (new_Shaft a b)) ! 0)) has_real_derivative
     getVelocity (cs t) (con_equations (constraint_update (cs t) (new_Shaft a b)) ! 0)) (at t)"
proof -
  let ?eq = "con_equations (constraint_update (cs t) (new_Shaft a b)) ! 0"
  have "m_Gs ?eq = [\<lparr>m_spatial = vzero, m_rotational = neg ex\<rparr>, \<lparr>m_spatial = vzero, m_rotational = ex\<rparr>]"
    "eq_connectors ?eq = [a, b]" "m_relativeVelocity ?eq = 0"
    by (simp_all add: constraint_update_def new_Shaft_def setViolation_def setG_def new_Equation_def Let_def)
  note G = getVelocity_two[OF this, of "cs t"]
  have "((\<lambda>s. m_shaftAngle (cs s ! b) - m_shaftAngle (cs s ! a)) has_real_derivative
      vx (m_angularVelocity (cs t ! b)) - vx (m_angularVelocity (cs t ! a))) (at t)"
    by (intro derivative_intros rigid_motionD(3) A B)
  then show ?thesis unfolding G
    by (simp add: constraint_update_def new_Shaft_def setViolation_def violation_def Let_def jmultiply_vec_def vec_defs neg_def ex_def)
qed

text \<open>C17: for every ball joint, lock, hinge, shaft and multi-way constraint, and every equation of it: when the connectors move as
  rigid bodies, the constraint velocity \<^verbatim>\<open>getVelocity\<close> computes from the Jacobian that \<^verbatim>\<open>update\<close> sets is the
  time derivative of the violation that \<^verbatim>\<open>update\<close> sets.\<close>

theorem constraint_velocity_is_derivative:
  assumes con: "holonomic_constraint conns con" and moving: "\<forall>c\<in>set conns. rigid_motion (\<lambda>s. cs s ! c) t"
    and k: "k < length (con_equations con)"
  shows "((\<lambda>s. violation (con_equations (constraint_update (cs s) con) ! k)) has_real_derivative
     getVelocity (cs t) (con_equations (constraint_update (cs t) con) ! k)) (at t)"
  using con unfolding holonomic_constraint_def
proof (elim disjE exE conjE)
  fix a b p q assume c: "conns = [a, b]" "con = new_BallJoint a b p q"
  then have "k < 3" using k by (simp add: new_BallJoint_def)
  moreover have m: "rigid_motion (\<lambda>s. cs s ! a) t" "rigid_motion (\<lambda>s. cs s ! b) t" using moving c by auto
  ultimately show ?thesis using ball_velocity[OF m, of "new_Equation [a, b]"] c
    by (auto simp: update_ball_equations less_Suc_eq numeral_eq_Suc)
next
  fix a b p q assume c: "conns = [a, b]" "con = new_Lock a b p q"
  have k6: "k < 6" using k c by (simp add: new_Lock_def)
  have m: "rigid_motion (\<lambda>s. cs s ! a) t" "rigid_motion (\<lambda>s. cs s ! b) t" using moving c by auto
  obtain e0 e1 e2 where e: "\<forall>e\<in>{e0, e1, e2}. eq_connectors e = [a, b] \<and> length (m_Gs e) = 2 \<and> m_relativeVelocity e = 0"
    "\<And>cs. con_equations (constraint_update cs con) =
     map (\<lambda>e. ball_equation (cs ! a) (cs ! b) p q e (new_Equation [a, b])) [ex, ey, ez]
     @ [dot_equation (cs ! a) (cs ! b) ey ez e0, dot_equation (cs ! a) (cs ! b) ez ex e1, dot_equation (cs ! a) (cs ! b) ex ey e2]"
    using update_lock_equations c(2) by metis
  show ?thesis unfolding e(2)
    using k6 ball_velocity[OF m, of "new_Equation [a, b]"] dot_velocity[OF m] e(1)
    by (auto simp: less_Suc_eq numeral_eq_Suc)
next
  fix a b p q u v assume c: "conns = [a, b]" "con = new_Hinge a b p q u v"
  have k5: "k < 5" using k c by (simp add: new_Hinge_def)
  have m: "rigid_motion (\<lambda>s. cs s ! a) t" "rigid_motion (\<lambda>s. cs s ! b) t" using moving c by auto
  show ?thesis unfolding c(2) update_hinge_equations
    using k5 ball_velocity[OF m, of "new_Equation [a, b]"] dot_velocity[OF m, of "new_Equation [a, b]"]
    by (auto simp: less_Suc_eq numeral_eq_Suc)
next
  fix a b assume c: "conns = [a, b]" "con = new_Shaft a b"
  have m: "rigid_motion (\<lambda>s. cs s ! a) t" "rigid_motion (\<lambda>s. cs s ! b) t" using moving c by auto
  have "k = 0" using k c by (simp add: new_Shaft_def)
  then show ?thesis using shaft_velocity[OF m] c(2) by simp
next
  fix ws assume ws: "length ws = length conns" and "new_MultiWay conns ws = Inr con"
  then obtain eq where eq: "con_equations con = [eq]" "con_kind con = MultiWay ws" "con_connectors con = conns" "eq_connectors eq = conns"
     "m_relativeVelocity eq = 0" "m_Gs eq = map (\<lambda>w. \<lparr>m_spatial = vzero, m_rotational = Vec3 w 0 0\<rparr>) ws"
    using multiway_equation by blast
  have "\<forall>(c, w)\<in>set (zip conns ws). rigid_motion (\<lambda>s. cs s ! c) t" using moving by (auto dest: set_zip_leftD)
  from multiway_deriv[OF DERIV_const this] show ?thesis
    using k eq multiway_velocity[OF ws, of "cs t" 0]
    by (simp add: constraint_update_def setViolation_def violation_def getVelocity_def Let_def)
qed

text \<open>Two connectors, one at rest and one that moves along the first axis with velocity 2.\<close>

definition sliding :: "double \<Rightarrow> Connector list" where
  "sliding s = [new_Connector 0, (new_Connector 1)\<lparr>m_position := Vec3 (2 * s) 0 0, m_velocity := Vec3 2 0 0\<rparr>]"

lemma sliding_rigid: "c < 2 \<Longrightarrow> rigid_motion (\<lambda>s. sliding s ! c) t"
  by (auto simp: rigid_motion_def vec_deriv_def sliding_def new_Connector_def vec_defs less_2_cases_iff
      intro!: derivative_eq_intros)

theorem constraint_velocity_is_derivative_witness:
  "((\<lambda>s. violation (con_equations (constraint_update (sliding s) (new_BallJoint 0 1 (Vec3 1 0 0) vzero)) ! 0)) has_real_derivative
     getVelocity (sliding 5) (con_equations (constraint_update (sliding 5) (new_BallJoint 0 1 (Vec3 1 0 0) vzero)) ! 0)) (at 5)"
proof (rule constraint_velocity_is_derivative)
  show "holonomic_constraint [0, 1] (new_BallJoint 0 1 (Vec3 1 0 0) vzero)" by (auto simp: holonomic_constraint_def)
  show "\<forall>c\<in>set [0, 1]. rigid_motion (\<lambda>s. sliding s ! c) 5" using sliding_rigid by auto
  show "0 < length (con_equations (new_BallJoint 0 1 (Vec3 1 0 0) vzero))" by (simp add: new_BallJoint_def)
qed

end
