(* ===== verification/Sc_Solver.thy ===== *)
theory Sc_Solver
  imports Sc_Constraint
begin

text \<open>
  The constraint solver (tools/strong-coupling-core/src/Solver.cpp): assembling the sparse system, solving it
  directly for one and two equations and with UMFPACK otherwise, and adding the constraint forces to the
  connectors. UMFPACK is a parameter: a function from the size, the triplets and the right-hand side to the status of its calls
  and the vector it leaves in \<^verbatim>\<open>lambda\<close>. A pointer to an equation is the pair of the positions of its constraint and
  of the equation in it.
\<close>

subsection \<open>State\<close>

record Solver =
  m_constraints :: "Constraint list"
  m_connectors :: "nat list"
  m_connectorIndexCounter :: nat
  equations_dirty :: bool
  eqs :: "(nat \<times> nat) list"
  numsystemrows :: nat
  nchangingentries :: nat
  S_triplets :: "(nat \<times> nat \<times> double) list"   \<comment> \<open>\<^verbatim>\<open>Srow\<close>, \<^verbatim>\<open>Scol\<close>, \<^verbatim>\<open>Sval\<close>\<close>
  rhs :: "double list"
  g_values :: "double list"
  gv_values :: "double list"
  lambda :: "double list"
  m_mobilities :: "nat \<times> nat \<rightharpoonup> JacobianElement"
  m_a :: double
  m_b :: double
  m_epsilon :: double
  m_timeStep :: double

text \<open>The constructor leaves the four parameters of \<^verbatim>\<open>setSpookParams\<close> without a value; they are zero here and are set before the first step.\<close>

definition new_Solver :: Solver where
  "new_Solver = \<lparr>m_constraints = [], m_connectors = [], m_connectorIndexCounter = 0, equations_dirty = True, eqs = [],
     numsystemrows = 0, nchangingentries = 0, S_triplets = [], rhs = [], g_values = [], gv_values = [], lambda = [],
     m_mobilities = Map.empty, m_a = 0, m_b = 0, m_epsilon = 0, m_timeStep = 0\<rparr>"

definition setSpookParams :: "double \<Rightarrow> double \<Rightarrow> double \<Rightarrow> Solver \<Rightarrow> Solver" where
  "setSpookParams relaxation compliance timeStep s =
     (let b = 1 / (1 + 4 * relaxation)
      in s\<lparr>m_b := b, m_a := 4 * b / timeStep, m_epsilon := 4 * compliance * b / timeStep / timeStep, m_timeStep := timeStep\<rparr>)"

definition addConstraint :: "Constraint \<Rightarrow> Solver \<Rightarrow> Solver" where
  "addConstraint con s = s\<lparr>equations_dirty := True, m_constraints := m_constraints s @ [con]\<rparr>"

text \<open>The connectors of a slave are those that name it, in the order of their creation.\<close>

definition slave_connectors :: "Connector list \<Rightarrow> nat \<Rightarrow> nat list" where
  "slave_connectors cs slave = filter (\<lambda>c. m_slave (cs ! c) = slave) [0..<length cs]"

definition addSlave_connector :: "nat \<Rightarrow> Connector list \<times> Solver \<Rightarrow> Connector list \<times> Solver" where
  "addSlave_connector c = (\<lambda>(cs, s).
     (cs[c := (cs ! c)\<lparr>m_index := m_connectorIndexCounter s\<rparr>],
      s\<lparr>m_connectorIndexCounter := m_connectorIndexCounter s + 1, m_connectors := m_connectors s @ [c]\<rparr>))"

definition addSlave :: "nat \<Rightarrow> Connector list \<times> Solver \<Rightarrow> Connector list \<times> Solver" where
  "addSlave slave = (\<lambda>(cs, s).
     fold addSlave_connector (slave_connectors cs slave) (cs, s\<lparr>equations_dirty := True\<rparr>))"

definition get_eq :: "Solver \<Rightarrow> nat \<times> nat \<Rightarrow> Equation" where
  "get_eq s = (\<lambda>(i, j). con_equations (m_constraints s ! i) ! j)"

definition set_eq_index :: "nat \<times> (nat \<times> nat) \<Rightarrow> Solver \<Rightarrow> Solver" where
  "set_eq_index = (\<lambda>(ofs, i, j) s. s\<lparr>m_constraints := (m_constraints s)[i := (m_constraints s ! i)
     \<lparr>con_equations := (con_equations (m_constraints s ! i))[j := (get_eq s (i, j))\<lparr>eq_index := ofs\<rparr>]\<rparr>]\<rparr>)"

definition getSystemMatrixRows :: "Solver \<Rightarrow> Solver" where
  "getSystemMatrixRows s =
     (if equations_dirty s then s\<lparr>numsystemrows := sum_list (map (length \<circ> con_equations) (m_constraints s))\<rparr> else s)"

definition equation_refs :: "Constraint list \<Rightarrow> (nat \<times> nat) list" where
  "equation_refs cons = concat (map (\<lambda>i. map (Pair i) [0..<length (con_equations (cons ! i))]) [0..<length cons])"

definition getEquations :: "Solver \<Rightarrow> Solver" where
  "getEquations s =
     (if equations_dirty s
      then (fold set_eq_index (enumerate 0 (equation_refs (m_constraints s))) s)\<lparr>eqs := equation_refs (m_constraints s)\<rparr>
      else s)"

definition resetConstraintForces :: "Solver \<Rightarrow> Connector list \<Rightarrow> Connector list" where
  "resetConstraintForces s cs = fold (\<lambda>c cs. cs[c := (cs ! c)\<lparr>m_force := vzero, m_torque := vzero\<rparr>]) (m_connectors s) cs"

definition updateConstraints :: "Connector list \<Rightarrow> Solver \<Rightarrow> Solver" where
  "updateConstraints cs s = s\<lparr>m_constraints := map (constraint_update cs) (m_constraints s)\<rparr>"

subsection \<open>The system matrix\<close>

definition overlap_triplets :: "Connector list \<Rightarrow> Solver \<Rightarrow> (nat \<times> nat \<times> double) list" where
  "overlap_triplets cs s = (let n = length (eqs s) in
     concat (map (\<lambda>i. map (\<lambda>j. (i, j, 0))
       (filter (\<lambda>j. haveOverlappingFMUs cs (get_eq s (eqs s ! i)) (get_eq s (eqs s ! j))) [0..<n])) [0..<n]))"

fun add_diagonal :: "double \<Rightarrow> nat \<Rightarrow> (nat \<times> nat \<times> double) list \<Rightarrow> (nat \<times> nat \<times> double) list" where
  "add_diagonal eps i [] = [(i, i, eps)]"
| "add_diagonal eps i ((r, c, x) # ts) = (if r = i \<and> c = i then (r, c, x + eps) # ts else (r, c, x) # add_diagonal eps i ts)"

definition constructS :: "Connector list \<Rightarrow> Solver \<Rightarrow> Solver" where
  "constructS cs s =
     (let ts = overlap_triplets cs s
      in s\<lparr>nchangingentries := length ts,
           S_triplets := (if m_epsilon s > 0 then fold (add_diagonal (m_epsilon s)) [0..<length (eqs s)] ts else ts)\<rparr>)"

definition solver_prepare :: "Connector list \<Rightarrow> Solver \<Rightarrow> Solver" where
  "solver_prepare cs s = (constructS cs (getEquations (getSystemMatrixRows s)))\<lparr>equations_dirty := False\<rparr>"

subsection \<open>Solving\<close>

text \<open>Right-hand side, violation and velocity of one equation.\<close>

definition equation_rhs :: "bool \<Rightarrow> Connector list \<Rightarrow> Solver \<Rightarrow> Equation \<Rightarrow> (double \<times> double \<times> double) res" where
  "equation_rhs holonomic cs s eq =
     (let Z = getFutureVelocity cs eq; GW = getVelocity cs eq in
      rbind (getViolation eq) (\<lambda>g.
        Inr (if holonomic then - m_a s * g + m_b s * GW - Z else - Z, g, GW)))"

definition mobility_term :: "Connector list \<Rightarrow> Solver \<Rightarrow> Equation \<Rightarrow> Equation \<Rightarrow> nat \<Rightarrow> double \<Rightarrow> double res" where
  "mobility_term cs s ei ej conn val =
     (case m_mobilities s (m_index (cs ! conn), eq_index ej) of
        None \<Rightarrow> Inr val
      | Some mob \<Rightarrow> rbind (jacobianElementForConnector ei conn) (\<lambda>G. Inr (val + jmultiply G mob)))"

definition entry_value :: "Connector list \<Rightarrow> Solver \<Rightarrow> nat \<Rightarrow> nat \<Rightarrow> double res" where
  "entry_value cs s i j =
     (let ei = get_eq s (eqs s ! i); ej = get_eq s (eqs s ! j) in
      rbind (rfold (mobility_term cs s ei ej) (eq_connectors ei) 0) (\<lambda>val.
        Inr (if i = j then val + m_epsilon s else val)))"

definition update_entries :: "Connector list \<Rightarrow> Solver \<Rightarrow> (nat \<times> nat \<times> double) list res" where
  "update_entries cs s =
     rbind (rmap (\<lambda>(i, j, _). rbind (entry_value cs s i j) (\<lambda>v. Inr (i, j, v))) (take (nchangingentries s) (S_triplets s)))
       (\<lambda>ts. Inr (ts @ drop (nchangingentries s) (S_triplets s)))"

text \<open>Division by zero gives an infinity or not-a-number in the program; here it stops.\<close>

definition solve1x1 :: "(nat \<times> nat \<times> double) list \<Rightarrow> double list \<Rightarrow> double list res" where
  "solve1x1 ts r = (case ts of [] \<Rightarrow> Inl (UB ''Sval[0]'')
     | (_, _, v) # _ \<Rightarrow> if v = 0 then Inl (UB ''division by zero'') else Inr [r ! 0 / v])"

definition dense2 :: "(nat \<times> nat \<times> double) list \<Rightarrow> nat \<Rightarrow> nat \<Rightarrow> double" where
  "dense2 ts = fold (\<lambda>(r, c, v) S. S(r := (S r)(c := v))) ts (\<lambda>_ _. 0)"

definition solve2x2 :: "(nat \<times> nat \<times> double) list \<Rightarrow> double list \<Rightarrow> double list res" where
  "solve2x2 ts r =
     (let S = dense2 ts; det = S 0 0 * S 1 1 - S 0 1 * S 1 0 in
      if det = 0 then Inl (UB ''division by zero'')
      else let i00 = S 1 1 / det; i11 = S 0 0 / det; i10 = - S 1 0 / det; i01 = - S 0 1 / det
        in Inr [i00 * r ! 0 + i01 * r ! 1, i10 * r ! 0 + i11 * r ! 1])"

text \<open>The status is that of the first of the four calls with a negative one, or else that of the last call. Only a negative status stops
  the program: after a warning, such as the positive status for a singular matrix, it goes on with what is in the vector.\<close>

type_synonym umfpack = "nat \<Rightarrow> (nat \<times> nat \<times> double) list \<Rightarrow> double list \<Rightarrow> int \<times> (nat \<Rightarrow> double)"

definition solve_linear :: "umfpack \<Rightarrow> nat \<Rightarrow> (nat \<times> nat \<times> double) list \<Rightarrow> double list \<Rightarrow> double list res" where
  "solve_linear umfpack n ts r =
     (if n = 1 then solve1x1 ts r
      else if n = 2 then solve2x2 ts r
      else case umfpack n ts r of (status, x) \<Rightarrow> if status < 0 then Inl (Exit 1) else Inr (map x [0..<n]))"

definition add_force :: "Equation \<Rightarrow> double \<Rightarrow> nat \<Rightarrow> Connector list \<Rightarrow> Connector list res" where
  "add_force eq l conn cs =
     rbind (jacobianElementForConnector eq conn) (\<lambda>G.
       Inr (cs[conn := (cs ! conn)\<lparr>m_force := vadd (m_force (cs ! conn)) (vscale (m_spatial G) l),
                                   m_torque := vadd (m_torque (cs ! conn)) (vscale (m_rotational G) l)\<rparr>]))"

definition add_forces :: "Solver \<Rightarrow> double list \<Rightarrow> Connector list \<Rightarrow> Connector list res" where
  "add_forces s lam cs =
     rfold (\<lambda>i. let eq = get_eq s (eqs s ! i) in rfold (add_force eq (lam ! i / m_timeStep s)) (eq_connectors eq))
       [0..<length (eqs s)] cs"

definition solve :: "umfpack \<Rightarrow> bool \<Rightarrow> Connector list \<times> Solver \<Rightarrow> (Connector list \<times> Solver) res" where
  "solve umfpack holonomic = (\<lambda>(cs, s).
     let s = getSystemMatrixRows (getEquations s) in
     rbind (rmap (\<lambda>ref. equation_rhs holonomic cs s (get_eq s ref)) (eqs s)) (\<lambda>rs.
     let s = s\<lparr>rhs := map fst rs, g_values := map (fst \<circ> snd) rs, gv_values := map (snd \<circ> snd) rs\<rparr>;
         s = (if equations_dirty s then (constructS cs s)\<lparr>equations_dirty := False\<rparr> else s)
     in rbind (update_entries cs s) (\<lambda>ts.
        let s = s\<lparr>S_triplets := ts\<rparr> in
        rbind (solve_linear umfpack (length (eqs s)) ts (rhs s)) (\<lambda>lam.
        let s = s\<lparr>lambda := lam\<rparr>
        in rbind (add_forces s lam cs) (\<lambda>cs. Inr (cs, s))))))"

definition getViolationsNames :: "char \<Rightarrow> nat \<Rightarrow> (nat \<Rightarrow> string) \<Rightarrow> string" where
  "getViolationsNames sep n to_s =
     concat (map (\<lambda>i. sep # ''eq'' @ to_s i @ ''_g'') [0..<n]) @ concat (map (\<lambda>i. sep # ''eq'' @ to_s i @ ''_gv'') [0..<n])"

subsection \<open>Solving the system\<close>

definition positions :: "(nat \<times> nat \<times> double) list \<Rightarrow> (nat \<times> nat) list" where
  "positions ts = map (\<lambda>(i, j, v). (i, j)) ts"

lemma positions_simps [simp]: "positions [] = []" "positions ((i, j, v) # ts) = (i, j) # positions ts"
  by (simp_all add: positions_def)

lemma positions_memI: "(i, j, v) \<in> set ts \<Longrightarrow> (i, j) \<in> set (positions ts)"
  by (force simp: positions_def)

definition overlaps :: "Connector list \<Rightarrow> Solver \<Rightarrow> (nat \<times> nat) list" where
  "overlaps cs s = (let n = length (eqs s) in
     concat (map (\<lambda>i. map (Pair i)
       (filter (\<lambda>j. haveOverlappingFMUs cs (get_eq s (eqs s ! i)) (get_eq s (eqs s ! j))) [0..<n])) [0..<n]))"

lemma positions_overlap: "positions (overlap_triplets cs s) = overlaps cs s"
  by (simp add: positions_def overlap_triplets_def overlaps_def Let_def map_concat comp_def)

lemma overlaps_mem: "(i, j) \<in> set (overlaps cs s) \<longleftrightarrow>
   i < length (eqs s) \<and> j < length (eqs s) \<and> haveOverlappingFMUs cs (get_eq s (eqs s ! i)) (get_eq s (eqs s ! j))"
  by (auto simp: overlaps_def Let_def)

lemma overlaps_distinct: "distinct (overlaps cs s)"
  unfolding overlaps_def Let_def
  by (rule distinct_concat_map) (auto simp: distinct_map inj_on_def)

lemma add_diagonal_positions: "(i, i) \<in> set (positions ts) \<Longrightarrow> positions (add_diagonal eps i ts) = positions ts"
  by (induction ts) auto

lemma add_diagonals_positions:
  "\<forall>i\<in>set is. (i, i) \<in> set (positions ts) \<Longrightarrow> positions (fold (add_diagonal eps) is ts) = positions ts"
  by (induction "is" arbitrary: ts) (auto simp: add_diagonal_positions)

text \<open>The value of a matrix given by triplets: duplicates are summed.\<close>

definition triplet_sum :: "(nat \<times> nat \<times> double) list \<Rightarrow> nat \<Rightarrow> nat \<Rightarrow> double" where
  "triplet_sum ts i j = sum_list (map (\<lambda>(r, c, v). if r = i \<and> c = j then v else 0) ts)"

lemma triplet_sum_absent: "(i, j) \<notin> set (positions ts) \<Longrightarrow> triplet_sum ts i j = 0"
  by (induction ts) (auto simp: triplet_sum_def)

lemma triplet_sum_present: "distinct (positions ts) \<Longrightarrow> (i, j, v) \<in> set ts \<Longrightarrow> triplet_sum ts i j = v"
proof (induction ts)
  case (Cons t ts)
  obtain r c w where t: "t = (r, c, w)" by (cases t)
  show ?case
  proof (cases "(r, c) = (i, j)")
    case True
    then have "(i, j) \<notin> set (positions ts)" using Cons.prems(1) t by simp
    then have "triplet_sum ts i j = 0" "(i, j, v) \<notin> set ts"
      using triplet_sum_absent positions_memI by blast+
    then show ?thesis using Cons.prems(2) t True by (auto simp: triplet_sum_def)
  next
    case False
    then show ?thesis using Cons t by (auto simp: triplet_sum_def)
  qed
qed simp

lemma dense2_eq:
  assumes "distinct (positions ts)"
  shows "dense2 ts i j = triplet_sum ts i j"
proof -
  have "fold (\<lambda>(r, c, v) S. S(r := (S r)(c := v))) ts S i j
     = (if (i, j) \<in> set (positions ts) then triplet_sum ts i j else S i j)" for S
    using assms
  proof (induction ts arbitrary: S)
    case (Cons t ts)
    obtain r c w where t: "t = (r, c, w)" by (cases t)
    have rc: "(r, c) \<notin> set (positions ts)" using Cons.prems t by simp
    have "fold (\<lambda>(r, c, v) S. S(r := (S r)(c := v))) (t # ts) S i j
       = fold (\<lambda>(r, c, v) S. S(r := (S r)(c := v))) ts (S(r := (S r)(c := w))) i j"
      by (simp only: t fold.simps prod.case comp_apply)
    also have "\<dots> = (if (i, j) \<in> set (positions ts) then triplet_sum ts i j else (S(r := (S r)(c := w))) i j)"
      using Cons.prems t by (intro Cons.IH) simp
    also have "\<dots> = (if (i, j) \<in> set (positions (t # ts)) then triplet_sum (t # ts) i j else S i j)"
      using rc t triplet_sum_absent[of i j ts] by (auto simp: triplet_sum_def)
    finally show ?case .
  qed simp
  then show ?thesis using triplet_sum_absent by (auto simp: dense2_def)
qed

definition solves :: "nat \<Rightarrow> (nat \<times> nat \<times> double) list \<Rightarrow> double list \<Rightarrow> double list \<Rightarrow> bool" where
  "solves n ts x r \<longleftrightarrow> (\<forall>i < n. (\<Sum>j < n. triplet_sum ts i j * x ! j) = r ! i)"

text \<open>A matrix without a kernel.\<close>

definition nonsingular :: "nat \<Rightarrow> (nat \<Rightarrow> nat \<Rightarrow> double) \<Rightarrow> bool" where
  "nonsingular n S \<longleftrightarrow> (\<forall>x. (\<forall>i < n. (\<Sum>j < n. S i j * x j) = 0) \<longrightarrow> (\<forall>i < n. x i = 0))"

lemma nonsingular_cong:
  assumes "\<And>i j. i < n \<Longrightarrow> j < n \<Longrightarrow> S i j = T i j"
  shows "nonsingular n S = nonsingular n T"
proof -
  have "(\<Sum>j < n. S i j * x j) = (\<Sum>j < n. T i j * x j)" if "i < n" for i and x :: "nat \<Rightarrow> double"
    using assms that by (intro sum.cong) auto
  then show ?thesis by (simp add: nonsingular_def)
qed

text \<open>What UMFPACK documents, with numbers computed exactly and memory enough: triplets within the size whose sums are a nonsingular
  matrix are factorised without an error, and the vector it returns solves the system. Nothing is assumed of its answer for
  a singular matrix.\<close>

definition umfpack_law :: "umfpack \<Rightarrow> bool" where
  "umfpack_law umf \<longleftrightarrow> (\<forall>n ts r. 0 < n \<longrightarrow> set (positions ts) \<subseteq> {..<n} \<times> {..<n} \<longrightarrow> length r = n \<longrightarrow> nonsingular n (triplet_sum ts) \<longrightarrow>
     fst (umf n ts r) = 0 \<and> solves n ts (map (snd (umf n ts r)) [0..<n]) r)"

lemma nonsingular_1: "nonsingular 1 S \<Longrightarrow> S 0 0 \<noteq> 0"
  using nonsingular_def[of 1 S] by (auto dest: spec[of _ "\<lambda>_. 1"])

lemma nonsingular_2:
  assumes n: "nonsingular 2 S"
  shows "S 0 0 * S 1 1 - S 0 1 * S 1 0 \<noteq> 0"
proof
  assume d: "S 0 0 * S 1 1 - S 0 1 * S 1 0 = 0"
  have k: "S 0 0 * u + S 0 1 * v = 0 \<Longrightarrow> S 1 0 * u + S 1 1 * v = 0 \<Longrightarrow> u = 0 \<and> v = 0" for u v
    using n[unfolded nonsingular_def, THEN spec, of "\<lambda>i. if i = 0 then u else v"] by (simp add: numeral_2_eq_2 All_less_Suc)
  from k[of "S 1 1" "- S 1 0"] d have 1: "S 1 1 = 0" "S 1 0 = 0" by auto
  from k[of "- S 0 1" "S 0 0"] 1 have "S 0 0 = 0" by auto
  with k[of 1 0] 1 show False by simp
qed

lemma cramer2:
  fixes a b c d u v D :: double
  assumes "D = a * d - b * c" "D \<noteq> 0"
  shows "a * (d / D * u + - b / D * v) + b * (- c / D * u + a / D * v) = u"
    and "c * (d / D * u + - b / D * v) + d * (- c / D * u + a / D * v) = v"
proof -
  have "a * (d / D * u + - b / D * v) + b * (- c / D * u + a / D * v) = (a * d - b * c) / D * u"
    and "c * (d / D * u + - b / D * v) + d * (- c / D * u + a / D * v) = (a * d - b * c) / D * v"
    by (simp_all add: diff_divide_distrib algebra_simps)
  then show "a * (d / D * u + - b / D * v) + b * (- c / D * u + a / D * v) = u"
    and "c * (d / D * u + - b / D * v) + d * (- c / D * u + a / D * v) = v"
    using assms by simp_all
qed

lemma solve_linear_solves:
  assumes law: "umfpack_law umf" and pos: "distinct (positions ts)" "n = 1 \<Longrightarrow> positions ts = [(0, 0)]"
    and range: "set (positions ts) \<subseteq> {..<n} \<times> {..<n}" and r: "length r = n"
    and n: "0 < n" and S: "nonsingular n (triplet_sum ts)"
  shows "\<exists>x. solve_linear umf n ts r = Inr x \<and> solves n ts x r \<and> length x = n"
proof -
  consider "n = 1" | "n = 2" | "n \<noteq> 1" "n \<noteq> 2" by blast
  then show ?thesis
  proof cases
    case 1
    then obtain v where ts: "ts = [(0, 0, v)]" using pos(2) by (auto simp: positions_def)
    have "v \<noteq> 0" using nonsingular_1 S 1 by (fastforce simp: ts triplet_sum_def)
    then show ?thesis using 1 by (simp add: solve_linear_def solve1x1_def solves_def triplet_sum_def ts)
  next
    case 2
    note d = dense2_eq[OF pos(1)]
    let ?S = "triplet_sum ts"
    let ?det = "?S 0 0 * ?S 1 1 - ?S 0 1 * ?S 1 0"
    let ?x = "[?S 1 1 / ?det * r ! 0 + - ?S 0 1 / ?det * r ! 1, - ?S 1 0 / ?det * r ! 0 + ?S 0 0 / ?det * r ! 1]"
    have det: "?det \<noteq> 0" using nonsingular_2 S 2 by blast
    then have x: "solve_linear umf n ts r = Inr ?x" using 2 by (simp add: solve_linear_def solve2x2_def d Let_def)
    have "?S 0 0 * ?x ! 0 + ?S 0 1 * ?x ! 1 = r ! 0" "?S 1 0 * ?x ! 0 + ?S 1 1 * ?x ! 1 = r ! 1"
      using cramer2[OF refl det, of "r ! 0" "r ! 1"] by simp_all
    then have "solves n ts ?x r" using 2 by (auto simp: solves_def numeral_2_eq_2 less_Suc_eq)
    then show ?thesis using x 2 by simp
  next
    case 3
    then show ?thesis using law[unfolded umfpack_law_def, rule_format, OF n range r S]
      by (simp add: solve_linear_def split_beta)
  qed
qed

subsection \<open>The prepared system\<close>

text \<open>Equations as the constructors make them: at least one connector, one Jacobian element for each.\<close>

definition wf_equation :: "Equation \<Rightarrow> bool" where
  "wf_equation eq \<longleftrightarrow> eq_connectors eq \<noteq> [] \<and> length (m_Gs eq) = length (eq_connectors eq)"

definition wf_constraints :: "Constraint list \<Rightarrow> bool" where
  "wf_constraints cons \<longleftrightarrow> (\<forall>con\<in>set cons. \<forall>eq\<in>set (con_equations con). wf_equation eq)"

definition eq_of :: "Solver \<Rightarrow> nat \<Rightarrow> Equation" where
  "eq_of s i = get_eq s (eqs s ! i)"

text \<open>The invariant after \<^verbatim>\<open>prepare\<close>: the equations are numbered, the triplets are at the overlapping pairs.\<close>

definition prepared :: "Connector list \<Rightarrow> Solver \<Rightarrow> bool" where
  "prepared cs s \<longleftrightarrow> \<not> equations_dirty s \<and> eqs s = equation_refs (m_constraints s) \<and> wf_constraints (m_constraints s)
     \<and> (\<forall>i < length (eqs s). eq_index (eq_of s i) = i)
     \<and> positions (S_triplets s) = overlaps cs s \<and> nchangingentries s = length (S_triplets s)"

lemma equation_refs_mem: "(i, j) \<in> set (equation_refs cons) \<longleftrightarrow> i < length cons \<and> j < length (con_equations (cons ! i))"
  by (auto simp: equation_refs_def intro!: bexI[of _ i])

lemma equation_refs_distinct: "distinct (equation_refs cons)"
  unfolding equation_refs_def by (rule distinct_concat_map) (auto simp: distinct_map inj_on_def)

lemma wf_get_eq:
  assumes "wf_constraints (m_constraints s)" "r \<in> set (equation_refs (m_constraints s))"
  shows "wf_equation (get_eq s r)"
proof -
  obtain i j where r: "r = (i, j)" by (cases r)
  then have "m_constraints s ! i \<in> set (m_constraints s)" "get_eq s r \<in> set (con_equations (m_constraints s ! i))"
    using assms(2) by (auto simp: equation_refs_mem get_eq_def)
  then show ?thesis using assms(1) by (auto simp: wf_constraints_def)
qed

lemma self_overlap: "wf_equation eq \<Longrightarrow> haveOverlappingFMUs cs eq eq"
  by (cases "eq_connectors eq") (auto simp: wf_equation_def haveOverlappingFMUs_def list_ex_iff)

text \<open>Numbering changes nothing but the indices.\<close>

definition same_but_index :: "Solver \<Rightarrow> Solver \<Rightarrow> bool" where
  "same_but_index s s' \<longleftrightarrow>
     length (m_constraints s') = length (m_constraints s)
     \<and> (\<forall>i < length (m_constraints s). length (con_equations (m_constraints s' ! i)) = length (con_equations (m_constraints s ! i)))
     \<and> (\<forall>r\<in>set (equation_refs (m_constraints s)). \<exists>k. get_eq s' r = (get_eq s r)\<lparr>eq_index := k\<rparr>)
     \<and> equations_dirty s' = equations_dirty s \<and> m_epsilon s' = m_epsilon s"

lemma same_but_index_refs:
  assumes "same_but_index s s'" shows "equation_refs (m_constraints s') = equation_refs (m_constraints s)"
  using assms unfolding same_but_index_def equation_refs_def by (auto intro!: arg_cong[where f = concat] map_cong)

lemma same_but_index_refl: "same_but_index s s"
proof -
  have "get_eq s r = (get_eq s r)\<lparr>eq_index := eq_index (get_eq s r)\<rparr>" for r by simp
  then show ?thesis unfolding same_but_index_def by metis
qed

lemma same_but_index_trans:
  assumes 1: "same_but_index s s1" and 2: "same_but_index s1 s2" shows "same_but_index s s2"
proof -
  have "\<exists>k. get_eq s2 r = (get_eq s r)\<lparr>eq_index := k\<rparr>" if r: "r \<in> set (equation_refs (m_constraints s))" for r
  proof -
    obtain k1 k2 where "get_eq s1 r = (get_eq s r)\<lparr>eq_index := k1\<rparr>" "get_eq s2 r = (get_eq s1 r)\<lparr>eq_index := k2\<rparr>"
      using 1 2 r same_but_index_refs[OF 1] unfolding same_but_index_def by metis
    then show ?thesis by auto
  qed
  then show ?thesis using 1 2 by (simp add: same_but_index_def)
qed

lemma set_eq_index_get:
  assumes "r \<in> set (equation_refs (m_constraints s))"
  shows "get_eq (set_eq_index (k, r) s) q = (if q = r then (get_eq s r)\<lparr>eq_index := k\<rparr> else get_eq s q)"
proof -
  obtain i j i' j' where "r = (i, j)" "q = (i', j')" by (cases r; cases q)
  then show ?thesis using assms
    by (cases "i' = i"; cases "j' = j") (auto simp: equation_refs_mem set_eq_index_def get_eq_def)
qed

lemma set_eq_index_same:
  assumes "r \<in> set (equation_refs (m_constraints s))" "same_but_index s0 s"
  shows "same_but_index s0 (set_eq_index (k, r) s)"
proof -
  obtain i j where r: "r = (i, j)" by (cases r)
  note refs = same_but_index_refs[OF assms(2)]
  have "\<exists>k'. get_eq (set_eq_index (k, r) s) q = (get_eq s0 q)\<lparr>eq_index := k'\<rparr>" if q: "q \<in> set (equation_refs (m_constraints s0))" for q
  proof -
    obtain k1 where "get_eq s q = (get_eq s0 q)\<lparr>eq_index := k1\<rparr>" using assms(2) q by (auto simp: same_but_index_def)
    then show ?thesis using set_eq_index_get[OF assms(1), of k q] by auto
  qed
  moreover have "length (con_equations (m_constraints (set_eq_index (k, r) s) ! i')) = length (con_equations (m_constraints s ! i'))"
    if "i' < length (m_constraints s)" for i'
    using that r by (cases "i' = i") (auto simp: set_eq_index_def)
  ultimately show ?thesis using assms(2) r by (auto simp: same_but_index_def set_eq_index_def)
qed

lemma set_eq_indices:
  assumes "distinct rs" "set rs \<subseteq> set (equation_refs (m_constraints s))"
  shows "same_but_index s (fold set_eq_index (enumerate k rs) s)
     \<and> (\<forall>i < length rs. eq_index (get_eq (fold set_eq_index (enumerate k rs) s) (rs ! i)) = k + i)
     \<and> (\<forall>q. q \<notin> set rs \<longrightarrow> get_eq (fold set_eq_index (enumerate k rs) s) q = get_eq s q)"
  using assms
proof (induction rs arbitrary: k s)
  case (Cons r rs)
  have r: "r \<in> set (equation_refs (m_constraints s))" using Cons.prems by simp
  let ?s = "set_eq_index (k, r) s"
  have same: "same_but_index s ?s" by (rule set_eq_index_same[OF r same_but_index_refl])
  note IH = Cons.IH[of ?s "Suc k"]
  have IH': "same_but_index ?s (fold set_eq_index (enumerate (Suc k) rs) ?s)"
    "\<forall>i < length rs. eq_index (get_eq (fold set_eq_index (enumerate (Suc k) rs) ?s) (rs ! i)) = Suc k + i"
    "\<forall>q. q \<notin> set rs \<longrightarrow> get_eq (fold set_eq_index (enumerate (Suc k) rs) ?s) q = get_eq ?s q"
    using IH Cons.prems same_but_index_refs[OF same] by auto
  have trans: "same_but_index s (fold set_eq_index (enumerate (Suc k) rs) ?s)"
    by (rule same_but_index_trans[OF same IH'(1)])
  show ?case
    using trans IH'(2,3) Cons.prems(1) set_eq_index_get[OF r, of k]
    by (cases r) (auto simp: nth_Cons split: nat.splits)
qed (simp add: same_but_index_refl)

lemma getEquations_dirty:
  assumes "equations_dirty s"
  shows "same_but_index s (getEquations s)" "eqs (getEquations s) = equation_refs (m_constraints s)"
    "\<forall>i < length (eqs (getEquations s)). eq_index (eq_of (getEquations s) i) = i"
proof -
  note f = set_eq_indices[OF equation_refs_distinct order_refl, of s 0]
  let ?s = "fold set_eq_index (enumerate 0 (equation_refs (m_constraints s))) s"
  have g: "getEquations s = ?s\<lparr>eqs := equation_refs (m_constraints s)\<rparr>" using assms by (simp add: getEquations_def)
  show "same_but_index s (getEquations s)" using f unfolding g same_but_index_def by (auto simp: get_eq_def)
  show "eqs (getEquations s) = equation_refs (m_constraints s)" unfolding g by simp
  show "\<forall>i < length (eqs (getEquations s)). eq_index (eq_of (getEquations s) i) = i"
    using f unfolding g eq_of_def by (auto simp: get_eq_def)
qed

lemma same_but_index_wf:
  assumes "same_but_index s s'" "wf_constraints (m_constraints s)" shows "wf_constraints (m_constraints s')"
  unfolding wf_constraints_def
proof (intro ballI)
  fix con eq assume "con \<in> set (m_constraints s')" "eq \<in> set (con_equations con)"
  then obtain i j where ij: "i < length (m_constraints s')" "j < length (con_equations (m_constraints s' ! i))" "eq = get_eq s' (i, j)"
    by (auto simp: in_set_conv_nth get_eq_def)
  then have r: "(i, j) \<in> set (equation_refs (m_constraints s))"
    using same_but_index_refs[OF assms(1)] by (metis equation_refs_mem)
  then obtain k where "eq = (get_eq s (i, j))\<lparr>eq_index := k\<rparr>" using assms(1) ij(3) by (auto simp: same_but_index_def)
  then show "wf_equation eq" using wf_get_eq[OF assms(2) r] by (simp add: wf_equation_def)
qed

lemma constructS_positions:
  assumes "\<forall>i < length (eqs s). wf_equation (eq_of s i)"
  shows "positions (S_triplets (constructS cs s)) = overlaps cs s" "nchangingentries (constructS cs s) = length (S_triplets (constructS cs s))"
proof -
  have "\<forall>i\<in>set [0..<length (eqs s)]. (i, i) \<in> set (positions (overlap_triplets cs s))"
    using assms self_overlap by (auto simp: positions_overlap overlaps_mem eq_of_def)
  note p = add_diagonals_positions[OF this, of "m_epsilon s"]
  then show 1: "positions (S_triplets (constructS cs s)) = overlaps cs s"
    by (simp add: constructS_def Let_def positions_overlap)
  show "nchangingentries (constructS cs s) = length (S_triplets (constructS cs s))"
    using arg_cong[OF p, of length] by (simp add: constructS_def Let_def positions_def)
qed

lemma solver_prepare_prepared:
  assumes d: "equations_dirty s" and wf: "wf_constraints (m_constraints s)"
  shows "prepared cs (solver_prepare cs s)"
proof -
  let ?s0 = "getSystemMatrixRows s" and ?s1 = "getEquations (getSystemMatrixRows s)"
  have s0: "equations_dirty ?s0" "m_constraints ?s0 = m_constraints s" using d by (simp_all add: getSystemMatrixRows_def)
  note g = getEquations_dirty[OF s0(1)]
  have wf1: "wf_constraints (m_constraints ?s1)" using same_but_index_wf[OF g(1)] wf s0 by simp
  have refs: "eqs ?s1 = equation_refs (m_constraints ?s1)" using g(2) same_but_index_refs[OF g(1)] by simp
  have "\<forall>i < length (eqs ?s1). wf_equation (eq_of ?s1 i)"
    using wf_get_eq[OF wf1] refs by (simp add: eq_of_def)
  note c = constructS_positions[OF this, of cs]
  have same: "m_constraints (constructS cs ?s1) = m_constraints ?s1" "eqs (constructS cs ?s1) = eqs ?s1"
    by (simp_all add: constructS_def Let_def)
  show ?thesis
    using c refs wf1 g(3) same
    by (simp add: prepared_def solver_prepare_def eq_of_def get_eq_def overlaps_def)
qed

text \<open>The number of equations of each kind of constraint.\<close>

definition constraint_shape :: "Constraint \<Rightarrow> bool" where
  "constraint_shape con \<longleftrightarrow> length (con_equations con) =
     (case con_kind con of BallJoint _ _ \<Rightarrow> 3 | Lock _ _ \<Rightarrow> 6 | Hinge _ _ _ _ \<Rightarrow> 5 | _ \<Rightarrow> 1)"

definition same_wiring :: "Equation \<Rightarrow> Equation \<Rightarrow> bool" where
  "same_wiring e e' \<longleftrightarrow> eq_connectors e' = eq_connectors e \<and> eq_index e' = eq_index e \<and> length (m_Gs e') = length (m_Gs e)"

lemma same_wiring_simps [simp]:
  "same_wiring e e" "same_wiring e (setG a b c d e') \<longleftrightarrow> same_wiring e e'" "same_wiring e (setViolation x e') \<longleftrightarrow> same_wiring e e'"
  by (auto simp: same_wiring_def setG_def setViolation_def)

lemma constraint_update_wiring:
  assumes "constraint_shape con"
  shows "list_all2 same_wiring (con_equations con) (con_equations (constraint_update cs con))"
  using assms
  by (auto simp: constraint_shape_def constraint_update_def Let_def ball_update_def lock_update_def hinge_update_def
      list_all2_conv_all_nth nth_list_update less_Suc_eq numeral_eq_Suc split: constraint_kind.splits)

lemma constraint_update_violation:
  assumes "constraint_shape con" "eq \<in> set (con_equations (constraint_update cs con))"
  shows "m_g eq \<noteq> None"
proof -
  obtain j where j: "j < length (con_equations (constraint_update cs con))" "eq = con_equations (constraint_update cs con) ! j"
    using assms(2) by (auto simp: in_set_conv_nth)
  moreover have "length (con_equations (constraint_update cs con)) = length (con_equations con)"
    using constraint_update_wiring[OF assms(1)] by (simp add: list_all2_conv_all_nth)
  ultimately show ?thesis
    using assms(1)
    by (auto simp: constraint_shape_def constraint_update_def Let_def ball_update_def lock_update_def hinge_update_def
        nth_list_update setG_def setViolation_def less_Suc_eq numeral_eq_Suc split: constraint_kind.splits)
qed

lemma updateConstraints_get:
  assumes "\<forall>con\<in>set (m_constraints s). constraint_shape con" "r \<in> set (equation_refs (m_constraints s))"
  shows "same_wiring (get_eq s r) (get_eq (updateConstraints cs s) r)" "m_g (get_eq (updateConstraints cs s) r) \<noteq> None"
proof -
  obtain i j where r: "r = (i, j)" "i < length (m_constraints s)" "j < length (con_equations (m_constraints s ! i))"
    using assms(2) by (metis equation_refs_mem surj_pair)
  let ?con = "m_constraints s ! i"
  have w: "constraint_shape ?con" using assms(1) r(2) by simp
  note l = constraint_update_wiring[OF w, of cs]
  have e: "get_eq (updateConstraints cs s) r = con_equations (constraint_update cs ?con) ! j"
    using r by (simp add: get_eq_def updateConstraints_def)
  show "same_wiring (get_eq s r) (get_eq (updateConstraints cs s) r)"
    unfolding e using l r by (auto simp: get_eq_def list_all2_conv_all_nth)
  have "j < length (con_equations (constraint_update cs ?con))" using l r by (simp add: list_all2_conv_all_nth)
  then show "m_g (get_eq (updateConstraints cs s) r) \<noteq> None"
    unfolding e using constraint_update_violation[OF w] nth_mem by blast
qed

lemma updateConstraints_refs:
  assumes "\<forall>con\<in>set (m_constraints s). constraint_shape con"
  shows "equation_refs (m_constraints (updateConstraints cs s)) = equation_refs (m_constraints s)"
proof -
  have "length (con_equations (constraint_update cs (m_constraints s ! i))) = length (con_equations (m_constraints s ! i))"
    if "i < length (m_constraints s)" for i
    using constraint_update_wiring[of "m_constraints s ! i" cs] assms that by (simp add: list_all2_conv_all_nth)
  then show ?thesis by (auto simp: equation_refs_def updateConstraints_def intro!: arg_cong[where f = concat] map_cong)
qed

lemma wf_constraints_iff: "wf_constraints (m_constraints s) \<longleftrightarrow> (\<forall>r\<in>set (equation_refs (m_constraints s)). wf_equation (get_eq s r))"
proof
  assume "\<forall>r\<in>set (equation_refs (m_constraints s)). wf_equation (get_eq s r)"
  then have *: "wf_equation (get_eq s (i, j))" if "i < length (m_constraints s)" "j < length (con_equations (m_constraints s ! i))" for i j
    using that by (auto simp: equation_refs_mem)
  show "wf_constraints (m_constraints s)"
    unfolding wf_constraints_def using * by (auto simp: in_set_conv_nth get_eq_def)
qed (auto dest: wf_get_eq)

lemma updateConstraints_prepared:
  assumes "prepared cs s" and shape: "\<forall>con\<in>set (m_constraints s). constraint_shape con"
    and slaves: "\<forall>c. m_slave (cs' ! c) = m_slave (cs ! c)"
  shows "prepared cs' (updateConstraints cs' s)" "\<forall>i < length (eqs s). m_g (eq_of (updateConstraints cs' s) i) \<noteq> None"
proof -
  let ?s = "updateConstraints cs' s"
  have eqs: "eqs ?s = eqs s" by (simp add: updateConstraints_def)
  have ref: "eqs s = equation_refs (m_constraints s)" using assms(1) by (simp add: prepared_def)
  note refs = updateConstraints_refs[OF shape, of cs'] and get = updateConstraints_get[OF shape, of _ cs']
  have wiring: "same_wiring (eq_of s i) (eq_of ?s i)" "m_g (eq_of ?s i) \<noteq> None" if "i < length (eqs s)" for i
    using get[of "eqs s ! i"] that ref by (auto simp: eq_of_def eqs)
  have "overlaps cs' ?s = overlaps cs s"
    unfolding overlaps_def eqs Let_def
    using wiring(1) slaves
    by (auto simp: eq_of_def eqs same_wiring_def haveOverlappingFMUs_def intro!: arg_cong[where f = concat] map_cong filter_cong)
  moreover have "wf_constraints (m_constraints ?s)"
    using assms(1) get refs by (auto simp: prepared_def wf_constraints_iff wf_equation_def same_wiring_def)
  moreover have "\<forall>i < length (eqs s). eq_index (eq_of ?s i) = i"
    using wiring(1) assms(1) by (auto simp: prepared_def same_wiring_def)
  ultimately show "prepared cs' ?s" using assms(1) ref refs eqs by (auto simp: prepared_def updateConstraints_def)
  show "\<forall>i < length (eqs s). m_g (eq_of ?s i) \<noteq> None" using wiring(2) by blast
qed

subsection \<open>The solution\<close>

definition jac :: "Equation \<Rightarrow> nat \<Rightarrow> JacobianElement" where
  "jac eq c = (case jacobianElementForConnector eq c of Inl _ \<Rightarrow> jzero | Inr G \<Rightarrow> G)"

definition system_entry :: "Connector list \<Rightarrow> Solver \<Rightarrow> nat \<Rightarrow> nat \<Rightarrow> double" where
  "system_entry cs s i j =
     sum_list (map (\<lambda>c. case m_mobilities s (m_index (cs ! c), j) of None \<Rightarrow> 0 | Some e \<Rightarrow> jmultiply (jac (eq_of s i) c) e)
       (eq_connectors (eq_of s i))) + (if i = j then m_epsilon s else 0)"

text \<open>The system matrix: the Jacobian of one equation times the mobilities of the other where they share an FMU,
  regularised on the diagonal.\<close>

definition system_matrix :: "Connector list \<Rightarrow> Solver \<Rightarrow> nat \<Rightarrow> nat \<Rightarrow> double" where
  "system_matrix cs s i j = (if haveOverlappingFMUs cs (eq_of s i) (eq_of s j) then system_entry cs s i j else 0)"

lemma jacobian_ok:
  assumes "wf_equation eq" "c \<in> set (eq_connectors eq)"
  shows "jacobianElementForConnector eq c = Inr (jac eq c)"
proof -
  have "length Gs = length cs \<Longrightarrow> c \<in> set cs \<Longrightarrow> \<exists>G. jacobian_find c Gs cs = Inr G" for Gs cs
    by (induction Gs cs rule: list_induct2) auto
  then show ?thesis using assms by (force simp: wf_equation_def jacobianElementForConnector_def jac_def)
qed

lemma prepared_eq:
  assumes "prepared cs s" "i < length (eqs s)"
  shows "wf_equation (eq_of s i)" "eq_index (eq_of s i) = i"
  using assms wf_get_eq[of s "eqs s ! i"] nth_mem[OF assms(2)] by (auto simp: prepared_def eq_of_def)

lemma entry_value_eq:
  assumes p: "prepared cs s" and i: "i < length (eqs s)" and j: "j < length (eqs s)"
  shows "entry_value cs s i j = Inr (system_entry cs s i j)"
proof -
  note w = prepared_eq[OF p i] and e = prepared_eq(2)[OF p j]
  let ?f = "\<lambda>c. case m_mobilities s (m_index (cs ! c), j) of None \<Rightarrow> 0 | Some e \<Rightarrow> jmultiply (jac (eq_of s i) c) e"
  have "rfold (mobility_term cs s (eq_of s i) (eq_of s j)) conns v = Inr (v + sum_list (map ?f conns))"
    if "set conns \<subseteq> set (eq_connectors (eq_of s i))" for conns v
    using that
  proof (induction conns arbitrary: v)
    case (Cons c conns)
    have "mobility_term cs s (eq_of s i) (eq_of s j) c v = Inr (v + ?f c)"
      using jacobian_ok[OF w(1), of c] Cons.prems e by (auto simp: mobility_term_def split: option.splits)
    then show ?case using Cons by simp
  qed simp
  from this[of "eq_connectors (eq_of s i)" 0] show ?thesis
    by (simp add: entry_value_def system_entry_def Let_def flip: eq_of_def)
qed

lemma update_entries_eq:
  assumes p: "prepared cs s"
  shows "\<exists>ts. update_entries cs s = Inr ts \<and> positions ts = overlaps cs s
     \<and> (\<forall>i < length (eqs s). \<forall>j < length (eqs s). triplet_sum ts i j = system_matrix cs s i j)"
proof -
  let ?ts = "map (\<lambda>(i, j, v). (i, j, system_entry cs s i j)) (S_triplets s)"
  have pos: "positions (S_triplets s) = overlaps cs s" using p by (simp add: prepared_def)
  have "rmap (\<lambda>(i, j, _). rbind (entry_value cs s i j) (\<lambda>v. Inr (i, j, v))) (S_triplets s) = Inr ?ts"
  proof (rule rmap_pure)
    fix t assume t: "t \<in> set (S_triplets s)"
    obtain i j v where ijv: "t = (i, j, v)" by (cases t)
    then have "(i, j) \<in> set (overlaps cs s)" using t pos positions_memI by metis
    then show "(case t of (i, j, _) \<Rightarrow> rbind (entry_value cs s i j) (\<lambda>v. Inr (i, j, v))) = Inr (case t of (i, j, v) \<Rightarrow> (i, j, system_entry cs s i j))"
      using entry_value_eq[OF p] ijv by (simp add: overlaps_mem)
  qed
  then have u: "update_entries cs s = Inr ?ts" using p by (simp add: update_entries_def prepared_def)
  have pos': "positions ?ts = overlaps cs s" unfolding pos[symmetric] by (auto simp: positions_def)
  have "triplet_sum ?ts i j = system_matrix cs s i j" if "i < length (eqs s)" "j < length (eqs s)" for i j
  proof (cases "haveOverlappingFMUs cs (eq_of s i) (eq_of s j)")
    case True
    then have "(i, j) \<in> set (positions (S_triplets s))" using that pos by (simp add: overlaps_mem eq_of_def)
    then have "(i, j, system_entry cs s i j) \<in> set ?ts" by (force simp: positions_def)
    then show ?thesis using triplet_sum_present[of ?ts] pos' overlaps_distinct True by (simp add: system_matrix_def)
  next
    case False
    then have "(i, j) \<notin> set (positions ?ts)" unfolding pos' by (simp add: overlaps_mem eq_of_def)
    then show ?thesis using triplet_sum_absent False by (simp add: system_matrix_def)
  qed
  then show ?thesis using u pos' by blast
qed

lemma add_force_ok:
  assumes "wf_equation eq" "c \<in> set (eq_connectors eq)"
  shows "add_force eq l c cs = Inr (cs[c := (cs ! c)\<lparr>m_force := vadd (m_force (cs ! c)) (vscale (m_spatial (jac eq c)) l),
                                   m_torque := vadd (m_torque (cs ! c)) (vscale (m_rotational (jac eq c)) l)\<rparr>])"
  by (simp add: add_force_def jacobian_ok[OF assms])

lemma add_forces_ok:
  assumes "\<forall>i < length (eqs s). wf_equation (eq_of s i)"
  shows "\<exists>cs'. add_forces s lam cs = Inr cs' \<and> length cs' = length cs"
  unfolding add_forces_def
proof (rule rfold_ok)
  fix i and cs1 :: "Connector list" assume i: "i \<in> set [0..<length (eqs s)]" and l: "length cs1 = length cs"
  have "\<exists>cs2. rfold (add_force (eq_of s i) (lam ! i / m_timeStep s)) (eq_connectors (eq_of s i)) cs1 = Inr cs2 \<and> length cs2 = length cs"
    using l assms i add_force_ok by (intro rfold_ok) auto
  then show "\<exists>cs2. (let eq = get_eq s (eqs s ! i) in rfold (add_force eq (lam ! i / m_timeStep s)) (eq_connectors eq)) cs1 = Inr cs2
      \<and> length cs2 = length cs"
    by (simp add: eq_of_def Let_def)
qed simp

definition equation_target :: "bool \<Rightarrow> Connector list \<Rightarrow> Solver \<Rightarrow> Equation \<Rightarrow> double" where
  "equation_target holonomic cs s eq =
     (if holonomic then - m_a s * violation eq + m_b s * getVelocity cs eq - getFutureVelocity cs eq else - getFutureVelocity cs eq)"

lemma equation_rhs_eq:
  "m_g eq \<noteq> None \<Longrightarrow> equation_rhs h cs s eq = Inr (equation_target h cs s eq, violation eq, getVelocity cs eq)"
  by (auto simp: equation_rhs_def equation_target_def violation_def getViolation_def Let_def)

lemma system_congs [simp]:
  "overlaps cs (s\<lparr>rhs := r, g_values := g, gv_values := gv\<rparr>) = overlaps cs s"
  "eq_of (s\<lparr>rhs := r, g_values := g, gv_values := gv\<rparr>) = eq_of s"
  "eq_of (s\<lparr>rhs := r, g_values := g, gv_values := gv, S_triplets := ts, lambda := lam\<rparr>) = eq_of s"
  by (auto simp: overlaps_def get_eq_def eq_of_def fun_eq_iff)

lemma system_matrix_rhs: "system_matrix cs (s\<lparr>rhs := r, g_values := g, gv_values := gv\<rparr>) = system_matrix cs s"
  unfolding fun_eq_iff system_matrix_def system_entry_def system_congs by simp

lemma prepared_rhs: "prepared cs s \<Longrightarrow> prepared cs (s\<lparr>rhs := r, g_values := g, gv_values := gv\<rparr>)"
  by (simp add: prepared_def)

lemma prepared_single:
  assumes p: "prepared cs s" and n: "length (eqs s) = 1"
  shows "overlaps cs s = [(0, 0)]"
proof -
  have "haveOverlappingFMUs cs (eq_of s 0) (eq_of s 0)" using prepared_eq[OF p, of 0] n self_overlap by simp
  then show ?thesis using n by (simp add: overlaps_def eq_of_def)
qed

text \<open>The linear system of a step can be solved: there are equations, and their matrix is nonsingular.\<close>

definition solvable :: "Connector list \<Rightarrow> Solver \<Rightarrow> bool" where
  "solvable cs s \<longleftrightarrow> eqs s \<noteq> [] \<and> nonsingular (length (eqs s)) (system_matrix cs s)"

lemma solve_linear_ok:
  assumes law: "umfpack_law umf" and p: "prepared cs s" and pos: "positions ts = overlaps cs s" and r: "length r = length (eqs s)"
    and ent: "\<forall>i < length (eqs s). \<forall>j < length (eqs s). triplet_sum ts i j = system_matrix cs s i j" and sol: "solvable cs s"
  shows "\<exists>x. solve_linear umf (length (eqs s)) ts r = Inr x \<and> solves (length (eqs s)) ts x r \<and> length x = length (eqs s)"
proof (rule solve_linear_solves[OF law _ _ _ r])
  show "distinct (positions ts)" using pos overlaps_distinct by simp
  show "positions ts = [(0, 0)]" if "length (eqs s) = 1" using pos prepared_single[OF p that] by simp
  show "set (positions ts) \<subseteq> {..<length (eqs s)} \<times> {..<length (eqs s)}" unfolding pos by (auto simp: overlaps_mem)
  show "0 < length (eqs s)" using sol by (simp add: solvable_def)
  have "nonsingular (length (eqs s)) (triplet_sum ts) = nonsingular (length (eqs s)) (system_matrix cs s)"
    using ent by (intro nonsingular_cong) auto
  then show "nonsingular (length (eqs s)) (triplet_sum ts)" using sol by (simp add: solvable_def)
qed

lemma solve_spec:
  assumes law: "umfpack_law umf" and p: "prepared cs s" and viol: "\<forall>i < length (eqs s). m_g (eq_of s i) \<noteq> None"
    and sol: "solvable cs s"
  shows "\<exists>cs' s'. solve umf h (cs, s) = Inr (cs', s') \<and> add_forces s' (lambda s') cs = Inr cs' \<and> length cs' = length cs
     \<and> eqs s' = eqs s \<and> m_constraints s' = m_constraints s \<and> m_timeStep s' = m_timeStep s
     \<and> (\<forall>i < length (eqs s). (\<Sum>j < length (eqs s). system_matrix cs s i j * lambda s' ! j) = equation_target h cs s (eq_of s i))"
proof -
  have nd: "\<not> equations_dirty s" using p by (simp add: prepared_def)
  let ?rs = "map (\<lambda>ref. (equation_target h cs s (get_eq s ref), violation (get_eq s ref), getVelocity cs (get_eq s ref))) (eqs s)"
  have rs: "rmap (\<lambda>ref. equation_rhs h cs s (get_eq s ref)) (eqs s) = Inr ?rs"
    using viol by (intro rmap_pure) (auto simp: in_set_conv_nth eq_of_def intro!: equation_rhs_eq)
  define s1 where "s1 = s\<lparr>rhs := map fst ?rs, g_values := map (fst \<circ> snd) ?rs, gv_values := map (snd \<circ> snd) ?rs\<rparr>"
  have p1: "prepared cs s1" unfolding s1_def using p by (rule prepared_rhs)
  have mat: "system_matrix cs s1 = system_matrix cs s"
    unfolding s1_def by (rule system_matrix_rhs)
  have eqs1: "eqs s1 = eqs s" by (simp add: s1_def)
  have sol1: "solvable cs s1" using sol by (simp add: solvable_def mat eqs1)
  obtain ts where ts: "update_entries cs s1 = Inr ts" "positions ts = overlaps cs s1"
    "\<forall>i < length (eqs s1). \<forall>j < length (eqs s1). triplet_sum ts i j = system_matrix cs s1 i j"
    using update_entries_eq[OF p1] by blast
  have "length (rhs s1) = length (eqs s1)" by (simp add: s1_def)
  then obtain x where x: "solve_linear umf (length (eqs s)) ts (rhs s1) = Inr x"
    and sx: "solves (length (eqs s)) ts x (rhs s1)" "length x = length (eqs s)"
    using solve_linear_ok[OF law p1 ts(2) _ ts(3) sol1] eqs1 by auto
  define s2 where "s2 = s1\<lparr>S_triplets := ts, lambda := x\<rparr>"
  have "\<forall>i < length (eqs s2). wf_equation (eq_of s2 i)"
    using prepared_eq(1)[OF p1] by (simp add: s2_def eq_of_def get_eq_def)
  then obtain cs' where cs': "add_forces s2 x cs = Inr cs'" "length cs' = length cs" using add_forces_ok by blast
  have "solve umf h (cs, s) = Inr (cs', s2)"
    using nd rs ts(1) x cs'(1)
    by (simp add: solve_def getEquations_def getSystemMatrixRows_def Let_def s1_def[symmetric] s2_def del: map_map)
       (simp add: s1_def)
  moreover have "(\<Sum>j < length (eqs s). system_matrix cs s i j * lambda s2 ! j) = equation_target h cs s (eq_of s i)"
    if "i < length (eqs s)" for i
    using sx(1) ts(3) that by (simp add: solves_def eqs1 mat s2_def) (simp add: s1_def eq_of_def)
  ultimately show ?thesis using cs' by (auto simp: s2_def s1_def)
qed

lemma set_eq_index_kinds: "map con_kind (m_constraints (fold set_eq_index xs s)) = map con_kind (m_constraints s)"
proof (induction xs arbitrary: s)
  case (Cons x xs)
  have "map con_kind (m_constraints (set_eq_index x s)) = map con_kind (m_constraints s)"
    by (cases x; cases "fst (snd x) < length (m_constraints s)")
       (auto simp: set_eq_index_def nth_list_update list_update_beyond intro!: nth_equalityI)
  then show ?case using Cons by simp
qed simp

lemma solver_prepare_shape:
  assumes "equations_dirty s" "\<forall>con\<in>set (m_constraints s). constraint_shape con"
  shows "\<forall>con\<in>set (m_constraints (solver_prepare cs s)). constraint_shape con"
proof -
  let ?s0 = "getSystemMatrixRows s"
  have d: "equations_dirty ?s0" "m_constraints ?s0 = m_constraints s" using assms(1) by (simp_all add: getSystemMatrixRows_def)
  note g = getEquations_dirty(1)[OF d(1)]
  have m: "m_constraints (solver_prepare cs s) = m_constraints (getEquations ?s0)"
    by (simp add: solver_prepare_def constructS_def Let_def)
  have k: "map con_kind (m_constraints (getEquations ?s0)) = map con_kind (m_constraints s)"
    using d set_eq_index_kinds by (simp add: getEquations_def)
  show ?thesis unfolding m
  proof
    fix con assume "con \<in> set (m_constraints (getEquations ?s0))"
    then obtain i where i: "i < length (m_constraints (getEquations ?s0))" "con = m_constraints (getEquations ?s0) ! i"
      by (auto simp: in_set_conv_nth)
    have "constraint_shape (m_constraints s ! i)" using assms(2) i g d by (simp add: same_but_index_def)
    moreover have "con_kind con = con_kind (m_constraints s ! i)"
      using arg_cong[OF k, of "\<lambda>ks. ks ! i"] i g d by (simp add: same_but_index_def)
    moreover have "length (con_equations con) = length (con_equations (m_constraints s ! i))"
      using i g d by (simp add: same_but_index_def)
    ultimately show "constraint_shape con" by (simp add: constraint_shape_def)
  qed
qed

lemma prepared_mobilities:
  "prepared cs (s\<lparr>m_mobilities := mob\<rparr>) = prepared cs s" "eq_of (s\<lparr>m_mobilities := mob\<rparr>) = eq_of s"
  by (auto simp: prepared_def eq_of_def get_eq_def overlaps_def fun_eq_iff)

text \<open>C16: one step of the solver. After \<^verbatim>\<open>prepare\<close>, with the connectors moved (but not to other FMUs), the constraints updated and
  the mobilities filled in, \<^verbatim>\<open>solve\<close> returns, and the multipliers it stores solve the linear system: the matrix has for each pair of
  equations the Jacobian of the one times the mobilities of the other if they share an FMU, zero otherwise, with the
  regularisation on the diagonal; the right-hand side of each equation is \<open>-a g + b G W - Z\<close>, or \<open>-Z\<close> for a
  nonholonomic system. The matrix is assumed to be nonsingular; UMFPACK, which is used for three equations and more, is assumed to
  solve nonsingular systems, and nothing is assumed of its answer for others.\<close>

theorem solver_solves_system:
  assumes law: "umfpack_law umf" and d: "equations_dirty s0" and wf: "wf_constraints (m_constraints s0)"
    and shape: "\<forall>con\<in>set (m_constraints s0). constraint_shape con" and slaves: "\<forall>c. m_slave (cs ! c) = m_slave (cs0 ! c)"
    and s: "s = (updateConstraints cs (solver_prepare cs0 s0))\<lparr>m_mobilities := mob\<rparr>" and sol: "solvable cs s"
  shows "\<exists>cs' s'. solve umf h (cs, s) = Inr (cs', s')
     \<and> (\<forall>i < length (eqs s). (\<Sum>j < length (eqs s). system_matrix cs s i j * lambda s' ! j) = equation_target h cs s (eq_of s i))"
proof -
  have p: "prepared cs0 (solver_prepare cs0 s0)" by (rule solver_prepare_prepared[OF d wf])
  note u = updateConstraints_prepared[OF p solver_prepare_shape[OF d shape] slaves]
  have "prepared cs s" "\<forall>i < length (eqs s). m_g (eq_of s i) \<noteq> None"
    using u by (simp_all add: s prepared_mobilities updateConstraints_def)
  from solve_spec[OF law this sol] show ?thesis by blast
qed

subsection \<open>A solver that keeps the law\<close>

text \<open>Elimination of the last unknown with the first equation that contains it; its place is taken by the last equation.\<close>

fun gauss :: "nat \<Rightarrow> (nat \<Rightarrow> nat \<Rightarrow> double) \<Rightarrow> (nat \<Rightarrow> double) \<Rightarrow> nat \<Rightarrow> double" where
  "gauss 0 S b = (\<lambda>_. 0)"
| "gauss (Suc n) S b = (case filter (\<lambda>i. S i n \<noteq> 0) [0..<Suc n] of
     [] \<Rightarrow> (\<lambda>_. 0)
   | p # _ \<Rightarrow>
       let row = (\<lambda>i. if i = p then n else i); f = (\<lambda>i. S (row i) n / S p n);
           x = gauss n (\<lambda>i j. S (row i) j - f i * S p j) (\<lambda>i. b (row i) - f i * b p)
       in x(n := (b p - (\<Sum>j < n. S p j * x j)) / S p n))"

lemma eliminated_row:
  fixes f :: double
  assumes x: "S p n * xn = b - (\<Sum>j < n. S p j * x j)" and f: "f * S p n = S i n"
  shows "(\<Sum>j < n. S i j * x j) + S i n * xn = (\<Sum>j < n. (S i j - f * S p j) * x j) + f * b"
proof -
  have "S i n * xn = f * (S p n * xn)" using f by (simp add: mult.assoc[symmetric])
  then show ?thesis unfolding x by (simp add: algebra_simps sum_subtractf sum_distrib_left)
qed

lemma gauss_solves:
  "nonsingular n S \<Longrightarrow> i < n \<Longrightarrow> (\<Sum>j < n. S i j * gauss n S b j) = b i"
proof (induction n arbitrary: S b i)
  case (Suc n)
  have ns: "(\<forall>i < Suc n. (\<Sum>j < n. S i j * x j) + S i n * x n = 0) \<Longrightarrow> j < Suc n \<Longrightarrow> x j = 0" for x j
    using Suc.prems(1) unfolding nonsingular_def by simp
  have "filter (\<lambda>i. S i n \<noteq> 0) [0..<Suc n] \<noteq> []"
  proof
    assume "filter (\<lambda>i. S i n \<noteq> 0) [0..<Suc n] = []"
    then have "\<forall>i < Suc n. S i n = 0" unfolding filter_empty_conv by (auto simp: less_Suc_eq)
    then show False using ns[of "(\<lambda>_. 0)(n := 1)" n] by simp
  qed
  then obtain p ps where fp: "filter (\<lambda>i. S i n \<noteq> 0) [0..<Suc n] = p # ps" by (cases "filter (\<lambda>i. S i n \<noteq> 0) [0..<Suc n]") auto
  then have "p \<in> set (filter (\<lambda>i. S i n \<noteq> 0) [0..<Suc n])" by simp
  then have p: "p < Suc n" "S p n \<noteq> 0" by (auto split: if_splits)
  define row where "row = (\<lambda>i. if i = p then n else i)"
  define f where "f = (\<lambda>i. S (row i) n / S p n)"
  define T where "T = (\<lambda>i j. S (row i) j - f i * S p j)"
  have f: "f i * S p n = S (row i) n" for i using p by (simp add: f_def)
  have rows: "i = p \<or> (\<exists>k < n. i = row k)" if "i < Suc n" for i
  proof (cases "i = p")
    case False
    then have "(if i = n then p else i) < n \<and> i = row (if i = n then p else i)" using that p(1) by (auto simp: row_def)
    then show ?thesis by blast
  qed simp
  have nsT: "nonsingular n T"
    unfolding nonsingular_def
  proof (intro allI impI)
    fix x i assume x: "\<forall>i < n. (\<Sum>j < n. T i j * x j) = 0" and i: "i < n"
    define y where "y = x(n := - (\<Sum>j < n. S p j * x j) / S p n)"
    have yn: "S p n * y n = 0 - (\<Sum>j < n. S p j * y j)" using p by (simp add: y_def)
    have "(\<Sum>j < n. S i j * y j) + S i n * y n = 0" if "i < Suc n" for i
      using rows[OF that]
    proof (elim disjE exE conjE)
      fix k assume "k < n" "i = row k"
      then show ?thesis using eliminated_row[OF yn f, of k] x by (simp add: T_def y_def)
    qed (use yn in simp)
    then have "y i = 0" using ns[of y i] i by simp
    then show "x i = 0" using i by (simp add: y_def)
  qed
  define x where "x = gauss n T (\<lambda>i. b (row i) - f i * b p)"
  define y where "y = x(n := (b p - (\<Sum>j < n. S p j * x j)) / S p n)"
  have g: "gauss (Suc n) S b = y"
    unfolding gauss.simps fp by (simp add: row_def f_def T_def x_def y_def Let_def)
  have yn: "S p n * y n = b p - (\<Sum>j < n. S p j * y j)" using p by (simp add: y_def)
  have "(\<Sum>j < Suc n. S i j * y j) = b i"
    using rows[OF Suc.prems(2)]
  proof (elim disjE exE conjE)
    fix k assume k: "k < n" "i = row k"
    have "(\<Sum>j < n. T k j * x j) = b (row k) - f k * b p" using Suc.IH[OF nsT k(1)] by (simp add: x_def)
    then show ?thesis using eliminated_row[OF yn f, of k] k by (simp add: T_def y_def)
  qed (use yn in simp)
  then show ?case unfolding g .
qed simp

definition gauss_solver :: umfpack where
  "gauss_solver n ts r = (0, gauss n (triplet_sum ts) (\<lambda>i. r ! i))"

lemma gauss_solver_law: "umfpack_law gauss_solver"
  using gauss_solves by (auto simp: umfpack_law_def gauss_solver_def solves_def)

text \<open>A chain of four shafts of four FMUs, each coupled to the next; the mobility of each is 1 and the last would run ahead by 4.\<close>

definition four_shafts :: "Connector list" where
  "four_shafts = [(new_Connector 0)\<lparr>m_index := 0\<rparr>, (new_Connector 1)\<lparr>m_index := 1\<rparr>, (new_Connector 2)\<lparr>m_index := 2\<rparr>,
     (new_Connector 3)\<lparr>m_index := 3, m_futureAngularVelocity := Vec3 4 0 0\<rparr>]"

definition shaft_solver :: Solver where
  "shaft_solver = \<lparr>m_constraints = [new_Shaft 0 1, new_Shaft 1 2, new_Shaft 2 3], m_connectors = [0, 1, 2, 3],
     m_connectorIndexCounter = 4, equations_dirty = True,
     eqs = [], numsystemrows = 0, nchangingentries = 0, S_triplets = [], rhs = [], g_values = [], gv_values = [], lambda = [],
     m_mobilities = Map.empty, m_a = 2, m_b = 1 / 2, m_epsilon = 0, m_timeStep = 1\<rparr>"

definition shaft_mobilities :: "nat \<times> nat \<rightharpoonup> JacobianElement" where
  "shaft_mobilities = (\<lambda>(c, j). if c = j then Some \<lparr>m_spatial = vzero, m_rotational = Vec3 (- 1) 0 0\<rparr>
     else if c = Suc j then Some \<lparr>m_spatial = vzero, m_rotational = Vec3 1 0 0\<rparr> else None)"

definition shaft_ready :: Solver where
  "shaft_ready = (updateConstraints four_shafts (solver_prepare four_shafts shaft_solver))\<lparr>m_mobilities := shaft_mobilities\<rparr>"

lemma shaft_ready_eqs:
  "eqs shaft_ready = [(0, 0), (1, 0), (2, 0)]"
  "eq_connectors (eq_of shaft_ready 0) = [0, 1]" "eq_connectors (eq_of shaft_ready (Suc 0)) = [1, 2]" "eq_connectors (eq_of shaft_ready 2) = [2, 3]"
  "m_Gs (eq_of shaft_ready 0) = [\<lparr>m_spatial = vzero, m_rotational = neg ex\<rparr>, \<lparr>m_spatial = vzero, m_rotational = ex\<rparr>]"
  "m_Gs (eq_of shaft_ready (Suc 0)) = [\<lparr>m_spatial = vzero, m_rotational = neg ex\<rparr>, \<lparr>m_spatial = vzero, m_rotational = ex\<rparr>]"
  "m_Gs (eq_of shaft_ready 2) = [\<lparr>m_spatial = vzero, m_rotational = neg ex\<rparr>, \<lparr>m_spatial = vzero, m_rotational = ex\<rparr>]"
  "m_mobilities shaft_ready = shaft_mobilities" "m_epsilon shaft_ready = 0"
  by (simp_all add: shaft_ready_def updateConstraints_def solver_prepare_def constructS_def getEquations_def getSystemMatrixRows_def
      shaft_solver_def equation_refs_def set_eq_index_def get_eq_def eq_of_def Let_def new_Shaft_def constraint_update_def
      setViolation_def setG_def new_Equation_def upt_rec)

lemma shaft_system:
  assumes "i < 3" "j < 3"
  shows "system_matrix four_shafts shaft_ready i j = (if i = j then 2 else if i = Suc j \<or> j = Suc i then - 1 else 0)"
proof -
  have "i = 0 \<or> i = 1 \<or> i = 2" "j = 0 \<or> j = 1 \<or> j = 2" using assms by auto
  then show ?thesis
    by (elim disjE) (simp_all add: system_matrix_def system_entry_def shaft_ready_eqs haveOverlappingFMUs_def jac_def
        jacobianElementForConnector_def shaft_mobilities_def four_shafts_def new_Connector_def jmultiply_def vec_defs neg_def ex_def)
qed

lemma shaft_size: "length (eqs shaft_ready) = 3"
  by (simp add: shaft_ready_eqs)

lemma shaft_solvable: "solvable four_shafts shaft_ready"
proof -
  have "nonsingular 3 (system_matrix four_shafts shaft_ready)"
    by (auto simp: nonsingular_def numeral_3_eq_3 All_less_Suc shaft_system)
  then show ?thesis by (simp add: solvable_def shaft_size) (simp add: shaft_ready_eqs)
qed

theorem solver_solves_system_witness:
  "\<exists>cs' s'. solve gauss_solver False (four_shafts, shaft_ready) = Inr (cs', s')
     \<and> lambda s' ! 0 = - 1 \<and> lambda s' ! 1 = - 2 \<and> lambda s' ! 2 = - 3"
proof -
  have 1: "equations_dirty shaft_solver" "wf_constraints (m_constraints shaft_solver)"
    "\<forall>con\<in>set (m_constraints shaft_solver). constraint_shape con" "\<forall>c. m_slave (four_shafts ! c) = m_slave (four_shafts ! c)"
    by (simp_all add: shaft_solver_def wf_constraints_def wf_equation_def new_Shaft_def constraint_shape_def)
  have t: "equation_target False four_shafts shaft_ready (eq_of shaft_ready 0) = 0"
    "equation_target False four_shafts shaft_ready (eq_of shaft_ready 1) = 0"
    "equation_target False four_shafts shaft_ready (eq_of shaft_ready 2) = - 4"
    by (simp_all add: equation_target_def getFutureVelocity_def shaft_ready_eqs jmultiply_vec_def four_shafts_def new_Connector_def
        vec_defs neg_def ex_def)
  obtain cs' s' where s: "solve gauss_solver False (four_shafts, shaft_ready) = Inr (cs', s')"
    "\<forall>i < 3. (\<Sum>j < 3. system_matrix four_shafts shaft_ready i j * lambda s' ! j) = equation_target False four_shafts shaft_ready (eq_of shaft_ready i)"
    using solver_solves_system[OF gauss_solver_law 1 shaft_ready_def shaft_solvable, of False] unfolding shaft_size by blast
  have three: "(\<Sum>j < 3. f j) = f 0 + f 1 + f 2" for f :: "nat \<Rightarrow> double" by (simp add: numeral_3_eq_3 numeral_2_eq_2)
  have "2 * lambda s' ! 0 - lambda s' ! 1 = 0" "- lambda s' ! 0 + 2 * lambda s' ! 1 - lambda s' ! 2 = 0"
    "- lambda s' ! 1 + 2 * lambda s' ! 2 = - 4"
    using s(2)[THEN spec, of 0] s(2)[THEN spec, of 1] s(2)[THEN spec, of 2] t
    by (simp_all add: three shaft_system)
  then show ?thesis using s(1) by auto
qed

subsection \<open>Virtual work\<close>

text \<open>The power of the constraint forces on the connectors, for given velocities.\<close>

definition power_of :: "(nat \<Rightarrow> Vec3) \<Rightarrow> (nat \<Rightarrow> Vec3) \<Rightarrow> Connector list \<Rightarrow> double" where
  "power_of v w cs = (\<Sum>c < length cs. dot (m_force (cs ! c)) (v c) + dot (m_torque (cs ! c)) (w c))"

lemma add_force_power:
  assumes "wf_equation eq" "c \<in> set (eq_connectors eq)" "c < length cs" "add_force eq l c cs = Inr cs'"
  shows "power_of v w cs' = power_of v w cs + l * jmultiply_vec (jac eq c) (v c) (w c)" "length cs' = length cs"
proof -
  note cs' = assms(4)[unfolded add_force_ok[OF assms(1,2)], simplified]
  let ?f = "\<lambda>cs k. dot (m_force (cs ! k)) (v k) + dot (m_torque (cs ! k)) (w k)"
  have "power_of v w cs' = (\<Sum>k < length cs. ?f cs k + (if k = c then l * jmultiply_vec (jac eq c) (v c) (w c) else 0))"
    unfolding power_of_def cs'[symmetric]
    by (rule sum.cong) (auto simp: nth_list_update jmultiply_vec_def vec_defs algebra_simps)
  also have "\<dots> = power_of v w cs + l * jmultiply_vec (jac eq c) (v c) (w c)"
    using assms(3) by (simp add: sum.distrib power_of_def)
  finally show "power_of v w cs' = power_of v w cs + l * jmultiply_vec (jac eq c) (v c) (w c)" .
  show "length cs' = length cs" using cs' by auto
qed

lemma add_equation_power:
  assumes wf: "wf_equation eq"
  shows "set conns \<subseteq> set (eq_connectors eq) \<inter> {..<length cs} \<Longrightarrow> rfold (add_force eq l) conns cs = Inr cs' \<Longrightarrow>
     power_of v w cs' = power_of v w cs + l * (\<Sum>c\<leftarrow>conns. jmultiply_vec (jac eq c) (v c) (w c)) \<and> length cs' = length cs"
proof (induction conns arbitrary: cs)
  case (Cons c conns)
  then obtain cs1 where 1: "add_force eq l c cs = Inr cs1" "rfold (add_force eq l) conns cs1 = Inr cs'" by auto
  have c: "c \<in> set (eq_connectors eq)" "c < length cs" using Cons.prems(1) by auto
  note p = add_force_power(1)[OF wf c 1(1), where v = v and w = w] add_force_power(2)[OF wf c 1(1)]
  show ?case using Cons.IH[OF _ 1(2)] Cons.prems(1) p by (auto simp: algebra_simps)
qed auto

lemma velocity_sum:
  assumes "wf_equation eq" "distinct (eq_connectors eq)"
  shows "getVelocity cs eq = m_relativeVelocity eq
     + (\<Sum>c\<leftarrow>eq_connectors eq. jmultiply_vec (jac eq c) (m_velocity (cs ! c)) (m_angularVelocity (cs ! c)))"
proof -
  have fold: "foldl (\<lambda>ret (G, c). ret + f G c) r ps = r + (\<Sum>(G, c)\<leftarrow>ps. f G c)" for f :: "JacobianElement \<Rightarrow> nat \<Rightarrow> double" and r ps
    by (induction ps arbitrary: r) auto
  have find: "length Gs = length conns \<Longrightarrow> distinct conns \<Longrightarrow> k < length conns \<Longrightarrow> jacobian_find (conns ! k) Gs conns = Inr (Gs ! k)" for Gs conns k
  proof (induction Gs conns arbitrary: k rule: list_induct2)
    case (Cons G Gs c conns)
    then show ?case by (cases k) auto
  qed simp
  have "zip (m_Gs eq) (eq_connectors eq) = map (\<lambda>c. (jac eq c, c)) (eq_connectors eq)"
    using assms find by (auto simp: wf_equation_def jac_def jacobianElementForConnector_def intro!: nth_equalityI)
  then show ?thesis unfolding getVelocity_def fold by (simp add: comp_def)
qed

text \<open>The constraint forces \<^verbatim>\<open>solve\<close> adds to the connectors are the transposed Jacobians times the multipliers: for all
  velocities of the connectors the power of the added forces and torques is the sum over the equations of the multiplier,
  divided by the time step, times the constraint velocity.\<close>

theorem constraint_forces_power:
  assumes wf: "\<forall>i < length (eqs s). wf_equation (eq_of s i) \<and> distinct (eq_connectors (eq_of s i))
       \<and> set (eq_connectors (eq_of s i)) \<subseteq> {..<length cs}"
    and f: "add_forces s lam cs = Inr cs'"
  shows "power_of (\<lambda>c. m_velocity (cs0 ! c)) (\<lambda>c. m_angularVelocity (cs0 ! c)) cs'
       - power_of (\<lambda>c. m_velocity (cs0 ! c)) (\<lambda>c. m_angularVelocity (cs0 ! c)) cs
     = (\<Sum>i < length (eqs s). lam ! i / m_timeStep s * (getVelocity cs0 (eq_of s i) - m_relativeVelocity (eq_of s i)))"
proof -
  let ?P = "power_of (\<lambda>c. m_velocity (cs0 ! c)) (\<lambda>c. m_angularVelocity (cs0 ! c))"
  let ?t = "\<lambda>i. lam ! i / m_timeStep s * (getVelocity cs0 (eq_of s i) - m_relativeVelocity (eq_of s i))"
  have step: "?P cs2 = ?P cs1 + ?t i \<and> length cs2 = length cs1"
    if "i < length (eqs s)" "length cs1 = length cs" "rfold (add_force (eq_of s i) (lam ! i / m_timeStep s)) (eq_connectors (eq_of s i)) cs1 = Inr cs2"
    for i cs1 cs2
    using add_equation_power[of "eq_of s i", OF _ _ that(3)] velocity_sum[of "eq_of s i" cs0] wf that by auto
  have "n \<le> length (eqs s) \<Longrightarrow>
     rfold (\<lambda>i. let eq = get_eq s (eqs s ! i) in rfold (add_force eq (lam ! i / m_timeStep s)) (eq_connectors eq)) [0..<n] cs = Inr cs' \<Longrightarrow>
     ?P cs' = ?P cs + (\<Sum>i < n. ?t i) \<and> length cs' = length cs" for n cs'
  proof (induction n arbitrary: cs')
    case (Suc n)
    then obtain cs1 where 1: "rfold (\<lambda>i. let eq = get_eq s (eqs s ! i) in rfold (add_force eq (lam ! i / m_timeStep s)) (eq_connectors eq)) [0..<n] cs = Inr cs1"
      "rfold (add_force (eq_of s n) (lam ! n / m_timeStep s)) (eq_connectors (eq_of s n)) cs1 = Inr cs'"
      by (auto simp: rfold_append eq_of_def Let_def)
    then show ?case using Suc.IH[OF _ 1(1)] step[OF _ _ 1(2)] Suc.prems(1) by auto
  qed simp
  from this[OF order_refl f[unfolded add_forces_def]] show ?thesis by simp
qed

theorem constraint_forces_power_witness:
  "\<exists>cs'. add_forces shaft_ready [- 1, - 2, - 3] four_shafts = Inr cs'
     \<and> power_of (\<lambda>c. m_velocity (four_shafts ! c)) (\<lambda>c. m_angularVelocity (four_shafts ! c)) cs'
       - power_of (\<lambda>c. m_velocity (four_shafts ! c)) (\<lambda>c. m_angularVelocity (four_shafts ! c)) four_shafts
       = (\<Sum>i < 3. [- 1, - 2, - 3] ! i / m_timeStep shaft_ready
           * (getVelocity four_shafts (eq_of shaft_ready i) - m_relativeVelocity (eq_of shaft_ready i)))"
proof -
  have wf: "\<forall>i < length (eqs shaft_ready). wf_equation (eq_of shaft_ready i) \<and> distinct (eq_connectors (eq_of shaft_ready i))
       \<and> set (eq_connectors (eq_of shaft_ready i)) \<subseteq> {..<length four_shafts}"
    by (simp add: shaft_size numeral_3_eq_3 All_less_Suc) (simp add: shaft_ready_eqs wf_equation_def four_shafts_def numeral_2_eq_2[symmetric])
  then obtain cs' where "add_forces shaft_ready [- 1, - 2, - 3] four_shafts = Inr cs'" using add_forces_ok by blast
  from constraint_forces_power[OF wf this, of four_shafts] this show ?thesis by (simp add: shaft_ready_eqs numeral_3_eq_3)
qed

end
