(* ===== verification/Strong_Connector.thy ===== *)
theory Strong_Connector
  imports Sc_Solver Client Text_Utils
begin

text \<open>
  Strong connectors (src/master/StrongConnector.cpp, src/master/FMIClient.cpp) and the setup of the constraints
  (src/master/main.cpp). A strong connector is a connector of the coupling library together with the
  value references of its quantities; the references are in a list beside the connectors, at the same index. A quantity
  that a connector does not have (\<^verbatim>\<open>m_has...\<close>) is \<^const>\<open>None\<close>. The program remembers the lists of references the
  first time they are asked for, which is after they have all been set; the lists are computed here.
  Proved: the values fetched for a client end up in the fields of its connectors that have their
  references; the setup gives the solver constraints it can handle, on connectors of the named FMUs.
\<close>

subsection \<open>Connectors with value references\<close>

record refs =
  vref_position :: "int list option"
  vref_quaternion :: "int list option"
  vref_shaftAngle :: "int option"
  vref_velocity :: "int list option"
  vref_acceleration :: "int list option"
  vref_angularVelocity :: "int list option"
  vref_angularAcceleration :: "int list option"
  vref_force :: "int list option"
  vref_torque :: "int list option"

type_synonym connectors = "Connector list \<times> refs list"

definition new_refs :: refs where
  "new_refs = \<lparr>vref_position = None, vref_quaternion = None, vref_shaftAngle = None, vref_velocity = None,
     vref_acceleration = None, vref_angularVelocity = None, vref_angularAcceleration = None, vref_force = None, vref_torque = None\<rparr>"

definition all_refs :: "int list option \<Rightarrow> int list" where
  "all_refs r = (case r of None \<Rightarrow> [] | Some vrs \<Rightarrow> vrs)"

text \<open>Rotational quantities leave out negative references, which mark the unused axes of a shaft.\<close>

definition used_refs :: "int list option \<Rightarrow> int list" where
  "used_refs r = filter (\<lambda>vr. vr \<ge> 0) (all_refs r)"

definition getPositionValueRefs :: "refs \<Rightarrow> int list" where
  "getPositionValueRefs r = all_refs (vref_position r)"

definition getQuaternionValueRefs :: "refs \<Rightarrow> int list" where
  "getQuaternionValueRefs r = all_refs (vref_quaternion r)"

definition getShaftAngleValueRefs :: "refs \<Rightarrow> int list" where
  "getShaftAngleValueRefs r = (case vref_shaftAngle r of None \<Rightarrow> [] | Some vr \<Rightarrow> [vr])"

definition getVelocityValueRefs :: "refs \<Rightarrow> int list" where
  "getVelocityValueRefs r = all_refs (vref_velocity r)"

definition getAccelerationValueRefs :: "refs \<Rightarrow> int list" where
  "getAccelerationValueRefs r = all_refs (vref_acceleration r)"

definition getAngularVelocityValueRefs :: "refs \<Rightarrow> int list" where
  "getAngularVelocityValueRefs r = used_refs (vref_angularVelocity r)"

definition getAngularAccelerationValueRefs :: "refs \<Rightarrow> int list" where
  "getAngularAccelerationValueRefs r = used_refs (vref_angularAcceleration r)"

definition getForceValueRefs :: "refs \<Rightarrow> int list" where
  "getForceValueRefs r = all_refs (vref_force r)"

definition getTorqueValueRefs :: "refs \<Rightarrow> int list" where
  "getTorqueValueRefs r = used_refs (vref_torque r)"

text \<open>\<open>put3\<close> is the loop over \<open>j\<close> for one vector: each element whose reference is \<open>vr\<close> gets the value.\<close>

definition put3 :: "int list option \<Rightarrow> int \<Rightarrow> double \<Rightarrow> Vec3 \<Rightarrow> Vec3" where
  "put3 r vr val v = (case r of None \<Rightarrow> v
     | Some rs \<Rightarrow> Vec3 (if vr = rs ! 0 then val else vx v) (if vr = rs ! 1 then val else vy v) (if vr = rs ! 2 then val else vz v))"

definition put4 :: "int list option \<Rightarrow> int \<Rightarrow> double \<Rightarrow> Quat \<Rightarrow> Quat" where
  "put4 r vr val q = (case r of None \<Rightarrow> q
     | Some rs \<Rightarrow> Quat (if vr = rs ! 0 then val else qx q) (if vr = rs ! 1 then val else qy q)
         (if vr = rs ! 2 then val else qz q) (if vr = rs ! 3 then val else qw q))"

definition setValue :: "refs \<Rightarrow> int \<times> double \<Rightarrow> Connector \<Rightarrow> Connector" where
  "setValue r = (\<lambda>(vr, val) c. c
     \<lparr>m_position := put3 (vref_position r) vr val (m_position c),
      m_velocity := put3 (vref_velocity r) vr val (m_velocity c),
      m_angularVelocity := put3 (vref_angularVelocity r) vr val (m_angularVelocity c),
      m_force := put3 (vref_force r) vr val (m_force c),
      m_torque := put3 (vref_torque r) vr val (m_torque c),
      m_quaternion := put4 (vref_quaternion r) vr val (m_quaternion c),
      m_shaftAngle := (if vref_shaftAngle r = Some vr then val else m_shaftAngle c)\<rparr>)"

definition setValues :: "refs \<Rightarrow> int list \<Rightarrow> double list \<Rightarrow> Connector \<Rightarrow> Connector res" where
  "setValues r vrs vals c =
     (if length vrs \<noteq> length vals then Inl (Fatal ''assert'') else Inr (fold (setValue r) (zip vrs vals) c))"

definition setFutureValue :: "refs \<Rightarrow> int \<times> double \<Rightarrow> Connector \<Rightarrow> Connector" where
  "setFutureValue r = (\<lambda>(vr, val) c. c
     \<lparr>m_futureVelocity := put3 (vref_velocity r) vr val (m_futureVelocity c),
      m_futureAngularVelocity := put3 (vref_angularVelocity r) vr val (m_futureAngularVelocity c)\<rparr>)"

definition setFutureValues :: "refs \<Rightarrow> int list \<Rightarrow> double list \<Rightarrow> Connector \<Rightarrow> Connector res" where
  "setFutureValues r vrs vals c =
     (if length vrs \<noteq> length vals then Inl (Fatal ''assert'') else Inr (fold (setFutureValue r) (zip vrs vals) c))"

text \<open>The nineteen references of a ball or lock connector, in the order of the parameters.\<close>

record ball_lock_refs =
  bl_pos :: "int list"
  bl_acc :: "int list"
  bl_force :: "int list"
  bl_quat :: "int list"
  bl_angAcc :: "int list"
  bl_torque :: "int list"

definition ball_lock_of :: "int list \<Rightarrow> ball_lock_refs" where
  "ball_lock_of vrs = \<lparr>bl_pos = take 3 vrs, bl_acc = take 3 (drop 3 vrs), bl_force = take 3 (drop 6 vrs),
     bl_quat = take 4 (drop 9 vrs), bl_angAcc = take 3 (drop 13 vrs), bl_torque = take 3 (drop 16 vrs)\<rparr>"

definition matchesBallLockConnector :: "ball_lock_refs \<Rightarrow> refs \<Rightarrow> bool" where
  "matchesBallLockConnector b r \<longleftrightarrow> vref_position r = Some (bl_pos b) \<and> vref_acceleration r = Some (bl_acc b)
     \<and> vref_force r = Some (bl_force b) \<and> vref_quaternion r = Some (bl_quat b)
     \<and> vref_angularAcceleration r = Some (bl_angAcc b) \<and> vref_torque r = Some (bl_torque b)"

definition matchesShaftConnector :: "int \<Rightarrow> int \<Rightarrow> int \<Rightarrow> int \<Rightarrow> refs \<Rightarrow> bool" where
  "matchesShaftConnector angle angularVel angularAcc torque r \<longleftrightarrow>
     vref_shaftAngle r = Some angle \<and> vref_angularVelocity r = Some [angularVel, -1, -1]
     \<and> vref_angularAcceleration r = Some [angularAcc, -1, -1] \<and> vref_torque r = Some [torque, -1, -1]"

subsection \<open>The connectors of a client\<close>

definition createConnector :: "nat \<Rightarrow> refs \<Rightarrow> connectors \<Rightarrow> nat \<times> connectors" where
  "createConnector i r = (\<lambda>(cs, rs). (length cs, cs @ [new_Connector i], rs @ [r]))"

definition setConnectorValues :: "nat \<Rightarrow> int list \<Rightarrow> double list \<Rightarrow> connectors \<Rightarrow> connectors res" where
  "setConnectorValues i vrs vals = (\<lambda>(cs, rs).
     rbind (rfold (\<lambda>c cs. rbind (setValues (rs ! c) vrs vals (cs ! c)) (\<lambda>x. Inr (cs[c := x]))) (slave_connectors cs i) cs)
       (\<lambda>cs. Inr (cs, rs)))"

definition setConnectorFutureVelocities :: "nat \<Rightarrow> int list \<Rightarrow> double list \<Rightarrow> connectors \<Rightarrow> connectors res" where
  "setConnectorFutureVelocities i vrs vals = (\<lambda>(cs, rs).
     rbind (rfold (\<lambda>c cs. rbind (setFutureValues (rs ! c) vrs vals (cs ! c)) (\<lambda>x. Inr (cs[c := x]))) (slave_connectors cs i) cs)
       (\<lambda>cs. Inr (cs, rs)))"

definition connector_value_refs :: "refs \<Rightarrow> int list" where
  "connector_value_refs r = getPositionValueRefs r @ getQuaternionValueRefs r @ getShaftAngleValueRefs r
     @ getVelocityValueRefs r @ getAngularVelocityValueRefs r"

definition getStrongConnectorValueReferences :: "nat \<Rightarrow> connectors \<Rightarrow> int list" where
  "getStrongConnectorValueReferences i = (\<lambda>(cs, rs). concat (map (\<lambda>c. connector_value_refs (rs ! c)) (slave_connectors cs i)))"

subsection \<open>Setup\<close>

definition ball_lock_connector :: "ball_lock_refs \<Rightarrow> refs" where
  "ball_lock_connector b = new_refs\<lparr>vref_position := Some (bl_pos b), vref_acceleration := Some (bl_acc b), vref_force := Some (bl_force b),
     vref_quaternion := Some (bl_quat b), vref_angularAcceleration := Some (bl_angAcc b), vref_torque := Some (bl_torque b)\<rparr>"

definition shaft_connector :: "int \<Rightarrow> int \<Rightarrow> int \<Rightarrow> int \<Rightarrow> refs" where
  "shaft_connector angle angularVel angularAcc torque = new_refs\<lparr>vref_shaftAngle := Some angle,
     vref_angularVelocity := Some [angularVel, -1, -1], vref_angularAcceleration := Some [angularAcc, -1, -1],
     vref_torque := Some [torque, -1, -1]\<rparr>"

definition findOrCreate :: "(refs \<Rightarrow> bool) \<Rightarrow> refs \<Rightarrow> nat \<Rightarrow> connectors \<Rightarrow> nat \<times> connectors" where
  "findOrCreate matches r i = (\<lambda>(cs, rs).
     (case find (\<lambda>c. matches (rs ! c)) (slave_connectors cs i) of
        Some c \<Rightarrow> (c, cs, rs) | None \<Rightarrow> createConnector i r (cs, rs)))"

definition findOrCreateBallLockConnector :: "nat \<Rightarrow> int list \<Rightarrow> connectors \<Rightarrow> nat \<times> connectors" where
  "findOrCreateBallLockConnector i vrs =
     findOrCreate (matchesBallLockConnector (ball_lock_of vrs)) (ball_lock_connector (ball_lock_of vrs)) i"

definition findOrCreateShaftConnector :: "nat \<Rightarrow> int list \<Rightarrow> connectors \<Rightarrow> nat \<times> connectors" where
  "findOrCreateShaftConnector i vrs =
     findOrCreate (matchesShaftConnector (vrs ! 0) (vrs ! 1) (vrs ! 2) (vrs ! 3)) (shaft_connector (vrs ! 0) (vrs ! 1) (vrs ! 2) (vrs ! 3)) i"

definition vrFromKeyName :: "client \<Rightarrow> string \<Rightarrow> int res" where
  "vrFromKeyName c key =
     (if isVR key then Inr (atoi key)
      else case m_variables c key of None \<Rightarrow> Inl (Fatal ''client:key'') | Some v \<Rightarrow> Inr (vvr v))"

record strongconnection =
  sc_type :: string
  sc_fmus :: "int list"
  sc_vrORname :: "string list"

text \<open>The macro \<^verbatim>\<open>toVR\<close> for consecutive names; \<^verbatim>\<open>clients[it->fmus[i]]\<close> must exist.\<close>

definition sc_fmu :: "client list \<Rightarrow> strongconnection \<Rightarrow> nat \<Rightarrow> nat res" where
  "sc_fmu clients it i =
     (if length (sc_fmus it) \<le> i \<or> sc_fmus it ! i < 0 \<or> int (length clients) \<le> sc_fmus it ! i
      then Inl (UB ''clients'') else Inr (nat (sc_fmus it ! i)))"

definition toVRs :: "client list \<Rightarrow> strongconnection \<Rightarrow> nat \<Rightarrow> nat \<Rightarrow> nat \<Rightarrow> int list res" where
  "toVRs clients it i from k =
     rbind (sc_fmu clients it i) (\<lambda>fmu. rmap (vrFromKeyName (clients ! fmu)) (take k (drop from (sc_vrORname it))))"

definition ball_lock_of_connection :: "client list \<Rightarrow> strongconnection \<Rightarrow> nat \<Rightarrow> connectors \<Rightarrow> (nat \<times> connectors) res" where
  "ball_lock_of_connection clients it i st =
     rbind (toVRs clients it i (i * 19) 19) (\<lambda>vrs. rbind (sc_fmu clients it i) (\<lambda>fmu. Inr (findOrCreateBallLockConnector fmu vrs st)))"

definition shaft_of_connection :: "client list \<Rightarrow> strongconnection \<Rightarrow> nat \<Rightarrow> nat \<Rightarrow> connectors \<Rightarrow> (nat \<times> connectors) res" where
  "shaft_of_connection clients it stride i st =
     rbind (toVRs clients it i (i * stride) 4) (\<lambda>vrs. rbind (sc_fmu clients it i) (\<lambda>fmu. Inr (findOrCreateShaftConnector fmu vrs st)))"

definition multiway_step :: "client list \<Rightarrow> strongconnection \<Rightarrow> nat \<Rightarrow> nat list \<times> double list \<times> connectors \<Rightarrow> (nat list \<times> double list \<times> connectors) res" where
  "multiway_step clients it i = (\<lambda>(scs, weights, st).
     rbind (shaft_of_connection clients it 5 i st) (\<lambda>(c, st).
       Inr (scs @ [c], weights @ [atof (sc_vrORname it ! (i * 5 + 4))], st)))"

definition setup_constraint :: "client list \<Rightarrow> strongconnection \<Rightarrow> connectors \<Rightarrow> (Constraint \<times> connectors) res" where
  "setup_constraint clients it st =
     (if sc_type it = ''ball'' \<or> sc_type it = ''lock'' then
        (if length (sc_vrORname it) \<noteq> 38 then Inl (Fatal ''Bad ball joint or lock specification: need 38 VRs'')
         else rbind (ball_lock_of_connection clients it 0 st) (\<lambda>(a, st).
              rbind (ball_lock_of_connection clients it 1 st) (\<lambda>(b, st).
              Inr (if sc_type it = ''ball'' then new_BallJoint a b vzero vzero else new_Lock a b vzero vzero, st))))
      else if sc_type it = ''shaft'' then
        (if length (sc_vrORname it) \<noteq> 8 then Inl (Fatal ''Bad shaft specification: need 8 VRs'')
         else rbind (shaft_of_connection clients it 4 0 st) (\<lambda>(a, st).
              rbind (shaft_of_connection clients it 4 1 st) (\<lambda>(b, st). Inr (new_Shaft a b, st))))
      else if sc_type it = ''multiway'' then
        (if length (sc_vrORname it) \<noteq> length (sc_fmus it) * 5 then Inl (Fatal ''Bad multiway constraint specification'')
         else rbind (rfold (multiway_step clients it) [0..<length (sc_fmus it)] ([], [], st)) (\<lambda>(scs, weights, st).
              rbind (new_MultiWay scs weights) (\<lambda>con. Inr (con, st))))
      else Inl (Fatal ''Unknown strong connector type''))"

definition setupConstraintsAndSolver ::
  "client list \<Rightarrow> strongconnection list \<Rightarrow> connectors \<Rightarrow> (Solver option \<times> connectors) res" where
  "setupConstraintsAndSolver clients scs st =
     (if scs = [] then Inr (None, st)
      else rbind (rfold (\<lambda>it (s, st). rbind (setup_constraint clients it st) (\<lambda>(con, st). Inr (addConstraint con s, st))) scs (new_Solver, st))
        (\<lambda>(s, cs, rs). let (cs, s) = fold addSlave [0..<length clients] (cs, s) in Inr (Some s, cs, rs)))"

subsection \<open>Values reach the connectors\<close>

definition refs_shape :: "refs \<Rightarrow> bool" where
  "refs_shape r \<longleftrightarrow> (\<forall>f\<in>{vref_position, vref_velocity, vref_acceleration, vref_angularVelocity, vref_angularAcceleration, vref_force, vref_torque}.
       \<forall>vrs. f r = Some vrs \<longrightarrow> length vrs = 3)
     \<and> (\<forall>vrs. vref_quaternion r = Some vrs \<longrightarrow> length vrs = 4)"

text \<open>Element \<open>j\<close> of a quantity after the values \<open>f\<close> of the references \<open>vrs\<close> have been set.\<close>

definition value_at :: "(int \<Rightarrow> double) \<Rightarrow> int list \<Rightarrow> int list option \<Rightarrow> nat \<Rightarrow> double \<Rightarrow> double" where
  "value_at f vrs r j old = (case r of None \<Rightarrow> old | Some rs \<Rightarrow> if rs ! j \<in> set vrs then f (rs ! j) else old)"

lemma value_at_Cons:
  "value_at f (vr # vrs) (Some rs) j old = value_at f vrs (Some rs) j (if vr = rs ! j then f vr else old)"
  by (simp add: value_at_def)

lemma put3_elements:
  "vx (put3 (Some rs) vr val v) = (if vr = rs ! 0 then val else vx v)"
  "vy (put3 (Some rs) vr val v) = (if vr = rs ! 1 then val else vy v)"
  "vz (put3 (Some rs) vr val v) = (if vr = rs ! 2 then val else vz v)"
  by (simp_all add: put3_def)

lemma put4_elements:
  "qx (put4 (Some rs) vr val q) = (if vr = rs ! 0 then val else qx q)"
  "qy (put4 (Some rs) vr val q) = (if vr = rs ! 1 then val else qy q)"
  "qz (put4 (Some rs) vr val q) = (if vr = rs ! 2 then val else qz q)"
  "qw (put4 (Some rs) vr val q) = (if vr = rs ! 3 then val else qw q)"
  by (simp_all add: put4_def)

lemma fold_put3:
  "fold (\<lambda>(vr, val). put3 r vr val) (zip vrs (map f vrs)) v
     = Vec3 (value_at f vrs r 0 (vx v)) (value_at f vrs r 1 (vy v)) (value_at f vrs r 2 (vz v))"
proof (cases r)
  case None
  then have "fold (\<lambda>(vr, val). put3 r vr val) ps v = v" for ps by (induction ps) (auto simp: put3_def)
  then show ?thesis using None by (cases v) (simp add: value_at_def)
next
  case (Some rs)
  show ?thesis unfolding Some
  proof (induction vrs arbitrary: v)
    case Nil
    then show ?case by (cases v) (simp add: value_at_def)
  next
    case (Cons vr vrs)
    show ?case by (simp only: list.map zip_Cons_Cons fold_Cons comp_apply prod.case Cons value_at_Cons put3_elements)
  qed
qed

lemma fold_put4:
  "fold (\<lambda>(vr, val). put4 r vr val) (zip vrs (map f vrs)) q
     = Quat (value_at f vrs r 0 (qx q)) (value_at f vrs r 1 (qy q)) (value_at f vrs r 2 (qz q)) (value_at f vrs r 3 (qw q))"
proof (cases r)
  case None
  then have "fold (\<lambda>(vr, val). put4 r vr val) ps q = q" for ps by (induction ps) (auto simp: put4_def)
  then show ?thesis using None by (cases q) (simp add: value_at_def)
next
  case (Some rs)
  show ?thesis unfolding Some
  proof (induction vrs arbitrary: q)
    case Nil
    then show ?case by (cases q) (simp add: value_at_def)
  next
    case (Cons vr vrs)
    show ?case by (simp only: list.map zip_Cons_Cons fold_Cons comp_apply prod.case Cons value_at_Cons put4_elements)
  qed
qed

lemma fold_setValue:
  "m_position (fold (setValue r) ps c) = fold (\<lambda>(vr, val). put3 (vref_position r) vr val) ps (m_position c)"
  "m_velocity (fold (setValue r) ps c) = fold (\<lambda>(vr, val). put3 (vref_velocity r) vr val) ps (m_velocity c)"
  "m_angularVelocity (fold (setValue r) ps c) = fold (\<lambda>(vr, val). put3 (vref_angularVelocity r) vr val) ps (m_angularVelocity c)"
  "m_quaternion (fold (setValue r) ps c) = fold (\<lambda>(vr, val). put4 (vref_quaternion r) vr val) ps (m_quaternion c)"
  "m_slave (fold (setValue r) ps c) = m_slave c" "m_index (fold (setValue r) ps c) = m_index c"
  by (induction ps arbitrary: c) (simp_all add: setValue_def split_beta)

lemma fold_setValue_shaft:
  "vref_shaftAngle r = Some a \<Longrightarrow>
   m_shaftAngle (fold (setValue r) (zip vrs (map f vrs)) c) = (if a \<in> set vrs then f a else m_shaftAngle c)"
  by (induction vrs arbitrary: c) (auto simp: setValue_def)

lemma fold_setFutureValue:
  "m_futureVelocity (fold (setFutureValue r) ps c) = fold (\<lambda>(vr, val). put3 (vref_velocity r) vr val) ps (m_futureVelocity c)"
  "m_futureAngularVelocity (fold (setFutureValue r) ps c)
     = fold (\<lambda>(vr, val). put3 (vref_angularVelocity r) vr val) ps (m_futureAngularVelocity c)"
  by (induction ps arbitrary: c) (simp_all add: setFutureValue_def split_beta)

lemma slave_connectors_simps [simp]:
  "distinct (slave_connectors cs i)" "set (slave_connectors cs i) = {c. c < length cs \<and> m_slave (cs ! c) = i}"
  by (auto simp: slave_connectors_def)

text \<open>Updating the entries at some indices, each from its own old value.\<close>

lemma rfold_update:
  assumes "distinct idxs" and "set idxs \<subseteq> {..<length cs}" and "\<forall>c\<in>set idxs. g c (cs ! c) = Inr (h c)"
  shows "\<exists>cs'. rfold (\<lambda>c cs. rbind (g c (cs ! c)) (\<lambda>x. Inr (cs[c := x]))) idxs cs = Inr cs' \<and> length cs' = length cs
     \<and> (\<forall>c. cs' ! c = (if c \<in> set idxs then h c else cs ! c))"
  using assms
proof (induction idxs arbitrary: cs)
  case (Cons c idxs)
  then have "\<forall>d\<in>set idxs. g d (cs[c := h c] ! d) = Inr (h d)" "set idxs \<subseteq> {..<length (cs[c := h c])}" "distinct idxs"
    by (auto simp: nth_list_update)
  from Cons.IH[OF this(3,2,1)] Cons.prems show ?case by (auto simp: nth_list_update)
qed simp

lemma setConnectorValues_eq:
  assumes "length vrs = length vals"
  shows "\<exists>cs'. setConnectorValues i vrs vals (cs, rs) = Inr (cs', rs) \<and> length cs' = length cs
     \<and> (\<forall>c. cs' ! c = (if c < length cs \<and> m_slave (cs ! c) = i then fold (setValue (rs ! c)) (zip vrs vals) (cs ! c) else cs ! c))"
proof -
  have "set (slave_connectors cs i) \<subseteq> {..<length cs}" by auto
  from rfold_update[OF slave_connectors_simps(1) this, of "\<lambda>c. setValues (rs ! c) vrs vals" "\<lambda>c. fold (setValue (rs ! c)) (zip vrs vals) (cs ! c)"]
  show ?thesis using assms by (auto simp: setConnectorValues_def setValues_def)
qed

lemma setConnectorFutureVelocities_eq:
  assumes "length vrs = length vals"
  shows "\<exists>cs'. setConnectorFutureVelocities i vrs vals (cs, rs) = Inr (cs', rs) \<and> length cs' = length cs
     \<and> (\<forall>c. cs' ! c = (if c < length cs \<and> m_slave (cs ! c) = i then fold (setFutureValue (rs ! c)) (zip vrs vals) (cs ! c) else cs ! c))"
proof -
  have "set (slave_connectors cs i) \<subseteq> {..<length cs}" by auto
  from rfold_update[OF slave_connectors_simps(1) this, of "\<lambda>c. setFutureValues (rs ! c) vrs vals" "\<lambda>c. fold (setFutureValue (rs ! c)) (zip vrs vals) (cs ! c)"]
  show ?thesis using assms by (auto simp: setConnectorFutureVelocities_def setFutureValues_def)
qed

lemma connector_refs_mem:
  assumes "c < length cs" "m_slave (cs ! c) = i"
  shows "set (connector_value_refs (rs ! c)) \<subseteq> set (getStrongConnectorValueReferences i (cs, rs))"
  using assms by (auto simp: getStrongConnectorValueReferences_def)

text \<open>What a connector holds of the values \<open>f\<close> of its FMU's variables: its position, orientation, shaft angle, and velocities,
  where it has references for them; the axes of a shaft that are not used stay as they were.\<close>

definition holds_values :: "(int \<Rightarrow> double) \<Rightarrow> refs \<Rightarrow> Connector \<Rightarrow> Connector \<Rightarrow> bool" where
  "holds_values f r old c \<longleftrightarrow>
     (\<forall>p. vref_position r = Some p \<longrightarrow> m_position c = Vec3 (f (p ! 0)) (f (p ! 1)) (f (p ! 2)))
     \<and> (\<forall>q. vref_quaternion r = Some q \<longrightarrow> m_quaternion c = Quat (f (q ! 0)) (f (q ! 1)) (f (q ! 2)) (f (q ! 3)))
     \<and> (\<forall>a. vref_shaftAngle r = Some a \<longrightarrow> m_shaftAngle c = f a)
     \<and> (\<forall>v. vref_velocity r = Some v \<longrightarrow> m_velocity c = Vec3 (f (v ! 0)) (f (v ! 1)) (f (v ! 2)))
     \<and> (\<forall>w. vref_angularVelocity r = Some w \<longrightarrow> m_angularVelocity c =
          (let old = m_angularVelocity old in
           Vec3 (if 0 \<le> w ! 0 then f (w ! 0) else vx old) (if 0 \<le> w ! 1 then f (w ! 1) else vy old) (if 0 \<le> w ! 2 then f (w ! 2) else vz old)))"

lemma setValues_holds:
  assumes shape: "refs_shape r" and sub: "set (connector_value_refs r) \<subseteq> set vrs" and pos: "\<forall>vr\<in>set vrs. 0 \<le> vr"
  shows "holds_values f r c (fold (setValue r) (zip vrs (map f vrs)) c)"
proof -
  have vec: "p ! j \<in> set vrs" if "vref_position r = Some p \<or> vref_velocity r = Some p" "j < 3" for p j
    using that shape sub by (auto simp: refs_shape_def connector_value_refs_def getPositionValueRefs_def getVelocityValueRefs_def
        all_refs_def subset_iff)
  have quat: "p ! j \<in> set vrs" if "vref_quaternion r = Some p" "j < 4" for p j
    using that shape sub by (auto simp: refs_shape_def connector_value_refs_def getQuaternionValueRefs_def all_refs_def subset_iff)
  have shaft: "a \<in> set vrs" if "vref_shaftAngle r = Some a" for a
    using that sub by (simp add: connector_value_refs_def getShaftAngleValueRefs_def)
  have ang: "w ! j \<in> set vrs \<longleftrightarrow> 0 \<le> w ! j" if "vref_angularVelocity r = Some w" "j < 3" for w j
    using that shape sub pos by (auto simp: refs_shape_def connector_value_refs_def getAngularVelocityValueRefs_def used_refs_def
        all_refs_def subset_iff)
  show ?thesis
    unfolding holds_values_def
    by (intro conjI allI impI)
       (simp_all add: fold_setValue fold_put3 fold_put4 fold_setValue_shaft value_at_def vec quat shaft ang Let_def)
qed

text \<open>C36: when the values of the references that \<^verbatim>\<open>getStrongConnectorValueReferences\<close> asks of an FMU are handed to
  \<^verbatim>\<open>setConnectorValues\<close>, every connector of that FMU holds, in each field it has references for, the values of those references,
  and the connectors of other FMUs do not change.\<close>

theorem connector_values_roundtrip:
  assumes vrs: "vrs = getStrongConnectorValueReferences i (cs, rs)" and pos: "\<forall>vr\<in>set vrs. 0 \<le> vr"
    and shape: "\<forall>c < length cs. refs_shape (rs ! c)"
  shows "\<exists>cs'. setConnectorValues i vrs (map f vrs) (cs, rs) = Inr (cs', rs) \<and> length cs' = length cs
     \<and> (\<forall>c < length cs. if m_slave (cs ! c) = i then holds_values f (rs ! c) (cs ! c) (cs' ! c) else cs' ! c = cs ! c)"
proof -
  obtain cs' where cs': "setConnectorValues i vrs (map f vrs) (cs, rs) = Inr (cs', rs)" "length cs' = length cs"
    "\<forall>c. cs' ! c = (if c < length cs \<and> m_slave (cs ! c) = i then fold (setValue (rs ! c)) (zip vrs (map f vrs)) (cs ! c) else cs ! c)"
    using setConnectorValues_eq[of vrs "map f vrs" i cs rs] by auto
  have "holds_values f (rs ! c) (cs ! c) (fold (setValue (rs ! c)) (zip vrs (map f vrs)) (cs ! c))"
    if "c < length cs" "m_slave (cs ! c) = i" for c
    using setValues_holds[of "rs ! c" vrs f "cs ! c"] connector_refs_mem[OF that] shape pos vrs that(1) by auto
  then show ?thesis using cs' by auto
qed

theorem connector_values_roundtrip_witness:
  "\<exists>cs'. setConnectorValues 0 [1, 2] [10, 20] ([new_Connector 0], [shaft_connector 1 2 3 4]) = Inr (cs', [shaft_connector 1 2 3 4])
     \<and> m_shaftAngle (cs' ! 0) = 10 \<and> m_angularVelocity (cs' ! 0) = Vec3 20 0 0"
proof -
  have r: "getStrongConnectorValueReferences 0 ([new_Connector 0], [shaft_connector 1 2 3 4]) = [1, 2]"
    by (simp add: getStrongConnectorValueReferences_def slave_connectors_def new_Connector_def connector_value_refs_def
        getPositionValueRefs_def getQuaternionValueRefs_def getShaftAngleValueRefs_def getVelocityValueRefs_def
        getAngularVelocityValueRefs_def shaft_connector_def new_refs_def all_refs_def used_refs_def)
  have s: "\<forall>c < length [new_Connector 0]. refs_shape ([shaft_connector 1 2 3 4] ! c)"
    by (simp add: refs_shape_def shaft_connector_def new_refs_def)
  obtain cs' where cs': "setConnectorValues 0 [1, 2] (map (\<lambda>v. 10 * of_int v) [1, 2]) ([new_Connector 0], [shaft_connector 1 2 3 4])
      = Inr (cs', [shaft_connector 1 2 3 4])"
    "holds_values (\<lambda>v. 10 * of_int v) (shaft_connector 1 2 3 4) (new_Connector 0) (cs' ! 0)"
    using connector_values_roundtrip[OF r[symmetric] _ s, of "\<lambda>v. 10 * of_int v"] by (auto simp: new_Connector_def)
  then show ?thesis
    by (simp add: holds_values_def shaft_connector_def new_refs_def new_Connector_def vzero_def)
qed

subsection \<open>The setup gives a well-formed solver\<close>

text \<open>The references a connector of the setup can have: those of a ball or lock joint or those of a shaft.
  None of them are references for the linear velocity.\<close>

definition setup_refs :: "refs \<Rightarrow> bool" where
  "setup_refs r \<longleftrightarrow> refs_shape r \<and> vref_velocity r = None"

definition store_ok :: "nat \<Rightarrow> connectors \<Rightarrow> bool" where
  "store_ok n = (\<lambda>(cs, rs). length rs = length cs \<and> (\<forall>c < length cs. m_slave (cs ! c) < n \<and> setup_refs (rs ! c)))"

lemma findOrCreate_ok:
  assumes "store_ok n st" and "i < n" and "setup_refs r" and "findOrCreate matches r i st = (c, st')"
  shows "store_ok n st' \<and> length (fst st) \<le> length (fst st') \<and> c < length (fst st') \<and> m_slave (fst st' ! c) = i"
proof (cases "find (\<lambda>c. matches (snd st ! c)) (slave_connectors (fst st) i)")
  case None
  then show ?thesis
    using assms by (auto simp: findOrCreate_def createConnector_def store_ok_def new_Connector_def nth_append split_beta less_Suc_eq)
next
  case (Some d)
  then have "d \<in> set (slave_connectors (fst st) i)" by (metis find_Some_iff nth_mem)
  then have "d < length (fst st)" "m_slave (fst st ! d) = i" by simp_all
  then show ?thesis using assms Some by (auto simp: findOrCreate_def split_beta)
qed

lemma sc_fmu_ok: "sc_fmu clients it i = Inr fmu \<Longrightarrow> fmu < length clients \<and> int fmu = sc_fmus it ! i"
  by (auto simp: sc_fmu_def split: if_splits)

lemma ball_lock_refs: "length vrs = 19 \<Longrightarrow> setup_refs (ball_lock_connector (ball_lock_of vrs))"
  by (simp add: setup_refs_def refs_shape_def ball_lock_connector_def ball_lock_of_def new_refs_def)

lemma shaft_refs: "setup_refs (shaft_connector a b c d)"
  by (simp add: setup_refs_def refs_shape_def shaft_connector_def new_refs_def)

lemma ball_lock_of_connection_ok:
  assumes "store_ok (length clients) st" and "length (sc_vrORname it) = 38" and "i < 2"
    and "ball_lock_of_connection clients it i st = Inr (c, st')"
  shows "store_ok (length clients) st' \<and> length (fst st) \<le> length (fst st') \<and> c < length (fst st')
     \<and> int (m_slave (fst st' ! c)) = sc_fmus it ! i"
proof -
  obtain fmu vrs where 1: "sc_fmu clients it i = Inr fmu" "findOrCreateBallLockConnector fmu vrs st = (c, st')"
    "rmap (vrFromKeyName (clients ! fmu)) (take 19 (drop (i * 19) (sc_vrORname it))) = Inr vrs"
    using assms(4) by (auto simp: ball_lock_of_connection_def toVRs_def)
  have "length vrs = 19" using rmap_length[OF 1(3)] assms(2,3) by auto
  from findOrCreate_ok[OF assms(1) _ ball_lock_refs[OF this] 1(2)[unfolded findOrCreateBallLockConnector_def]] sc_fmu_ok[OF 1(1)]
  show ?thesis by auto
qed

lemma shaft_of_connection_ok:
  assumes "store_ok (length clients) st" and "shaft_of_connection clients it k i st = Inr (c, st')"
  shows "store_ok (length clients) st' \<and> length (fst st) \<le> length (fst st') \<and> c < length (fst st')
     \<and> int (m_slave (fst st' ! c)) = sc_fmus it ! i"
proof -
  obtain fmu vrs where 1: "sc_fmu clients it i = Inr fmu" "findOrCreateShaftConnector fmu vrs st = (c, st')"
    using assms(2) by (auto simp: shaft_of_connection_def toVRs_def)
  from findOrCreate_ok[OF assms(1) _ shaft_refs 1(2)[unfolded findOrCreateShaftConnector_def]] sc_fmu_ok[OF 1(1)]
  show ?thesis by auto
qed

text \<open>A constraint of the setup: as many equations as its kind has, each on the connectors of the constraint.\<close>

definition setup_constraint_ok :: "nat \<Rightarrow> Constraint \<Rightarrow> bool" where
  "setup_constraint_ok k con \<longleftrightarrow> constraint_shape con \<and> set (con_connectors con) \<subseteq> {..<k}
     \<and> (\<forall>eq\<in>set (con_equations con). wf_equation eq \<and> eq_connectors eq = con_connectors con)"

lemma new_constraints_ok:
  assumes "a < k" "b < k"
  shows "setup_constraint_ok k (new_BallJoint a b u v)" "setup_constraint_ok k (new_Lock a b u v)" "setup_constraint_ok k (new_Shaft a b)"
  using assms by (auto simp: setup_constraint_ok_def new_BallJoint_def new_Lock_def new_Shaft_def constraint_shape_def wf_equation_def setG_def)

lemma setG_at_wiring: "setG_at i s r eq = Inr eq' \<Longrightarrow> eq_connectors eq' = eq_connectors eq \<and> length (m_Gs eq') = length (m_Gs eq)"
  by (auto simp: setG_at_def split: if_splits)

lemma new_MultiWay_ok:
  assumes "new_MultiWay scs ws = Inr con" and "set scs \<subseteq> {..<k}"
  shows "setup_constraint_ok k con" "con_connectors con = scs"
proof -
  obtain eq where 1: "length scs \<ge> 2" "rfold (\<lambda>(i, w). setG_at i vzero (Vec3 w 0 0)) (enumerate 0 ws) (new_Equation scs) = Inr eq"
    "con = \<lparr>con_kind = MultiWay ws, con_connectors = scs, con_equations = [eq\<lparr>m_isSpatial := False\<rparr>]\<rparr>"
    using assms(1) by (auto simp: new_MultiWay_def new_Equation_vec_def split: if_splits)
  have "eq_connectors eq = scs \<and> length (m_Gs eq) = length scs"
    by (rule rfold_inv[OF 1(2)]) (auto simp: new_Equation_def dest: setG_at_wiring)
  then show "setup_constraint_ok k con" "con_connectors con = scs"
    using 1(1,3) assms(2) by (auto simp: setup_constraint_ok_def constraint_shape_def wf_equation_def)
qed

lemma multiway_steps_ok:
  assumes "rfold (multiway_step clients it) is (scs, ws, st) = Inr (scs', ws', st')"
    and "store_ok (length clients) st" and "set scs \<subseteq> {..<length (fst st)}"
  shows "store_ok (length clients) st' \<and> length (fst st) \<le> length (fst st') \<and> set scs' \<subseteq> {..<length (fst st')}"
  using assms
proof (induction "is" arbitrary: scs ws st)
  case (Cons i "is")
  then obtain c st1 where 1: "shaft_of_connection clients it 5 i st = Inr (c, st1)"
    "rfold (multiway_step clients it) is (scs @ [c], ws @ [atof (sc_vrORname it ! (i * 5 + 4))], st1) = Inr (scs', ws', st')"
    by (auto simp: multiway_step_def[of clients it i])
  note ok = shaft_of_connection_ok[OF Cons.prems(2) 1(1)]
  have "set (scs @ [c]) \<subseteq> {..<length (fst st1)}" using ok Cons.prems(3) by fastforce
  from Cons.IH[OF 1(2) _ this] ok show ?case by auto
qed simp

lemma setup_constraint_step:
  assumes "store_ok (length clients) st" and "setup_constraint clients it st = Inr (con, st')"
  shows "store_ok (length clients) st' \<and> length (fst st) \<le> length (fst st') \<and> setup_constraint_ok (length (fst st')) con"
proof -
  consider (bl) "sc_type it = ''ball'' \<or> sc_type it = ''lock''" | (shaft) "sc_type it = ''shaft''"
    | (multi) "sc_type it = ''multiway''"
    using assms(2) by (auto simp: setup_constraint_def split: if_splits)
  then show ?thesis
  proof cases
    case bl
    obtain a b st1 where 1: "length (sc_vrORname it) = 38" "ball_lock_of_connection clients it 0 st = Inr (a, st1)"
      "ball_lock_of_connection clients it 1 st1 = Inr (b, st')"
      "con = (if sc_type it = ''ball'' then new_BallJoint a b vzero vzero else new_Lock a b vzero vzero)"
      using assms(2) bl by (auto simp: setup_constraint_def split: if_splits)
    note a = ball_lock_of_connection_ok[OF assms(1) 1(1) _ 1(2), simplified]
    note b = ball_lock_of_connection_ok[OF _ 1(1) _ 1(3), simplified]
    show ?thesis using a b 1(4) new_constraints_ok[of a "length (fst st')" b] by auto
  next
    case shaft
    obtain a b st1 where 1: "shaft_of_connection clients it 4 0 st = Inr (a, st1)"
      "shaft_of_connection clients it 4 1 st1 = Inr (b, st')" "con = new_Shaft a b"
      using assms(2) shaft by (auto simp: setup_constraint_def split: if_splits)
    note a = shaft_of_connection_ok[OF assms(1) 1(1)] and b = shaft_of_connection_ok[OF _ 1(2)]
    show ?thesis using a b 1(3) new_constraints_ok(3)[of a "length (fst st')" b] by auto
  next
    case multi
    obtain scs ws where 1: "rfold (multiway_step clients it) [0..<length (sc_fmus it)] ([], [], st) = Inr (scs, ws, st')"
      "new_MultiWay scs ws = Inr con"
      using assms(2) multi by (auto simp: setup_constraint_def split: if_splits)
    show ?thesis using multiway_steps_ok[OF 1(1) assms(1)] new_MultiWay_ok(1)[OF 1(2)] by auto
  qed
qed

lemma setup_constraint_ok_mono: "setup_constraint_ok k con \<Longrightarrow> k \<le> k' \<Longrightarrow> setup_constraint_ok k' con"
  by (auto simp: setup_constraint_ok_def)

definition setup_inv :: "nat \<Rightarrow> Solver \<times> connectors \<Rightarrow> bool" where
  "setup_inv n = (\<lambda>(s, st). store_ok n st \<and> equations_dirty s \<and> m_connectors s = [] \<and> m_connectorIndexCounter s = 0
     \<and> (\<forall>con\<in>set (m_constraints s). setup_constraint_ok (length (fst st)) con))"

lemma setup_constraints_inv:
  assumes "rfold (\<lambda>it (s, st). rbind (setup_constraint clients it st) (\<lambda>(con, st). Inr (addConstraint con s, st))) scs (s, st) = Inr (s', st')"
    and "setup_inv (length clients) (s, st)"
  shows "setup_inv (length clients) (s', st')" "length (m_constraints s') = length (m_constraints s) + length scs"
proof -
  have "setup_inv (length clients) (s', st') \<and> length (m_constraints s') = length (m_constraints s) + length scs"
    using assms
  proof (induction scs arbitrary: s st)
    case (Cons it scs)
    then obtain con st1 where 1: "setup_constraint clients it st = Inr (con, st1)"
      "rfold (\<lambda>it (s, st). rbind (setup_constraint clients it st) (\<lambda>(con, st). Inr (addConstraint con s, st))) scs (addConstraint con s, st1) = Inr (s', st')"
      by auto
    have st: "store_ok (length clients) st" using Cons.prems(2) by (simp add: setup_inv_def)
    have "setup_inv (length clients) (addConstraint con s, st1)"
      using setup_constraint_step[OF st 1(1)] Cons.prems(2) setup_constraint_ok_mono by (auto simp: setup_inv_def addConstraint_def)
    from Cons.IH[OF 1(2) this] show ?case by (simp add: addConstraint_def)
  qed simp
  then show "setup_inv (length clients) (s', st')" "length (m_constraints s') = length (m_constraints s) + length scs" by auto
qed

subsection \<open>Numbering of the connectors\<close>

lemma fold_addSlave_connector:
  assumes "distinct idxs" and "set idxs \<subseteq> {..<length cs}" and "fold addSlave_connector idxs (cs, s) = (cs', s')"
  shows "length cs' = length cs \<and> (\<forall>c. m_slave (cs' ! c) = m_slave (cs ! c))
     \<and> (\<forall>k < length idxs. m_index (cs' ! (idxs ! k)) = m_connectorIndexCounter s + k)
     \<and> (\<forall>c. c \<notin> set idxs \<longrightarrow> cs' ! c = cs ! c)
     \<and> s' = s\<lparr>m_connectorIndexCounter := m_connectorIndexCounter s + length idxs, m_connectors := m_connectors s @ idxs\<rparr>"
  using assms
proof (induction idxs arbitrary: cs s)
  case (Cons c idxs)
  let ?cs = "cs[c := (cs ! c)\<lparr>m_index := m_connectorIndexCounter s\<rparr>]"
  let ?s = "s\<lparr>m_connectorIndexCounter := m_connectorIndexCounter s + 1, m_connectors := m_connectors s @ [c]\<rparr>"
  have "fold addSlave_connector idxs (?cs, ?s) = (cs', s')" using Cons.prems(3) by (simp add: addSlave_connector_def[of c])
  from Cons.IH[OF _ _ this] Cons.prems(1,2) have IH: "length cs' = length cs" "\<And>d. m_slave (cs' ! d) = m_slave (?cs ! d)"
    "\<And>k. k < length idxs \<Longrightarrow> m_index (cs' ! (idxs ! k)) = m_connectorIndexCounter s + 1 + k"
    "\<And>d. d \<notin> set idxs \<Longrightarrow> cs' ! d = ?cs ! d"
    "s' = ?s\<lparr>m_connectorIndexCounter := m_connectorIndexCounter ?s + length idxs, m_connectors := m_connectors ?s @ idxs\<rparr>"
    by auto
  have slave: "m_slave (?cs ! d) = m_slave (cs ! d)" for d by (cases "c < length cs"; cases "d = c") (auto simp: list_update_beyond)
  have "m_index (cs' ! ((c # idxs) ! k)) = m_connectorIndexCounter s + k" if "k < length (c # idxs)" for k
    using that IH(3,4) Cons.prems(1,2) by (cases k) auto
  then show ?case using IH slave by auto
qed simp

lemma slave_connectors_cong: "length cs' = length cs \<Longrightarrow> \<forall>c. m_slave (cs' ! c) = m_slave (cs ! c) \<Longrightarrow> slave_connectors cs' i = slave_connectors cs i"
  by (simp add: slave_connectors_def)

lemma fold_addSlave:
  "equations_dirty s \<Longrightarrow> fold addSlave is (cs, s) = fold addSlave_connector (concat (map (slave_connectors cs) is)) (cs, s)"
proof (induction "is" arbitrary: cs s)
  case (Cons i "is")
  obtain cs1 s1 where 1: "fold addSlave_connector (slave_connectors cs i) (cs, s) = (cs1, s1)" by fastforce
  have "set (slave_connectors cs i) \<subseteq> {..<length cs}" by auto
  note f = fold_addSlave_connector[OF slave_connectors_simps(1) this 1]
  have "s\<lparr>equations_dirty := True\<rparr> = s" using Cons.prems by simp
  then have "addSlave i (cs, s) = (cs1, s1)" using 1 by (simp add: addSlave_def)
  moreover have "slave_connectors cs1 j = slave_connectors cs j" for j using f by (intro slave_connectors_cong) auto
  moreover have "equations_dirty s1" using f Cons.prems by auto
  ultimately show ?case using Cons.IH[of s1 cs1] 1 by (simp cong: map_cong)
qed simp

text \<open>Every connector of the store belongs to exactly one client, so each is numbered once.\<close>

lemma all_connectors:
  assumes "\<forall>c < length cs. m_slave (cs ! c) < n"
  shows "distinct (concat (map (slave_connectors cs) [0..<n]))" "set (concat (map (slave_connectors cs) [0..<n])) = {..<length cs}"
  using assms by (auto intro!: distinct_concat_map)

lemma addSlaves_numbering:
  assumes d: "equations_dirty s" and n: "\<forall>c < length cs. m_slave (cs ! c) < n" and f: "fold addSlave [0..<n] (cs, s) = (cs', s')"
  shows "length cs' = length cs" "\<forall>c. m_slave (cs' ! c) = m_slave (cs ! c)" "inj_on (\<lambda>c. m_index (cs' ! c)) {..<length cs}"
    "s' = s\<lparr>m_connectorIndexCounter := m_connectorIndexCounter s + length cs,
       m_connectors := m_connectors s @ concat (map (slave_connectors cs) [0..<n])\<rparr>"
proof -
  let ?l = "concat (map (slave_connectors cs) [0..<n])"
  note all = all_connectors[OF n]
  have sub: "set ?l \<subseteq> {..<length cs}" using all(2) by simp
  have len: "length ?l = length cs" using distinct_card[OF all(1)] all(2) by simp
  note r = fold_addSlave_connector[OF all(1) sub f[unfolded fold_addSlave[OF d]]]
  then show "length cs' = length cs" "\<forall>c. m_slave (cs' ! c) = m_slave (cs ! c)"
    "s' = s\<lparr>m_connectorIndexCounter := m_connectorIndexCounter s + length cs, m_connectors := m_connectors s @ ?l\<rparr>"
    using len by auto
  have at: "\<exists>k < length ?l. ?l ! k = c" if "c < length cs" for c
    using that all(2) in_set_conv_nth[of c ?l] by auto
  show "inj_on (\<lambda>c. m_index (cs' ! c)) {..<length cs}"
  proof (rule inj_onI)
    fix c d assume cd: "c \<in> {..<length cs}" "d \<in> {..<length cs}" "m_index (cs' ! c) = m_index (cs' ! d)"
    then obtain j k where "j < length ?l" "?l ! j = c" "k < length ?l" "?l ! k = d" using at by (meson lessThan_iff)
    then show "c = d" using r cd(3) by auto
  qed
qed

lemma setup_result:
  assumes "setupConstraintsAndSolver clients scs ([], []) = Inr (Some s, cs, rs)"
  obtains s1 cs1 where "setup_inv (length clients) (s1, cs1, rs)" "length (m_constraints s1) = length scs"
    "fold addSlave [0..<length clients] (cs1, s1) = (cs, s)"
proof -
  obtain s1 cs1 where 1: "rfold (\<lambda>it (s, st). rbind (setup_constraint clients it st) (\<lambda>(con, st). Inr (addConstraint con s, st))) scs (new_Solver, [], [])
      = Inr (s1, cs1, rs)" "fold addSlave [0..<length clients] (cs1, s1) = (cs, s)"
    using assms by (auto simp: setupConstraintsAndSolver_def split: if_splits prod.splits)
  have "setup_inv (length clients) (new_Solver, [], [])" by (simp add: setup_inv_def new_Solver_def store_ok_def)
  from that[OF setup_constraints_inv(1)[OF 1(1) this] _ 1(2)] setup_constraints_inv(2)[OF 1(1) this] show ?thesis
    by (simp add: new_Solver_def)
qed

text \<open>C35: \<^verbatim>\<open>setupConstraintsAndSolver\<close> gives the solver what it needs: one constraint for each strong connection, each with the number of
  equations of its kind, all of them well formed and on existing connectors of existing FMUs; the equations are marked
  to be numbered; and each connector is added to the solver once and has an index of its own, so that the mobilities of different
  connectors are kept apart.\<close>

theorem setup_wellformed:
  assumes "setupConstraintsAndSolver clients scs ([], []) = Inr (Some s, cs, rs)"
  shows "length (m_constraints s) = length scs \<and> equations_dirty s \<and> wf_constraints (m_constraints s)
     \<and> (\<forall>con\<in>set (m_constraints s). constraint_shape con
          \<and> (\<forall>eq\<in>set (con_equations con). \<forall>c\<in>set (eq_connectors eq). c < length cs \<and> m_slave (cs ! c) < length clients))
     \<and> distinct (m_connectors s) \<and> set (m_connectors s) = {..<length cs} \<and> inj_on (\<lambda>c. m_index (cs ! c)) {..<length cs}"
proof -
  obtain s1 cs1 where 1: "setup_inv (length clients) (s1, cs1, rs)" "length (m_constraints s1) = length scs"
    "fold addSlave [0..<length clients] (cs1, s1) = (cs, s)" using setup_result[OF assms] .
  then have inv: "equations_dirty s1" "\<forall>c < length cs1. m_slave (cs1 ! c) < length clients" "m_connectors s1 = []"
    "\<forall>con\<in>set (m_constraints s1). setup_constraint_ok (length cs1) con"
    by (auto simp: setup_inv_def store_ok_def)
  note num = addSlaves_numbering[OF inv(1,2) 1(3)] and all = all_connectors[OF inv(2)]
  have s: "m_constraints s = m_constraints s1" "equations_dirty s" "m_connectors s = concat (map (slave_connectors cs1) [0..<length clients])"
    using num(4) inv(1,3) by simp_all
  have "c < length cs \<and> m_slave (cs ! c) < length clients"
    if "con \<in> set (m_constraints s)" "eq \<in> set (con_equations con)" "c \<in> set (eq_connectors eq)" for con eq c
    using that inv(2,4) num(1,2) s(1) by (auto simp: setup_constraint_ok_def subset_iff)
  moreover have "distinct (m_connectors s)" "set (m_connectors s) = {..<length cs}" unfolding s(3) num(1) by (rule all)+
  ultimately show ?thesis using inv(4) s(1,2) num(1,3) 1(2) by (simp add: wf_constraints_def setup_constraint_ok_def)
qed

text \<open>No connector the setup creates has references for the linear velocity, so the velocities that are fetched, and the future
  velocities that come back from the trial steps, never change the linear velocities of any connector. They keep the value zero
  they are created with, and ball and lock joints enter the solver as if their FMUs did not move.\<close>

theorem setup_no_linear_velocity:
  assumes "setupConstraintsAndSolver clients scs ([], []) = Inr (Some s, cs, rs)" and "length vrs = length vals"
  shows "\<exists>cs1 cs2. setConnectorValues i vrs vals (cs, rs) = Inr (cs1, rs) \<and> setConnectorFutureVelocities i vrs vals (cs, rs) = Inr (cs2, rs)
     \<and> (\<forall>c < length cs. m_velocity (cs1 ! c) = m_velocity (cs ! c) \<and> m_futureVelocity (cs2 ! c) = m_futureVelocity (cs ! c))"
proof -
  obtain s1 cs0 where 1: "setup_inv (length clients) (s1, cs0, rs)" "fold addSlave [0..<length clients] (cs0, s1) = (cs, s)"
    using setup_result[OF assms(1)] by blast
  have slaves: "\<forall>c < length cs0. m_slave (cs0 ! c) < length clients" "equations_dirty s1"
    using 1(1) by (auto simp: setup_inv_def store_ok_def)
  have "length cs = length cs0" using addSlaves_numbering(1)[OF slaves(2,1) 1(2)] .
  then have none: "vref_velocity (rs ! c) = None" if "c < length cs" for c
    using 1(1) that by (auto simp: setup_inv_def store_ok_def setup_refs_def)
  have "fold (\<lambda>(vr, val). put3 None vr val) ps v = v" for ps v by (induction ps) (auto simp: put3_def)
  with setConnectorValues_eq[OF assms(2), of i cs rs] setConnectorFutureVelocities_eq[OF assms(2), of i cs rs] none
  show ?thesis by (fastforce simp: fold_setValue fold_setFutureValue)
qed

text \<open>Two shafts of two FMUs, with numeric value references.\<close>

definition shaft_connection :: strongconnection where
  "shaft_connection = \<lparr>sc_type = ''shaft'', sc_fmus = [0, 1], sc_vrORname = [''0'', ''1'', ''2'', ''3'', ''0'', ''1'', ''2'', ''4'']\<rparr>"

definition shaft_store :: connectors where
  "shaft_store = ([new_Connector 0, (new_Connector 1)\<lparr>m_index := 1\<rparr>], [shaft_connector 0 1 2 3, shaft_connector 0 1 2 4])"

lemma numeric_refs:
  "vrFromKeyName c ''0'' = Inr 0" "vrFromKeyName c ''1'' = Inr 1" "vrFromKeyName c ''2'' = Inr 2" "vrFromKeyName c ''3'' = Inr 3" "vrFromKeyName c ''4'' = Inr 4"
  by (simp_all add: vrFromKeyName_def isVR_def isdigit_def atoi_def strtol_def isspace_def digits_value_def digit_value_def to_int32_def Let_def)

lemma first_shaft: "shaft_of_connection [new_client 0, new_client 1] shaft_connection 4 0 ([], [])
    = Inr (0, [new_Connector 0], [shaft_connector 0 1 2 3])"
  by (simp add: shaft_of_connection_def shaft_connection_def toVRs_def sc_fmu_def numeric_refs findOrCreateShaftConnector_def findOrCreate_def
      slave_connectors_def createConnector_def)

lemma second_shaft: "shaft_of_connection [new_client 0, new_client 1] shaft_connection 4 1 ([new_Connector 0], [shaft_connector 0 1 2 3])
    = Inr (1, [new_Connector 0, new_Connector 1], [shaft_connector 0 1 2 3, shaft_connector 0 1 2 4])"
  by (simp add: shaft_of_connection_def shaft_connection_def toVRs_def sc_fmu_def numeric_refs findOrCreateShaftConnector_def findOrCreate_def
      slave_connectors_def createConnector_def new_Connector_def)

lemma shaft_constraint: "setup_constraint [new_client 0, new_client 1] shaft_connection ([], [])
    = Inr (new_Shaft 0 1, [new_Connector 0, new_Connector 1], [shaft_connector 0 1 2 3, shaft_connector 0 1 2 4])"
proof -
  have "sc_type shaft_connection = ''shaft''" "length (sc_vrORname shaft_connection) = 8" by (simp_all add: shaft_connection_def)
  then show ?thesis by (simp add: setup_constraint_def first_shaft second_shaft[simplified])
qed

lemma shaft_setup:
  "setupConstraintsAndSolver [new_client 0, new_client 1] [shaft_connection] ([], [])
     = Inr (Some (new_Solver\<lparr>m_constraints := [new_Shaft 0 1], m_connectorIndexCounter := 2, m_connectors := [0, 1]\<rparr>), shaft_store)"
  by (simp add: setupConstraintsAndSolver_def shaft_constraint addConstraint_def new_Solver_def
      addSlave_def addSlave_connector_def shaft_store_def slave_connectors_def new_Connector_def numeral_2_eq_2)

theorem setup_wellformed_witness:
  "wf_constraints [new_Shaft 0 1] \<and> constraint_shape (new_Shaft 0 1) \<and> inj_on (\<lambda>c. m_index (fst shaft_store ! c)) {..<2}"
  using setup_wellformed[of "[new_client 0, new_client 1]" "[shaft_connection]" _ "fst shaft_store" "snd shaft_store"] shaft_setup
  by (simp add: shaft_store_def new_Solver_def numeral_2_eq_2)

theorem setup_no_linear_velocity_witness:
  "\<exists>cs1. setConnectorValues 1 [0, 1] [5, 6] shaft_store = Inr (cs1, snd shaft_store) \<and> m_velocity (cs1 ! 1) = vzero"
  using setup_no_linear_velocity[of "[new_client 0, new_client 1]" "[shaft_connection]" _ "fst shaft_store" "snd shaft_store" "[0, 1]" "[5, 6]" 1] shaft_setup
  by (auto simp: shaft_store_def new_Connector_def)

end
