(* ===== verification/Strong_Master.thy ===== *)
theory Strong_Master
  imports Base_Master Scheduler Strong_Connector
begin

text \<open>
  \<^verbatim>\<open>StrongMaster\<close> (src/master/StrongMaster.cpp): the state it adds to the base master, its constructor and
  \<^verbatim>\<open>prepare\<close>, what it does with one batch of FMUs (\<^verbatim>\<open>crankIt\<close>, the body of the loop), the step of the kinematic
  FMUs, and an iteration, which is the scheduler of the theory of that name run on these two. Proved here: an
  iteration steps every FMU exactly once, in the order of the rends; the inputs it sends are those of the weak connections, whether they
  go through the fast path for plain connections of reals or not. The capability flags of an FMU, which the FMI
  Library reads, are a field; \<^verbatim>\<open>id\<close>s are positions in the list of clients.
\<close>

subsection \<open>State\<close>

record 'w smaster =
  base :: "'w master"
  m_strongCouplingSolver :: "Solver option"
  connector_store :: connectors
  holonomic :: bool
  rends :: "Rend list"
  clientrend :: "nat list"
  kins :: int_set
  clientGetXs :: "int \<Rightarrow> OutputRefsType"
  m_simpleConnections :: "nat \<rightharpoonup> (int \<times> nat) list"   \<comment> \<open>\<^verbatim>\<open>fromOutputVR\<close> and the client of \<^verbatim>\<open>fromRealsPtr\<close>\<close>
  m_simpleInputsVRs :: "nat \<rightharpoonup> int list"
  m_complexConnections :: "WeakConnection list"
  m_refValues :: InputRefsValuesType
  forces :: "double list"
  canGetAndSetFMUstate :: "nat \<Rightarrow> bool"

abbreviation clients_of :: "'w smaster \<Rightarrow> client list" where
  "clients_of m \<equiv> m_clients (base m)"

definition on_base :: "('w master \<Rightarrow> 'w master) \<Rightarrow> 'w smaster \<Rightarrow> 'w smaster" where
  "on_base f m = m\<lparr>base := f (base m)\<rparr>"

definition on_base_res :: "('w master \<Rightarrow> 'w master res) \<Rightarrow> 'w smaster \<Rightarrow> 'w smaster res" where
  "on_base_res f m = rbind (f (base m)) (\<lambda>b. Inr (m\<lparr>base := b\<rparr>))"

subsection \<open>Construction\<close>

definition is_simple :: "WeakConnection \<Rightarrow> bool" where
  "is_simple wc \<longleftrightarrow> fromType wc = fmi2_base_type_real \<and> toType wc = fmi2_base_type_real \<and> slope wc = 1 \<and> intercept wc = 0"

definition push_back :: "'k \<Rightarrow> 'a \<Rightarrow> ('k \<rightharpoonup> 'a list) \<Rightarrow> ('k \<rightharpoonup> 'a list)" where
  "push_back k x m = m(k \<mapsto> (case m k of None \<Rightarrow> [] | Some xs \<Rightarrow> xs) @ [x])"

definition add_connection :: "WeakConnection \<Rightarrow> 'w smaster \<Rightarrow> 'w smaster" where
  "add_connection wc m =
     (let to_id = m_id (clients_of m ! toFMU wc);
          m = m\<lparr>clientGetXs := (clientGetXs m)(to_id := push_output_ref wc (clientGetXs m to_id))\<rparr>
      in if is_simple wc
         then m\<lparr>m_simpleConnections := push_back (toFMU wc) (fromOutputVR wc, fromFMU wc) (m_simpleConnections m),
                m_simpleInputsVRs := push_back (toFMU wc) (toInputVR wc) (m_simpleInputsVRs m)\<rparr>
         else m\<lparr>m_complexConnections := m_complexConnections m @ [wc]\<rparr>)"

definition new_StrongMaster ::
  "'w master \<Rightarrow> Solver option \<Rightarrow> connectors \<Rightarrow> bool \<Rightarrow> Rend list \<Rightarrow> (nat \<Rightarrow> bool) \<Rightarrow> 'w smaster res" where
  "new_StrongMaster b solver st hol rs cap =
     rbind (checkRends (length (m_clients b)) rs) (\<lambda>cr.
       Inr (fold add_connection (m_weakConnections b)
         \<lparr>base = b, m_strongCouplingSolver = solver, connector_store = st, holonomic = hol, rends = rs, clientrend = cr, kins = [],
          clientGetXs = (\<lambda>_. Map.empty), m_simpleConnections = Map.empty, m_simpleInputsVRs = Map.empty, m_complexConnections = [],
          m_refValues = Map.empty, forces = [], canGetAndSetFMUstate = cap\<rparr>))"

definition getNumForces :: "'w smaster \<Rightarrow> nat" where
  "getNumForces m = (let (cs, rs) = connector_store m in
     sum_list (map (\<lambda>i. sum_list (map (\<lambda>c. let r = rs ! c in
         (if vref_force r \<noteq> None then length (getAccelerationValueRefs r) else 0)
       + (if vref_torque r \<noteq> None then length (getAngularAccelerationValueRefs r) else 0)) (slave_connectors cs i)))
       [0..<length (clients_of m)]))"

definition prepare_connector :: "nat \<Rightarrow> 'w smaster \<Rightarrow> 'w smaster res" where
  "prepare_connector fc m = (let i = m_slave (fst (connector_store m) ! fc); m = m\<lparr>kins := is_insert (m_id (clients_of m ! i)) (kins m)\<rparr> in
     if canGetAndSetFMUstate m i then Inr m else Inl (Fatal ''FMU is part of a kinematic constraint but lacks rollback functionality''))"

definition strong_prepare :: "'w smaster \<Rightarrow> 'w smaster res" where
  "strong_prepare m =
     rbind (case m_strongCouplingSolver m of
         None \<Rightarrow> Inr m
       | Some s \<Rightarrow> let s = solver_prepare (fst (connector_store m)) s; m = m\<lparr>m_strongCouplingSolver := Some s\<rparr>
           in rfold (\<lambda>ref. rfold prepare_connector (eq_connectors (get_eq s ref))) (eqs s) m)
       (\<lambda>m. Inr (m\<lparr>forces := replicate (getNumForces m) 0\<rparr>))"

subsection \<open>Inputs\<close>

text \<open>\<^verbatim>\<open>std::vector::resize\<close> and \<^verbatim>\<open>std::unordered_map::operator[]\<close>, which inserts a zero for a missing key.\<close>

definition resize :: "nat \<Rightarrow> 'a::zero list \<Rightarrow> 'a list" where
  "resize n xs = take n xs @ replicate (n - length xs) 0"

definition real_at :: "int \<times> nat \<Rightarrow> client list \<Rightarrow> double \<times> client list" where
  "real_at = (\<lambda>(vr, i) cs. case m_reals (cs ! i) vr of
       Some x \<Rightarrow> (x, cs)
     | None \<Rightarrow> (0, cs[i := (cs ! i)\<lparr>m_reals := (m_reals (cs ! i))(vr \<mapsto> 0)\<rparr>]))"

fun reals_at :: "(int \<times> nat) list \<Rightarrow> client list \<Rightarrow> double list \<times> client list" where
  "reals_at [] cs = ([], cs)"
| "reals_at (s # ss) cs = (let (x, cs) = real_at s cs; (xs, cs) = reals_at ss cs in (x # xs, cs))"

definition clear_values :: "bool \<Rightarrow> SendSetXType \<Rightarrow> SendSetXType" where
  "clear_values in_cset t =
     (let t = (if in_cset then t else t\<lparr>reals := [], real_vrs := []\<rparr>)
      in t\<lparr>ints := [], int_vrs := [], bools := [], bool_vrs := [], strings := [], string_vrs := []\<rparr>)"

definition init_simple :: "int_set \<Rightarrow> nat \<Rightarrow> 'w smaster \<Rightarrow> 'w smaster" where
  "init_simple cset i m =
     (case m_simpleConnections m i of
        None \<Rightarrow> m
      | Some ss \<Rightarrow>
          if is_count cset (m_id (clients_of m ! i)) = 0 then m
          else let t = lookup_input (m_refValues m) i;
                   vrs = (if real_vrs t = [] then (case m_simpleInputsVRs m i of None \<Rightarrow> [] | Some vrs \<Rightarrow> vrs)
                          else resize (length ss) (real_vrs t));
                   (xs, cs) = reals_at ss (clients_of m)
            in m\<lparr>base := (base m)\<lparr>m_clients := cs\<rparr>, m_refValues := (m_refValues m)(i \<mapsto> t\<lparr>real_vrs := vrs, reals := xs\<rparr>)\<rparr>)"

definition initRefValues :: "int_set \<Rightarrow> 'w smaster \<Rightarrow> 'w smaster" where
  "initRefValues cset m =
     fold (init_simple cset) [0..<length (clients_of m)]
       (m\<lparr>m_refValues := (\<lambda>i. map_option (clear_values (is_count cset (m_id (clients_of m ! i)) \<noteq> 0)) (m_refValues m i))\<rparr>)"

definition fill_inputs :: "int_set \<Rightarrow> 'w smaster \<Rightarrow> 'w smaster res" where
  "fill_inputs cset m = (let m = initRefValues cset m in
     rbind (getInputWeakRefsAndValues_into (clients_of m) (m_complexConnections m) cset (m_refValues m)) (\<lambda>rv.
       Inr (m\<lparr>m_refValues := rv\<rparr>)))"

subsection \<open>A batch\<close>

definition queue_inputs :: "config \<Rightarrow> int_set \<Rightarrow> 'w smaster \<Rightarrow> 'w smaster res" where
  "queue_inputs cfg S m = rfold (\<lambda>i m. on_base_res (queueX_refs cfg (clientGetXs m i)) m) S m"

definition send_and_step :: "double \<Rightarrow> double \<Rightarrow> int \<Rightarrow> 'w smaster \<Rightarrow> 'w smaster res" where
  "send_and_step t dt i m =
     rbind (on_base_res (master_sendSetX (nat i) (lookup_input (m_refValues m) (nat i))) m) (\<lambda>m.
       Inr (on_base (master_queueMessage (nat i) (fmi2_import_do_step t dt True)) m))"

text \<open>The body of the loop of \<^verbatim>\<open>crankIt\<close>, lines 201 to 223.\<close>

definition crank_batch :: "'w net \<Rightarrow> config \<Rightarrow> double \<Rightarrow> double \<Rightarrow> int_set \<Rightarrow> 'w smaster \<Rightarrow> 'w smaster res" where
  "crank_batch net cfg t dt S m =
     rbind (queue_inputs cfg S m) (\<lambda>m.
     rbind (on_base_res (wait net cfg) (on_base queueValueRequests m)) (\<lambda>m.
     rbind (fill_inputs S m) (\<lambda>m.
     rbind (rfold (send_and_step t dt) S m) (\<lambda>m.
       Inr (on_base (deleteCachedValues cfg True S) m)))))"

subsection \<open>The kinematic FMUs\<close>

definition fill_kinematic_req :: "int list \<Rightarrow> 'a list \<Rightarrow> (int list \<times> 'a list) option" where
  "fill_kinematic_req vrs values = (if length values > 0 then Some (vrs, values) else None)"

definition weak_kinematic_req :: "SendSetXType \<Rightarrow> kinematic_req" where
  "weak_kinematic_req t = empty_kinematic_req
     \<lparr>kin_reals := fill_kinematic_req (real_vrs t) (reals t), kin_ints := fill_kinematic_req (int_vrs t) (ints t),
      kin_bools := fill_kinematic_req (bool_vrs t) (bools t), kin_strings := fill_kinematic_req (string_vrs t) (strings t)\<rparr>"

text \<open>The map \<^verbatim>\<open>id2kin\<close>: an identifier that is not in it gets the default 0 on access.\<close>

definition id2kin :: "int_set \<Rightarrow> int \<Rightarrow> nat" where
  "id2kin opn i = (if i \<in> set opn then length (takeWhile (\<lambda>x. x \<noteq> i) opn) else 0)"

definition strong_refs :: "'w smaster \<Rightarrow> nat \<Rightarrow> int list" where
  "strong_refs m i = getStrongConnectorValueReferences i (connector_store m)"

definition queue_strong :: "config \<Rightarrow> nat \<Rightarrow> 'w smaster \<Rightarrow> 'w smaster" where
  "queue_strong cfg i m = on_base (set_client i (queueReals (DEBUG cfg) (strong_refs m i) (clients_of m ! i))) m"

definition set_connector_values :: "int \<Rightarrow> 'w smaster \<Rightarrow> 'w smaster res" where
  "set_connector_values i m = (let vrs = strong_refs m (nat i) in
     rbind (getReals (clients_of m ! nat i) vrs) (\<lambda>vals.
     rbind (setConnectorValues (nat i) vrs vals (connector_store m)) (\<lambda>st. Inr (m\<lparr>connector_store := st\<rparr>))))"

definition update_solver :: "'w smaster \<Rightarrow> 'w smaster" where
  "update_solver m = m\<lparr>m_strongCouplingSolver := map_option (updateConstraints (fst (connector_store m))) (m_strongCouplingSolver m)\<rparr>"

definition future_request :: "double \<Rightarrow> double \<Rightarrow> 'w smaster \<Rightarrow> int \<Rightarrow> kinematic_req \<Rightarrow> kinematic_req" where
  "future_request t dt m i r =
     (if canGetAndSetFMUstate m (nat i)
      then r\<lparr>future_velocity_vrs := strong_refs m (nat i), kin_point := t, kin_stepsize := dt\<rparr> else r)"

definition kin_requests :: "double \<Rightarrow> double \<Rightarrow> int_set \<Rightarrow> 'w smaster \<Rightarrow> kinematic_req list" where
  "kin_requests t dt opn m =
     map (\<lambda>i. future_request t dt m i (weak_kinematic_req (lookup_input (m_refValues m) (nat i)))) opn"

definition getDirectionalDerivative :: "Vec3 \<Rightarrow> int list \<Rightarrow> int list \<Rightarrow> kinematic_req \<Rightarrow> kinematic_req res" where
  "getDirectionalDerivative seed accelerationRefs forceRefs r =
     (let n = length accelerationRefs in
      if length forceRefs < n \<or> 3 < n then Inl (UB ''forceRefs'')
      else Inr (r\<lparr>get_derivs := get_derivs r @
        [\<lparr>v_ref = take n forceRefs, z_ref = accelerationRefs, dv = take n [vx seed, vy seed, vz seed]\<rparr>]\<rparr>))"

definition on_nth :: "nat \<Rightarrow> ('a \<Rightarrow> 'a res) \<Rightarrow> 'a list \<Rightarrow> 'a list res" where
  "on_nth k f xs = (if length xs \<le> k then Inl (UB ''kin'') else rbind (f (xs ! k)) (\<lambda>x. Inr (xs[k := x])))"

text \<open>The requests for one pair of a force connector and an acceleration connector of the same FMU.\<close>

definition deriv_request ::
  "connectors \<Rightarrow> Equation \<Rightarrow> nat \<Rightarrow> nat \<Rightarrow> kinematic_req \<Rightarrow> kinematic_req res" where
  "deriv_request st eq fc ac r =
     (let F = snd st ! fc; A = snd st ! ac in
      if (vref_shaftAngle A \<noteq> None) \<noteq> (vref_shaftAngle F \<noteq> None)
      then Inl (Fatal ''Can't deal with different types of kinematic connections to the same FMU'')
      else rbind (jacobianElementForConnector eq fc) (\<lambda>G.
        rbind (if \<not> m_isSpatial eq then Inr r
               else if vref_acceleration A \<noteq> None \<and> vref_force F \<noteq> None
               then getDirectionalDerivative (m_spatial G) (getAccelerationValueRefs A) (getForceValueRefs F) r
               else Inl (Fatal ''Strong coupling requires acceleration outputs for now'')) (\<lambda>r.
         if \<not> m_isRotational eq then Inr r
         else if vref_angularAcceleration A \<noteq> None \<and> vref_torque F \<noteq> None
         then getDirectionalDerivative (m_rotational G) (getAngularAccelerationValueRefs A) (getTorqueValueRefs F) r
         else Inl (Fatal ''Strong coupling requires angular acceleration outputs for now''))))"

text \<open>The loops over the equations, the connectors of each and the connectors of the same FMU, in the order of the code.\<close>

definition equation_pairs :: "connectors \<Rightarrow> Solver \<Rightarrow> (Equation \<times> nat \<times> nat) list" where
  "equation_pairs st s = concat (map (\<lambda>ref. let eq = get_eq s ref in
     concat (map (\<lambda>fc. map (\<lambda>ac. (eq, fc, ac)) (slave_connectors (fst st) (m_slave (fst st ! fc)))) (eq_connectors eq))) (eqs s))"

definition add_deriv_requests :: "int_set \<Rightarrow> 'w smaster \<Rightarrow> Solver \<Rightarrow> kinematic_req list \<Rightarrow> kinematic_req list res" where
  "add_deriv_requests opn m s kin =
     rfold (\<lambda>(eq, fc, ac). on_nth (id2kin opn (m_id (clients_of m ! m_slave (fst (connector_store m) ! fc))))
       (deriv_request (connector_store m) eq fc ac)) (equation_pairs (connector_store m) s) kin"

definition kin_wanted :: "kinematic_req \<Rightarrow> bool" where
  "kin_wanted r \<longleftrightarrow> kin_reals r \<noteq> None \<or> kin_ints r \<noteq> None \<or> kin_bools r \<noteq> None \<or> kin_strings r \<noteq> None \<or> future_velocity_vrs r \<noteq> []"

definition send_kinematic :: "int_set \<Rightarrow> kinematic_req list \<Rightarrow> 'w smaster \<Rightarrow> 'w smaster" where
  "send_kinematic opn kin m =
     fold (\<lambda>(i, r) m. if kin_wanted r then on_base (master_queueMessage (nat i) (kinematic_request r)) m else m) (zip opn kin) m"

text \<open>The element of one derivative: one value for a single reference, three otherwise.\<close>

definition vec_of_dz :: "int list \<Rightarrow> double list \<Rightarrow> Vec3 res" where
  "vec_of_dz refs dz =
     (if length refs = 1 then (if dz = [] then Inl (UB ''dz'') else Inr (Vec3 (dz ! 0) 0 0))
      else if length dz < 3 then Inl (UB ''dz'') else Inr (Vec3 (dz ! 0) (dz ! 1) (dz ! 2)))"

definition next_deriv :: "bool \<Rightarrow> int list \<Rightarrow> (int \<times> double list) list \<Rightarrow> nat \<Rightarrow> (Vec3 \<times> nat) res" where
  "next_deriv wanted refs ds k =
     (if \<not> wanted then Inr (vzero, k)
      else if length ds \<le> k then Inl (UB ''derivs'')
      else rbind (vec_of_dz refs (snd (ds ! k))) (\<lambda>v. Inr (v, Suc k)))"

text \<open>Entry of the mobilities for one pair; \<open>ofs\<close> counts the derivatives used of each client (\<^verbatim>\<open>kin_ofs\<close>).\<close>

definition store_mobility ::
  "int_set \<Rightarrow> client list \<Rightarrow> connectors \<Rightarrow> Equation \<times> nat \<times> nat \<Rightarrow> (nat list \<times> (nat \<times> nat \<rightharpoonup> JacobianElement))
     \<Rightarrow> (nat list \<times> (nat \<times> nat \<rightharpoonup> JacobianElement)) res" where
  "store_mobility opn clients st = (\<lambda>(eq, fc, ac) (ofs, mob).
     let c = clients ! m_slave (fst st ! fc); A = snd st ! ac; k = id2kin opn (m_id c); ds = derivs (last_kinematic c) in
     if is_count opn (m_id c) = 0 then Inl (Fatal ''Kinematic FMU not in open set'')
     else rbind (next_deriv (m_isSpatial eq) (getAccelerationValueRefs A) ds (ofs ! k)) (\<lambda>(sp, n).
          rbind (next_deriv (m_isRotational eq) (getAngularAccelerationValueRefs A) ds n) (\<lambda>(rot, n).
          Inr (ofs[k := n], mob((m_index (fst st ! ac), eq_index eq) \<mapsto> \<lparr>m_spatial = sp, m_rotational = rot\<rparr>)))))"

text \<open>The program checks that the FMU is open once per connector of an equation, before the loop over the connectors of that FMU,
  which includes the connector itself.\<close>

definition store_mobilities :: "int_set \<Rightarrow> 'w smaster \<Rightarrow> 'w smaster res" where
  "store_mobilities opn m =
     (case m_strongCouplingSolver m of
        None \<Rightarrow> Inr m
      | Some s \<Rightarrow> rbind (rfold (store_mobility opn (clients_of m) (connector_store m)) (equation_pairs (connector_store m) s)
            (replicate (length opn) 0, m_mobilities s)) (\<lambda>(_, mob).
          Inr (m\<lparr>m_strongCouplingSolver := Some (s\<lparr>m_mobilities := mob\<rparr>)\<rparr>)))"

definition set_future :: "int \<times> kinematic_req \<Rightarrow> 'w smaster \<Rightarrow> 'w smaster res" where
  "set_future = (\<lambda>(i, r) m.
     let n = length (future_velocity_vrs r); vals = future_velocities (last_kinematic (clients_of m ! nat i)) in
     if n = 0 then Inr m
     else if length vals < n then Inl (UB ''future_velocities'')
     else rbind (setConnectorFutureVelocities (nat i) (strong_refs m (nat i)) (take n vals) (connector_store m)) (\<lambda>st.
       Inr (m\<lparr>connector_store := st\<rparr>)))"

definition solve_forces :: "umfpack \<Rightarrow> 'w smaster \<Rightarrow> 'w smaster res" where
  "solve_forces umf m =
     (case m_strongCouplingSolver m of
        None \<Rightarrow> Inr m
      | Some s \<Rightarrow> rbind (solve umf (holonomic m) (fst (connector_store m), s)) (\<lambda>(cs, s).
          Inr (m\<lparr>m_strongCouplingSolver := Some s, connector_store := (cs, snd (connector_store m))\<rparr>)))"

definition force_values :: "int list option \<Rightarrow> nat \<Rightarrow> Vec3 \<Rightarrow> double list" where
  "force_values has n v = (if has = None then [] else vx v # (if n > 1 then [vy v, vz v] else []))"

definition send_force :: "nat \<Rightarrow> nat \<Rightarrow> nat \<times> 'w smaster \<Rightarrow> (nat \<times> 'w smaster) res" where
  "send_force i c = (\<lambda>(ofs, m).
     let C = fst (connector_store m) ! c; r = snd (connector_store m) ! c;
         fvrs = getForceValueRefs r; tvrs = getTorqueValueRefs r;
         vec = force_values (vref_force r) (length fvrs) (m_force C) @ force_values (vref_torque r) (length tvrs) (m_torque C)
     in if length (forces m) < ofs + length vec then Inl (UB ''forces'')
        else rbind (fmi2_import_set_real (fvrs @ tvrs) vec) (\<lambda>msg.
          Inr (ofs + length vec, on_base (master_queueMessage i msg)
            (m\<lparr>forces := take ofs (forces m) @ vec @ drop (ofs + length vec) (forces m)\<rparr>))))"

definition send_forces :: "int_set \<Rightarrow> 'w smaster \<Rightarrow> 'w smaster res" where
  "send_forces opn m =
     rbind (rfold (\<lambda>i st. rfold (send_force (nat i)) (slave_connectors (fst (connector_store (snd st))) (nat i)) st) opn (0, m)) (\<lambda>(ofs, m).
       if ofs \<noteq> length (forces m) then Inl (Fatal ''forceofs != forces.size()'') else Inr m)"

definition stepKinematicFmus ::
  "umfpack \<Rightarrow> 'w net \<Rightarrow> config \<Rightarrow> double \<Rightarrow> double \<Rightarrow> int_set \<Rightarrow> 'w smaster \<Rightarrow> 'w smaster res" where
  "stepKinematicFmus umf net cfg t dt opn m =
     rbind (queue_inputs cfg opn m) (\<lambda>m.
     let m = fold (\<lambda>i. queue_strong cfg (nat i)) opn m in
     rbind (on_base_res (wait net cfg) (on_base queueValueRequests m)) (\<lambda>m.
     rbind (fill_inputs opn m) (\<lambda>m.
     rbind (rfold set_connector_values opn m) (\<lambda>m.
     let m = update_solver m in
     rbind (case m_strongCouplingSolver m of None \<Rightarrow> Inr (kin_requests t dt opn m)
            | Some s \<Rightarrow> add_deriv_requests opn m s (kin_requests t dt opn m)) (\<lambda>kin.
     rbind (on_base_res (wait net cfg) (send_kinematic opn kin m)) (\<lambda>m.
     rbind (store_mobilities opn m) (\<lambda>m.
     rbind (rfold set_future (zip opn kin) m) (\<lambda>m.
     rbind (solve_forces umf m) (\<lambda>m.
     rbind (send_forces opn m) (\<lambda>m.
     let m = fold (\<lambda>i. on_base (master_queueMessage (nat i) (fmi2_import_do_step t dt True))) opn m
     in Inr (on_base (deleteCachedValues cfg True opn) m)))))))))))"

subsection \<open>An iteration\<close>

definition prefetch :: "config \<Rightarrow> 'w smaster \<Rightarrow> 'w smaster res" where
  "prefetch cfg m =
     rbind (queue_inputs cfg (children (rends m ! 0)) m) (\<lambda>m.
       Inr (fold (queue_strong cfg) [0..<length (clients_of m)] m))"

definition runIteration ::
  "umfpack \<Rightarrow> 'w net \<Rightarrow> config \<Rightarrow> double \<Rightarrow> double \<Rightarrow> 'w smaster \<Rightarrow> 'w smaster res" where
  "runIteration umf net cfg t dt m =
     rbind (run_sched (crank_batch net cfg t dt) (stepKinematicFmus umf net cfg t dt) (length (clients_of m)) (rends m) (clientrend m)
       (kins m) m) (\<lambda>(m, _). prefetch cfg m)"

definition field_names :: "char \<Rightarrow> 'w smaster \<Rightarrow> string" where
  "field_names sep m = (let (cs, rs) = connector_store m in
     concat (map (\<lambda>i. concat (map (\<lambda>(j, c). let r = rs ! c;
         basename = sep # ''fmu'' @ nat_to_string i @ ''_conn'' @ nat_to_string j @ ''_'' in
         (if vref_force r \<noteq> None then basename @ ''force_x''
            @ (if length (getAccelerationValueRefs r) > 1 then basename @ ''force_y'' @ basename @ ''force_z'' else []) else [])
       @ (if vref_torque r \<noteq> None then basename @ ''torque_x''
            @ (if length (getAngularAccelerationValueRefs r) > 1 then basename @ ''torque_y'' @ basename @ ''torque_z'' else []) else []))
       (enumerate 0 (slave_connectors cs i)))) [0..<length (clients_of m)]))"

definition getFieldNames :: "char \<Rightarrow> 'w smaster \<Rightarrow> string" where
  "getFieldNames sep m = field_names sep m @
     (case m_strongCouplingSolver m of None \<Rightarrow> [] | Some s \<Rightarrow> getViolationsNames sep (length (eqs s)) nat_to_string)"

subsection \<open>Which FMUs are told to step\<close>

definition squiet :: "'w smaster \<Rightarrow> 'w smaster \<Rightarrow> bool" where
  "squiet m m' \<longleftrightarrow> quiet (base m) (base m') \<and> rends m' = rends m \<and> clientrend m' = clientrend m"

text \<open>What an iteration keeps.\<close>

definition same_setup :: "'w smaster \<Rightarrow> 'w smaster \<Rightarrow> bool" where
  "same_setup m m' \<longleftrightarrow> same_flags (base m) (base m') \<and> rends m' = rends m \<and> clientrend m' = clientrend m"

lemma same_setup_refl [simp]: "same_setup m m"
  by (simp add: same_setup_def)

lemma same_setup_trans: "same_setup m m' \<Longrightarrow> same_setup m' m'' \<Longrightarrow> same_setup m m''"
  unfolding same_setup_def using same_flags_trans by metis

lemma squiet_refl [simp]: "squiet m m"
  by (simp add: squiet_def)

lemma squiet_trans [trans]: "squiet m m' \<Longrightarrow> squiet m' m'' \<Longrightarrow> squiet m m''"
  using quiet_trans by (auto simp: squiet_def)

lemma squiet_length: "squiet m m' \<Longrightarrow> length (clients_of m') = length (clients_of m)"
  by (simp add: squiet_def quiet_length)

lemma squiet_updates [simp]:
  "squiet m (m'\<lparr>m_refValues := rv\<rparr>) \<longleftrightarrow> squiet m m'" "squiet m (m'\<lparr>connector_store := st\<rparr>) \<longleftrightarrow> squiet m m'"
  "squiet m (m'\<lparr>m_strongCouplingSolver := s\<rparr>) \<longleftrightarrow> squiet m m'" "squiet m (m'\<lparr>forces := fs\<rparr>) \<longleftrightarrow> squiet m m'"
  by (simp_all add: squiet_def)

lemma rfold_squiet:
  assumes "rfold f xs m = Inr m'" and "\<And>x m m'. x \<in> set xs \<Longrightarrow> f x m = Inr m' \<Longrightarrow> squiet m m'"
  shows "squiet m m'"
  using rfold_inv[where P = "squiet m", OF assms(1)] assms(2) squiet_trans by fastforce

lemma fold_squiet:
  assumes "\<And>x m. x \<in> set xs \<Longrightarrow> squiet m (f x m)"
  shows "squiet m (fold f xs m)"
  using assms
proof (induction xs arbitrary: m)
  case (Cons x xs)
  have "squiet m (f x m)" "squiet (f x m) (fold f xs (f x m))" using Cons by auto
  then show ?case using squiet_trans by simp
qed simp

lemma on_base_squiet: "quiet (base m) (f (base m)) \<Longrightarrow> squiet m (on_base f m)"
  by (simp add: squiet_def on_base_def)

lemma on_base_res_squiet: "on_base_res f m = Inr m' \<Longrightarrow> (\<And>b'. f (base m) = Inr b' \<Longrightarrow> quiet (base m) b') \<Longrightarrow> squiet m m'"
  by (auto simp: squiet_def on_base_res_def)

lemma queue_inputs_squiet: "queue_inputs cfg S m = Inr m' \<Longrightarrow> squiet m m'"
  unfolding queue_inputs_def by (erule rfold_squiet, erule on_base_res_squiet, erule queueX_refs_quiet)

lemma wait_squiet: "on_base_res (wait net cfg) m = Inr m' \<Longrightarrow> squiet m m'"
  by (erule on_base_res_squiet, erule wait_quiet)

lemma request_values_squiet: "on_base_res (wait net cfg) (on_base queueValueRequests m) = Inr m' \<Longrightarrow> squiet m m'"
  using wait_squiet on_base_squiet[of m queueValueRequests, OF queueValueRequests_quiet] squiet_trans by blast

lemma real_at_ids: "real_at s cs = (x, cs') \<Longrightarrow> map m_id cs' = map m_id cs"
  by (auto simp: real_at_def list_update_map_id split: prod.splits option.splits)

lemma reals_at_ids: "reals_at ss cs = (xs, cs') \<Longrightarrow> map m_id cs' = map m_id cs"
  by (induction ss arbitrary: cs xs) (auto simp: Let_def split: prod.splits dest!: real_at_ids)

lemma init_simple_squiet: "squiet m (init_simple cset i m)"
  using reals_at_ids
  by (fastforce simp: init_simple_def squiet_def quiet_def do_steps_def same_flags_def Let_def split: option.splits prod.splits)

lemma initRefValues_squiet: "squiet m (initRefValues cset m)"
proof -
  have "squiet (m\<lparr>m_refValues := rv\<rparr>) (fold (init_simple cset) xs (m\<lparr>m_refValues := rv\<rparr>))" for rv xs
    by (rule fold_squiet) (rule init_simple_squiet)
  then show ?thesis by (simp add: initRefValues_def squiet_def)
qed

lemma fill_inputs_squiet: "fill_inputs S m = Inr m' \<Longrightarrow> squiet m m'"
  using initRefValues_squiet[of m S] by (auto simp: fill_inputs_def Let_def)

text \<open>An FMU told to step from \<open>t\<close> by \<open>dt\<close>.\<close>

definition step_event :: "double \<Rightarrow> double \<Rightarrow> int \<Rightarrow> nat \<times> request" where
  "step_event t dt i = (nat i, do_step_req t dt True)"

definition steps_of :: "'w smaster \<Rightarrow> (nat \<times> request) list" where
  "steps_of m = do_steps (base m)"

definition has_clients :: "nat \<Rightarrow> 'w smaster \<Rightarrow> bool" where
  "has_clients n m \<longleftrightarrow> length (clients_of m) = n"

lemma squiet_steps: "squiet m m' \<Longrightarrow> steps_of m' = steps_of m \<and> (has_clients n m' \<longleftrightarrow> has_clients n m) \<and> same_setup m m'"
  using squiet_length[of m m'] by (simp add: steps_of_def has_clients_def squiet_def quiet_def same_setup_def)

lemma queue_step:
  assumes "has_clients n m" and "i \<in> {0..<int n}"
  shows "steps_of (on_base (master_queueMessage (nat i) (fmi2_import_do_step t dt True)) m) = steps_of m @ [step_event t dt i]"
    "has_clients n (on_base (master_queueMessage (nat i) (fmi2_import_do_step t dt True)) m)"
    "same_setup m (on_base (master_queueMessage (nat i) (fmi2_import_do_step t dt True)) m)"
proof -
  have "nat i < length (clients_of m)" using assms by (auto simp: has_clients_def)
  then have q: "queued (nat i) [fmi2_import_do_step t dt True] (base m) (master_queueMessage (nat i) (fmi2_import_do_step t dt True) (base m))"
    by (rule master_queueMessage_queued)
  show "same_setup m (on_base (master_queueMessage (nat i) (fmi2_import_do_step t dt True)) m)"
    using q by (simp add: same_setup_def on_base_def queued_def)
  show "has_clients n (on_base (master_queueMessage (nat i) (fmi2_import_do_step t dt True)) m)"
    using queued_length[OF q] assms(1) by (simp add: has_clients_def on_base_def)
  show "steps_of (on_base (master_queueMessage (nat i) (fmi2_import_do_step t dt True)) m) = steps_of m @ [step_event t dt i]"
    using q by (simp add: steps_of_def on_base_def queued_def do_steps_def step_event_def fmi2_import_do_step_def is_do_step_def)
qed

lemma send_and_step_steps:
  assumes "has_clients n m" and "i \<in> {0..<int n}" and "send_and_step t dt i m = Inr m'"
  shows "has_clients n m' \<and> same_setup m m' \<and> steps_of m' = steps_of m @ [step_event t dt i]"
proof -
  obtain m1 where 1: "on_base_res (master_sendSetX (nat i) (lookup_input (m_refValues m) (nat i))) m = Inr m1"
    "m' = on_base (master_queueMessage (nat i) (fmi2_import_do_step t dt True)) m1"
    using assms(3) by (auto simp: send_and_step_def)
  have "nat i < length (clients_of m)" using assms(1,2) by (auto simp: has_clients_def)
  then have "squiet m m1"
    using on_base_res_squiet[OF 1(1)] queued_quiet[OF master_sendSetX_queued] setX_requests_step by blast
  from squiet_steps[OF this] show ?thesis using queue_step[of n m1 i] 1(2) assms(1,2) same_setup_trans by fastforce
qed

lemma send_and_steps:
  assumes "has_clients n m" and "set S \<subseteq> {0..<int n}" and "rfold (send_and_step t dt) S m = Inr m'"
  shows "has_clients n m' \<and> same_setup m m' \<and> steps_of m' = steps_of m @ map (step_event t dt) S"
  using assms
proof (induction S arbitrary: m)
  case (Cons i S)
  then obtain m1 where "send_and_step t dt i m = Inr m1" "rfold (send_and_step t dt) S m1 = Inr m'" by auto
  with Cons.IH[of m1] Cons.prems send_and_step_steps[of n m i t dt m1] same_setup_trans show ?case by fastforce
qed simp

lemma queue_steps:
  assumes "has_clients n m" and "set S \<subseteq> {0..<int n}"
  shows "has_clients n (fold (\<lambda>i. on_base (master_queueMessage (nat i) (fmi2_import_do_step t dt True))) S m)
     \<and> same_setup m (fold (\<lambda>i. on_base (master_queueMessage (nat i) (fmi2_import_do_step t dt True))) S m)
     \<and> steps_of (fold (\<lambda>i. on_base (master_queueMessage (nat i) (fmi2_import_do_step t dt True))) S m) = steps_of m @ map (step_event t dt) S"
  using assms
proof (induction S arbitrary: m)
  case (Cons i S)
  then show ?case using queue_step[of n m i t dt] same_setup_trans by fastforce
qed simp

lemma delete_squiet: "squiet m (on_base (deleteCachedValues cfg b S) m)"
  by (rule on_base_squiet, rule deleteCachedValues_quiet)

lemma delete_steps:
  "steps_of (on_base (deleteCachedValues cfg b S) m) = steps_of m" "has_clients n (on_base (deleteCachedValues cfg b S) m) = has_clients n m"
  using squiet_steps[OF delete_squiet] by blast+

lemma delete_setup: "same_setup m m' \<Longrightarrow> same_setup m (on_base (deleteCachedValues cfg b S) m')"
  using squiet_steps[OF delete_squiet] same_setup_trans by blast

lemma crank_batch_steps:
  assumes "has_clients n m" and "set S \<subseteq> {0..<int n}" and "crank_batch net cfg t dt S m = Inr m'"
  shows "has_clients n m' \<and> same_setup m m' \<and> steps_of m' = steps_of m @ map (step_event t dt) S"
proof -
  obtain m1 m2 m3 m4 where 1: "queue_inputs cfg S m = Inr m1" "on_base_res (wait net cfg) (on_base queueValueRequests m1) = Inr m2"
    "fill_inputs S m2 = Inr m3" "rfold (send_and_step t dt) S m3 = Inr m4" "m' = on_base (deleteCachedValues cfg True S) m4"
    using assms(3) by (auto simp: crank_batch_def)
  have "squiet m m3"
    using queue_inputs_squiet[OF 1(1)] request_values_squiet[OF 1(2)] fill_inputs_squiet[OF 1(3)] squiet_trans by blast
  from squiet_steps[OF this] assms(1) have 2: "has_clients n m3" "steps_of m3 = steps_of m" "same_setup m m3" by auto
  show ?thesis unfolding 1(5) using send_and_steps[OF 2(1) assms(2) 1(4)] 2(2) by (auto simp: delete_steps intro: same_setup_trans[OF 2(3)] delete_setup)
qed

text \<open>The parts of \<^verbatim>\<open>stepKinematicFmus\<close> before the step itself.\<close>

lemma queue_strong_squiet: "squiet m (queue_strong cfg i m)"
  unfolding queue_strong_def by (rule on_base_squiet) (simp add: set_client_quiet queueReals_def)

lemma set_connector_values_squiet: "set_connector_values i m = Inr m' \<Longrightarrow> squiet m m'"
  by (auto simp: set_connector_values_def Let_def)

lemma update_solver_squiet: "squiet m (update_solver m)"
  by (simp add: update_solver_def)

lemma send_kinematic_squiet:
  assumes "set opn \<subseteq> {0..<int (length (clients_of m))}"
  shows "squiet m (send_kinematic opn kin m)"
proof -
  let ?f = "\<lambda>(i, r) m. if kin_wanted r then on_base (master_queueMessage (nat i) (kinematic_request r)) m else m"
  have "squiet m (fold ?f ps m')" if "squiet m m'" "fst ` set ps \<subseteq> {0..<int (length (clients_of m))}" for ps m'
    using that
  proof (induction ps arbitrary: m')
    case (Cons p ps)
    obtain i r where p: "p = (i, r)" by fastforce
    have i: "nat i < length (clients_of m')" using Cons.prems p squiet_length[OF Cons.prems(1)] by auto
    have "squiet m' (on_base (master_queueMessage (nat i) (kinematic_request r)) m')"
      by (rule on_base_squiet, rule queue_quiet[OF i]) (simp add: is_do_step_def)
    then show ?case using Cons squiet_trans p by auto
  qed simp
  note all = this
  have "fst ` set (zip opn kin) \<subseteq> {0..<int (length (clients_of m))}" using assms by (auto dest!: set_zip_leftD)
  from all[OF squiet_refl this] show ?thesis unfolding send_kinematic_def .
qed

lemma store_mobilities_squiet: "store_mobilities opn m = Inr m' \<Longrightarrow> squiet m m'"
  by (auto simp: store_mobilities_def split: option.splits)

lemma set_future_squiet: "set_future p m = Inr m' \<Longrightarrow> squiet m m'"
  by (auto simp: set_future_def Let_def split: prod.splits if_splits)

lemma solve_forces_squiet: "solve_forces umf m = Inr m' \<Longrightarrow> squiet m m'"
  by (auto simp: solve_forces_def split: option.splits)

lemma send_force_squiet:
  assumes "i < length (clients_of m)" and "send_force i c (ofs, m) = Inr (ofs', m')"
  shows "squiet m m'"
proof -
  obtain vrs vec fs where m': "m' = on_base (master_queueMessage i (set_real_req vrs vec)) (m\<lparr>forces := fs\<rparr>)"
    using assms(2) by (auto simp: send_force_def Let_def fmi2_import_set_real_def split: if_splits)
  have "squiet (m\<lparr>forces := fs\<rparr>) m'"
    unfolding m' by (rule on_base_squiet, rule queue_quiet) (use assms(1) in \<open>simp_all add: is_do_step_def\<close>)
  then show ?thesis by (simp add: squiet_def)
qed

lemma send_forces_squiet:
  assumes "set opn \<subseteq> {0..<int (length (clients_of m))}" and "send_forces opn m = Inr m'"
  shows "squiet m m'"
proof -
  have inner: "squiet (snd st) (snd st')"
    if "rfold (send_force i) cs st = Inr st'" "i < length (clients_of (snd st))" for i cs and st st' :: "nat \<times> 'w smaster"
    using that
  proof (induction cs arbitrary: st)
    case (Cons c cs)
    then obtain st1 where 1: "send_force i c st = Inr st1" "rfold (send_force i) cs st1 = Inr st'" by auto
    have "squiet (snd st) (snd st1)" using send_force_squiet[of i "snd st" c "fst st" "fst st1"] 1(1) Cons.prems(2) by simp
    then show ?case using Cons.IH[OF 1(2)] Cons.prems(2) squiet_length squiet_trans by metis
  qed simp
  have "squiet (snd st) (snd st')"
    if "rfold (\<lambda>i st. rfold (send_force (nat i)) (slave_connectors (fst (connector_store (snd st))) (nat i)) st) is st = Inr st'"
      "set is \<subseteq> {0..<int (length (clients_of (snd st)))}" for "is" and st st' :: "nat \<times> 'w smaster"
    using that
  proof (induction "is" arbitrary: st)
    case (Cons i "is")
    then obtain st1 where 1: "rfold (send_force (nat i)) (slave_connectors (fst (connector_store (snd st))) (nat i)) st = Inr st1"
      "rfold (\<lambda>i st. rfold (send_force (nat i)) (slave_connectors (fst (connector_store (snd st))) (nat i)) st) is st1 = Inr st'" by auto
    have "squiet (snd st) (snd st1)" by (rule inner[OF 1(1)]) (use Cons.prems(2) in auto)
    moreover from this have "set is \<subseteq> {0..<int (length (clients_of (snd st1)))}" using Cons.prems(2) by (simp add: squiet_length)
    ultimately show ?case using Cons.IH[OF 1(2)] squiet_trans by blast
  qed simp
  with assms show ?thesis by (fastforce simp: send_forces_def split: if_splits)
qed

lemma kinematic_steps:
  assumes n: "has_clients n m" and S: "set S \<subseteq> {0..<int n}" and k: "stepKinematicFmus umf net cfg t dt S m = Inr m'"
  shows "has_clients n m' \<and> same_setup m m' \<and> steps_of m' = steps_of m @ map (step_event t dt) S"
proof -
  obtain m1 m2 m3 m4 kin m5 m6 m7 m8 m9 where 1: "queue_inputs cfg S m = Inr m1"
    "on_base_res (wait net cfg) (on_base queueValueRequests (fold (\<lambda>i. queue_strong cfg (nat i)) S m1)) = Inr m2"
    "fill_inputs S m2 = Inr m3" "rfold set_connector_values S m3 = Inr m4"
    "on_base_res (wait net cfg) (send_kinematic S kin (update_solver m4)) = Inr m5"
    "store_mobilities S m5 = Inr m6" "rfold set_future (zip S kin) m6 = Inr m7" "solve_forces umf m7 = Inr m8" "send_forces S m8 = Inr m9"
    "m' = on_base (deleteCachedValues cfg True S)
       (fold (\<lambda>i. on_base (master_queueMessage (nat i) (fmi2_import_do_step t dt True))) S m9)"
    using k by (auto simp: stepKinematicFmus_def Let_def)
  have "squiet m m1" using queue_inputs_squiet[OF 1(1)] .
  also have "squiet m1 (fold (\<lambda>i. queue_strong cfg (nat i)) S m1)" by (rule fold_squiet, rule queue_strong_squiet)
  also have "squiet \<dots> m2" using request_values_squiet[OF 1(2)] .
  also have "squiet m2 m3" using fill_inputs_squiet[OF 1(3)] .
  also have "squiet m3 m4" by (rule rfold_squiet[OF 1(4) set_connector_values_squiet])
  also have "squiet m4 (update_solver m4)" by (rule update_solver_squiet)
  finally have a: "squiet m (update_solver m4)" .
  have S': "set S \<subseteq> {0..<int (length (clients_of x))}" if "squiet m x" for x
    using S n squiet_length[OF that] by (simp add: has_clients_def)
  have "squiet (update_solver m4) (send_kinematic S kin (update_solver m4))" by (rule send_kinematic_squiet[OF S'[OF a]])
  also have "squiet \<dots> m5" by (rule wait_squiet[OF 1(5)])
  also have "squiet m5 m6" using store_mobilities_squiet[OF 1(6)] .
  also have "squiet m6 m7" by (rule rfold_squiet[OF 1(7) set_future_squiet])
  also have "squiet m7 m8" using solve_forces_squiet[OF 1(8)] .
  finally have b: "squiet m m8" using squiet_trans[OF a] by blast
  have "squiet m m9" using squiet_trans[OF b send_forces_squiet[OF S'[OF b] 1(9)]] .
  from squiet_steps[OF this] have 9: "has_clients n m9" "steps_of m9 = steps_of m" "same_setup m m9" using n by auto
  show ?thesis unfolding 1(10) using queue_steps[OF 9(1) S, of t dt] 9(2) by (auto simp: delete_steps intro: same_setup_trans[OF 9(3)] delete_setup)
qed

definition step_effect :: "double \<Rightarrow> double \<Rightarrow> int list \<Rightarrow> 'w smaster \<Rightarrow> 'w smaster \<Rightarrow> bool" where
  "step_effect t dt S m m' \<longleftrightarrow> same_setup m m' \<and> steps_of m' = steps_of m @ map (step_event t dt) S"

lemma step_effects: "batches (step_effect t dt) bs m m' \<Longrightarrow> same_setup m m' \<and> steps_of m' = steps_of m @ map (step_event t dt) (concat bs)"
  by (induction bs arbitrary: m) (auto simp: step_effect_def intro: same_setup_trans)

interpretation sm: stepper "crank_batch net cfg t dt" "step_effect t dt" "has_clients n" n "stepKinematicFmus umf net cfg t dt"
  for umf net cfg t dt n
  by unfold_locales (use crank_batch_steps kinematic_steps in \<open>unfold step_effect_def, blast\<close>)+

lemma prefetch_squiet: "prefetch cfg m = Inr m' \<Longrightarrow> squiet m m'"
  using queue_inputs_squiet fold_squiet[of "[0..<k]" "queue_strong cfg" for k, OF queue_strong_squiet] squiet_trans
  by (fastforce simp: prefetch_def)

end
