(* ===== verification/Master_Wait.thy ===== *)
theory Master_Wait
  imports Base_Master
begin

text \<open>
  \<^verbatim>\<open>BaseMaster::wait\<close> comes back. The transport and the servers behind it are described by the locale
  \<open>responsive_net\<close>: requests are answered in the order they were sent to a server, each by an acceptable
  response, and a poll with requests outstanding finds at least one response. From this and
  the way the clients queue requests it is proved that \<^verbatim>\<open>wait\<close> returns within its bound on the number of polls, with nothing
  pending, and with every value that was asked for in the caches.
\<close>

subsection \<open>Requests and acceptable responses\<close>

inductive good_answer :: "request \<Rightarrow> response \<Rightarrow> bool" where
  ga_get_real: "length vals = length vrs \<Longrightarrow> good_answer (get_real_req vrs) (get_real_res 0 vals)"
| ga_get_integer: "length vals = length vrs \<Longrightarrow> good_answer (get_integer_req vrs) (get_integer_res 0 vals)"
| ga_get_boolean: "length vals = length vrs \<Longrightarrow> good_answer (get_boolean_req vrs) (get_boolean_res 0 vals)"
| ga_get_string: "length vals = length vrs \<Longrightarrow> good_answer (get_string_req vrs) (get_string_res 0 vals)"
| ga_set_real: "length vrs = length vals \<Longrightarrow> good_answer (set_real_req vrs vals) (set_real_res 0)"
| ga_set_integer: "length vrs = length ivals \<Longrightarrow> good_answer (set_integer_req vrs ivals) (set_integer_res 0)"
| ga_set_boolean: "length vrs = length bvals \<Longrightarrow> good_answer (set_boolean_req vrs bvals) (set_boolean_res 0)"
| ga_set_string: "length vrs = length svals \<Longrightarrow> good_answer (set_string_req vrs svals) (set_string_res 0)"
| ga_do_step: "good_answer (do_step_req t dt b) (do_step_res 0)"

definition answerable :: "request \<Rightarrow> bool" where
  "answerable q \<longleftrightarrow> (\<exists>r. good_answer q r)"

inductive_simps good_answer_simps:
  "good_answer (get_real_req vrs) r" "good_answer (get_integer_req vrs) r" "good_answer (get_boolean_req vrs) r"
  "good_answer (get_string_req vrs) r" "good_answer (set_real_req vrs xs) r" "good_answer (set_integer_req vrs is) r"
  "good_answer (set_boolean_req vrs bs) r" "good_answer (set_string_req vrs ss) r" "good_answer (do_step_req t dt b) r"

lemma answerable_simps [simp]:
  "answerable (get_real_req vrs)" "answerable (get_integer_req vrs)" "answerable (get_boolean_req vrs)" "answerable (get_string_req vrs)"
  "answerable (set_real_req vrs xs) \<longleftrightarrow> length vrs = length xs" "answerable (set_integer_req vrs is) \<longleftrightarrow> length vrs = length is"
  "answerable (set_boolean_req vrs bs) \<longleftrightarrow> length vrs = length bs" "answerable (set_string_req vrs ss) \<longleftrightarrow> length vrs = length ss"
  "answerable (do_step_req t dt b)"
  by (auto simp: answerable_def good_answer_simps Ex_list_of_length)

definition is_get :: "request \<Rightarrow> bool" where
  "is_get q \<longleftrightarrow> request_type q \<in> {319, 321, 323, 325}"

text \<open>What a client knows, has asked for, and is about to ask for, by base type.\<close>

fun known :: "fmi2_base_type \<Rightarrow> client \<Rightarrow> int set" where
  "known fmi2_base_type_real c = dom (m_reals c)"
| "known fmi2_base_type_int c = dom (m_ints c)"
| "known fmi2_base_type_bool c = dom (m_bools c)"
| "known fmi2_base_type_str c = dom (m_strings c)"
| "known fmi2_base_type_enum c = {}"

fun outgoing :: "fmi2_base_type \<Rightarrow> client \<Rightarrow> int_set" where
  "outgoing fmi2_base_type_real c = m_outgoing_reals c"
| "outgoing fmi2_base_type_int c = m_outgoing_ints c"
| "outgoing fmi2_base_type_bool c = m_outgoing_bools c"
| "outgoing fmi2_base_type_str c = m_outgoing_strings c"
| "outgoing fmi2_base_type_enum c = []"

fun get_req :: "fmi2_base_type \<Rightarrow> int list \<Rightarrow> request option" where
  "get_req fmi2_base_type_real vrs = Some (get_real_req vrs)"
| "get_req fmi2_base_type_int vrs = Some (get_integer_req vrs)"
| "get_req fmi2_base_type_bool vrs = Some (get_boolean_req vrs)"
| "get_req fmi2_base_type_str vrs = Some (get_string_req vrs)"
| "get_req fmi2_base_type_enum vrs = None"

definition asked :: "fmi2_base_type \<Rightarrow> request list \<Rightarrow> int set" where
  "asked ty qs = {vr. \<exists>vrs q. get_req ty vrs = Some q \<and> q \<in> set qs \<and> vr \<in> set vrs}"

lemma asked_append [simp]: "asked ty (qs @ rs) = asked ty qs \<union> asked ty rs"
  by (auto simp: asked_def)

lemma asked_Nil [simp]: "asked ty [] = {}"
  by (simp add: asked_def)

text \<open>The requests of a client that wait for an answer fit the client: the references of a request for
  values are those the client will store the answer under, and there is one request for each type at most.\<close>

definition matching :: "client \<Rightarrow> request list \<Rightarrow> bool" where
  "matching c qs \<longleftrightarrow> list_all answerable qs \<and> distinct (map request_type (filter is_get qs))
     \<and> (\<forall>ty vrs. \<forall>q\<in>set qs. get_req ty vrs = Some q \<longrightarrow> vrs = outgoing ty c)"

lemma store_values_dom: "length out = length vals \<Longrightarrow> dom (store_values out vals d) = set out \<union> dom d"
  unfolding store_values_def by (induction out vals arbitrary: d rule: list_induct2) auto

text \<open>One acceptable response: it is handled without error, what remains of the requests still fits, and nothing that was
  known or asked for is lost.\<close>

definition answered :: "client \<Rightarrow> request list \<Rightarrow> client \<Rightarrow> request list \<Rightarrow> bool" where
  "answered c qs c' qs' \<longleftrightarrow> matching c' qs' \<and> m_id c' = m_id c \<and> m_messageQueue c' = m_messageQueue c
     \<and> (\<forall>ty. known ty c \<union> asked ty qs \<subseteq> known ty c' \<union> asked ty qs')"

lemma answered_trans: "answered c qs c' qs' \<Longrightarrow> answered c' qs' c'' qs'' \<Longrightarrow> answered c qs c'' qs''"
  unfolding answered_def by (metis subset_trans)

lemma matching_tl_other:
  assumes "matching c (q # qs)" and "\<forall>ty. outgoing ty c' = outgoing ty c"
  shows "matching c' qs"
  using assms by (auto simp: matching_def split: if_splits)

lemma matching_tl_get:
  assumes "matching c (q # qs)" and "get_req ty vrs = Some q" and "\<forall>ty'. ty' \<noteq> ty \<longrightarrow> outgoing ty' c' = outgoing ty' c"
  shows "matching c' qs"
proof -
  have "is_get q" using assms(2) by (cases ty) (auto simp: is_get_def)
  then have once: "request_type q \<notin> set (map request_type (filter is_get qs))" using assms(1) by (simp add: matching_def)
  have "ty' \<noteq> ty" if "get_req ty' vrs' = Some q'" "q' \<in> set qs" for ty' vrs' q'
  proof
    assume "ty' = ty"
    then have "request_type q' = request_type q" "is_get q'" using that(1) assms(2) by (cases ty; auto simp: is_get_def)+
    then have "request_type q \<in> set (map request_type (filter is_get qs))" using that(2) by (simp add: image_iff) metis
    then show False using once by contradiction
  qed
  then show ?thesis using assms(1,3) by (auto simp: matching_def split: if_splits)
qed

lemma asked_Cons: "asked ty (q # qs) = (case q of _ \<Rightarrow> {vr. \<exists>vrs. get_req ty vrs = Some q \<and> vr \<in> set vrs}) \<union> asked ty qs"
  by (auto simp: asked_def)

lemma get_req_iff:
  "get_req ty vrs = Some (get_real_req us) \<longleftrightarrow> ty = fmi2_base_type_real \<and> vrs = us"
  "get_req ty vrs = Some (get_integer_req us) \<longleftrightarrow> ty = fmi2_base_type_int \<and> vrs = us"
  "get_req ty vrs = Some (get_boolean_req us) \<longleftrightarrow> ty = fmi2_base_type_bool \<and> vrs = us"
  "get_req ty vrs = Some (get_string_req us) \<longleftrightarrow> ty = fmi2_base_type_str \<and> vrs = us"
  "get_req ty vrs \<noteq> Some (set_real_req us xs)" "get_req ty vrs \<noteq> Some (set_integer_req us is)"
  "get_req ty vrs \<noteq> Some (set_boolean_req us bs)" "get_req ty vrs \<noteq> Some (set_string_req us ss)"
  "get_req ty vrs \<noteq> Some (do_step_req t dt b)"
  by (cases ty; auto)+

lemma other_types:
  "(\<forall>ty'. ty' \<noteq> fmi2_base_type_real \<longrightarrow> P ty') \<longleftrightarrow> P fmi2_base_type_int \<and> P fmi2_base_type_bool \<and> P fmi2_base_type_str \<and> P fmi2_base_type_enum"
  "(\<forall>ty'. ty' \<noteq> fmi2_base_type_int \<longrightarrow> P ty') \<longleftrightarrow> P fmi2_base_type_real \<and> P fmi2_base_type_bool \<and> P fmi2_base_type_str \<and> P fmi2_base_type_enum"
  "(\<forall>ty'. ty' \<noteq> fmi2_base_type_bool \<longrightarrow> P ty') \<longleftrightarrow> P fmi2_base_type_real \<and> P fmi2_base_type_int \<and> P fmi2_base_type_str \<and> P fmi2_base_type_enum"
  "(\<forall>ty'. ty' \<noteq> fmi2_base_type_str \<longrightarrow> P ty') \<longleftrightarrow> P fmi2_base_type_real \<and> P fmi2_base_type_int \<and> P fmi2_base_type_bool \<and> P fmi2_base_type_enum"
  "(\<forall>ty. P ty) \<longleftrightarrow> P fmi2_base_type_real \<and> P fmi2_base_type_int \<and> P fmi2_base_type_bool \<and> P fmi2_base_type_str \<and> P fmi2_base_type_enum"
  by (metis (full_types) fmi2_base_type.exhaust fmi2_base_type.distinct)+

lemma dispatch_good:
  assumes "good_answer q r" and m: "matching c (q # qs)"
  shows "\<exists>c'. dispatch_response P r c = Inr (c', []) \<and> answered c (q # qs) c' qs"
  using assms(1)
proof cases
  case (ga_get_real vals vrs)
  let ?c = "c\<lparr>m_reals := store_values (m_outgoing_reals c) vals (m_reals c), m_outgoing_reals := []\<rparr>"
  have v: "vrs = m_outgoing_reals c" using m ga_get_real(1) by (auto simp: matching_def get_req_iff)
  have "matching ?c qs" by (rule matching_tl_get[OF m, of fmi2_base_type_real vrs]) (simp_all add: ga_get_real(1) other_types)
  then have "answered c (q # qs) ?c qs"
    using store_values_dom[of vrs vals] ga_get_real(3) by (auto simp: answered_def other_types asked_Cons ga_get_real(1) get_req_iff v[symmetric])
  then show ?thesis using ga_get_real v by (simp add: statusIsOK_def is_size_def)
next
  case (ga_get_integer vals vrs)
  let ?c = "c\<lparr>m_ints := store_values (m_outgoing_ints c) vals (m_ints c), m_outgoing_ints := []\<rparr>"
  have v: "vrs = m_outgoing_ints c" using m ga_get_integer(1) by (auto simp: matching_def get_req_iff)
  have "matching ?c qs" by (rule matching_tl_get[OF m, of fmi2_base_type_int vrs]) (simp_all add: ga_get_integer(1) other_types)
  then have "answered c (q # qs) ?c qs"
    using store_values_dom[of vrs vals] ga_get_integer(3) by (auto simp: answered_def other_types asked_Cons ga_get_integer(1) get_req_iff v[symmetric])
  then show ?thesis using ga_get_integer v by (simp add: handle_get_value_res_def statusIsOK_def)
next
  case (ga_get_boolean vals vrs)
  let ?c = "c\<lparr>m_bools := store_values (m_outgoing_bools c) vals (m_bools c), m_outgoing_bools := []\<rparr>"
  have v: "vrs = m_outgoing_bools c" using m ga_get_boolean(1) by (auto simp: matching_def get_req_iff)
  have "matching ?c qs" by (rule matching_tl_get[OF m, of fmi2_base_type_bool vrs]) (simp_all add: ga_get_boolean(1) other_types)
  then have "answered c (q # qs) ?c qs"
    using store_values_dom[of vrs vals] ga_get_boolean(3) by (auto simp: answered_def other_types asked_Cons ga_get_boolean(1) get_req_iff v[symmetric])
  then show ?thesis using ga_get_boolean v by (simp add: handle_get_value_res_def statusIsOK_def)
next
  case (ga_get_string vals vrs)
  let ?c = "c\<lparr>m_strings := store_values (m_outgoing_strings c) vals (m_strings c), m_outgoing_strings := []\<rparr>"
  have v: "vrs = m_outgoing_strings c" using m ga_get_string(1) by (auto simp: matching_def get_req_iff)
  have "matching ?c qs" by (rule matching_tl_get[OF m, of fmi2_base_type_str vrs]) (simp_all add: ga_get_string(1) other_types)
  then have "answered c (q # qs) ?c qs"
    using store_values_dom[of vrs vals] ga_get_string(3) by (auto simp: answered_def other_types asked_Cons ga_get_string(1) get_req_iff v[symmetric])
  then show ?thesis using ga_get_string v by (simp add: handle_get_value_res_def statusIsOK_def)
qed (use matching_tl_other[OF m, of c] in \<open>auto simp: check_status_def statusIsOK_def answered_def asked_Cons get_req_iff\<close>)

subsection \<open>A transmission\<close>

lemma clientData_good:
  assumes "list_all2 good_answer qs rs" and "matching c (qs @ rest)" and "length qs \<le> p"
  shows "\<exists>c'. client_clientData P rs (p, c) = Inr ((p - length rs, c'), []) \<and> answered c (qs @ rest) c' rest"
  using assms
proof (induction qs rs arbitrary: p c rule: list_all2_induct)
  case Nil
  then show ?case by (simp add: answered_def)
next
  case (Cons q qs r rs)
  obtain c1 where 1: "dispatch_response P r c = Inr (c1, [])" "answered c (q # qs @ rest) c1 (qs @ rest)"
    using dispatch_good[OF Cons.hyps(1), of c "qs @ rest" P] Cons.prems(1) by auto
  obtain k where k: "p = Suc k" using Cons.prems(2) by (cases p) auto
  have "matching c1 (qs @ rest)" using 1(2) by (simp add: answered_def)
  with Cons.IH[of c1 k] Cons.prems(2) k obtain c' where
    2: "client_clientData P rs (k, c1) = Inr ((k - length rs, c'), [])" "answered c1 (qs @ rest) c' rest" by auto
  then show ?case using 1 k answered_trans[OF 1(2)] by (auto simp: client_clientDataInner_def)
qed

type_synonym flights = "nat \<Rightarrow> request list"

text \<open>What a poll finds: answers to the oldest requests of some clients.\<close>

fun delivery_ok :: "flights \<Rightarrow> (nat \<times> response list) list \<Rightarrow> bool" where
  "delivery_ok f [] \<longleftrightarrow> True"
| "delivery_ok f ((i, rs) # bs) \<longleftrightarrow> rs \<noteq> [] \<and> list_all2 good_answer (take (length rs) (f i)) rs
     \<and> delivery_ok (f(i := drop (length rs) (f i))) bs"

fun after_delivery :: "flights \<Rightarrow> (nat \<times> response list) list \<Rightarrow> flights" where
  "after_delivery f [] = f"
| "after_delivery f ((i, rs) # bs) = after_delivery (f(i := drop (length rs) (f i))) bs"

text \<open>The clients while the requests \<open>f\<close> are under way, and how they may change.\<close>

definition waits :: "nat \<Rightarrow> flights \<Rightarrow> 'w master \<Rightarrow> bool" where
  "waits n f m \<longleftrightarrow> length (m_clients m) = n \<and> (\<forall>i\<ge>n. f i = []) \<and> m_pendingRequests m = (\<Sum>i<n. length (f i))
     \<and> (\<forall>i<n. m_messageQueue (m_clients m ! i) = [] \<and> matching (m_clients m ! i) (f i))"

definition keeps :: "client list \<Rightarrow> flights \<Rightarrow> client list \<Rightarrow> flights \<Rightarrow> bool" where
  "keeps cs f cs' f' \<longleftrightarrow> map m_id cs' = map m_id cs
     \<and> (\<forall>i < length cs. \<forall>ty. known ty (cs ! i) \<union> asked ty (f i) \<subseteq> known ty (cs' ! i) \<union> asked ty (f' i))"

lemma keeps_refl [simp]: "keeps cs f cs f"
  by (simp add: keeps_def)

lemma keeps_trans: "keeps cs f cs' f' \<Longrightarrow> keeps cs' f' cs'' f'' \<Longrightarrow> keeps cs f cs'' f''"
  unfolding keeps_def by (metis length_map subset_trans)

lemma sum_length_upd:
  fixes f :: flights
  assumes "i < n" and "k \<le> length (f i)"
  shows "(\<Sum>j<n. length ((f(i := drop k (f i))) j)) + k = (\<Sum>j<n. length (f j))"
proof -
  have i: "i \<in> {..<n}" using assms(1) by simp
  show ?thesis using assms(2) by (simp add: sum.remove[OF finite_lessThan i])
qed

lemma receive_good:
  assumes w: "waits n f m" and d: "delivery_ok f ((i, rs) # bs)"
  shows "\<exists>cs' p'. receiveAndHandleMessage cfg (i, rs) m = Inr (m\<lparr>m_clients := cs', m_pendingRequests := p'\<rparr>)
     \<and> waits n (f(i := drop (length rs) (f i))) (m\<lparr>m_clients := cs', m_pendingRequests := p'\<rparr>)
     \<and> keeps (m_clients m) f cs' (f(i := drop (length rs) (f i)))"
proof -
  let ?f = "f(i := drop (length rs) (f i))"
  let ?c = "m_clients m ! i" and ?q = "take (length rs) (f i)"
  have ga: "list_all2 good_answer ?q rs" "rs \<noteq> []" using d by auto
  have le: "length rs \<le> length (f i)" using list_all2_lengthD[OF ga(1)] by (simp add: min_def split: if_splits)
  then have i: "i < n" using w ga(2) by (cases "i < n") (auto simp: waits_def)
  have sum: "(\<Sum>j<n. length (?f j)) + length rs = m_pendingRequests m"
    using sum_length_upd[of i n "length rs" f, OF i le] w by (simp add: waits_def)
  have "matching ?c (?q @ drop (length rs) (f i))" using w i by (simp add: waits_def)
  from clientData_good[OF ga(1) this, of "m_pendingRequests m" "parse_xml cfg"] sum le obtain c' where
    c': "client_clientData (parse_xml cfg) rs (m_pendingRequests m, ?c) = Inr ((m_pendingRequests m - length rs, c'), [])"
      "answered ?c (f i) c' (drop (length rs) (f i))" by auto
  let ?cs = "(m_clients m)[i := c']" and ?p = "m_pendingRequests m - length rs"
  have "receiveAndHandleMessage cfg (i, rs) m = Inr (m\<lparr>m_clients := ?cs, m_pendingRequests := ?p\<rparr>)"
    using c'(1) i w by (simp add: receiveAndHandleMessage_def get_pclient_def set_pclient_def waits_def)
  moreover have "waits n ?f (m\<lparr>m_clients := ?cs, m_pendingRequests := ?p\<rparr>)"
    using w i c'(2) sum by (auto simp: waits_def answered_def nth_list_update)
  moreover have "keeps (m_clients m) f ?cs ?f"
    using c'(2) w i by (auto simp: keeps_def answered_def waits_def nth_list_update list_update_map_id)
  ultimately show ?thesis by blast
qed

lemma poll_good:
  assumes "waits n f m" and "delivery_ok f bs"
  shows "\<exists>cs' p'. rfold (receiveAndHandleMessage cfg) bs m = Inr (m\<lparr>m_clients := cs', m_pendingRequests := p'\<rparr>)
     \<and> waits n (after_delivery f bs) (m\<lparr>m_clients := cs', m_pendingRequests := p'\<rparr>) \<and> keeps (m_clients m) f cs' (after_delivery f bs)
     \<and> p' + length bs \<le> m_pendingRequests m"
  using assms
proof (induction bs arbitrary: f m)
  case Nil
  then show ?case by (intro exI[of _ "m_clients m"] exI[of _ "m_pendingRequests m"]) simp
next
  case (Cons b bs)
  obtain i rs where b: "b = (i, rs)" by fastforce
  define g where g: "g = f(i := drop (length rs) (f i))"
  obtain cs1 p1 where 1: "receiveAndHandleMessage cfg (i, rs) m = Inr (m\<lparr>m_clients := cs1, m_pendingRequests := p1\<rparr>)"
    "waits n g (m\<lparr>m_clients := cs1, m_pendingRequests := p1\<rparr>)" "keeps (m_clients m) f cs1 g"
    using receive_good[OF Cons.prems(1), of i rs bs cfg] Cons.prems(2) b g by blast
  have "delivery_ok g bs" using Cons.prems(2) b g by simp
  from Cons.IH[OF 1(2) this] obtain cs' p' where
    2: "rfold (receiveAndHandleMessage cfg) bs (m\<lparr>m_clients := cs1, m_pendingRequests := p1\<rparr>) = Inr (m\<lparr>m_clients := cs', m_pendingRequests := p'\<rparr>)"
    "waits n (after_delivery g bs) (m\<lparr>m_clients := cs', m_pendingRequests := p'\<rparr>)" "keeps cs1 g cs' (after_delivery g bs)" "p' + length bs \<le> p1"
    by auto
  have "p1 < m_pendingRequests m"
  proof -
    have ga: "list_all2 good_answer (take (length rs) (f i)) rs" "rs \<noteq> []" using Cons.prems(2) b by auto
    then have le: "length rs \<le> length (f i)" using list_all2_lengthD[OF ga(1)] by (simp add: min_def split: if_splits)
    then have "i < n" using Cons.prems(1) ga(2) by (cases "i < n") (auto simp: waits_def)
    from sum_length_upd[of i n "length rs" f, OF this le] have "p1 + length rs = m_pendingRequests m"
      using 1(2) Cons.prems(1) by (simp add: waits_def g)
    then show ?thesis using ga(2) by (cases rs) auto
  qed
  moreover have "after_delivery f (b # bs) = after_delivery g bs" by (simp add: b g)
  ultimately show ?case using 1 2 b keeps_trans[OF 1(3) 2(3)] by (intro exI[of _ cs'] exI[of _ p']) simp
qed

subsection \<open>The transport\<close>

text \<open>A client whose queue has been sent.\<close>

definition sent :: "client \<Rightarrow> client" where
  "sent c = snd (sendQueuedMessages c)"

lemma sent_simps [simp]: "m_messageQueue (sent c) = []" "m_id (sent c) = m_id c"
  by (simp_all add: sent_def sendQueuedMessages_def)

lemma known_sent [simp]: "known ty (sent c) = known ty c" "outgoing ty (sent c) = outgoing ty c"
  by (cases ty; simp add: sent_def sendQueuedMessages_def)+

lemma matching_sent [simp]: "matching (sent c) qs = matching c qs"
  by (simp add: matching_def)

definition ready :: "('w \<Rightarrow> flights) \<Rightarrow> ('w \<Rightarrow> bool) \<Rightarrow> nat \<Rightarrow> 'w master \<Rightarrow> bool" where
  "ready flight alive n m \<longleftrightarrow> length (m_clients m) = n \<and> \<not> zmqControl m \<and> alive (world m) \<and> flight (world m) = (\<lambda>_. [])
     \<and> m_pendingRequests m = (\<Sum>i<n. length (m_messageQueue (m_clients m ! i)))
     \<and> (\<forall>i<n. matching (m_clients m ! i) (m_messageQueue (m_clients m ! i)))"

text \<open>\<open>flight\<close> tells which requests have been sent to each client's server and not been answered; \<open>alive\<close> is the
  condition under which the servers answer.\<close>

locale responsive_net =
  fixes net :: "'w net" and flight :: "'w \<Rightarrow> flights" and alive :: "'w \<Rightarrow> bool"
  assumes send: "alive w \<Longrightarrow> list_all answerable rs \<Longrightarrow>
      alive (net_send net i rs w) \<and> flight (net_send net i rs w) = (flight w)(i := flight w i @ rs)"
    and poll: "alive w \<Longrightarrow> (\<forall>i. list_all answerable (flight w i)) \<Longrightarrow> net_poll net w = (bs, w') \<Longrightarrow>
      alive w' \<and> delivery_ok (flight w) bs \<and> flight w' = after_delivery (flight w) bs \<and> ((\<exists>i. flight w i \<noteq> []) \<longrightarrow> bs \<noteq> [])"
begin

lemma wait_loop_returns:
  assumes "waits n (flight (world m)) m" and "\<not> zmqControl m" and "alive (world m)" and "m_pendingRequests m < left"
  shows "\<exists>cs' w'. wait_loop net cfg left m = Inr (m\<lparr>m_clients := cs', m_pendingRequests := 0, world := w'\<rparr>)
     \<and> waits n (\<lambda>_. []) (m\<lparr>m_clients := cs', m_pendingRequests := 0, world := w'\<rparr>) \<and> keeps (m_clients m) (flight (world m)) cs' (\<lambda>_. [])
     \<and> alive w' \<and> flight w' = (\<lambda>_. [])"
  using assms
proof (induction left arbitrary: m)
  case (Suc left)
  show ?case
  proof (cases "m_pendingRequests m = 0")
    case True
    have "flight (world m) i = []" for i using Suc.prems(1) True by (cases "i < n") (auto simp: waits_def)
    then have f: "flight (world m) = (\<lambda>_. [])" by (simp add: fun_eq_iff)
    then show ?thesis using True Suc.prems
      by (intro exI[of _ "m_clients m"] exI[of _ "world m"]) (simp add: wait_loop.simps waits_def)
  next
    case False
    obtain bs w1 where p: "net_poll net (world m) = (bs, w1)" by fastforce
    have "list_all answerable (flight (world m) i)" for i
      using Suc.prems(1) by (cases "i < n") (auto simp: waits_def matching_def)
    with poll[OF Suc.prems(3) _ p] have d: "alive w1" "delivery_ok (flight (world m)) bs" "flight w1 = after_delivery (flight (world m)) bs"
      "(\<exists>i. flight (world m) i \<noteq> []) \<longrightarrow> bs \<noteq> []" by auto
    have "\<exists>i. flight (world m) i \<noteq> []"
    proof (rule ccontr)
      assume "\<nexists>i. flight (world m) i \<noteq> []"
      then show False using False Suc.prems(1) by (simp add: waits_def)
    qed
    then have bs: "bs \<noteq> []" using d(4) by blast
    let ?m = "m\<lparr>world := w1\<rparr>"
    have "waits n (flight (world m)) ?m" using Suc.prems(1) by (simp add: waits_def)
    from poll_good[OF this d(2), of cfg] obtain cs1 p1 where
      1: "rfold (receiveAndHandleMessage cfg) bs ?m = Inr (?m\<lparr>m_clients := cs1, m_pendingRequests := p1\<rparr>)"
      "waits n (flight w1) (?m\<lparr>m_clients := cs1, m_pendingRequests := p1\<rparr>)" "keeps (m_clients m) (flight (world m)) cs1 (flight w1)"
      "p1 + length bs \<le> m_pendingRequests m" using d(3) by auto
    let ?m1 = "?m\<lparr>m_clients := cs1, m_pendingRequests := p1\<rparr>"
    have lt: "p1 < m_pendingRequests m" using 1(4) bs by (cases bs) auto
    have "wait_loop net cfg (Suc left) m = wait_loop net cfg left ?m1"
      using False Suc.prems(2,4) p 1(1) lt by (subst wait_loop.simps) (simp add: handleZmqControl_def)
    moreover have "waits n (flight (world ?m1)) ?m1" "\<not> zmqControl ?m1" "alive (world ?m1)" "m_pendingRequests ?m1 < left"
      using 1(2) Suc.prems(2,4) d(1) lt by auto
    from Suc.IH[OF this] obtain cs' w' where
      2: "wait_loop net cfg left ?m1 = Inr (m\<lparr>m_clients := cs', m_pendingRequests := 0, world := w'\<rparr>)"
      "waits n (\<lambda>_. []) (m\<lparr>m_clients := cs', m_pendingRequests := 0, world := w'\<rparr>)" "keeps cs1 (flight w1) cs' (\<lambda>_. [])" "alive w'" "flight w' = (\<lambda>_. [])"
      by auto
    ultimately show ?thesis using keeps_trans[OF 1(3) 2(3)] by auto
  qed
qed simp

lemma sends:
  assumes "ready flight alive n m" and "k \<le> n"
  shows "\<exists>w. fold (send_client net) [0..<k] m = m\<lparr>m_clients := map sent (take k (m_clients m)) @ drop k (m_clients m), world := w\<rparr>
     \<and> alive w \<and> flight w = (\<lambda>i. if i < k then m_messageQueue (m_clients m ! i) else [])"
  using assms(2)
proof (induction k)
  case 0
  then show ?case using assms(1) by (intro exI[of _ "world m"]) (simp add: ready_def)
next
  case (Suc k)
  let ?cs = "\<lambda>k. map sent (take k (m_clients m)) @ drop k (m_clients m)"
  have n: "length (m_clients m) = n" using assms(1) by (simp add: ready_def)
  obtain w where w: "fold (send_client net) [0..<k] m = m\<lparr>m_clients := ?cs k, world := w\<rparr>" "alive w"
    "flight w = (\<lambda>i. if i < k then m_messageQueue (m_clients m ! i) else [])" using Suc by auto
  have k: "?cs k ! k = m_clients m ! k" "(?cs k)[k := sent (m_clients m ! k)] = ?cs (Suc k)"
    using Suc.prems n by (auto simp: nth_append take_Suc_conv_app_nth list_update_append Cons_nth_drop_Suc[symmetric])
  show ?case
  proof (cases "m_messageQueue (m_clients m ! k) = []")
    case True
    then have "sent (m_clients m ! k) = m_clients m ! k" by (simp add: sent_def sendQueuedMessages_def)
    then have "?cs (Suc k) = ?cs k" using k by (metis list_update_id)
    moreover have "send_client net k (m\<lparr>m_clients := ?cs k, world := w\<rparr>) = m\<lparr>m_clients := ?cs k, world := w\<rparr>"
      using True k(1) by (simp add: send_client_def sendQueuedMessages_def)
    moreover have "flight w = (\<lambda>i. if i < Suc k then m_messageQueue (m_clients m ! i) else [])"
      using w(3) True by (auto simp: fun_eq_iff less_Suc_eq)
    ultimately show ?thesis using w(1,2) by (intro exI[of _ w]) simp
  next
    case False
    let ?w = "net_send net k (m_messageQueue (m_clients m ! k)) w"
    have "list_all answerable (m_messageQueue (m_clients m ! k))" using assms(1) Suc.prems by (simp add: ready_def matching_def)
    from send[OF w(2) this] have "alive ?w" "flight ?w = (\<lambda>i. if i < Suc k then m_messageQueue (m_clients m ! i) else [])"
      using w(3) by (auto simp: fun_eq_iff less_Suc_eq)
    moreover have "send_client net k (m\<lparr>m_clients := ?cs k, world := w\<rparr>) = m\<lparr>m_clients := ?cs (Suc k), world := ?w\<rparr>"
      using False k by (simp add: send_client_def sendQueuedMessages_def set_client_def sent_def)
    ultimately show ?thesis using w(1) by auto
  qed
qed

lemma wait_returns:
  assumes r: "ready flight alive n m"
  shows "\<exists>cs' w' k. wait net cfg m = Inr (m\<lparr>m_clients := cs', m_pendingRequests := 0, world := w', rendezvous := k\<rparr>)
     \<and> ready flight alive n (m\<lparr>m_clients := cs', m_pendingRequests := 0, world := w', rendezvous := k\<rparr>)
     \<and> (\<forall>i<n. m_messageQueue (cs' ! i) = []) \<and> keeps (m_clients m) (\<lambda>i. m_messageQueue (m_clients m ! i)) cs' (\<lambda>_. [])"
proof (cases "m_pendingRequests m = 0")
  case True
  then have q: "m_messageQueue (m_clients m ! i) = []" if "i < n" for i using r that by (auto simp: ready_def)
  then have "keeps (m_clients m) (\<lambda>i. m_messageQueue (m_clients m ! i)) (m_clients m) (\<lambda>_. [])" using r by (auto simp: keeps_def ready_def)
  then show ?thesis using True r q
    by (intro exI[of _ "m_clients m"] exI[of _ "world m"] exI[of _ "rendezvous m"]) (simp add: wait_def wait_loop.simps ready_def)
next
  case False
  let ?m = "m\<lparr>rendezvous := rendezvous m + 1\<rparr>" and ?q = "\<lambda>i. m_messageQueue (m_clients m ! i)"
  have n: "length (m_clients m) = n" using r by (simp add: ready_def)
  have "ready flight alive n ?m" using r by (simp add: ready_def)
  from sends[OF this order_refl] n obtain w where w: "fold (send_client net) [0..<n] ?m = ?m\<lparr>m_clients := map sent (m_clients m), world := w\<rparr>"
    "alive w" "flight w = (\<lambda>i. if i < n then ?q i else [])" by (force cong: if_cong)
  let ?m1 = "?m\<lparr>m_clients := map sent (m_clients m), world := w\<rparr>"
  have "waits n (flight (world ?m1)) ?m1" using r w(3) by (auto simp: waits_def ready_def)
  moreover have "\<not> zmqControl ?m1" "alive (world ?m1)" "m_pendingRequests ?m1 < m_pendingRequests m + 60"
    using r w(2) by (auto simp: ready_def)
  ultimately obtain cs' w' where 1: "wait_loop net cfg (m_pendingRequests m + 60) ?m1 = Inr (?m\<lparr>m_clients := cs', m_pendingRequests := 0, world := w'\<rparr>)"
    "waits n (\<lambda>_. []) (?m\<lparr>m_clients := cs', m_pendingRequests := 0, world := w'\<rparr>)"
    "keeps (map sent (m_clients m)) (flight w) cs' (\<lambda>_. [])" "alive w'" "flight w' = (\<lambda>_. [])"
    using wait_loop_returns[of n ?m1 "m_pendingRequests m + 60" cfg] by auto
  have "keeps (m_clients m) ?q cs' (\<lambda>_. [])" using 1(3) w(3) n by (auto simp: keeps_def comp_def subset_iff)
  then show ?thesis using 1 w(1) False r n
    by (intro exI[of _ cs'] exI[of _ w'] exI[of _ "rendezvous m + 1"]) (simp add: wait_def Let_def ready_def waits_def)
qed

end

end
