(* ===== verification/Master_Progress.thy ===== *)
theory Master_Progress
  imports Strong_Master Master_Wait
begin

text \<open>
  An iteration of the master returns. Under the law of the transport (\<open>responsive_net\<close>), for weak
  connections whose conversions cannot fail and without kinematic FMUs, the batches of the scheduler all
  succeed: every value a batch needs has arrived when its inputs are computed, and the requests that are queued fit
  the clients. So the scheduler, which moves at least one FMU per batch, runs through all FMUs.
\<close>

subsection \<open>Asking for values\<close>

text \<open>\<open>asks\<close>: a client has been told of more references to ask for; \<open>covers\<close>: it will ask for all of \<open>refs\<close>, or, where
  cached values are used, knows them.\<close>

definition asks :: "client \<Rightarrow> client \<Rightarrow> bool" where
  "asks c c' \<longleftrightarrow> m_id c' = m_id c \<and> m_messageQueue c' = m_messageQueue c \<and> m_reals c' = m_reals c \<and> m_outputs c' = m_outputs c
     \<and> (\<forall>ty. known ty c' = known ty c \<and> set (outgoing ty c) \<subseteq> set (outgoing ty c'))"

definition covers :: "bool \<Rightarrow> SendGetXType \<Rightarrow> client \<Rightarrow> bool" where
  "covers dbg refs c \<longleftrightarrow> (\<forall>ty vrs. refs ty = Some vrs \<longrightarrow> set vrs \<subseteq> (if dbg then known ty c else {}) \<union> set (outgoing ty c))"

lemma asks_refl [simp]: "asks c c"
  by (simp add: asks_def)

lemma asks_trans: "asks c c' \<Longrightarrow> asks c' c'' \<Longrightarrow> asks c c''"
  unfolding asks_def by (metis subset_trans)

lemma covers_asks: "covers dbg refs c \<Longrightarrow> asks c c' \<Longrightarrow> covers dbg refs c'"
  unfolding covers_def asks_def by (metis (no_types, lifting) Un_mono order_refl subset_trans)

lemma queueFoo_set: "set (queueFoo dbg vrs values out) = set out \<union> (set vrs - (if dbg then dom values else {}))"
  by (auto simp: queueFoo_def)

lemma queueX_type_total:
  assumes "ty = fmi2_base_type_enum \<Longrightarrow> refs ty = None"
  shows "\<exists>c'. queueX_type dbg refs ty c = Inr c' \<and> asks c c' \<and> (\<forall>vrs. refs ty = Some vrs \<longrightarrow> set vrs \<subseteq> (if dbg then known ty c' else {}) \<union> set (outgoing ty c'))"
proof (cases "refs ty")
  case (Some vrs)
  then show ?thesis using assms
    by (cases ty) (auto simp: queueX_type_def asks_def other_types queueFoo_set queueReals_def queueInts_def queueBools_def queueStrings_def)
qed (simp add: queueX_type_def)

lemma queueX_total:
  assumes "refs fmi2_base_type_enum = None"
  shows "\<exists>c'. queueX dbg refs c = Inr c' \<and> asks c c' \<and> covers dbg refs c'"
proof -
  have "\<exists>c'. rfold (queueX_type dbg refs) tys c = Inr c' \<and> asks c c'
     \<and> (\<forall>ty\<in>set tys. \<forall>vrs. refs ty = Some vrs \<longrightarrow> set vrs \<subseteq> (if dbg then known ty c' else {}) \<union> set (outgoing ty c'))" for tys
  proof (induction tys arbitrary: c)
    case (Cons ty tys)
    obtain c1 where 1: "queueX_type dbg refs ty c = Inr c1" "asks c c1"
      "\<forall>vrs. refs ty = Some vrs \<longrightarrow> set vrs \<subseteq> (if dbg then known ty c1 else {}) \<union> set (outgoing ty c1)"
      using queueX_type_total[of ty refs dbg c] assms by auto
    obtain c2 where 2: "rfold (queueX_type dbg refs) tys c1 = Inr c2" "asks c1 c2"
      "\<forall>ty\<in>set tys. \<forall>vrs. refs ty = Some vrs \<longrightarrow> set vrs \<subseteq> (if dbg then known ty c2 else {}) \<union> set (outgoing ty c2)"
      using Cons.IH by blast
    have "\<forall>vrs. refs ty = Some vrs \<longrightarrow> set vrs \<subseteq> (if dbg then known ty c2 else {}) \<union> set (outgoing ty c2)" using 1(3) 2(2) unfolding asks_def by (metis (no_types, lifting) Un_mono order_refl subset_trans)
    then show ?case using 1(1) 2 asks_trans[OF 1(2) 2(2)] by auto
  qed simp
  from this[of all_base_types] show ?thesis by (simp add: queueX_def covers_def all_base_types)
qed

lemma queueX_refs_total:
  assumes "\<forall>j r. refs j = Some r \<longrightarrow> r fmi2_base_type_enum = None"
  shows "\<exists>cs'. queueX_refs cfg refs m = Inr (m\<lparr>m_clients := cs'\<rparr>) \<and> length cs' = length (m_clients m)
     \<and> (\<forall>j < length (m_clients m). asks (m_clients m ! j) (cs' ! j) \<and> (\<forall>r. refs j = Some r \<longrightarrow> covers (DEBUG cfg) r (cs' ! j)))"
proof -
  have "k \<le> length (m_clients m) \<Longrightarrow>
    \<exists>cs'. rfold (\<lambda>i m. case refs i of None \<Rightarrow> Inr m | Some r \<Rightarrow> master_queueX cfg i r m) [0..<k] m = Inr (m\<lparr>m_clients := cs'\<rparr>)
     \<and> length cs' = length (m_clients m) \<and> (\<forall>j\<ge>k. cs' ! j = m_clients m ! j)
     \<and> (\<forall>j<k. asks (m_clients m ! j) (cs' ! j) \<and> (\<forall>r. refs j = Some r \<longrightarrow> covers (DEBUG cfg) r (cs' ! j)))" for k
  proof (induction k)
    case 0
    then show ?case by (intro exI[of _ "m_clients m"]) simp
  next
    case (Suc k)
    then obtain cs1 where 1: "rfold (\<lambda>i m. case refs i of None \<Rightarrow> Inr m | Some r \<Rightarrow> master_queueX cfg i r m) [0..<k] m = Inr (m\<lparr>m_clients := cs1\<rparr>)"
      "length cs1 = length (m_clients m)" "\<forall>j\<ge>k. cs1 ! j = m_clients m ! j"
      "\<forall>j<k. asks (m_clients m ! j) (cs1 ! j) \<and> (\<forall>r. refs j = Some r \<longrightarrow> covers (DEBUG cfg) r (cs1 ! j))" by auto
    show ?case
    proof (cases "refs k")
      case None
      then show ?thesis using 1 by (intro exI[of _ cs1]) (auto simp: rfold_append less_Suc_eq)
    next
      case (Some r)
      obtain c' where c': "queueX (DEBUG cfg) r (cs1 ! k) = Inr c'" "asks (cs1 ! k) c'" "covers (DEBUG cfg) r c'"
        using queueX_total[of r "DEBUG cfg" "cs1 ! k"] assms[rule_format, OF Some] by auto
      then show ?thesis using 1 Some Suc.prems
        by (intro exI[of _ "cs1[k := c']"]) (auto simp: rfold_append master_queueX_def set_client_def less_Suc_eq nth_list_update)
    qed
  qed
  from this[OF order_refl] show ?thesis unfolding queueX_refs_def by blast
qed

definition refs_queueable :: "'w smaster \<Rightarrow> bool" where
  "refs_queueable m \<longleftrightarrow> (\<forall>i j r. clientGetXs m i j = Some r \<longrightarrow> r fmi2_base_type_enum = None)"

lemma queue_inputs_total:
  assumes "refs_queueable m"
  shows "\<exists>cs'. queue_inputs cfg S m = Inr (m\<lparr>base := (base m)\<lparr>m_clients := cs'\<rparr>\<rparr>) \<and> length cs' = length (clients_of m)
     \<and> (\<forall>j < length (clients_of m). asks (clients_of m ! j) (cs' ! j) \<and> (\<forall>i\<in>set S. \<forall>r. clientGetXs m i j = Some r \<longrightarrow> covers (DEBUG cfg) r (cs' ! j)))"
  using assms
proof (induction S arbitrary: m)
  case Nil
  then show ?case by (intro exI[of _ "clients_of m"]) (simp add: queue_inputs_def)
next
  case (Cons i S)
  obtain cs1 where 1: "queueX_refs cfg (clientGetXs m i) (base m) = Inr ((base m)\<lparr>m_clients := cs1\<rparr>)" "length cs1 = length (clients_of m)"
    "\<forall>j < length (clients_of m). asks (clients_of m ! j) (cs1 ! j) \<and> (\<forall>r. clientGetXs m i j = Some r \<longrightarrow> covers (DEBUG cfg) r (cs1 ! j))"
    using queueX_refs_total[of "clientGetXs m i" cfg "base m"] Cons.prems by (auto simp: refs_queueable_def)
  let ?m = "m\<lparr>base := (base m)\<lparr>m_clients := cs1\<rparr>\<rparr>"
  have "refs_queueable ?m" using Cons.prems by (simp add: refs_queueable_def)
  from Cons.IH[OF this] 1(2) obtain cs2 where 2: "queue_inputs cfg S ?m = Inr (m\<lparr>base := (base m)\<lparr>m_clients := cs2\<rparr>\<rparr>)" "length cs2 = length (clients_of m)"
    "\<forall>j < length (clients_of m). asks (cs1 ! j) (cs2 ! j) \<and> (\<forall>i\<in>set S. \<forall>r. clientGetXs m i j = Some r \<longrightarrow> covers (DEBUG cfg) r (cs2 ! j))" by auto
  have "on_base_res (queueX_refs cfg (clientGetXs m i)) m = Inr ?m" using 1(1) by (simp add: on_base_res_def)
  then have "queue_inputs cfg (i # S) m = Inr (m\<lparr>base := (base m)\<lparr>m_clients := cs2\<rparr>\<rparr>)" using 2(1) by (simp add: queue_inputs_def)
  moreover have "asks (clients_of m ! j) (cs2 ! j) \<and> (\<forall>i'\<in>set (i # S). \<forall>r. clientGetXs m i' j = Some r \<longrightarrow> covers (DEBUG cfg) r (cs2 ! j))"
    if "j < length (clients_of m)" for j
  proof -
    have a: "asks (clients_of m ! j) (cs1 ! j)" "asks (cs1 ! j) (cs2 ! j)" using 1(3) 2(3) that by auto
    have "covers (DEBUG cfg) r (cs2 ! j)" if "i' \<in> set (i # S)" "clientGetXs m i' j = Some r" for i' r
      using that 1(3) 2(3) \<open>j < length (clients_of m)\<close> covers_asks[OF _ a(2)] by auto
    then show ?thesis using asks_trans[OF a] by blast
  qed
  ultimately show ?case using 2(2) by blast
qed

subsection \<open>Fetching values\<close>

definition asking :: "client \<Rightarrow> client" where
  "asking c = c\<lparr>m_messageQueue := m_messageQueue c @ value_requests c\<rparr>"

lemma asking_simps [simp]:
  "m_messageQueue (asking c) = m_messageQueue c @ value_requests c" "m_id (asking c) = m_id c"
  by (simp_all add: asking_def)

lemma known_asking [simp]: "known ty (asking c) = known ty c" "outgoing ty (asking c) = outgoing ty c"
  by (cases ty; simp add: asking_def)+

lemma queue_at_asking:
  "\<exists>tr. queue_at k client_queueValueRequests m = m\<lparr>m_clients := (m_clients m)[k := asking (m_clients m ! k)],
     m_pendingRequests := m_pendingRequests m + length (value_requests (m_clients m ! k)), trace := tr\<rparr>"
  by (rule exI[of _ "trace (queue_at k client_queueValueRequests m)"])
     (simp add: queue_at_def note_queued_def set_pclient_def get_pclient_def client_queueValueRequests_eq asking_def)

lemma queueValueRequests_eq:
  "\<exists>tr. queueValueRequests m = m\<lparr>m_clients := map asking (m_clients m),
     m_pendingRequests := m_pendingRequests m + (\<Sum>i < length (m_clients m). length (value_requests (m_clients m ! i))), trace := tr\<rparr>"
proof -
  let ?cs = "\<lambda>k. map asking (take k (m_clients m)) @ drop k (m_clients m)"
  have "k \<le> length (m_clients m) \<Longrightarrow>
    \<exists>tr. fold (\<lambda>i. queue_at i client_queueValueRequests) [0..<k] m = m\<lparr>m_clients := ?cs k,
      m_pendingRequests := m_pendingRequests m + (\<Sum>i<k. length (value_requests (m_clients m ! i))), trace := tr\<rparr>" for k
  proof (induction k)
    case 0
    then show ?case by (intro exI[of _ "trace m"]) simp
  next
    case (Suc k)
    then obtain tr where 1: "fold (\<lambda>i. queue_at i client_queueValueRequests) [0..<k] m = m\<lparr>m_clients := ?cs k,
      m_pendingRequests := m_pendingRequests m + (\<Sum>i<k. length (value_requests (m_clients m ! i))), trace := tr\<rparr>" by auto
    have "?cs k ! k = m_clients m ! k" "(?cs k)[k := asking (m_clients m ! k)] = ?cs (Suc k)"
      using Suc.prems by (auto simp: nth_append take_Suc_conv_app_nth list_update_append Cons_nth_drop_Suc[symmetric])
    then show ?case using 1 queue_at_asking[of k "fold (\<lambda>i. queue_at i client_queueValueRequests) [0..<k] m"]
      by (auto simp: add.assoc)
  qed
  from this[OF order_refl] show ?thesis by (simp add: queueValueRequests_def)
qed

lemma value_requests_gets: "q \<in> set (value_requests c) \<Longrightarrow> is_get q \<and> answerable q \<and> (\<forall>ty vrs. get_req ty vrs = Some q \<longrightarrow> vrs = outgoing ty c)"
  by (auto simp: value_requests_def is_get_def get_req_iff split: if_splits)

lemma value_requests_distinct: "distinct (map request_type (value_requests c))"
  by (simp add: value_requests_def)

lemma asked_value_requests: "asked ty (value_requests c) = set (outgoing ty c)"
  by (cases ty) (auto simp: asked_def value_requests_def is_size_def split: if_splits)

definition plain :: "client \<Rightarrow> bool" where
  "plain c \<longleftrightarrow> (\<forall>q\<in>set (m_messageQueue c). answerable q \<and> \<not> is_get q)"

lemma get_req_get: "get_req ty vrs = Some q \<Longrightarrow> is_get q"
  by (cases ty) (auto simp: is_get_def)

lemma plain_matching: "plain c \<Longrightarrow> matching c' (m_messageQueue c)"
  by (auto simp: plain_def matching_def list_all_iff filter_empty_conv dest: get_req_get)

lemma asking_matching:
  assumes "plain c"
  shows "matching (asking c) (m_messageQueue c @ value_requests c)"
proof -
  have "filter is_get (m_messageQueue c) = []" "filter is_get (value_requests c) = value_requests c"
    using assms value_requests_gets by (auto simp: plain_def filter_empty_conv filter_id_conv)
  then show ?thesis
    using assms value_requests_gets value_requests_distinct[of c]
    by (auto simp: matching_def plain_def list_all_iff dest: get_req_get)
qed

context responsive_net
begin

lemma request_values:
  assumes r: "ready flight alive n (base m)" and p: "\<forall>i<n. plain (clients_of m ! i)"
  shows "\<exists>cs' w k tr. on_base_res (wait net cfg) (on_base queueValueRequests m)
       = Inr (m\<lparr>base := (base m)\<lparr>m_clients := cs', m_pendingRequests := 0, world := w, rendezvous := k, trace := tr\<rparr>\<rparr>)
     \<and> ready flight alive n ((base m)\<lparr>m_clients := cs', m_pendingRequests := 0, world := w, rendezvous := k, trace := tr\<rparr>)
     \<and> (\<forall>i<n. m_messageQueue (cs' ! i) = []) \<and> map m_id cs' = map m_id (clients_of m)
     \<and> (\<forall>i<n. \<forall>ty. known ty (clients_of m ! i) \<union> set (outgoing ty (clients_of m ! i)) \<subseteq> known ty (cs' ! i))"
proof -
  let ?b = "base m"
  have n: "length (clients_of m) = n" using r by (simp add: ready_def)
  obtain tr where tr: "queueValueRequests ?b = ?b\<lparr>m_clients := map asking (m_clients ?b),
     m_pendingRequests := m_pendingRequests ?b + (\<Sum>i < length (m_clients ?b). length (value_requests (m_clients ?b ! i))), trace := tr\<rparr>"
    using queueValueRequests_eq by blast
  let ?b1 = "queueValueRequests ?b"
  have "ready flight alive n ?b1" using r p n by (simp add: tr ready_def asking_matching sum.distrib)
  from wait_returns[OF this, of cfg] obtain cs' w k where
    1: "wait net cfg ?b1 = Inr (?b1\<lparr>m_clients := cs', m_pendingRequests := 0, world := w, rendezvous := k\<rparr>)"
    "ready flight alive n (?b1\<lparr>m_clients := cs', m_pendingRequests := 0, world := w, rendezvous := k\<rparr>)"
    "\<forall>i<n. m_messageQueue (cs' ! i) = []" "keeps (m_clients ?b1) (\<lambda>i. m_messageQueue (m_clients ?b1 ! i)) cs' (\<lambda>_. [])" by auto
  have known: "known ty (clients_of m ! i) \<union> set (outgoing ty (clients_of m ! i)) \<subseteq> known ty (cs' ! i)" if "i < n" for i ty
    using 1(4) that n by (auto simp: keeps_def tr asked_value_requests)
  have ids: "map m_id cs' = map m_id (clients_of m)" using 1(4) by (simp add: keeps_def tr comp_def)
  show ?thesis using 1(1,2,3) known ids
    by (intro exI[of _ cs'] exI[of _ w] exI[of _ k] exI[of _ tr]) (simp add: on_base_res_def on_base_def tr ready_def)
qed

end

subsection \<open>Computing inputs\<close>

text \<open>Connections whose conversion never stops the program.\<close>

definition safe_connection :: "WeakConnection \<Rightarrow> bool" where
  "safe_connection wc \<longleftrightarrow>
     (case fromType wc of
        fmi2_base_type_real \<Rightarrow> toType wc = fmi2_base_type_real \<or> toType wc = fmi2_base_type_bool
      | fmi2_base_type_int \<Rightarrow> toType wc = fmi2_base_type_real \<or> toType wc = fmi2_base_type_bool
          \<or> toType wc = fmi2_base_type_int \<and> slope wc = 1 \<and> intercept wc = 0
      | fmi2_base_type_bool \<Rightarrow> toType wc = fmi2_base_type_real \<or> toType wc = fmi2_base_type_bool \<and> slope wc = 1 \<and> intercept wc = 0
      | fmi2_base_type_str \<Rightarrow> toType wc = fmi2_base_type_str
      | fmi2_base_type_enum \<Rightarrow> False)"

lemma add_input_total:
  assumes "safe_connection wc" and "fromOutputVR wc \<in> known (fromType wc) (clients ! fromFMU wc)"
  shows "\<exists>t'. add_input clients wc t = Inr t'"
  using assms
  by (cases "fromType wc"; cases "toType wc") (auto simp: safe_connection_def add_input_def check_def convert_defs)

definition complex_ok :: "client list \<Rightarrow> int_set \<Rightarrow> WeakConnection list \<Rightarrow> bool" where
  "complex_ok cs cset wcs \<longleftrightarrow> (\<forall>wc\<in>set wcs. safe_connection wc
     \<and> (m_id (cs ! toFMU wc) \<in> set cset \<longrightarrow> fromOutputVR wc \<in> known (fromType wc) (cs ! fromFMU wc)))"

lemma inputs_total:
  assumes "complex_ok cs cset wcs"
  shows "\<exists>rv'. getInputWeakRefsAndValues_into cs wcs cset rv = Inr rv'"
  unfolding getInputWeakRefsAndValues_into_def getInputWeakRefsAndValues_inner_def
  using assms
proof (induction wcs arbitrary: rv)
  case (Cons wc wcs)
  have "\<exists>rv1. inputs_step cs True cset wc rv = Inr rv1"
  proof (cases "m_id (cs ! toFMU wc) \<in> set cset")
    case True
    then obtain t where "add_input cs wc (lookup_input rv (toFMU wc)) = Inr t"
      using add_input_total[of wc cs] Cons.prems by (auto simp: complex_ok_def)
    then show ?thesis by (simp add: inputs_step_def)
  qed (simp add: inputs_step_def)
  then obtain rv1 where rv1: "inputs_step cs True cset wc rv = Inr rv1" ..
  have "complex_ok cs cset wcs" using Cons.prems by (simp add: complex_ok_def)
  from Cons.IH[OF this, of rv1] rv1 show ?case by simp
qed simp

text \<open>The fast path: lengths agree, and the clients only come to know more.\<close>

definition knows_more :: "client \<Rightarrow> client \<Rightarrow> bool" where
  "knows_more c c' \<longleftrightarrow> m_id c' = m_id c \<and> m_messageQueue c' = m_messageQueue c \<and> (\<forall>ty. known ty c \<subseteq> known ty c')"

lemma knows_more_refl [simp]: "knows_more c c"
  by (simp add: knows_more_def)

lemma knows_more_trans: "knows_more c c' \<Longrightarrow> knows_more c' c'' \<Longrightarrow> knows_more c c''"
  unfolding knows_more_def by (metis subset_trans)

lemma real_at_more: "real_at s cs = (x, cs') \<Longrightarrow> length cs' = length cs \<and> (\<forall>j. knows_more (cs ! j) (cs' ! j))"
proof -
  assume a: "real_at s cs = (x, cs')"
  obtain vr i where s: "s = (vr, i)" by fastforce
  have "knows_more (cs ! i) ((cs ! i)\<lparr>m_reals := (m_reals (cs ! i))(vr \<mapsto> 0)\<rparr>)"
    by (auto simp: knows_more_def other_types)
  then have "\<forall>j. knows_more (cs ! j) (cs[i := (cs ! i)\<lparr>m_reals := (m_reals (cs ! i))(vr \<mapsto> 0)\<rparr>] ! j)"
    by (cases "i < length cs") (auto simp: nth_list_update list_update_beyond)
  then show ?thesis using a s by (auto simp: real_at_def split: option.splits)
qed

lemma reals_at_more:
  "reals_at ss cs = (xs, cs') \<Longrightarrow> length xs = length ss \<and> length cs' = length cs \<and> (\<forall>j. knows_more (cs ! j) (cs' ! j))"
proof (induction ss arbitrary: cs xs cs')
  case (Cons s ss)
  obtain x cs1 where 1: "real_at s cs = (x, cs1)" by fastforce
  obtain ys cs2 where 2: "reals_at ss cs1 = (ys, cs2)" by fastforce
  then have "xs = x # ys" "cs' = cs2" using Cons.prems 1 by (auto simp: Let_def)
  then show ?case using real_at_more[OF 1] Cons.IH[OF 2] by (auto intro: knows_more_trans)
qed simp

text \<open>The part of the master the batches only read.\<close>

definition simple_aligned :: "'w smaster \<Rightarrow> bool" where
  "simple_aligned m \<longleftrightarrow> (\<forall>i ss. m_simpleConnections m i = Some ss \<longrightarrow> (\<exists>vrs. m_simpleInputsVRs m i = Some vrs \<and> length vrs = length ss))"

lemma length_resize [simp]: "length (resize n xs) = n"
  by (simp add: resize_def)

lemma init_simple_total:
  assumes "shapes_ok (m_refValues m)" and "simple_aligned m"
  shows "\<exists>cs' rv'. init_simple cset i m = m\<lparr>base := (base m)\<lparr>m_clients := cs'\<rparr>, m_refValues := rv'\<rparr> \<and> shapes_ok rv'
     \<and> length cs' = length (clients_of m) \<and> (\<forall>j. knows_more (clients_of m ! j) (cs' ! j))"
proof (cases "m_simpleConnections m i = None \<or> is_count cset (m_id (clients_of m ! i)) = 0")
  case True
  then have "init_simple cset i m = m" by (auto simp: init_simple_def split: option.splits)
  then show ?thesis using assms(1) by (intro exI[of _ "clients_of m"] exI[of _ "m_refValues m"]) simp
next
  case False
  then obtain ss where ss: "m_simpleConnections m i = Some ss" by auto
  obtain vrs where vrs: "m_simpleInputsVRs m i = Some vrs" "length vrs = length ss" using assms(2) ss by (auto simp: simple_aligned_def)
  obtain xs cs' where r: "reals_at ss (clients_of m) = (xs, cs')" by fastforce
  let ?t = "lookup_input (m_refValues m) i"
  let ?t' = "?t\<lparr>real_vrs := (if real_vrs ?t = [] then vrs else resize (length ss) (real_vrs ?t)), reals := xs\<rparr>"
  have "init_simple cset i m = m\<lparr>base := (base m)\<lparr>m_clients := cs'\<rparr>, m_refValues := (m_refValues m)(i \<mapsto> ?t')\<rparr>"
    using False ss vrs(1) r by (simp add: init_simple_def Let_def)
  moreover have "shape_ok ?t'" using shapes_ok_lookup[OF assms(1), of i] reals_at_more[OF r] vrs(2) by (simp add: shape_ok_def)
  then have "shapes_ok ((m_refValues m)(i \<mapsto> ?t'))" using assms(1) unfolding shapes_ok_def by (metis fun_upd_apply option.inject)
  ultimately show ?thesis using reals_at_more[OF r]
    by (intro exI[of _ cs'] exI[of _ "(m_refValues m)(i \<mapsto> ?t')"]) simp
qed

lemma initRefValues_total:
  assumes "shapes_ok (m_refValues m)" and "simple_aligned m"
  shows "\<exists>cs' rv'. initRefValues cset m = m\<lparr>base := (base m)\<lparr>m_clients := cs'\<rparr>, m_refValues := rv'\<rparr> \<and> shapes_ok rv'
     \<and> length cs' = length (clients_of m) \<and> (\<forall>j. knows_more (clients_of m ! j) (cs' ! j))"
proof -
  let ?rv = "\<lambda>i. map_option (clear_values (is_count cset (m_id (clients_of m ! i)) \<noteq> 0)) (m_refValues m i)"
  have "shape_ok (clear_values b t)" if "shape_ok t" for b t using that by (auto simp: shape_ok_def clear_values_def Let_def)
  then have "shapes_ok ?rv" using assms(1) by (auto simp: shapes_ok_def)
  then have "shapes_ok (m_refValues (m\<lparr>m_refValues := ?rv\<rparr>))" "simple_aligned (m\<lparr>m_refValues := ?rv\<rparr>)"
    using assms(2) by (auto simp: simple_aligned_def)
  moreover have "\<exists>cs' rv'. fold (init_simple cset) is m = m\<lparr>base := (base m)\<lparr>m_clients := cs'\<rparr>, m_refValues := rv'\<rparr> \<and> shapes_ok rv'
     \<and> length cs' = length (clients_of m) \<and> (\<forall>j. knows_more (clients_of m ! j) (cs' ! j))"
    if "shapes_ok (m_refValues m)" "simple_aligned m" for "is" and m :: "'w smaster"
    using that
  proof (induction "is" arbitrary: m)
    case Nil
    then show ?case by (intro exI[of _ "clients_of m"] exI[of _ "m_refValues m"]) simp
  next
    case (Cons i "is")
    obtain cs1 rv1 where 1: "init_simple cset i m = m\<lparr>base := (base m)\<lparr>m_clients := cs1\<rparr>, m_refValues := rv1\<rparr>" "shapes_ok rv1"
      "length cs1 = length (clients_of m)" "\<forall>j. knows_more (clients_of m ! j) (cs1 ! j)" using init_simple_total[OF Cons.prems] by blast
    let ?m = "m\<lparr>base := (base m)\<lparr>m_clients := cs1\<rparr>, m_refValues := rv1\<rparr>"
    have "shapes_ok (m_refValues ?m)" "simple_aligned ?m" using 1(2) Cons.prems(2) by (auto simp: simple_aligned_def)
    from Cons.IH[OF this] obtain cs2 rv2 where 2: "fold (init_simple cset) is ?m = m\<lparr>base := (base m)\<lparr>m_clients := cs2\<rparr>, m_refValues := rv2\<rparr>"
      "shapes_ok rv2" "length cs2 = length cs1" "\<forall>j. knows_more (cs1 ! j) (cs2 ! j)" by auto
    have "\<forall>j. knows_more (clients_of m ! j) (cs2 ! j)" using 1(4) 2(4) knows_more_trans by blast
    then show ?case using 1(1,3) 2(1,2,3) by (intro exI[of _ cs2] exI[of _ rv2]) simp
  qed
  from this[of "m\<lparr>m_refValues := ?rv\<rparr>" "[0..<length (clients_of m)]", OF calculation] obtain cs' rv' where
    "fold (init_simple cset) [0..<length (clients_of m)] (m\<lparr>m_refValues := ?rv\<rparr>) = m\<lparr>base := (base m)\<lparr>m_clients := cs'\<rparr>, m_refValues := rv'\<rparr>"
    "shapes_ok rv'" "length cs' = length (clients_of m)" "\<forall>j. knows_more (clients_of m ! j) (cs' ! j)" by auto
  then show ?thesis unfolding initRefValues_def by (intro exI[of _ cs'] exI[of _ rv']) simp
qed

subsection \<open>A batch succeeds\<close>

text \<open>The rends are accepted and the connections fit the FMUs, and the value of every connection that needs a conversion is among those its FMU asks for.\<close>

definition wired :: "nat \<Rightarrow> 'w smaster \<Rightarrow> bool" where
  "wired n m \<longleftrightarrow> checkRends n (rends m) = Inr (clientrend m) \<and> topo_rends (rends m) \<and> kins m = [] \<and> refs_queueable m \<and> simple_aligned m
     \<and> (\<forall>wc\<in>set (m_complexConnections m). safe_connection wc \<and> toFMU wc < n \<and> fromFMU wc < n
          \<and> (\<exists>r vrs. clientGetXs m (int (toFMU wc)) (fromFMU wc) = Some r \<and> r (fromType wc) = Some vrs \<and> fromOutputVR wc \<in> set vrs))"

lemma wired_updates [simp]:
  "wired n (m\<lparr>base := b\<rparr>) = wired n m" "wired n (m\<lparr>m_refValues := rv\<rparr>) = wired n m"
  by (simp_all add: wired_def refs_queueable_def simple_aligned_def)

definition good :: "('w \<Rightarrow> flights) \<Rightarrow> ('w \<Rightarrow> bool) \<Rightarrow> nat \<Rightarrow> 'w smaster \<Rightarrow> bool" where
  "good flight alive n m \<longleftrightarrow> ready flight alive n (base m) \<and> (\<forall>i<n. plain (clients_of m ! i)) \<and> map m_id (clients_of m) = map int [0..<n]
     \<and> shapes_ok (m_refValues m) \<and> wired n m"

lemma good_length: "good flight alive n m \<Longrightarrow> length (clients_of m) = n"
  by (simp add: good_def ready_def)

lemma good_clients:
  assumes "good flight alive n m" and "length cs' = n" and "shapes_ok rv'"
    and "\<forall>j<n. m_messageQueue (cs' ! j) = m_messageQueue (clients_of m ! j) \<and> m_id (cs' ! j) = m_id (clients_of m ! j)"
  shows "good flight alive n (m\<lparr>base := (base m)\<lparr>m_clients := cs'\<rparr>, m_refValues := rv'\<rparr>)"
proof -
  have p: "\<forall>j<n. plain (cs' ! j)" using assms(1,4) unfolding good_def plain_def by metis
  have "map m_id cs' = map m_id (clients_of m)" using assms(2,4) good_length[OF assms(1)] by (auto intro: nth_equalityI)
  moreover have "\<forall>j<n. matching (cs' ! j) (m_messageQueue (cs' ! j))" using p plain_matching by blast
  then have "ready flight alive n ((base m)\<lparr>m_clients := cs'\<rparr>)"
    using assms(1,2,4) by (simp add: good_def ready_def)
  ultimately show ?thesis using assms(1,3) p by (simp add: good_def)
qed

lemma good_queue:
  assumes g: "good flight alive n m" and i: "i < n" and rs: "\<forall>q\<in>set rs. answerable q \<and> \<not> is_get q"
  shows "good flight alive n (m\<lparr>base := (base m)\<lparr>m_clients := (clients_of m)[i := (clients_of m ! i)\<lparr>m_messageQueue := m_messageQueue (clients_of m ! i) @ rs\<rparr>],
     m_pendingRequests := m_pendingRequests (base m) + length rs, trace := tr\<rparr>\<rparr>)"
proof -
  let ?c = "(clients_of m ! i)\<lparr>m_messageQueue := m_messageQueue (clients_of m ! i) @ rs\<rparr>"
  let ?cs = "(clients_of m)[i := ?c]"
  have n: "length (clients_of m) = n" using good_length[OF g] .
  have "plain ?c" using g i rs by (auto simp: good_def plain_def)
  then have p: "\<forall>j<n. plain (?cs ! j)" using g n i by (simp add: good_def nth_list_update)
  have "(\<Sum>j<n. length (m_messageQueue (?cs ! j))) = (\<Sum>j<n. length (m_messageQueue (clients_of m ! j)) + (if j = i then length rs else 0))"
    using n by (intro sum.cong) (auto simp: nth_list_update)
  also have "\<dots> = (\<Sum>j<n. length (m_messageQueue (clients_of m ! j))) + length rs" using i by (simp add: sum.distrib)
  finally have "ready flight alive n ((base m)\<lparr>m_clients := ?cs, m_pendingRequests := m_pendingRequests (base m) + length rs, trace := tr\<rparr>)"
    using g p plain_matching n by (simp add: good_def ready_def)
  moreover have "map m_id ?cs = map m_id (clients_of m)" by (simp add: list_update_map_id)
  ultimately show ?thesis using g p by (simp add: good_def)
qed

lemma fill_inputs_total:
  assumes "shapes_ok (m_refValues m)" and "simple_aligned m" and "complex_ok (clients_of m) S (m_complexConnections m)"
  shows "\<exists>cs' rv'. fill_inputs S m = Inr (m\<lparr>base := (base m)\<lparr>m_clients := cs'\<rparr>, m_refValues := rv'\<rparr>) \<and> shapes_ok rv'
     \<and> length cs' = length (clients_of m) \<and> (\<forall>j. knows_more (clients_of m ! j) (cs' ! j))"
proof -
  obtain cs' rv1 where 1: "initRefValues S m = m\<lparr>base := (base m)\<lparr>m_clients := cs'\<rparr>, m_refValues := rv1\<rparr>" "shapes_ok rv1"
    "length cs' = length (clients_of m)" "\<forall>j. knows_more (clients_of m ! j) (cs' ! j)"
    using initRefValues_total[OF assms(1,2)] by blast
  have "complex_ok cs' S (m_complexConnections m)" using assms(3) 1(4) unfolding complex_ok_def knows_more_def by (metis subsetD)
  then obtain rv' where 2: "getInputWeakRefsAndValues_into cs' (m_complexConnections m) S rv1 = Inr rv'" using inputs_total by blast
  then have "shapes_ok rv'" using inputs_shape 1(2) unfolding getInputWeakRefsAndValues_into_def by blast
  then show ?thesis using 1 2 by (intro exI[of _ cs'] exI[of _ rv']) (simp add: fill_inputs_def)
qed

lemma setX_requests_plain: "shape_ok t \<Longrightarrow> q \<in> set (setX_requests t) \<Longrightarrow> answerable q \<and> \<not> is_get q"
  by (auto simp: setX_requests_def shape_ok_def is_get_def split: if_splits)

lemma sendSetX_total:
  assumes "shape_ok t"
  shows "\<exists>tr. master_sendSetX i t b = Inr (b\<lparr>m_clients := (m_clients b)[i := (m_clients b ! i)\<lparr>m_messageQueue := m_messageQueue (m_clients b ! i) @ setX_requests t\<rparr>],
     m_pendingRequests := m_pendingRequests b + length (setX_requests t), trace := tr\<rparr>)"
proof -
  obtain pc where pc: "sendSetX t (m_pendingRequests b, m_clients b ! i) = Inr pc" using sendSetX_ok[OF assms] by blast
  show ?thesis using sendSetX_eq[OF pc] pc
    by (intro exI[of _ "trace (note_queued i b (set_pclient i pc b))"])
       (simp add: master_sendSetX_def get_pclient_def note_queued_def set_pclient_def)
qed

lemma queueMessage_total:
  "\<exists>tr. master_queueMessage i q b = b\<lparr>m_clients := (m_clients b)[i := (m_clients b ! i)\<lparr>m_messageQueue := m_messageQueue (m_clients b ! i) @ [q]\<rparr>],
     m_pendingRequests := m_pendingRequests b + length [q], trace := tr\<rparr>"
  by (rule exI[of _ "trace (master_queueMessage i q b)"])
     (simp add: master_queueMessage_def queue_at_def note_queued_def set_pclient_def get_pclient_def queueMessage_def)

lemma send_and_step_total:
  assumes g: "good flight alive n m" and i: "i \<in> {0..<int n}"
  shows "\<exists>m'. send_and_step t dt i m = Inr m' \<and> good flight alive n m'"
proof -
  let ?t = "lookup_input (m_refValues m) (nat i)"
  have sh: "shape_ok ?t" using g shapes_ok_lookup by (auto simp: good_def)
  have i': "nat i < n" using i by auto
  obtain m1 where 1: "on_base_res (master_sendSetX (nat i) ?t) m = Inr m1" "good flight alive n m1"
    using sendSetX_total[OF sh, of "nat i" "base m"] good_queue[OF g i', of "setX_requests ?t"] setX_requests_plain[OF sh]
    by (auto simp: on_base_res_def)
  have "good flight alive n (on_base (master_queueMessage (nat i) (fmi2_import_do_step t dt True)) m1)"
    using queueMessage_total[of "nat i" "fmi2_import_do_step t dt True" "base m1"]
      good_queue[OF 1(2) i', of "[fmi2_import_do_step t dt True]"]
    by (auto simp: on_base_def fmi2_import_do_step_def is_get_def)
  then show ?thesis using 1(1) by (simp add: send_and_step_def)
qed

lemma send_and_steps_total:
  "good flight alive n m \<Longrightarrow> set S \<subseteq> {0..<int n} \<Longrightarrow> \<exists>m'. rfold (send_and_step t dt) S m = Inr m' \<and> good flight alive n m'"
proof (induction S arbitrary: m)
  case (Cons i S)
  then show ?case using send_and_step_total[of flight alive n m i t dt] by fastforce
qed simp

lemma delete_good:
  assumes "good flight alive n m"
  shows "good flight alive n (on_base (deleteCachedValues cfg b S) m)"
proof -
  let ?cs = "m_clients (deleteCachedValues cfg b S (base m))"
  have "on_base (deleteCachedValues cfg b S) m = m\<lparr>base := (base m)\<lparr>m_clients := ?cs\<rparr>, m_refValues := m_refValues m\<rparr>"
    by (simp add: on_base_def deleteCachedValues_def)
  moreover have "good flight alive n (m\<lparr>base := (base m)\<lparr>m_clients := ?cs\<rparr>, m_refValues := m_refValues m\<rparr>)"
    by (rule good_clients[OF assms]) (use assms good_length[OF assms] in \<open>auto simp: good_def deleteCachedValues_def client_deleteCachedValues_def\<close>)
  ultimately show ?thesis by simp
qed

lemma asks_same: "asks c c' \<Longrightarrow> m_messageQueue c' = m_messageQueue c \<and> m_id c' = m_id c"
  by (simp add: asks_def)

lemma ids_nth: "map m_id cs = map int [0..<n] \<Longrightarrow> j < n \<Longrightarrow> m_id (cs ! j) = int j"
  by (metis length_map length_upt minus_nat.diff_0 nth_map nth_upt plus_nat.add_0)

lemma queue_inputs_good:
  assumes g: "good flight alive n m"
  shows "\<exists>cs'. queue_inputs cfg S m = Inr (m\<lparr>base := (base m)\<lparr>m_clients := cs'\<rparr>\<rparr>) \<and> length cs' = n
     \<and> (\<forall>j<n. asks (clients_of m ! j) (cs' ! j) \<and> (\<forall>i\<in>set S. \<forall>r. clientGetXs m i j = Some r \<longrightarrow> covers (DEBUG cfg) r (cs' ! j)))
     \<and> good flight alive n (m\<lparr>base := (base m)\<lparr>m_clients := cs'\<rparr>\<rparr>)"
proof -
  have "refs_queueable m" using g by (simp add: good_def wired_def)
  from queue_inputs_total[OF this, of cfg S] good_length[OF g] obtain cs' where
    1: "queue_inputs cfg S m = Inr (m\<lparr>base := (base m)\<lparr>m_clients := cs'\<rparr>\<rparr>)" "length cs' = n"
    "\<forall>j<n. asks (clients_of m ! j) (cs' ! j) \<and> (\<forall>i\<in>set S. \<forall>r. clientGetXs m i j = Some r \<longrightarrow> covers (DEBUG cfg) r (cs' ! j))" by auto
  have "good flight alive n (m\<lparr>base := (base m)\<lparr>m_clients := cs'\<rparr>, m_refValues := m_refValues m\<rparr>)"
    by (rule good_clients[OF g 1(2)]) (use g 1(3) asks_same in \<open>simp_all add: good_def\<close>)
  then show ?thesis using 1 by (intro exI[of _ cs']) simp
qed

context responsive_net
begin

lemma crank_batch_total:
  assumes g: "good flight alive n m" and S: "set S \<subseteq> {0..<int n}"
  shows "\<exists>m'. crank_batch net cfg t dt S m = Inr m' \<and> good flight alive n m'"
proof -
  obtain cs1 where 1: "queue_inputs cfg S m = Inr (m\<lparr>base := (base m)\<lparr>m_clients := cs1\<rparr>\<rparr>)" "length cs1 = n"
    "\<forall>j<n. asks (clients_of m ! j) (cs1 ! j) \<and> (\<forall>i\<in>set S. \<forall>r. clientGetXs m i j = Some r \<longrightarrow> covers (DEBUG cfg) r (cs1 ! j))"
    "good flight alive n (m\<lparr>base := (base m)\<lparr>m_clients := cs1\<rparr>\<rparr>)" using queue_inputs_good[OF g] by blast
  let ?m1 = "m\<lparr>base := (base m)\<lparr>m_clients := cs1\<rparr>\<rparr>"
  from 1(4) have "ready flight alive n (base ?m1)" "\<forall>i<n. plain (clients_of ?m1 ! i)" by (simp_all add: good_def)
  from request_values[OF this, of cfg] obtain cs2 w k tr where
    2: "on_base_res (wait net cfg) (on_base queueValueRequests ?m1)
       = Inr (m\<lparr>base := (base m)\<lparr>m_clients := cs2, m_pendingRequests := 0, world := w, rendezvous := k, trace := tr\<rparr>\<rparr>)"
    "ready flight alive n ((base m)\<lparr>m_clients := cs2, m_pendingRequests := 0, world := w, rendezvous := k, trace := tr\<rparr>)"
    "\<forall>i<n. m_messageQueue (cs2 ! i) = []" "map m_id cs2 = map m_id cs1"
    "\<forall>i<n. \<forall>ty. known ty (cs1 ! i) \<union> set (outgoing ty (cs1 ! i)) \<subseteq> known ty (cs2 ! i)" by auto
  let ?m2 = "m\<lparr>base := (base m)\<lparr>m_clients := cs2, m_pendingRequests := 0, world := w, rendezvous := k, trace := tr\<rparr>\<rparr>"
  have g2: "good flight alive n ?m2" using 1(4) 2(2,3,4) by (simp add: good_def plain_def)
  have "complex_ok (clients_of ?m2) S (m_complexConnections ?m2)"
  proof (unfold complex_ok_def, intro ballI conjI impI)
    fix wc assume wc: "wc \<in> set (m_complexConnections ?m2)"
    then have w: "safe_connection wc" "toFMU wc < n" "fromFMU wc < n" "\<exists>r vrs. clientGetXs m (int (toFMU wc)) (fromFMU wc) = Some r
       \<and> r (fromType wc) = Some vrs \<and> fromOutputVR wc \<in> set vrs" using g by (auto simp: good_def wired_def)
    then obtain r vrs where r: "clientGetXs m (int (toFMU wc)) (fromFMU wc) = Some r" "r (fromType wc) = Some vrs" "fromOutputVR wc \<in> set vrs" by blast
    show "safe_connection wc" by (rule w)
    assume "m_id (clients_of ?m2 ! toFMU wc) \<in> set S"
    moreover have "m_id (cs2 ! toFMU wc) = int (toFMU wc)" using ids_nth[OF _ w(2), of cs2] g2 by (simp add: good_def)
    ultimately have "int (toFMU wc) \<in> set S" by simp
    then have "covers (DEBUG cfg) r (cs1 ! fromFMU wc)" using 1(3) w(3) r(1) by blast
    then have "fromOutputVR wc \<in> known (fromType wc) (cs1 ! fromFMU wc) \<union> set (outgoing (fromType wc) (cs1 ! fromFMU wc))"
      using r(2,3) by (auto simp: covers_def split: if_splits)
    then show "fromOutputVR wc \<in> known (fromType wc) (clients_of ?m2 ! fromFMU wc)" using 2(5) w(3) by auto
  qed
  then obtain cs3 rv where 3: "fill_inputs S ?m2 = Inr (?m2\<lparr>base := (base ?m2)\<lparr>m_clients := cs3\<rparr>, m_refValues := rv\<rparr>)" "shapes_ok rv"
      "length cs3 = n" "\<forall>j. knows_more (clients_of ?m2 ! j) (cs3 ! j)"
    using fill_inputs_total[of ?m2 S] g2 good_length[OF g2] by (auto simp: good_def wired_def)
  have "good flight alive n (?m2\<lparr>base := (base ?m2)\<lparr>m_clients := cs3\<rparr>, m_refValues := rv\<rparr>)"
    by (rule good_clients[OF g2 3(3,2)]) (use 3(4) in \<open>simp add: knows_more_def\<close>)
  from send_and_steps_total[OF this S, of t dt] obtain m4 where
    4: "rfold (send_and_step t dt) S (?m2\<lparr>base := (base ?m2)\<lparr>m_clients := cs3\<rparr>, m_refValues := rv\<rparr>) = Inr m4" "good flight alive n m4" by blast
  show ?thesis using delete_good[OF 4(2)] 1(1) 2(1) 3(1) 4(1) by (simp add: crank_batch_def)
qed

end

sublocale responsive_net \<subseteq> ts: total_cranker "crank_batch net cfg t dt" "step_effect t dt" "has_clients n" n "good flight alive n"
  for cfg t dt n
  by unfold_locales (rule crank_batch_total)

lemma nth_update_field: "f x = f (xs ! i) \<Longrightarrow> f (xs[i := x] ! j) = f (xs ! j)"
  by (cases "i < length xs") (simp_all add: nth_list_update list_update_beyond)

lemma good_prefetch:
  assumes "good flight alive n m"
  shows "\<exists>m'. prefetch cfg m = Inr m' \<and> good flight alive n m'"
proof -
  obtain m1 where 1: "queue_inputs cfg (children (rends m ! 0)) m = Inr m1" "good flight alive n m1"
    using queue_inputs_good[OF assms] by blast
  have q: "good flight alive n (queue_strong cfg i x)" if "good flight alive n x" for i and x :: "'a smaster"
  proof -
    let ?cs = "(clients_of x)[i := queueReals (DEBUG cfg) (strong_refs x i) (clients_of x ! i)]"
    have "good flight alive n (x\<lparr>base := (base x)\<lparr>m_clients := ?cs\<rparr>, m_refValues := m_refValues x\<rparr>)"
      by (rule good_clients[OF that]) (use that good_length[OF that] in \<open>simp_all add: good_def queueReals_def nth_update_field\<close>)
    then show ?thesis by (simp add: queue_strong_def on_base_def set_client_def)
  qed
  have "good flight alive n (fold (queue_strong cfg) is x)" if "good flight alive n x" for "is" and x :: "'a smaster"
    using that q by (induction "is" arbitrary: x) auto
  then show ?thesis using 1 by (simp add: prefetch_def)
qed

subsection \<open>Iterations return\<close>

context responsive_net
begin

lemma iteration_good:
  assumes g: "good flight alive n m"
  shows "\<exists>m'. runIteration umf net cfg t dt m = Inr m' \<and> good flight alive n m'"
proof -
  have w: "checkRends n (rends m) = Inr (clientrend m)" "topo_rends (rends m)" "kins m = []" using g by (simp_all add: good_def wired_def)
  obtain m1 s1 where "run_sched (crank_batch net cfg t dt) (stepKinematicFmus umf net cfg t dt) n (rends m) (clientrend m) [] m = Inr (m1, s1)"
    "good flight alive n m1" using ts.run_total[OF w(1,2) g] by blast
  then show ?thesis using good_prefetch[of flight alive n m1 cfg] w(3) good_length[OF g] by (simp add: runIteration_def)
qed

lemma iterations_good:
  "good flight alive n m \<Longrightarrow> \<exists>m'. rfold (\<lambda>(t, dt). runIteration umf net cfg t dt) ts m = Inr m' \<and> good flight alive n m'"
proof (induction ts arbitrary: m)
  case (Cons a ts)
  obtain m1 where "runIteration umf net cfg (fst a) (snd a) m = Inr m1" "good flight alive n m1" using iteration_good[OF Cons.prems] by blast
  then show ?case using Cons.IH[of m1] by (simp add: split_beta)
qed simp

end

text \<open>The constructor establishes \<open>good\<close>.\<close>

definition safe_wiring :: "nat \<Rightarrow> WeakConnection list \<Rightarrow> bool" where
  "safe_wiring n wcs \<longleftrightarrow> (\<forall>wc\<in>set wcs. fromType wc \<noteq> fmi2_base_type_enum \<and> fromFMU wc < n \<and> toFMU wc < n \<and> (\<not> is_simple wc \<longrightarrow> safe_connection wc))"

definition wired_for :: "client list \<Rightarrow> WeakConnection list \<Rightarrow> 'w smaster \<Rightarrow> bool" where
  "wired_for cs wcs m \<longleftrightarrow> clients_of m = cs \<and> refs_queueable m
     \<and> (\<forall>i. map_option length (m_simpleConnections m i) = map_option length (m_simpleInputsVRs m i))
     \<and> set (m_complexConnections m) = {wc \<in> set wcs. \<not> is_simple wc}
     \<and> (\<forall>wc\<in>set wcs. \<exists>r vrs. clientGetXs m (m_id (cs ! toFMU wc)) (fromFMU wc) = Some r \<and> r (fromType wc) = Some vrs \<and> fromOutputVR wc \<in> set vrs)"

lemma push_output_ref_mono:
  "refs j = Some r \<Longrightarrow> r ty = Some vrs \<Longrightarrow> vr \<in> set vrs \<Longrightarrow> \<exists>r' vrs'. push_output_ref wc refs j = Some r' \<and> r' ty = Some vrs' \<and> vr \<in> set vrs'"
  by (auto simp: push_output_ref_def push_ref_def split: option.splits)

lemma push_output_ref_new:
  "\<exists>r vrs. push_output_ref wc refs (fromFMU wc) = Some r \<and> r (fromType wc) = Some vrs \<and> fromOutputVR wc \<in> set vrs"
  by (auto simp: push_output_ref_def push_ref_def split: option.splits)

lemma push_output_ref_enum:
  "\<forall>j r. refs j = Some r \<longrightarrow> r fmi2_base_type_enum = None \<Longrightarrow> fromType wc \<noteq> fmi2_base_type_enum \<Longrightarrow>
     push_output_ref wc refs j = Some r \<Longrightarrow> r fmi2_base_type_enum = None"
  by (auto simp: push_output_ref_def push_ref_def split: if_splits option.splits)

lemma push_back_length:
  "map_option length (f i) = map_option length (g i) \<Longrightarrow> map_option length (push_back k x f i) = map_option length (push_back k y g i)"
  by (auto simp: push_back_def split: option.splits)

lemma add_connection_refs:
  "clientGetXs (add_connection wc m) = (clientGetXs m)(m_id (clients_of m ! toFMU wc) := push_output_ref wc (clientGetXs m (m_id (clients_of m ! toFMU wc))))"
  by (simp add: add_connection_def Let_def)

lemma add_connection_wired:
  assumes "wired_for cs wcs m" and "fromType wc \<noteq> fmi2_base_type_enum"
  shows "wired_for cs (wcs @ [wc]) (add_connection wc m)"
proof -
  have cs: "clients_of m = cs" using assms(1) by (simp add: wired_for_def)
  let ?id = "m_id (clients_of m ! toFMU wc)"
  have old: "\<forall>i j r. clientGetXs m i j = Some r \<longrightarrow> r fmi2_base_type_enum = None" using assms(1) by (simp add: wired_for_def refs_queueable_def)
  have "r fmi2_base_type_enum = None" if "clientGetXs (add_connection wc m) i j = Some r" for i j r
    using that old push_output_ref_enum[OF _ assms(2), of "clientGetXs m ?id" j r] by (cases "i = ?id") (auto simp: add_connection_refs)
  then have "refs_queueable (add_connection wc m)" by (simp add: refs_queueable_def)
  moreover have "map_option length (m_simpleConnections (add_connection wc m) i) = map_option length (m_simpleInputsVRs (add_connection wc m) i)" for i
    using assms(1) push_back_length[of "m_simpleConnections m" i "m_simpleInputsVRs m"] by (simp add: wired_for_def add_connection_def Let_def)
  moreover have "set (m_complexConnections (add_connection wc m)) = {wc' \<in> set (wcs @ [wc]). \<not> is_simple wc'}"
    using assms(1) by (auto simp: wired_for_def add_connection_def Let_def)
  moreover have "\<exists>r vrs. clientGetXs (add_connection wc m) (m_id (cs ! toFMU wc')) (fromFMU wc') = Some r \<and> r (fromType wc') = Some vrs \<and> fromOutputVR wc' \<in> set vrs"
    if "wc' \<in> set (wcs @ [wc])" for wc'
  proof (cases "wc' = wc")
    case True
    then show ?thesis using push_output_ref_new[of wc] cs by (simp add: add_connection_refs)
  next
    case False
    then have "wc' \<in> set wcs" using that by simp
    then obtain r vrs where r: "clientGetXs m (m_id (cs ! toFMU wc')) (fromFMU wc') = Some r" "r (fromType wc') = Some vrs" "fromOutputVR wc' \<in> set vrs"
      using assms(1) by (auto simp: wired_for_def)
    then show ?thesis using push_output_ref_mono[of "clientGetXs m (m_id (cs ! toFMU wc'))", OF r] by (auto simp: add_connection_refs cs)
  qed
  moreover have "clients_of (add_connection wc m) = cs" using cs by (simp add: add_connection_def Let_def)
  ultimately show ?thesis by (simp add: wired_for_def)
qed

lemma add_connections_wired:
  "wired_for cs done m \<Longrightarrow> \<forall>wc\<in>set wcs. fromType wc \<noteq> fmi2_base_type_enum \<Longrightarrow> wired_for cs (done @ wcs) (fold add_connection wcs m)"
proof (induction wcs arbitrary: "done" m)
  case (Cons wc wcs)
  then show ?case using Cons.IH[OF add_connection_wired[OF Cons.prems(1), of wc]] by simp
qed simp

lemma add_connections_frame:
  "base (fold add_connection wcs m) = base m \<and> rends (fold add_connection wcs m) = rends m \<and> clientrend (fold add_connection wcs m) = clientrend m
     \<and> kins (fold add_connection wcs m) = kins m \<and> m_refValues (fold add_connection wcs m) = m_refValues m"
  by (induction wcs arbitrary: m) (simp_all add: add_connection_def Let_def)

lemma new_StrongMaster_good:
  assumes r: "ready flight alive n b" and q: "\<forall>i<n. plain (m_clients b ! i)" and ids: "map m_id (m_clients b) = map int [0..<n]"
    and sw: "safe_wiring n (m_weakConnections b)" and rs: "wf_rends n rs" "topo_rends rs"
  shows "\<exists>m. new_StrongMaster b solver st hol rs cap = Inr m \<and> good flight alive n m"
proof -
  have n: "length (m_clients b) = n" using r by (simp add: ready_def)
  obtain cr where cr: "checkRends n rs = Inr cr" using rs(1) by (auto simp: checkRends_eq)
  let ?init = "\<lparr>base = b, m_strongCouplingSolver = solver, connector_store = st, holonomic = hol, rends = rs, clientrend = cr, kins = [],
          clientGetXs = (\<lambda>_. Map.empty), m_simpleConnections = Map.empty, m_simpleInputsVRs = Map.empty, m_complexConnections = [],
          m_refValues = Map.empty, forces = [], canGetAndSetFMUstate = cap\<rparr>"
  let ?m = "fold add_connection (m_weakConnections b) ?init"
  have "wired_for (m_clients b) [] ?init" by (simp add: wired_for_def refs_queueable_def)
  from add_connections_wired[OF this, of "m_weakConnections b"] sw have w: "wired_for (m_clients b) (m_weakConnections b) ?m"
    unfolding safe_wiring_def by (metis append_Nil)
  have "wired n ?m"
  proof -
    have "simple_aligned ?m" unfolding simple_aligned_def
    proof (intro allI impI)
      fix i ss assume "m_simpleConnections ?m i = Some ss"
      moreover have "map_option length (m_simpleConnections ?m i) = map_option length (m_simpleInputsVRs ?m i)" using w by (simp add: wired_for_def)
      ultimately show "\<exists>vrs. m_simpleInputsVRs ?m i = Some vrs \<and> length vrs = length ss" by (cases "m_simpleInputsVRs ?m i") auto
    qed
    moreover have "m_id (m_clients b ! j) = int j" if "j < n" for j using ids_nth[OF ids that] .
    ultimately show ?thesis using w sw cr rs(2) by (auto simp: wired_def wired_for_def safe_wiring_def add_connections_frame)
  qed
  then have "good flight alive n ?m" using r q ids by (simp add: good_def add_connections_frame)
  then show ?thesis using cr n by (simp add: new_StrongMaster_def)
qed

end
