(* ===== verification/Server_Props.thy ===== *)
theory Server_Props
  imports Server
begin

text \<open>
  Properties of the FMU server: the responses of a transmission, the kinematic request, rollback through the
  table of saved states, numerical directional derivatives and the HDF5 rows. A concrete FMU, an
  integrator that can save its state, instantiates the parameter where a property needs one.
\<close>

subsection \<open>An FMU\<close>

text \<open>Output 0 is the position, input 1 the velocity. The instance is a pair of both.\<close>

definition integrator :: "(double \<times> double, double \<times> double) fmu" where
  "integrator =
     \<lparr>api_version = ''2.0'', api_set_debug_logging = (\<lambda>_ x. (fmi2_status_ok, x)),
      api_instantiate = (\<lambda>_ _ _. (jm_status_success, (0, 0))), api_free_instance = (\<lambda>x. x),
      api_setup_experiment = (\<lambda>_ _ _ _ _ x. (fmi2_status_ok, x)),
      api_enter_initialization_mode = (\<lambda>x. (fmi2_status_ok, x)), api_exit_initialization_mode = (\<lambda>x. (fmi2_status_ok, x)),
      api_terminate = (\<lambda>x. (fmi2_status_ok, x)), api_reset = (\<lambda>x. (fmi2_status_ok, (0, 0))),
      api_get_real = (\<lambda>vrs (p, v). (fmi2_status_ok, map (\<lambda>i. if i = 0 then p else v) vrs)),
      api_get_integer = (\<lambda>vrs x. (fmi2_status_ok, map (\<lambda>_. 0) vrs)),
      api_get_boolean = (\<lambda>vrs x. (fmi2_status_ok, map (\<lambda>_. False) vrs)),
      api_get_string = (\<lambda>vrs x. (fmi2_status_ok, map (\<lambda>_. []) vrs)),
      api_set_real = (\<lambda>vrs vals (p, v). (fmi2_status_ok,
        fold (\<lambda>(i, y) (p, v). if i = 0 then (y, v) else (p, y)) (zip vrs vals) (p, v))),
      api_set_integer = (\<lambda>_ _ x. (fmi2_status_ok, x)), api_set_boolean = (\<lambda>_ _ x. (fmi2_status_ok, x)),
      api_set_string = (\<lambda>_ _ x. (fmi2_status_ok, x)),
      api_get_fmu_state = (\<lambda>x. (fmi2_status_ok, Some x)),
      api_set_fmu_state = (\<lambda>s x. case s of None \<Rightarrow> (fmi2_status_error, x) | Some y \<Rightarrow> (fmi2_status_ok, y)),
      api_free_fmu_state = (\<lambda>_ x. (fmi2_status_ok, x)),
      api_get_directional_derivative = (\<lambda>v z d x. (fmi2_status_error, [])),
      api_enter_event_mode = (\<lambda>x. (fmi2_status_ok, x)),
      api_new_discrete_states = (\<lambda>x. (\<lparr>newDiscreteStatesNeeded = False, terminateSimulation = False,
        nominalsOfContinuousStatesChanged = False, valuesOfContinuousStatesChanged = False,
        nextEventTimeDefined = False, nextEventTime = 0\<rparr>, x)),
      api_enter_continuous_time_mode = (\<lambda>x. (fmi2_status_ok, x)), api_set_time = (\<lambda>_ x. (fmi2_status_ok, x)),
      api_set_continuous_states = (\<lambda>_ x. (fmi2_status_ok, x)),
      api_get_event_indicators = (\<lambda>n x. (fmi2_status_ok, [])), api_get_continuous_states = (\<lambda>n x. (fmi2_status_ok, [])),
      api_get_derivatives = (\<lambda>n x. (fmi2_status_ok, [])), api_get_nominals = (\<lambda>n x. (fmi2_status_ok, [])),
      api_set_real_input_derivatives = (\<lambda>_ _ _ x. (fmi2_status_ok, x)),
      api_get_real_output_derivatives = (\<lambda>_ _ x. (fmi2_status_ok, [])),
      api_do_step = (\<lambda>t dt _ (p, v). (fmi2_status_ok, (p + dt * v, v))),
      api_cancel_step = (\<lambda>x. (fmi2_status_error, x)), api_get_status = (\<lambda>_ _. fmi2_status_ok),
      api_get_real_status = (\<lambda>_ _. 0), api_get_integer_status = (\<lambda>_ _. 0), api_get_boolean_status = (\<lambda>_ _. False),
      api_get_string_status = (\<lambda>_ _. []), cap_directionalDerivatives = False, cap_getAndSetFMUstate = True,
      api_variables = [], api_outputs = [(0, fmi2_base_type_real)], api_modelDescription = None\<rparr>"

definition new_server :: "('f, 's) fmu \<Rightarrow> 'f \<Rightarrow> ('f, 's) server" where
  "new_server api x = \<lparr>m_sendDummyResponses = False, m_fmi2Instance = x, lastStateId = -1, nextStateId = 0,
     stateMap = Map.empty, currentCommunicationPoint = 0, communicationStepSize = 0, m_freed = False,
     hdf5Filename = [], field_offset = [], rowsz = 0, nrecords = 0, hdf5data = []\<rparr>"

definition quiet_env :: server_env where
  "quiet_env = \<lparr>fmigo_loglevel = jm_log_level_error, alwaysComputeNumericalDirectionalDerivatives = False\<rparr>"

lemma integrator_state_law: "state_law integrator"
  by (simp add: state_law_def integrator_def)

subsection \<open>Responses\<close>

lemma responses_in_order:
  "server_clientData env api rs srv = Inr (srv', outs) \<Longrightarrow>
   map response_type outs = map (\<lambda>r. request_type r + 1) (filter (\<lambda>r. r \<noteq> completed_integrator_step_req) rs)"
proof (induction rs arbitrary: srv srv' outs)
  case (Cons r rs)
  then obtain srv1 out outs1 where 1: "server_clientDataInner env api r srv = Inr (srv1, out)"
    "server_clientData env api rs srv1 = Inr (srv', outs1)" "outs = (case out of None \<Rightarrow> outs1 | Some x \<Rightarrow> x # outs1)"
    by (auto split: prod.splits)
  show ?case using Cons.IH[OF 1(2)] server_answers[OF 1(1)] 1(3)
    by (auto simp: answers_def split: option.splits)
qed simp

text \<open>C15: the server answers the requests of one transmission in their order, each with the response of the matching
  type, except \<^verbatim>\<open>completed_integrator_step\<close>, which gets none.\<close>

theorem server_responses:
  assumes "server_clientData env api rs srv = Inr (srv', outs)"
  shows "map response_type outs = map (\<lambda>r. request_type r + 1) (filter (\<lambda>r. r \<noteq> completed_integrator_step_req) rs)"
  using responses_in_order[OF assms] .

theorem server_responses_witness:
  "\<exists>srv' outs. server_clientData quiet_env integrator [get_real_req [0], do_step_req 0 1 True] (new_server integrator (5, 2))
       = Inr (srv', outs)
     \<and> map response_type outs = map (\<lambda>r. request_type r + 1) [get_real_req [0], do_step_req 0 1 True]"
proof -
  have "\<exists>srv' outs. server_clientData quiet_env integrator [get_real_req [0], do_step_req 0 1 True] (new_server integrator (5, 2))
       = Inr (srv', outs)"
    by (simp add: handle_get_real_def handle_do_step_def read_fmu_def call_fmu_def reply_def new_server_def integrator_def)
  with server_responses show ?thesis by fastforce
qed

subsection \<open>The kinematic request\<close>

definition apply_input :: "(int list \<times> 'a list) option \<Rightarrow> (int list \<Rightarrow> 'a list \<Rightarrow> 'f \<Rightarrow> fmi2_status \<times> 'f) \<Rightarrow> 'f \<Rightarrow> 'f" where
  "apply_input arg setter x = (case arg of None \<Rightarrow> x | Some (vrs, vals) \<Rightarrow> snd (setter vrs (take (length vrs) vals) x))"

definition apply_inputs :: "('f, 's) fmu \<Rightarrow> kinematic_req \<Rightarrow> 'f \<Rightarrow> 'f" where
  "apply_inputs api r x =
     apply_input (kin_strings r) (api_set_string api) (apply_input (kin_bools r) (api_set_boolean api)
       (apply_input (kin_ints r) (api_set_integer api) (apply_input (kin_reals r) (api_set_real api) x)))"

lemma set_stage:
  assumes "kin_set_stage arg setter sr = Inr (st, sr')"
  shows "sr' = ((fst sr)\<lparr>m_fmi2Instance := apply_input arg setter (m_fmi2Instance (fst sr))\<rparr>, snd sr)"
  using assms
  by (cases sr) (auto simp: kin_set_stage_def apply_input_def copy_values_def Let_def split: option.splits if_splits prod.splits)

lemma run_stages_ConsE:
  assumes "run_stages (g # gs) sr = Inr (fmi2_status_ok, sr')"
  obtains sr1 where "g sr = Inr (fmi2_status_ok, sr1)" "run_stages gs sr1 = Inr (fmi2_status_ok, sr')"
  using assms by (auto split: if_splits)

lemma future_values:
  assumes "state_law api" and "kin_future_stage api r (srv, res) = Inr (fmi2_status_ok, srv', res')"
  shows "future_velocities res' = future_velocities res @
    (if future_velocity_vrs r = [] then [] else buffer (length (future_velocity_vrs r)) 0
       (snd (api_get_real api (future_velocity_vrs r)
          (snd (api_do_step api (kin_point r) (kin_stepsize r) False (m_fmi2Instance srv))))))"
  using assms(2) by (auto simp: kin_future_stage_def Let_def split: if_splits prod.splits)

lemma kinematic_ok:
  assumes law: "state_law api"
    and h: "handle_kinematic env api r srv = Inr (srv', Some (kinematic_response res))"
    and st: "statusIsOK (kin_status res)"
  shows "srv' = srv\<lparr>m_fmi2Instance := apply_inputs api r (m_fmi2Instance srv)\<rparr>"
    and "future_velocities res = (if future_velocity_vrs r = [] then [] else buffer (length (future_velocity_vrs r)) 0
       (snd (api_get_real api (future_velocity_vrs r)
          (snd (api_do_step api (kin_point r) (kin_stepsize r) False (apply_inputs api r (m_fmi2Instance srv)))))))"
    and "map (length \<circ> snd) (derivs res) = map (length \<circ> z_ref) (get_derivs r)"
proof -
  let ?res0 = "\<lparr>kin_status = 0, future_velocities = [], derivs = []\<rparr>"
  obtain st' res1 where 1: "run_stages (kin_stages env api r) (srv, ?res0) = Inr (st', srv', res1)"
    "res = res1\<lparr>kin_status := fmi2StatusToProtofmi2Status st'\<rparr>"
    using h by (auto simp: handle_kinematic_def reply_eq)
  have "st' = fmi2_status_ok" using st 1(2) by (simp add: statusIsOK_iff)
  note 1 = 1[unfolded this]
  obtain s1 s2 s3 s4 s5 where
    a: "kin_set_stage (kin_reals r) (api_set_real api) (srv, ?res0) = Inr (fmi2_status_ok, s1)" and
    b: "kin_set_stage (kin_ints r) (api_set_integer api) s1 = Inr (fmi2_status_ok, s2)" and
    c: "kin_set_stage (kin_bools r) (api_set_boolean api) s2 = Inr (fmi2_status_ok, s3)" and
    d: "kin_set_stage (kin_strings r) (api_set_string api) s3 = Inr (fmi2_status_ok, s4)" and
    e: "kin_future_stage api r s4 = Inr (fmi2_status_ok, s5)" and
    f: "run_stages (map (kin_deriv_stage env api) (get_derivs r)) s5 = Inr (fmi2_status_ok, srv', res1)"
    using 1(1) unfolding kin_stages_def append_Cons append_Nil by (elim run_stages_ConsE) blast
  define v4 where "v4 = srv\<lparr>m_fmi2Instance := apply_inputs api r (m_fmi2Instance srv)\<rparr>"
  have s4: "s4 = (v4, ?res0)"
    unfolding set_stage[OF d] set_stage[OF c] set_stage[OF b] set_stage[OF a] by (simp add: v4_def apply_inputs_def)
  obtain v5 res5 where s5: "s5 = (v5, res5)" by (cases s5)
  note e' = e[unfolded s4 s5] and f' = f[unfolded s5]
  note fs = future_stage[OF law e'] and fv = future_values[OF law e'] and ds = deriv_stages[OF law f']
  show "srv' = srv\<lparr>m_fmi2Instance := apply_inputs api r (m_fmi2Instance srv)\<rparr>" using fs ds v4_def by simp
  show "map (length \<circ> snd) (derivs res) = map (length \<circ> z_ref) (get_derivs r)" using fs ds 1(2) by simp
  show "future_velocities res = (if future_velocity_vrs r = [] then [] else buffer (length (future_velocity_vrs r)) 0
       (snd (api_get_real api (future_velocity_vrs r)
          (snd (api_do_step api (kin_point r) (kin_stepsize r) False (apply_inputs api r (m_fmi2Instance srv)))))))"
    using ds fv v4_def 1(2) by simp
qed

text \<open>C12: a kinematic request that reports success leaves the FMU as if only its inputs had been set: the trial step for the
  future velocities and the steps behind the directional derivatives are rolled back. The future velocities are the
  outputs of the FMU after one trial step from there, and there is one vector of derivatives for each requested one, with an
  entry for each output reference.\<close>

theorem kinematic_request_correct:
  assumes "state_law api"
    and "handle_kinematic env api r srv = Inr (srv', Some (kinematic_response res))"
    and "statusIsOK (kin_status res)"
  shows "srv' = srv\<lparr>m_fmi2Instance := apply_inputs api r (m_fmi2Instance srv)\<rparr>
     \<and> future_velocities res = (if future_velocity_vrs r = [] then [] else buffer (length (future_velocity_vrs r)) 0
         (snd (api_get_real api (future_velocity_vrs r)
            (snd (api_do_step api (kin_point r) (kin_stepsize r) False (apply_inputs api r (m_fmi2Instance srv)))))))
     \<and> map (length \<circ> snd) (derivs res) = map (length \<circ> z_ref) (get_derivs r)"
  using kinematic_ok[OF assms] by simp

definition demo_kinematic :: kinematic_req where
  "demo_kinematic = empty_kinematic_req\<lparr>kin_reals := Some ([1], [3]), future_velocity_vrs := [0],
     kin_point := 0, kin_stepsize := 1 / 2, get_derivs := [\<lparr>v_ref = [1], z_ref = [0], dv = [1]\<rparr>]\<rparr>"

theorem kinematic_request_correct_witness:
  "\<exists>srv' res. handle_kinematic quiet_env integrator demo_kinematic (new_server integrator (5, 2))
       = Inr (srv', Some (kinematic_response res))
     \<and> m_fmi2Instance srv' = (5, 3) \<and> future_velocities res = [6.5] \<and> length (derivs res) = 1"
proof -
  have x: "apply_inputs integrator demo_kinematic (5, 2) = (5, 3)"
    by (simp add: apply_inputs_def apply_input_def demo_kinematic_def empty_kinematic_req_def integrator_def)
  obtain srv' res where h: "handle_kinematic quiet_env integrator demo_kinematic (new_server integrator (5, 2))
       = Inr (srv', Some (kinematic_response res))" "statusIsOK (kin_status res)"
    by (simp add: handle_kinematic_def kin_stages_def kin_set_stage_def kin_future_stage_def kin_deriv_stage_def
        copy_values_def getDirectionalDerivatives_def computeNumericalDirectionalDerivative_def Let_def reply_def
        demo_kinematic_def empty_kinematic_req_def new_server_def integrator_def quiet_env_def statusIsOK_def)
  note k = kinematic_request_correct[OF integrator_state_law h]
  have "length (derivs res) = 1"
    using k by (auto simp: demo_kinematic_def dest: map_eq_imp_length_eq)
  moreover have "m_fmi2Instance srv' = (5, 3)" using k x by (simp add: new_server_def)
  moreover have "future_velocities res = [6.5]"
    using k x by (simp add: new_server_def demo_kinematic_def integrator_def buffer_def)
  ultimately show ?thesis using h(1) by blast
qed

subsection \<open>Rollback\<close>

text \<open>The table of the saved states with its two counters.\<close>

definition same_table :: "('f, 's) server \<Rightarrow> ('f, 's) server \<Rightarrow> bool" where
  "same_table srv srv' \<longleftrightarrow> stateMap srv' = stateMap srv \<and> m_sendDummyResponses srv' = m_sendDummyResponses srv
     \<and> lastStateId srv' = lastStateId srv \<and> nextStateId srv' = nextStateId srv"

lemma same_table_refl [simp]: "same_table srv srv"
  and same_table_trans: "same_table a b \<Longrightarrow> same_table b c \<Longrightarrow> same_table a c"
  and same_table_instance [simp]: "same_table srv (srv\<lparr>m_fmi2Instance := x\<rparr>)"
  by (simp_all add: same_table_def)

lemma call_fmu_same [simp]: "same_table srv (snd (call_fmu f srv))"
  by (simp add: call_fmu_def Let_def split: prod.splits)

lemma getDirectionalDerivatives_same:
  "getDirectionalDerivatives env api srv r = Inr (st, dz, srv') \<Longrightarrow> same_table srv srv'"
  by (auto simp: getDirectionalDerivatives_def computeNumericalDirectionalDerivative_def Let_def
      split: if_splits prod.splits)

lemma run_stages_inv:
  assumes "run_stages gs sr = Inr (st, sr')" "P sr"
    and "\<And>g sr st sr'. g \<in> set gs \<Longrightarrow> g sr = Inr (st, sr') \<Longrightarrow> P sr \<Longrightarrow> P sr'"
  shows "P sr'"
  using assms
proof (induction gs arbitrary: sr)
  case (Cons g gs)
  then obtain st1 sr1 where 1: "g sr = Inr (st1, sr1)" by auto
  then have "P sr1" using Cons.prems(2,3) by (metis list.set_intros(1))
  moreover have "st1 \<noteq> fmi2_status_ok \<and> sr' = sr1 \<or> run_stages gs sr1 = Inr (st, sr')"
    using Cons.prems(1) 1 by (auto split: if_splits)
  ultimately show ?case using Cons.IH[of sr1] Cons.prems(3) by (metis list.set_intros(2))
qed simp

lemma future_stage_same: "kin_future_stage api r sr = Inr (st, sr') \<Longrightarrow> same_table (fst sr) (fst sr')"
  by (cases sr) (auto simp: kin_future_stage_def Let_def split: if_splits prod.splits)

lemma kinematic_same:
  assumes "handle_kinematic env api r srv = Inr (srv', out)"
  shows "same_table srv srv'"
proof -
  let ?res0 = "\<lparr>kin_status = 0, future_velocities = [], derivs = []\<rparr>"
  obtain st res where 1: "run_stages (kin_stages env api r) (srv, ?res0) = Inr (st, srv', res)"
    using assms by (auto simp: handle_kinematic_def reply_eq)
  have "same_table srv (fst (srv', res))"
    using 1
  proof (rule run_stages_inv)
    show "same_table srv (fst (srv, ?res0))" by simp
    fix g sr st sr' assume g: "g \<in> set (kin_stages env api r)" "g sr = Inr (st, sr')" and P: "same_table srv (fst sr)"
    have "same_table (fst sr) (fst sr')"
      using g getDirectionalDerivatives_same[of env api "fst sr"]
      by (auto simp: kin_stages_def kin_deriv_stage_def split: prod.splits dest!: set_stage future_stage_same)
    with P show "same_table srv (fst sr')" by (rule same_table_trans)
  qed
  then show ?thesis by simp
qed

lemmas table_defs = handler_defs reply_eq Let_def read_n_def rbind_eq_Inr case_prod_beta

text \<open>The server holds the state \<open>s\<close> under the identifier \<open>i\<close>, and \<open>k\<close> others have been saved since.\<close>

definition holds_state :: "int \<Rightarrow> 's option \<Rightarrow> nat \<Rightarrow> ('f, 's) server \<Rightarrow> bool" where
  "holds_state i s k srv \<longleftrightarrow> stateMap srv i = Some s \<and> \<not> m_sendDummyResponses srv \<and> nextStateId srv = (i + 1 + int k) mod 256
     \<and> (k = 0 \<or> lastStateId srv \<noteq> i)"

lemma fresh_identifier:
  assumes "k < 255"
  shows "(i + 1 + int k) mod 256 \<noteq> i"
proof
  assume "(i + 1 + int k) mod 256 = i"
  then have "(i + 1 + int k) mod 256 = i mod 256" by (metis mod_mod_trivial)
  then have "256 dvd 1 + int k" unfolding mod_eq_dvd_iff by (simp add: algebra_simps)
  then show False using assms by (auto dest: zdvd_imp_le)
qed

lemma get_holds:
  assumes "handle_get_fmu_state api srv = Inr (srv', out)" and "holds_state i s k srv" and "k < 255"
  shows "holds_state i s (Suc k) srv'"
proof -
  have "(nextStateId srv + 1) mod 256 = (i + 1 + int (Suc k)) mod 256" using assms(2) by (simp add: holds_state_def mod_simps algebra_simps)
  then show ?thesis using assms(1,2) fresh_identifier[OF assms(3), of i]
    by (auto simp: handle_get_fmu_state_def holds_state_def reply_eq Let_def split: prod.splits)
qed

lemma free_last_holds:
  assumes "handle_set_free_last_fmu_state api srv = Inr (srv', out)" and "holds_state i s k srv" and "k \<noteq> 0"
  shows "holds_state i s k srv'"
  using assms by (auto simp: handle_set_free_last_fmu_state_def holds_state_def reply_eq Let_def split: option.splits if_splits prod.splits)

lemma other_holds:
  assumes h: "server_clientDataInner env api r srv = Inr (srv', out)" and s: "holds_state i s k srv"
    and r: "r \<noteq> get_fmu_state_req" "r \<noteq> free_fmu_state_req i" "r \<noteq> set_free_last_fmu_state_req"
  shows "holds_state i s k srv'"
proof -
  have "same_table srv srv' \<or> (\<exists>j x. r = set_fmu_state_req j) \<or> (\<exists>j. r = free_fmu_state_req j)"
  proof (cases r)
    case (kinematic_request k)
    then show ?thesis using h kinematic_same by auto
  next
    case (get_directional_derivative_req d)
    then show ?thesis using h getDirectionalDerivatives_same by (fastforce simp: handle_get_directional_derivative_def reply_eq)
  qed (use h r call_fmu_same[of srv] in
      \<open>auto simp: table_defs same_table_def call_fmu_def split: if_splits\<close>)
  then show ?thesis
    using h r s by (auto simp: same_table_def holds_state_def handle_set_fmu_state_def handle_free_fmu_state_def reply_eq
        Let_def split: if_splits option.splits prod.splits)
qed

text \<open>Requests that leave the state \<open>i\<close> alone that has just been saved: none frees it, at most 255 others are saved (then the
  identifiers start again), and the last state is not taken back before another one has been saved.\<close>

definition leaves_state :: "int \<Rightarrow> request list \<Rightarrow> bool" where
  "leaves_state i rs \<longleftrightarrow> free_fmu_state_req i \<notin> set rs \<and> length (filter (\<lambda>r. r = get_fmu_state_req) rs) \<le> 255
     \<and> set_free_last_fmu_state_req \<notin> set (takeWhile (\<lambda>r. r \<noteq> get_fmu_state_req) rs)"

lemma requests_hold:
  "server_clientData env api rs srv = Inr (srv', outs) \<Longrightarrow> holds_state i s k srv \<Longrightarrow> free_fmu_state_req i \<notin> set rs \<Longrightarrow>
   k + length (filter (\<lambda>r. r = get_fmu_state_req) rs) \<le> 255 \<Longrightarrow>
   k = 0 \<longrightarrow> set_free_last_fmu_state_req \<notin> set (takeWhile (\<lambda>r. r \<noteq> get_fmu_state_req) rs) \<Longrightarrow> \<exists>k'. holds_state i s k' srv'"
proof (induction rs arbitrary: srv outs k)
  case (Cons r rs)
  then obtain srv1 out outs1 where 1: "server_clientDataInner env api r srv = Inr (srv1, out)"
    "server_clientData env api rs srv1 = Inr (srv', outs1)"
    by (auto split: prod.splits)
  consider "r = get_fmu_state_req" | "r = set_free_last_fmu_state_req" | "r \<noteq> get_fmu_state_req" "r \<noteq> set_free_last_fmu_state_req" by blast
  then show ?case
  proof cases
    case r: 1
    have "holds_state i s (Suc k) srv1" by (rule get_holds[of api srv srv1 out]) (use 1(1) r Cons.prems in auto)
    then show ?thesis using Cons.IH[OF 1(2), of "Suc k"] Cons.prems r by simp
  next
    case r: 2
    have "k \<noteq> 0" using Cons.prems(5) r by auto
    moreover from this have "holds_state i s k srv1" using free_last_holds[of api srv srv1 out i s k] 1(1) r Cons.prems(2) by simp
    ultimately show ?thesis using Cons.IH[OF 1(2), of k] Cons.prems r by simp
  next
    case r: 3
    have "holds_state i s k srv1" using other_holds[OF 1(1) Cons.prems(2)] r Cons.prems(3) by auto
    then show ?thesis using Cons.IH[OF 1(2), of k] Cons.prems r by simp
  qed
qed auto

text \<open>C13: a state saved by \<^verbatim>\<open>get_fmu_state\<close> is brought back by \<^verbatim>\<open>set_fmu_state\<close> with the identifier of the response, whatever requests come
  in between, other saved states and their freeing included, as long as this state is not freed, not more than 255 others are saved
  (the identifiers have eight bits), and the last state is not taken back while it is this one: the FMU is again the one that was
  saved.\<close>

theorem fmu_state_rollback:
  assumes "state_law api" and "\<not> m_sendDummyResponses srv"
    and "handle_get_fmu_state api srv = Inr (srv1, Some (get_fmu_state_res i st))"
    and "leaves_state i rs" and "server_clientData env api rs srv1 = Inr (srv2, outs)"
  shows "\<exists>srv3. handle_set_fmu_state api i srv2
       = Inr (srv3, Some (set_fmu_state_res (fmi2StatusToProtofmi2Status fmi2_status_ok)))
     \<and> m_fmi2Instance srv3 = m_fmi2Instance srv"
proof -
  obtain s where 1: "api_get_fmu_state api (m_fmi2Instance srv) = (fmi2_status_ok, s)"
    using state_lawD(1)[OF assms(1)] by (metis prod.collapse)
  have "holds_state i s 0 srv1"
    using assms(2,3) 1 by (auto simp: handle_get_fmu_state_def holds_state_def reply_eq Let_def)
  from requests_hold[OF assms(5) this] assms(4) have "stateMap srv2 i = Some s" "\<not> m_sendDummyResponses srv2"
    by (auto simp: leaves_state_def holds_state_def)
  then show ?thesis
    using state_lawD(4)[OF assms(1) 1] by (simp add: handle_set_fmu_state_def reply_def)
qed

theorem fmu_state_rollback_witness:
  "\<exists>srv1 srv2 srv3 outs. handle_get_fmu_state integrator (new_server integrator (5, 2)) = Inr (srv1, Some (get_fmu_state_res 0 0))
     \<and> server_clientData quiet_env integrator [do_step_req 0 1 True, get_fmu_state_req, set_free_last_fmu_state_req] srv1 = Inr (srv2, outs)
     \<and> m_fmi2Instance srv2 = (7, 2)
     \<and> handle_set_fmu_state integrator 0 srv2 = Inr (srv3, Some (set_fmu_state_res (fmi2StatusToProtofmi2Status fmi2_status_ok)))
     \<and> m_fmi2Instance srv3 = (5, 2)"
proof -
  let ?rs = "[do_step_req 0 1 True, get_fmu_state_req, set_free_last_fmu_state_req]"
  obtain srv1 where 1: "handle_get_fmu_state integrator (new_server integrator (5, 2)) = Inr (srv1, Some (get_fmu_state_res 0 0))"
    "m_fmi2Instance srv1 = (5, 2)" "\<not> m_sendDummyResponses srv1" "hdf5Filename srv1 = []" "nextStateId srv1 = 1"
    by (simp add: handle_get_fmu_state_def new_server_def integrator_def reply_def)
  obtain srv2 outs where 2: "server_clientData quiet_env integrator ?rs srv1 = Inr (srv2, outs)"
    "m_fmi2Instance srv2 = (7, 2)"
    using 1(2-) by (simp add: handle_get_fmu_state_def handle_set_free_last_fmu_state_def handle_do_step_def call_fmu_def reply_def integrator_def)
  have "\<not> m_sendDummyResponses (new_server integrator (5, 2))" "leaves_state 0 ?rs"
    by (simp_all add: new_server_def leaves_state_def)
  from fmu_state_rollback[OF integrator_state_law this(1) 1(1) this(2) 2(1)] 1(1) 2 show ?thesis
    by (auto simp: new_server_def)
qed

subsection \<open>Numerical directional derivatives\<close>

text \<open>C14: with an FMU that can save its state, the numerical directional derivative is the difference of the outputs after
  one step with the perturbed inputs and one step without, and the server is left exactly as it was.\<close>

theorem numerical_derivative_correct:
  assumes "state_law api" and "length v \<le> length d"
  shows "computeNumericalDirectionalDerivative api srv z v d =
     (let t = currentCommunicationPoint srv; dt = communicationStepSize srv; x = m_fmi2Instance srv;
          v0 = buffer (length v) 0 (snd (api_get_real api v x));
          out = \<lambda>y. buffer (length z) 0 (snd (api_get_real api z (snd (api_do_step api t dt False y))))
      in Inr (map2 (-) (out (snd (api_set_real api v (map2 (+) v0 d) x))) (out x), srv))"
  using numerical_derivative_eq[OF assms] .

theorem numerical_derivative_correct_witness:
  "computeNumericalDirectionalDerivative integrator ((new_server integrator (5, 2))\<lparr>communicationStepSize := 1 / 4\<rparr>) [0] [1] [1]
     = Inr ([1 / 4], (new_server integrator (5, 2))\<lparr>communicationStepSize := 1 / 4\<rparr>)"
  using numerical_derivative_correct[OF integrator_state_law, of "[1]" "[1]"]
  by (simp add: new_server_def integrator_def buffer_def)

subsection \<open>HDF5 output\<close>

lemma hdf5_offsets:
  "rfold (\<lambda>(vr, ty) (offs, ofs). rbind (fmi2_type_size ty) (\<lambda>sz. Inr (offs @ [ofs], ofs + sz))) outs (offs, ofs)
     = rbind (rmap (fmi2_type_size \<circ> snd) outs) (\<lambda>szs.
         Inr (offs @ map (\<lambda>k. ofs + sum_list (take k szs)) [0..<length outs], ofs + sum_list szs))"
proof (induction outs arbitrary: offs ofs)
  case (Cons o1 outs)
  have shift: "map (\<lambda>k. ofs + sum_list (take k (sz # szs))) [0..<Suc n] = ofs # map (\<lambda>k. ofs + sz + sum_list (take k szs)) [0..<n]"
    for sz szs n by (simp add: map_upt_Suc add.assoc del: upt_Suc)
  obtain vr ty where o1: "o1 = (vr, ty)" by (cases o1)
  show ?case
    by (cases "fmi2_type_size ty"; cases "rmap (fmi2_type_size \<circ> snd) outs")
       (simp_all add: o1 Cons.IH shift add.assoc comp_def del: upt_Suc)
qed simp

text \<open>The columns of an HDF5 row do not overlap and fill the row: the time comes first with 8 bytes, and the offset of an output
  is 8 plus the sizes of the outputs before it; the row size is 8 plus the sizes of all outputs.\<close>

theorem hdf5_layout:
  assumes "getHDF5Info api srv = Inr srv'" and "hdf5Filename srv \<noteq> []" and "field_offset srv = []"
  shows "\<exists>szs. rmap (fmi2_type_size \<circ> snd) (api_outputs api) = Inr szs
     \<and> field_offset srv' = 0 # map (\<lambda>k. 8 + sum_list (take k szs)) [0..<length (api_outputs api)]
     \<and> rowsz srv' = 8 + sum_list szs"
  using assms by (auto simp: getHDF5Info_def hdf5_offsets)

theorem hdf5_layout_witness:
  "\<exists>srv'. getHDF5Info integrator ((new_server integrator (5, 2))\<lparr>hdf5Filename := ''out.h5''\<rparr>) = Inr srv'
     \<and> field_offset srv' = [0, 8] \<and> rowsz srv' = 16"
proof -
  let ?srv = "(new_server integrator (5, 2))\<lparr>hdf5Filename := ''out.h5''\<rparr>"
  obtain srv' where 1: "getHDF5Info integrator ?srv = Inr srv'"
    by (simp add: getHDF5Info_def new_server_def integrator_def fmi2_type_size_def)
  have 2: "rmap (fmi2_type_size \<circ> snd) (api_outputs integrator) = Inr [8]" "length (api_outputs integrator) = 1"
    by (simp_all add: integrator_def fmi2_type_size_def)
  show ?thesis using hdf5_layout[OF 1] 1 2 by (auto simp: new_server_def)
qed

text \<open>With HDF5 output every step adds one row, with the time and one cell for each output, before the FMU is stepped.\<close>

theorem do_step_adds_row:
  assumes "handle_do_step api point stepsize newStep srv = Inr (srv', out)" and "hdf5Filename srv \<noteq> []"
  shows "\<exists>row. hdf5data srv' = hdf5data srv @ [row] \<and> length row = length (api_outputs api) + 1
     \<and> nrecords srv' = nrecords srv + 1
     \<and> hd row = Cell_real (if newStep then point + stepsize else currentCommunicationPoint srv)"
  using assms
  by (auto simp: handle_do_step_def fillHDF5Row_def call_fmu_def reply_eq Let_def rbind_eq_Inr case_prod_beta
      dest: rmap_length split: if_splits)

theorem do_step_adds_row_witness:
  "\<exists>srv' out row. handle_do_step integrator 1 2 True ((new_server integrator (5, 2))\<lparr>hdf5Filename := ''out.h5''\<rparr>) = Inr (srv', out)
     \<and> hdf5data srv' = [row] \<and> length row = 2 \<and> hd row = Cell_real 3"
proof -
  let ?srv = "(new_server integrator (5, 2))\<lparr>hdf5Filename := ''out.h5''\<rparr>"
  obtain srv' out where 1: "handle_do_step integrator 1 2 True ?srv = Inr (srv', out)"
    by (simp add: handle_do_step_def fillHDF5Row_def hdf5_cell_of_def call_fmu_def reply_def new_server_def integrator_def)
  have "hdf5Filename ?srv \<noteq> []" by simp
  from do_step_adds_row[OF 1 this] 1 show ?thesis by (auto simp: new_server_def integrator_def)
qed

end
