(* ===== verification/System.thy ===== *)
theory System
  imports Master_Progress Server_Props
begin

text \<open>
  The master and its servers together. A cluster is a set of FMU servers (the model of src/fmitcp/Server.cpp) behind
  ordered connections: a transmission is answered by \<^verbatim>\<open>Server::clientData\<close>, and the responses wait until
  a poll finds them; how many arrive at a poll is up to the parameter \<open>arrive\<close>, and with \<open>mixed_net\<close> those of different FMUs overtake each
  other. Both meet the law of the transport, so the lemmas on \<^verbatim>\<open>wait\<close> and on iterations hold for them.
\<close>

subsection \<open>The cluster\<close>

record ('f, 's) cluster =
  servers :: "nat \<Rightarrow> ('f, 's) server"
  wire :: "(nat \<times> request list \<times> response list) list"   \<comment> \<open>transmissions answered and not yet received\<close>
  crashed :: bool

definition cluster_send ::
  "server_env \<Rightarrow> (nat \<Rightarrow> ('f, 's) fmu) \<Rightarrow> nat \<Rightarrow> request list \<Rightarrow> ('f, 's) cluster \<Rightarrow> ('f, 's) cluster" where
  "cluster_send env apis i qs w =
     (if qs = [] then w
      else case server_clientData env (apis i) qs (servers w i) of
          Inl e \<Rightarrow> w\<lparr>crashed := True\<rparr>
        | Inr (srv, rs) \<Rightarrow> w\<lparr>servers := (servers w)(i := srv), wire := wire w @ [(i, qs, rs)]\<rparr>)"

definition cluster_poll ::
  "(('f, 's) cluster \<Rightarrow> nat) \<Rightarrow> ('f, 's) cluster \<Rightarrow> (nat \<times> response list) list \<times> ('f, 's) cluster" where
  "cluster_poll arrive w = (let k = Suc (arrive w) in
     (map (\<lambda>(i, qs, rs). (i, rs)) (take k (wire w)), w\<lparr>wire := drop k (wire w)\<rparr>))"

definition cluster_net ::
  "server_env \<Rightarrow> (nat \<Rightarrow> ('f, 's) fmu) \<Rightarrow> (('f, 's) cluster \<Rightarrow> nat) \<Rightarrow> ('f, 's) cluster net" where
  "cluster_net env apis arrive =
     \<lparr>net_send = cluster_send env apis, net_poll = cluster_poll arrive, net_control = (\<lambda>w. ([], w))\<rparr>"

definition wire_flight :: "(nat \<times> request list \<times> response list) list \<Rightarrow> flights" where
  "wire_flight ws i = concat (map (\<lambda>(j, qs, rs). if j = i then qs else []) ws)"

definition cluster_flight :: "('f, 's) cluster \<Rightarrow> flights" where
  "cluster_flight w = wire_flight (wire w)"

text \<open>FMUs that accept what the master asks of them while stepping.\<close>

definition obedient :: "('f, 's) fmu \<Rightarrow> bool" where
  "obedient api \<longleftrightarrow>
     (\<forall>vrs x. fst (api_get_real api vrs x) = fmi2_status_ok) \<and> (\<forall>vrs x. fst (api_get_integer api vrs x) = fmi2_status_ok)
   \<and> (\<forall>vrs x. fst (api_get_boolean api vrs x) = fmi2_status_ok)
   \<and> (\<forall>vrs x. fst (api_get_string api vrs x) = fmi2_status_ok \<and> length (snd (api_get_string api vrs x)) = length vrs)
   \<and> (\<forall>vrs vals x. fst (api_set_real api vrs vals x) = fmi2_status_ok) \<and> (\<forall>vrs vals x. fst (api_set_integer api vrs vals x) = fmi2_status_ok)
   \<and> (\<forall>vrs vals x. fst (api_set_boolean api vrs vals x) = fmi2_status_ok) \<and> (\<forall>vrs vals x. fst (api_set_string api vrs vals x) = fmi2_status_ok)
   \<and> (\<forall>t dt b x. fst (api_do_step api t dt b x) = fmi2_status_ok)"

definition serving :: "('f, 's) server \<Rightarrow> bool" where
  "serving srv \<longleftrightarrow> \<not> m_sendDummyResponses srv \<and> hdf5Filename srv = []"

definition wire_ok :: "(nat \<times> request list \<times> response list) list \<Rightarrow> bool" where
  "wire_ok ws \<longleftrightarrow> (\<forall>(i, qs, rs)\<in>set ws. qs \<noteq> [] \<and> list_all2 good_answer qs rs)"

definition cluster_alive :: "(nat \<Rightarrow> ('f, 's) fmu) \<Rightarrow> ('f, 's) cluster \<Rightarrow> bool" where
  "cluster_alive apis w \<longleftrightarrow> \<not> crashed w \<and> (\<forall>i. obedient (apis i)) \<and> (\<forall>i. serving (servers w i)) \<and> wire_ok (wire w)"

subsection \<open>The servers answer\<close>

text \<open>The effect of a request on the FMU.\<close>

fun exec_request :: "('f, 's) fmu \<Rightarrow> request \<Rightarrow> 'f \<Rightarrow> 'f" where
  "exec_request api (set_real_req vrs vals) x = snd (api_set_real api vrs vals x)"
| "exec_request api (set_integer_req vrs vals) x = snd (api_set_integer api vrs vals x)"
| "exec_request api (set_boolean_req vrs vals) x = snd (api_set_boolean api vrs vals x)"
| "exec_request api (set_string_req vrs vals) x = snd (api_set_string api vrs vals x)"
| "exec_request api (do_step_req t dt b) x = snd (api_do_step api t dt b x)"
| "exec_request api _ x = x"

lemma server_answers_good:
  assumes "obedient api" and "serving srv" and "answerable q"
  shows "\<exists>srv' r. server_clientDataInner env api q srv = Inr (srv', Some r) \<and> good_answer q r \<and> serving srv'
     \<and> m_fmi2Instance srv' = exec_request api q (m_fmi2Instance srv)"
proof -
  obtain r0 where "good_answer q r0" using assms(3) by (auto simp: answerable_def)
  then show ?thesis using assms(1,2)
    by cases
       (simp_all add: handler_defs good_answer_simps obedient_def serving_def read_fmu_def call_fmu_def reply_def copy_values_def
          buffer_def case_prod_beta min_absorb1 Let_def)
qed

lemma server_transmission_good:
  assumes "obedient api" and "serving srv" and "list_all answerable qs"
  shows "\<exists>srv' rs. server_clientData env api qs srv = Inr (srv', rs) \<and> list_all2 good_answer qs rs \<and> serving srv'
     \<and> m_fmi2Instance srv' = fold (exec_request api) qs (m_fmi2Instance srv)"
  using assms(2,3)
proof (induction qs arbitrary: srv)
  case (Cons q qs)
  obtain srv1 r where 1: "server_clientDataInner env api q srv = Inr (srv1, Some r)" "good_answer q r" "serving srv1"
    "m_fmi2Instance srv1 = exec_request api q (m_fmi2Instance srv)"
    using server_answers_good[OF assms(1) Cons.prems(1), of q env] Cons.prems(2) by auto
  obtain srv2 rs where "server_clientData env api qs srv1 = Inr (srv2, rs)" "list_all2 good_answer qs rs" "serving srv2"
    "m_fmi2Instance srv2 = fold (exec_request api) qs (m_fmi2Instance srv1)" using Cons.IH[OF 1(3)] Cons.prems(2) by auto
  then show ?case using 1 by simp
qed simp

subsection \<open>The cluster is a responsive transport\<close>

lemma wire_flight_simps [simp]:
  "wire_flight [] = (\<lambda>_. [])"
  "wire_flight (ws @ [(i, qs, rs)]) = (wire_flight ws)(i := wire_flight ws i @ qs)"
  by (auto simp: wire_flight_def fun_eq_iff)

lemma wire_delivery:
  "wire_ok ws \<Longrightarrow> delivery_ok (wire_flight (ws @ us)) (map (\<lambda>(i, qs, rs). (i, rs)) ws)
     \<and> after_delivery (wire_flight (ws @ us)) (map (\<lambda>(i, qs, rs). (i, rs)) ws) = wire_flight us"
proof (induction ws)
  case (Cons a ws)
  obtain i qs rs where a: "a = (i, qs, rs)" by (cases a) auto
  have q: "qs \<noteq> []" "list_all2 good_answer qs rs" "wire_ok ws" using Cons.prems a by (auto simp: wire_ok_def)
  have len: "length rs = length qs" using list_all2_lengthD[OF q(2)] by simp
  have f: "wire_flight (a # ws @ us) = (\<lambda>j. (if i = j then qs else []) @ wire_flight (ws @ us) j)"
    by (simp add: wire_flight_def a fun_eq_iff)
  have g: "(wire_flight (a # ws @ us))(i := drop (length rs) (wire_flight (a # ws @ us) i)) = wire_flight (ws @ us)"
    by (auto simp: f len fun_eq_iff)
  have h: "take (length rs) (wire_flight (a # ws @ us) i) = qs" by (simp add: f len)
  have "rs \<noteq> []" using q(1) len by auto
  then have "delivery_ok (wire_flight (a # ws @ us)) ((i, rs) # map (\<lambda>(i, qs, rs). (i, rs)) ws)
     \<and> after_delivery (wire_flight (a # ws @ us)) ((i, rs) # map (\<lambda>(i, qs, rs). (i, rs)) ws) = wire_flight us"
    unfolding delivery_ok.simps after_delivery.simps g h using Cons.IH[OF q(3)] q(2) by blast
  then show ?case by (simp only: a list.map append_Cons case_prod_conv)
qed simp

lemma cluster_send_law:
  assumes "cluster_alive apis w" and "list_all answerable qs"
  shows "cluster_alive apis (cluster_send env apis i qs w)
     \<and> cluster_flight (cluster_send env apis i qs w) = (cluster_flight w)(i := cluster_flight w i @ qs)"
proof (cases "qs = []")
  case False
  have "obedient (apis i)" "serving (servers w i)" using assms(1) by (simp_all add: cluster_alive_def)
  from server_transmission_good[OF this assms(2), of env] obtain srv rs where
    "server_clientData env (apis i) qs (servers w i) = Inr (srv, rs)" "list_all2 good_answer qs rs" "serving srv" by blast
  then show ?thesis using assms(1) False by (auto simp: cluster_send_def cluster_alive_def cluster_flight_def wire_ok_def)
qed (use assms in \<open>simp add: cluster_send_def\<close>)

lemma cluster_poll_law:
  assumes "cluster_alive apis w" and "cluster_poll arrive w = (bs, w')"
  shows "cluster_alive apis w' \<and> delivery_ok (cluster_flight w) bs \<and> cluster_flight w' = after_delivery (cluster_flight w) bs
     \<and> ((\<exists>i. cluster_flight w i \<noteq> []) \<longrightarrow> bs \<noteq> [])"
proof -
  define k where "k = Suc (arrive w)"
  have bs: "bs = map (\<lambda>(i, qs, rs). (i, rs)) (take k (wire w))" "w' = w\<lparr>wire := drop k (wire w)\<rparr>"
    using assms(2) by (auto simp: cluster_poll_def Let_def k_def)
  have ok: "wire_ok (take k (wire w))" "wire_ok (drop k (wire w))"
    using assms(1) by (auto simp: cluster_alive_def wire_ok_def dest: in_set_takeD in_set_dropD)
  have "cluster_flight w = (\<lambda>_. [])" if "bs = []" using that bs(1) by (simp add: k_def cluster_flight_def)
  then show ?thesis using wire_delivery[OF ok(1), of "drop k (wire w)"] assms(1) ok(2) bs
    by (auto simp: cluster_flight_def cluster_alive_def k_def)
qed

interpretation cl: responsive_net "cluster_net env apis arrive" cluster_flight "cluster_alive apis"
  for env apis arrive
proof
  show "cluster_alive apis (net_send (cluster_net env apis arrive) i rs w)
      \<and> cluster_flight (net_send (cluster_net env apis arrive) i rs w) = (cluster_flight w)(i := cluster_flight w i @ rs)"
    if "cluster_alive apis w" "list_all answerable rs" for w rs i
    using cluster_send_law[OF that, of env i] by (simp add: cluster_net_def)
  show "cluster_alive apis w' \<and> delivery_ok (cluster_flight w) bs \<and> cluster_flight w' = after_delivery (cluster_flight w) bs
      \<and> ((\<exists>i. cluster_flight w i \<noteq> []) \<longrightarrow> bs \<noteq> [])"
    if "cluster_alive apis w" "net_poll (cluster_net env apis arrive) w = (bs, w')" for w w' bs
    using cluster_poll_law[OF that(1), of arrive bs w'] that(2) by (simp add: cluster_net_def)
qed

subsection \<open>Answers that overtake each other\<close>

text \<open>Each FMU has a connection of its own: the answers of one FMU stay in order, those of different FMUs may overtake each other. Before a
  poll, the FMUs in the list \<open>turns\<close> jump the queue, one after the other, with their first transmission: with one
  answer for each poll, every order comes about that keeps the order of each FMU.\<close>

definition to_front :: "nat \<Rightarrow> (nat \<times> request list \<times> response list) list \<Rightarrow> (nat \<times> request list \<times> response list) list" where
  "to_front i ws = (case List.extract (\<lambda>a. fst a = i) ws of None \<Rightarrow> ws | Some (us, a, vs) \<Rightarrow> a # us @ vs)"

definition mixed_net :: "server_env \<Rightarrow> (nat \<Rightarrow> ('f, 's) fmu) \<Rightarrow> (('f, 's) cluster \<Rightarrow> nat list) \<Rightarrow> (('f, 's) cluster \<Rightarrow> nat)
    \<Rightarrow> ('f, 's) cluster net" where
  "mixed_net env apis turns arrive =
     (cluster_net env apis arrive)\<lparr>net_poll := \<lambda>w. cluster_poll arrive (w\<lparr>wire := fold to_front (turns w) (wire w)\<rparr>)\<rparr>"

lemma wire_flight_append: "wire_flight (us @ vs) i = wire_flight us i @ wire_flight vs i"
  by (simp add: wire_flight_def)

lemma wire_flight_others: "\<forall>a\<in>set us. fst a \<noteq> i \<Longrightarrow> wire_flight us i = []"
  by (auto simp: wire_flight_def concat_eq_Nil_conv)

lemma wire_flight_Cons: "wire_flight (a # us) i = (if fst a = i then fst (snd a) else []) @ wire_flight us i"
  by (simp add: wire_flight_def split: prod.split)

lemma to_front_keeps [simp]: "wire_flight (to_front i ws) = wire_flight ws" "set (to_front i ws) = set ws"
  by (auto simp: to_front_def fun_eq_iff wire_flight_append wire_flight_Cons wire_flight_others
      split: option.split dest!: extract_SomeE)

lemma turns_keep [simp]: "wire_flight (fold to_front is ws) = wire_flight ws" "set (fold to_front is ws) = set ws"
  by (induction "is" arbitrary: ws) simp_all

interpretation mixed: responsive_net "mixed_net env apis turns arrive" cluster_flight "cluster_alive apis"
  for env apis turns arrive
proof
  show "cluster_alive apis (net_send (mixed_net env apis turns arrive) i rs w)
      \<and> cluster_flight (net_send (mixed_net env apis turns arrive) i rs w) = (cluster_flight w)(i := cluster_flight w i @ rs)"
    if "cluster_alive apis w" "list_all answerable rs" for w rs i
    using cluster_send_law[OF that, of env i] by (simp add: mixed_net_def cluster_net_def)
  show "cluster_alive apis w' \<and> delivery_ok (cluster_flight w) bs \<and> cluster_flight w' = after_delivery (cluster_flight w) bs
      \<and> ((\<exists>i. cluster_flight w i \<noteq> []) \<longrightarrow> bs \<noteq> [])"
    if "cluster_alive apis w" "net_poll (mixed_net env apis turns arrive) w = (bs, w')" for w w' bs
  proof -
    let ?w = "w\<lparr>wire := fold to_front (turns w) (wire w)\<rparr>"
    have "cluster_alive apis ?w" "cluster_flight ?w = cluster_flight w"
      using that(1) by (simp_all add: cluster_alive_def cluster_flight_def wire_ok_def)
    then show ?thesis using cluster_poll_law[of apis ?w arrive bs w'] that(2) by (simp add: mixed_net_def)
  qed
qed

subsection \<open>A simulation\<close>

definition new_cluster :: "(nat \<Rightarrow> ('f, 's) fmu) \<Rightarrow> (nat \<Rightarrow> 'f) \<Rightarrow> ('f, 's) cluster" where
  "new_cluster apis inst = \<lparr>servers = (\<lambda>i. new_server (apis i) (inst i)), wire = [], crashed = False\<rparr>"

definition new_simulation ::
  "nat \<Rightarrow> (nat \<Rightarrow> ('f, 's) fmu) \<Rightarrow> (nat \<Rightarrow> 'f) \<Rightarrow> WeakConnection list \<Rightarrow> Rend list \<Rightarrow> ('f, 's) cluster smaster res" where
  "new_simulation n apis inst wcs rs =
     new_StrongMaster (new_master (map (\<lambda>i. new_client (int i)) [0..<n]) wcs (new_cluster apis inst)) None ([], []) False rs (\<lambda>_. False)"

definition simulate ::
  "umfpack \<Rightarrow> 'w net \<Rightarrow> config \<Rightarrow> (double \<times> double) list \<Rightarrow> 'w smaster \<Rightarrow> 'w smaster res" where
  "simulate umf net cfg ts m = rfold (\<lambda>(t, dt). runIteration umf net cfg t dt) ts m"

lemma new_cluster_alive: "\<forall>i. obedient (apis i) \<Longrightarrow> cluster_alive apis (new_cluster apis inst)"
  by (simp add: cluster_alive_def new_cluster_def new_server_def serving_def wire_ok_def)

lemma new_simulation_good:
  assumes "\<forall>i. obedient (apis i)" and "safe_wiring n wcs" and "wf_rends n rs" and "topo_rends rs"
  shows "\<exists>m. new_simulation n apis inst wcs rs = Inr m \<and> good cluster_flight (cluster_alive apis) n m"
  unfolding new_simulation_def
proof (rule new_StrongMaster_good)
  let ?b = "new_master (map (\<lambda>i. new_client (int i)) [0..<n]) wcs (new_cluster apis inst)"
  show "ready cluster_flight (cluster_alive apis) n ?b"
    using new_cluster_alive[OF assms(1)]
    by (simp add: ready_def new_master_def new_client_def matching_def cluster_flight_def new_cluster_def)
  show "\<forall>i<n. plain (m_clients ?b ! i)" by (simp add: new_master_def new_client_def plain_def)
  show "map m_id (m_clients ?b) = map int [0..<n]" by (simp add: new_master_def new_client_def comp_def)
qed (use assms in \<open>simp_all add: new_master_def\<close>)

text \<open>C5: iterations return. With servers behind ordered connections, FMUs that accept the calls of a
  step, weak connections whose conversions cannot fail, no strong connections and rends without a cycle, any sequence of
  iterations runs to its end: no wait exceeds its limit of polls, no value is missing when inputs are computed, and the
  scheduler does not get stuck. Each FMU answers its transmissions in order, the answers of different FMUs overtake each other as \<open>turns\<close> says, and each poll
  delivers as many as \<open>arrive\<close> says, but at least one.\<close>

theorem simulation_returns:
  assumes "\<forall>i. obedient (apis i)" and "safe_wiring n wcs" and "wf_rends n rs" and "topo_rends rs"
  shows "\<exists>m m'. new_simulation n apis inst wcs rs = Inr m \<and> simulate umf (mixed_net env apis turns arrive) cfg ts m = Inr m'
     \<and> m_pendingRequests (base m') = (\<Sum>i<n. length (m_messageQueue (clients_of m' ! i)))"
proof -
  obtain m where m: "new_simulation n apis inst wcs rs = Inr m" "good cluster_flight (cluster_alive apis) n m"
    using new_simulation_good[OF assms] by blast
  from mixed.iterations_good[OF m(2), of umf env turns arrive cfg ts] obtain m' where
    "simulate umf (mixed_net env apis turns arrive) cfg ts m = Inr m'" "good cluster_flight (cluster_alive apis) n m'"
    by (auto simp: simulate_def)
  then show ?thesis using m(1) by (auto simp: good_def ready_def)
qed

text \<open>Two integrators, one after the other: the position of the first is the velocity of the second, and half the position of
  the second the velocity of the first.\<close>

definition two_integrators :: "WeakConnection list" where
  "two_integrators =
     [\<lparr>fromType = fmi2_base_type_real, fromFMU = 0, fromOutputVR = 0, toType = fmi2_base_type_real, toFMU = 1, toInputVR = 1, slope = 1, intercept = 0\<rparr>,
      \<lparr>fromType = fmi2_base_type_real, fromFMU = 1, fromOutputVR = 0, toType = fmi2_base_type_real, toFMU = 0, toInputVR = 1, slope = 1 / 2, intercept = 0\<rparr>]"

lemma two_integrators_safe: "safe_wiring 2 two_integrators"
  by (simp add: safe_wiring_def two_integrators_def safe_connection_def)

lemma integrator_obedient: "obedient integrator"
  by (simp add: obedient_def integrator_def split: prod.splits)

definition no_debug :: config where
  "no_debug = \<lparr>DEBUG = False, parse_xml = (\<lambda>_. None)\<rparr>"

theorem simulation_returns_witness:
  "(\<forall>i::nat. obedient integrator) \<and> safe_wiring 2 two_integrators \<and> wf_rends 2 two_in_order \<and> topo_rends two_in_order
   \<and> (\<exists>m m'. new_simulation 2 (\<lambda>_. integrator) (\<lambda>_. (5, 2)) two_integrators two_in_order = Inr m
     \<and> simulate (\<lambda>_ _ _. (0, \<lambda>_. 0)) (mixed_net quiet_env (\<lambda>_. integrator) (\<lambda>_. [1, 0]) (\<lambda>_. 0)) no_debug [(0, 1), (1, 1)] m = Inr m'
     \<and> m_pendingRequests (base m') = (\<Sum>i<2. length (m_messageQueue (clients_of m' ! i))))"
  using simulation_returns[of "\<lambda>_. integrator" 2 two_integrators two_in_order] integrator_obedient two_integrators_safe two_in_order_wf by blast

text \<open>C6: an iteration of the master that returns has told every FMU exactly once to step, from \<open>t\<close> by \<open>dt\<close>, and no FMU
  anything else to step; the order of the requests is that of a sequence of batches in which the FMUs that an FMU has to wait for (the
  parents of its rend) are in strictly earlier batches.\<close>

theorem iteration_steps_once:
  assumes "checkRends (length (clients_of m)) (rends m) = Inr (clientrend m)" and "parents (rends m ! 0) = []"
    and "runIteration umf net cfg t dt m = Inr m'"
  shows "\<exists>bs. steps_of m' = steps_of m @ map (step_event t dt) (concat bs) \<and> hist_ok (rends m) bs {0..<int (length (clients_of m))}"
proof -
  obtain m1 s1 where 1: "run_sched (crank_batch net cfg t dt) (stepKinematicFmus umf net cfg t dt) (length (clients_of m)) (rends m)
      (clientrend m) (kins m) m = Inr (m1, s1)" "prefetch cfg m1 = Inr m'"
    using assms(3) by (auto simp: runIteration_def)
  have "has_clients (length (clients_of m)) m" by (simp add: has_clients_def)
  from sm.run_partial[OF assms(1,2) this 1(1)] squiet_steps[OF prefetch_squiet[OF 1(2)]] step_effects show ?thesis by metis
qed

theorem iteration_steps_once_witness:
  "\<exists>m m' bs. runIteration (\<lambda>_ _ _. (0, \<lambda>_. 0)) (cluster_net quiet_env (\<lambda>_. integrator) (\<lambda>_. 0)) no_debug 0 1 m = Inr m'
     \<and> rends m = two_in_order \<and> steps_of m' = steps_of m @ map (step_event 0 1) (concat bs) \<and> hist_ok two_in_order bs {0..<2}"
proof -
  obtain m where m: "new_simulation 2 (\<lambda>_. integrator) (\<lambda>_. (5, 2)) two_integrators two_in_order = Inr m"
    "good cluster_flight (cluster_alive (\<lambda>_. integrator)) 2 m"
    using new_simulation_good[of "\<lambda>_. integrator" 2 two_integrators two_in_order] integrator_obedient two_integrators_safe two_in_order_wf by blast
  obtain m' where m': "runIteration (\<lambda>_ _ _. (0, \<lambda>_. 0)) (cluster_net quiet_env (\<lambda>_. integrator) (\<lambda>_. 0)) no_debug 0 1 m = Inr m'"
    using cl.iteration_good[OF m(2)] by blast
  have rs: "rends m = two_in_order" using m(1) by (auto simp: new_simulation_def new_StrongMaster_def add_connections_frame)
  have n: "length (clients_of m) = 2" using good_length[OF m(2)] .
  have "checkRends (length (clients_of m)) (rends m) = Inr (clientrend m)" "parents (rends m ! 0) = []"
    using m(2) n by (auto simp: good_def wired_def rs two_in_order_def)
  from iteration_steps_once[OF this m'] show ?thesis using m' rs n by (intro exI[of _ m] exI[of _ m']) auto
qed

end
