(* ===== verification/Cosim_Wait.thy ===== *)
theory Cosim_Wait
  imports System
begin

text \<open>
  What \<^verbatim>\<open>wait\<close> computes on a cluster: every client ends up as if it had handled the answers of its own
  server to its own queue, in order, whatever the polls deliver when; and every server has executed the queue of its client.
  In particular the values that were asked for are those of the FMU after the requests queued before.
\<close>

subsection \<open>Handling responses, without the counter\<close>

definition disp :: "(string \<Rightarrow> (variable list \<times> variable list) option) \<Rightarrow> response list \<Rightarrow> client \<Rightarrow> client res" where
  "disp P rs c = rfold (\<lambda>r c. rbind (dispatch_response P r c) (\<lambda>(c, _). Inr c)) rs c"

lemma disp_simps [simp]:
  "disp P [] c = Inr c" "disp P (r # rs) c = rbind (dispatch_response P r c) (\<lambda>(c, _). disp P rs c)"
  by (simp add: disp_def) (cases "dispatch_response P r c"; auto simp: disp_def)

lemma disp_append: "disp P (rs @ rs') c = rbind (disp P rs c) (disp P rs')"
  by (cases "disp P rs c") (simp_all add: disp_def rfold_append)

lemma client_clientData_disp: "client_clientData P rs (p, c) = Inr ((p', c'), ps) \<Longrightarrow> disp P rs c = Inr c'"
proof (induction rs arbitrary: p c ps)
  case (Cons r rs)
  then obtain c1 qs p1 qs1 where "dispatch_response P r c = Inr (c1, qs)" "client_clientData P rs (p1, c1) = Inr ((p', c'), qs1)"
    by (fastforce simp: client_clientDataInner_def rbind_eq_Inr split: if_splits)
  then show ?case using Cons.IH by simp
qed simp

lemma receive_disp:
  assumes "receiveAndHandleMessage cfg (i, rs) m = Inr m'"
  shows "i < length (m_clients m) \<and> world m' = world m \<and> zmqControl m' = zmqControl m
     \<and> (\<exists>c'. disp (parse_xml cfg) rs (m_clients m ! i) = Inr c' \<and> m_clients m' = (m_clients m)[i := c'])"
proof -
  obtain p' c' ps where 1: "\<not> length (m_clients m) \<le> i" "client_clientData (parse_xml cfg) rs (m_pendingRequests m, m_clients m ! i) = Inr ((p', c'), ps)"
    "m' = (set_pclient i (p', c') m)\<lparr>storage_pushes := storage_pushes m @ map (Pair i) ps\<rparr>"
    using assms by (auto simp: receiveAndHandleMessage_def get_pclient_def rbind_eq_Inr split: if_splits)
  then show ?thesis using client_clientData_disp[OF 1(2)] by (simp add: set_pclient_def)
qed

subsection \<open>Polling\<close>

definition wire_responses :: "(nat \<times> request list \<times> response list) list \<Rightarrow> nat \<Rightarrow> response list" where
  "wire_responses ws i = concat (map (\<lambda>(j, qs, rs). if j = i then rs else []) ws)"

lemma wire_responses_simps [simp]:
  "wire_responses [] i = []" "wire_responses ((j, qs, rs) # ws) i = (if j = i then rs else []) @ wire_responses ws i"
  "wire_responses (ws @ us) i = wire_responses ws i @ wire_responses us i"
  by (simp_all add: wire_responses_def)

lemma poll_disp:
  assumes "rfold (receiveAndHandleMessage cfg) (map (\<lambda>(i, qs, rs). (i, rs)) ws) m = Inr m'"
  shows "world m' = world m \<and> zmqControl m' = zmqControl m
     \<and> (\<forall>i. disp (parse_xml cfg) (wire_responses (ws @ us) i) (m_clients m ! i) = disp (parse_xml cfg) (wire_responses us i) (m_clients m' ! i))"
  using assms
proof (induction ws arbitrary: m)
  case (Cons a ws)
  obtain j qs rs where a: "a = (j, qs, rs)" by (cases a) auto
  obtain m1 where 1: "receiveAndHandleMessage cfg (j, rs) m = Inr m1" "rfold (receiveAndHandleMessage cfg) (map (\<lambda>(i, qs, rs). (i, rs)) ws) m1 = Inr m'"
    using Cons.prems a by auto
  obtain c' where c': "j < length (m_clients m)" "world m1 = world m" "zmqControl m1 = zmqControl m"
    "disp (parse_xml cfg) rs (m_clients m ! j) = Inr c'" "m_clients m1 = (m_clients m)[j := c']" using receive_disp[OF 1(1)] by blast
  have "disp (parse_xml cfg) (wire_responses ((a # ws) @ us) i) (m_clients m ! i) = disp (parse_xml cfg) (wire_responses (ws @ us) i) (m_clients m1 ! i)" for i
    using c' by (cases "j = i") (simp_all add: a disp_append)
  then show ?case using Cons.IH[OF 1(2)] c'(2,3) by simp
qed simp

lemma wait_loop_disp:
  assumes "wait_loop (cluster_net env apis arrive) cfg left m = Inr m'" and "\<not> zmqControl m"
  shows "servers (world m') = servers (world m)
     \<and> (\<forall>i. disp (parse_xml cfg) (wire_responses (wire (world m)) i) (m_clients m ! i)
          = disp (parse_xml cfg) (wire_responses (wire (world m')) i) (m_clients m' ! i))"
  using assms
proof (induction left arbitrary: m)
  case 0
  show ?case
  proof (cases "m_pendingRequests m = 0")
    case True
    then show ?thesis using 0 by (simp add: wait_loop.simps)
  next
    case False
    obtain m1 where 1: "rfold (receiveAndHandleMessage cfg) (fst (cluster_poll arrive (world m))) (m\<lparr>world := snd (cluster_poll arrive (world m))\<rparr>) = Inr m1" "m' = m1"
      using 0 False by (subst (asm) wait_loop.simps) (auto simp: handleZmqControl_def cluster_net_def split_beta rbind_eq_Inr split: if_splits)
    let ?k = "Suc (arrive (world m))"
    from poll_disp[of cfg "take ?k (wire (world m))" "m\<lparr>world := snd (cluster_poll arrive (world m))\<rparr>" m1 "drop ?k (wire (world m))"] 1
    show ?thesis by (simp add: cluster_poll_def Let_def)
  qed
next
  case (Suc left)
  show ?case
  proof (cases "m_pendingRequests m = 0")
    case True
    then show ?thesis using Suc.prems by (simp add: wait_loop.simps)
  next
    case False
    obtain m1 where 1: "rfold (receiveAndHandleMessage cfg) (fst (cluster_poll arrive (world m))) (m\<lparr>world := snd (cluster_poll arrive (world m))\<rparr>) = Inr m1"
      "wait_loop (cluster_net env apis arrive) cfg left m1 = Inr m'"
      using Suc.prems False by (subst (asm) wait_loop.simps) (auto simp: handleZmqControl_def cluster_net_def split_beta rbind_eq_Inr split: if_splits)
    let ?k = "Suc (arrive (world m))"
    from poll_disp[of cfg "take ?k (wire (world m))" "m\<lparr>world := snd (cluster_poll arrive (world m))\<rparr>" m1 "drop ?k (wire (world m))"] 1(1) Suc.prems(2)
    have "servers (world m1) = servers (world m)" "\<not> zmqControl m1"
      "\<forall>i. disp (parse_xml cfg) (wire_responses (wire (world m)) i) (m_clients m ! i)
         = disp (parse_xml cfg) (wire_responses (wire (world m1)) i) (m_clients m1 ! i)"
      by (simp_all add: cluster_poll_def Let_def)
    then show ?thesis using Suc.IH[OF 1(2)] by simp
  qed
qed

subsection \<open>Sending\<close>

lemma cluster_send_eq:
  assumes "cluster_alive apis w" and "list_all answerable qs"
  shows "\<exists>srv rs. server_clientData env (apis i) qs (servers w i) = Inr (srv, rs) \<and> servers (cluster_send env apis i qs w) = (servers w)(i := srv)
     \<and> (\<forall>j. wire_responses (wire (cluster_send env apis i qs w)) j = wire_responses (wire w) j @ (if i = j then rs else []))"
proof -
  have "obedient (apis i)" "serving (servers w i)" using assms(1) by (simp_all add: cluster_alive_def)
  from server_transmission_good[OF this assms(2), of env] obtain srv rs where
    "server_clientData env (apis i) qs (servers w i) = Inr (srv, rs)" by blast
  then show ?thesis by (cases "qs = []") (auto simp: cluster_send_def)
qed

definition executed ::
  "server_env \<Rightarrow> (nat \<Rightarrow> ('f, 's) fmu) \<Rightarrow> (nat \<Rightarrow> request list) \<Rightarrow> ('f, 's) cluster \<Rightarrow> ('f, 's) cluster \<Rightarrow> nat \<Rightarrow> bool" where
  "executed env apis q w w' i \<longleftrightarrow> server_clientData env (apis i) (q i) (servers w i) = Inr (servers w' i, wire_responses (wire w') i)"

lemma sends_executed:
  assumes r: "ready cluster_flight (cluster_alive apis) n m" and "wire (world m) = []" and "k \<le> n"
  shows "\<exists>w. fold (send_client (cluster_net env apis arrive)) [0..<k] m = m\<lparr>m_clients := map sent (take k (m_clients m)) @ drop k (m_clients m), world := w\<rparr>
     \<and> cluster_alive apis w \<and> (\<forall>i<k. executed env apis (\<lambda>i. m_messageQueue (m_clients m ! i)) (world m) w i)
     \<and> (\<forall>i\<ge>k. servers w i = servers (world m) i \<and> wire_responses (wire w) i = [])"
  using assms(3)
proof (induction k)
  case 0
  then show ?case using r assms(2) by (intro exI[of _ "world m"]) (simp add: ready_def)
next
  case (Suc k)
  let ?cs = "\<lambda>k. map sent (take k (m_clients m)) @ drop k (m_clients m)" and ?q = "\<lambda>i. m_messageQueue (m_clients m ! i)"
  have n: "length (m_clients m) = n" using r by (simp add: ready_def)
  obtain w where w: "fold (send_client (cluster_net env apis arrive)) [0..<k] m = m\<lparr>m_clients := ?cs k, world := w\<rparr>" "cluster_alive apis w"
    "\<forall>i<k. executed env apis ?q (world m) w i" "\<forall>i\<ge>k. servers w i = servers (world m) i \<and> wire_responses (wire w) i = []" using Suc by auto
  have k: "?cs k ! k = m_clients m ! k" "(?cs k)[k := sent (m_clients m ! k)] = ?cs (Suc k)"
    using Suc.prems n by (auto simp: nth_append take_Suc_conv_app_nth list_update_append Cons_nth_drop_Suc[symmetric])
  have ans: "list_all answerable (?q k)" using r Suc.prems by (simp add: ready_def matching_def)
  let ?w = "cluster_send env apis k (?q k) w"
  obtain srv rs where s: "server_clientData env (apis k) (?q k) (servers w k) = Inr (srv, rs)" "servers ?w = (servers w)(k := srv)"
    "\<forall>j. wire_responses (wire ?w) j = wire_responses (wire w) j @ (if k = j then rs else [])" using cluster_send_eq[OF w(2) ans] by blast
  have "executed env apis ?q (world m) ?w i" if "i < Suc k" for i
    using that s w(3,4) by (cases "i = k") (auto simp: executed_def)
  moreover have "servers ?w i = servers (world m) i \<and> wire_responses (wire ?w) i = []" if "i \<ge> Suc k" for i using that s(2,3) w(4) by simp
  moreover have "send_client (cluster_net env apis arrive) k (m\<lparr>m_clients := ?cs k, world := w\<rparr>) = m\<lparr>m_clients := ?cs (Suc k), world := ?w\<rparr>"
  proof (cases "?q k = []")
    case True
    then have "sent (m_clients m ! k) = m_clients m ! k" by (simp add: sent_def sendQueuedMessages_def)
    then have "?cs (Suc k) = ?cs k" using k by (metis list_update_id)
    then show ?thesis using True k(1) by (simp add: send_client_def sendQueuedMessages_def cluster_send_def)
  next
    case False
    then show ?thesis using k by (simp add: send_client_def sendQueuedMessages_def set_client_def sent_def cluster_net_def)
  qed
  ultimately show ?case using w(1) cluster_send_law[OF w(2) ans] by (intro exI[of _ ?w]) simp
qed

lemma flight_wire: "cluster_alive apis w \<Longrightarrow> cluster_flight w = (\<lambda>_. []) \<Longrightarrow> wire w = []"
proof (cases "wire w")
  case (Cons a ws)
  assume w: "cluster_alive apis w" "cluster_flight w = (\<lambda>_. [])"
  obtain i qs rs where a: "a = (i, qs, rs)" by (cases a) auto
  then have "qs \<noteq> []" using w(1) Cons by (auto simp: cluster_alive_def wire_ok_def)
  moreover have "cluster_flight w i = []" using w(2) by simp
  ultimately show "wire w = []" using a Cons by (simp add: cluster_flight_def wire_flight_def)
qed simp

subsection \<open>Waiting\<close>

lemma wait_exact:
  assumes r: "ready cluster_flight (cluster_alive apis) n m"
  shows "\<exists>cs' w' k. wait (cluster_net env apis arrive) cfg m = Inr (m\<lparr>m_clients := cs', m_pendingRequests := 0, world := w', rendezvous := k\<rparr>)
     \<and> ready cluster_flight (cluster_alive apis) n (m\<lparr>m_clients := cs', m_pendingRequests := 0, world := w', rendezvous := k\<rparr>)
     \<and> (\<forall>i<n. m_messageQueue (cs' ! i) = [] \<and> m_id (cs' ! i) = m_id (m_clients m ! i))
     \<and> (\<forall>i<n. \<exists>rs. server_clientData env (apis i) (m_messageQueue (m_clients m ! i)) (servers (world m) i) = Inr (servers w' i, rs)
          \<and> disp (parse_xml cfg) rs (sent (m_clients m ! i)) = Inr (cs' ! i))"
proof -
  let ?net = "cluster_net env apis arrive" and ?q = "\<lambda>i. m_messageQueue (m_clients m ! i)"
  have n: "length (m_clients m) = n" using r by (simp add: ready_def)
  obtain cs' w' k where 1: "wait ?net cfg m = Inr (m\<lparr>m_clients := cs', m_pendingRequests := 0, world := w', rendezvous := k\<rparr>)"
    "ready cluster_flight (cluster_alive apis) n (m\<lparr>m_clients := cs', m_pendingRequests := 0, world := w', rendezvous := k\<rparr>)"
    "\<forall>i<n. m_messageQueue (cs' ! i) = []" "keeps (m_clients m) ?q cs' (\<lambda>_. [])" using cl.wait_returns[OF r, of env arrive cfg] by blast
  have wire': "wire w' = []" using 1(2) flight_wire[of apis w'] by (simp add: ready_def)
  have wire0: "wire (world m) = []" using r flight_wire[of apis "world m"] by (simp add: ready_def)
  have ids: "m_id (cs' ! i) = m_id (m_clients m ! i)" if "i < n" for i
    using 1(4) n that unfolding keeps_def by (metis length_map nth_map)
  have "\<exists>rs. server_clientData env (apis i) (?q i) (servers (world m) i) = Inr (servers w' i, rs)
          \<and> disp (parse_xml cfg) rs (sent (m_clients m ! i)) = Inr (cs' ! i)" if i: "i < n" for i
  proof (cases "m_pendingRequests m = 0")
    case True
    then have "?q i = []" using r i by (auto simp: ready_def)
    moreover have "cs' = m_clients m" "w' = world m" using 1(1) True by (auto simp: wait_def wait_loop.simps dest: arg_cong[of _ _ m_clients] arg_cong[of _ _ world])
    ultimately show ?thesis by (simp add: sent_def sendQueuedMessages_def)
  next
    case False
    let ?m = "m\<lparr>rendezvous := rendezvous m + 1\<rparr>"
    have "ready cluster_flight (cluster_alive apis) n ?m" using r by (simp add: ready_def)
    from sends_executed[OF this _ order_refl, of env arrive] wire0 n obtain w where
      w: "fold (send_client ?net) [0..<n] ?m = ?m\<lparr>m_clients := map sent (m_clients m), world := w\<rparr>" "\<forall>i<n. executed env apis ?q (world m) w i" by auto
    from 1(1) False n w(1) have "wait_loop ?net cfg (m_pendingRequests m + 60) (?m\<lparr>m_clients := map sent (m_clients m), world := w\<rparr>)
        = Inr (m\<lparr>m_clients := cs', m_pendingRequests := 0, world := w', rendezvous := k\<rparr>)" by (simp add: wait_def Let_def)
    from wait_loop_disp[OF this] r have "servers w' = servers w"
      "disp (parse_xml cfg) (wire_responses (wire w) i) (map sent (m_clients m) ! i) = disp (parse_xml cfg) (wire_responses (wire w') i) (cs' ! i)"
      by (simp_all add: ready_def)
    then show ?thesis using w(2) i n wire' by (auto simp: executed_def)
  qed
  then show ?thesis using 1(1,2,3) ids by blast
qed

end
