(* ===== verification/Cosim.thy ===== *)
theory Cosim
  imports Cosim_Wait
begin

text \<open>
  The master as an implementation of co-simulation. The abstract step of a batch reads the outputs of
  all FMUs, sets the inputs of the FMUs of the batch and lets them step. It is proved that an iteration of \<^verbatim>\<open>StrongMaster\<close>
  on a cluster of FMU servers does exactly this for a sequence of batches in the order of the rends, although it
  pipelines requests: the steps of one batch are sent together with the requests for the values the next batch
  needs, and values may be cached. The connections are plain connections of reals, the case the master has a
  fast path for.
\<close>

subsection \<open>Values\<close>

definition real_output :: "('f, 's) fmu \<Rightarrow> 'f \<Rightarrow> int \<Rightarrow> double" where
  "real_output api x vr = hd (snd (api_get_real api [vr] x))"

text \<open>An FMU returns the values of several variables as it returns each of them.\<close>

definition pointwise :: "('f, 's) fmu \<Rightarrow> bool" where
  "pointwise api \<longleftrightarrow> (\<forall>vrs x. snd (api_get_real api vrs x) = map (real_output api x) vrs)"

lemma server_clientData_append:
  "server_clientData env api (as @ bs) srv = Inr (srv', rs) \<longleftrightarrow>
     (\<exists>srv1 r1 r2. server_clientData env api as srv = Inr (srv1, r1) \<and> server_clientData env api bs srv1 = Inr (srv', r2) \<and> rs = r1 @ r2)"
  by (induction as arbitrary: srv rs) (auto simp: rbind_eq_Inr split: option.splits)+

lemma plain_disp: "list_all2 good_answer qs rs \<Longrightarrow> \<forall>q\<in>set qs. \<not> is_get q \<Longrightarrow> disp P rs c = Inr c"
proof (induction rule: list_all2_induct)
  case (Cons q qs r rs)
  from Cons.hyps(1) Cons.prems have "dispatch_response P r c = Inr (c, [])"
    by cases (auto simp: is_get_def check_status_def statusIsOK_def)
  then show ?case using Cons by simp
qed simp

lemma get_disp:
  "list_all2 good_answer qs rs \<Longrightarrow> \<forall>q\<in>set qs. is_get q \<and> request_type q \<noteq> 319 \<Longrightarrow> disp P rs c = Inr c' \<Longrightarrow> m_reals c' = m_reals c"
proof (induction arbitrary: c rule: list_all2_induct)
  case (Cons q qs r rs)
  obtain c1 ps where 1: "dispatch_response P r c = Inr (c1, ps)" "disp P rs c1 = Inr c'" using Cons.prems(2) by (auto simp: rbind_eq_Inr)
  from Cons.hyps(1) Cons.prems(1) 1(1) have "m_reals c1 = m_reals c"
    by cases (auto simp: is_get_def rbind_eq_Inr)
  then show ?case using Cons 1(2) by simp
qed simp

lemma disp_outputs:
  "list_all2 good_answer qs rs \<Longrightarrow> disp P rs c = Inr c' \<Longrightarrow> m_outputs c' = m_outputs c"
proof (induction arbitrary: c rule: list_all2_induct)
  case (Cons q qs r rs)
  obtain c1 ps where 1: "dispatch_response P r c = Inr (c1, ps)" "disp P rs c1 = Inr c'" using Cons.prems by (auto simp: rbind_eq_Inr)
  from Cons.hyps(1) 1(1) have "m_outputs c1 = m_outputs c"
    by cases (auto simp: rbind_eq_Inr check_status_def split: if_splits)
  then show ?case using Cons 1(2) by simp
qed simp

lemma exec_get: "is_get q \<Longrightarrow> exec_request api q x = x"
  by (cases q) (simp_all add: is_get_def)

lemma exec_gets: "\<forall>q\<in>set qs. is_get q \<Longrightarrow> fold (exec_request api) qs x = x"
  by (induction qs) (simp_all add: exec_get)

text \<open>One exchange: the requests that wait, then the requests for values.\<close>

lemma value_exchange:
  assumes api: "obedient api" "pointwise api" "serving srv"
    and plain: "\<forall>q\<in>set qs. answerable q \<and> \<not> is_get q"
    and out: "\<forall>ty. outgoing ty c = outgoing ty c0" "m_reals c = m_reals c0"
    and run: "server_clientData env api (qs @ value_requests c0) srv = Inr (srv', rs)" "disp P rs c = Inr c'"
  shows "m_fmi2Instance srv' = fold (exec_request api) qs (m_fmi2Instance srv) \<and> m_outputs c' = m_outputs c
     \<and> m_reals c' = store_values (m_outgoing_reals c0) (map (real_output api (m_fmi2Instance srv')) (m_outgoing_reals c0)) (m_reals c0)"
proof -
  obtain srv1 r1 r2 where 1: "server_clientData env api qs srv = Inr (srv1, r1)" "server_clientData env api (value_requests c0) srv1 = Inr (srv', r2)"
    "rs = r1 @ r2" using run(1) unfolding server_clientData_append by blast
  have "list_all answerable qs" using plain by (simp add: list_all_iff)
  from server_transmission_good[OF api(1,3) this, of env] 1(1) have
    2: "list_all2 good_answer qs r1" "serving srv1" "m_fmi2Instance srv1 = fold (exec_request api) qs (m_fmi2Instance srv)" by auto
  have d: "disp P r2 c = Inr c'" using run(2) plain_disp[OF 2(1)] plain 1(3) by (simp add: disp_append)
  have gets: "\<forall>q\<in>set (value_requests c0). is_get q \<and> answerable q" using value_requests_gets by blast
  then have "list_all answerable (value_requests c0)" by (simp add: list_all_iff)
  from server_transmission_good[OF api(1) 2(2) this, of env] 1(2) have
    3: "list_all2 good_answer (value_requests c0) r2" "m_fmi2Instance srv' = m_fmi2Instance srv1" using exec_gets[of "value_requests c0" api "m_fmi2Instance srv1"] gets by auto
  let ?x = "m_fmi2Instance srv1" and ?o = "m_outgoing_reals c0"
  have "m_reals c' = store_values ?o (map (real_output api ?x) ?o) (m_reals c0)"
  proof (cases "?o = []")
    case True
    then have "\<forall>q\<in>set (value_requests c0). is_get q \<and> request_type q \<noteq> 319" using gets by (auto simp: value_requests_def is_size_def split: if_splits)
    from get_disp[OF 3(1) this d] out(2) True show ?thesis by (simp add: store_values_def)
  next
    case False
    define qs' where "qs' = tl (value_requests c0)"
    have q: "value_requests c0 = get_real_req ?o # qs'" "\<forall>q\<in>set qs'. request_type q \<noteq> 319"
      using False by (auto simp: value_requests_def is_size_def qs'_def split: if_splits)
    have h: "server_clientDataInner env api (get_real_req ?o) srv1 = Inr (srv1, Some (get_real_res 0 (map (real_output api ?x) ?o)))"
      using api(1,2) 2(2) by (auto simp: handle_get_real_def read_fmu_def serving_def obedient_def pointwise_def reply_def buffer_def split_beta)
    obtain r3 where r3: "r2 = get_real_res 0 (map (real_output api ?x) ?o) # r3"
      using 1(2) h by (auto simp: q(1) rbind_eq_Inr)
    have o: "m_outgoing_reals c = ?o" using out(1) by (metis outgoing.simps(1))
    let ?c = "c\<lparr>m_reals := store_values ?o (map (real_output api ?x) ?o) (m_reals c), m_outgoing_reals := []\<rparr>"
    have "disp P r3 ?c = Inr c'" using d o by (simp add: r3 statusIsOK_def is_size_def)
    moreover have "list_all2 good_answer qs' r3" using 3(1) by (simp add: q(1) r3)
    ultimately show ?thesis using get_disp[of qs' r3 P ?c c'] gets q out(2) by auto
  qed
  then show ?thesis using 2(3) 3(2) disp_outputs[OF 3(1) d] by simp
qed

lemma store_values_map:
  "store_values out (map f out) d vr = (if vr \<in> set out then Some (f vr) else d vr)"
  unfolding store_values_def by (induction out arbitrary: d) auto

subsection \<open>The abstract step\<close>

definition inputs_of :: "WeakConnection list \<Rightarrow> nat \<Rightarrow> WeakConnection list" where
  "inputs_of wcs i = filter (\<lambda>wc. toFMU wc = i) wcs"

definition input_values :: "(nat \<Rightarrow> ('f, 's) fmu) \<Rightarrow> WeakConnection list \<Rightarrow> (nat \<Rightarrow> 'f) \<Rightarrow> nat \<Rightarrow> double list" where
  "input_values apis wcs \<sigma> i = map (\<lambda>wc. real_output (apis (fromFMU wc)) (\<sigma> (fromFMU wc)) (fromOutputVR wc)) (inputs_of wcs i)"

definition cosim_step :: "(nat \<Rightarrow> ('f, 's) fmu) \<Rightarrow> WeakConnection list \<Rightarrow> double \<Rightarrow> double \<Rightarrow> (nat \<Rightarrow> 'f) \<Rightarrow> nat \<Rightarrow> 'f" where
  "cosim_step apis wcs t dt \<sigma> i =
     (let ws = inputs_of wcs i;
          x = (if ws = [] then \<sigma> i else snd (api_set_real (apis i) (map toInputVR ws) (input_values apis wcs \<sigma> i) (\<sigma> i)))
      in snd (api_do_step (apis i) t dt True x))"

definition cosim_batch ::
  "(nat \<Rightarrow> ('f, 's) fmu) \<Rightarrow> WeakConnection list \<Rightarrow> double \<Rightarrow> double \<Rightarrow> int list \<Rightarrow> (nat \<Rightarrow> 'f) \<Rightarrow> (nat \<Rightarrow> 'f)" where
  "cosim_batch apis wcs t dt S \<sigma> = (\<lambda>i. if int i \<in> set S then cosim_step apis wcs t dt \<sigma> i else \<sigma> i)"

subsection \<open>The concrete state\<close>

text \<open>The FMU of a client: that of its server, once the queued requests are executed.\<close>

definition instance_of :: "(nat \<Rightarrow> ('f, 's) fmu) \<Rightarrow> ('f, 's) cluster \<Rightarrow> client list \<Rightarrow> nat \<Rightarrow> 'f" where
  "instance_of apis w cs i = fold (exec_request (apis i)) (m_messageQueue (cs ! i)) (m_fmi2Instance (servers w i))"

abbreviation instances :: "(nat \<Rightarrow> ('f, 's) fmu) \<Rightarrow> ('f, 's) cluster smaster \<Rightarrow> nat \<Rightarrow> 'f" where
  "instances apis m \<equiv> instance_of apis (world (base m)) (clients_of m)"

text \<open>The tables of the constructor, for connections that are all simple.\<close>

definition tables :: "WeakConnection list \<Rightarrow> 'w smaster \<Rightarrow> bool" where
  "tables wcs m \<longleftrightarrow> m_complexConnections m = []
     \<and> (\<forall>i. m_simpleConnections m i = (if inputs_of wcs i = [] then None else Some (map (\<lambda>wc. (fromOutputVR wc, fromFMU wc)) (inputs_of wcs i))))
     \<and> (\<forall>i. m_simpleInputsVRs m i = (if inputs_of wcs i = [] then None else Some (map toInputVR (inputs_of wcs i))))
     \<and> (\<forall>wc\<in>set wcs. \<exists>r vrs. clientGetXs m (int (toFMU wc)) (fromFMU wc) = Some r \<and> r fmi2_base_type_real = Some vrs \<and> fromOutputVR wc \<in> set vrs)"

lemma tables_updates [simp]: "tables wcs (m\<lparr>base := b\<rparr>) = tables wcs m" "tables wcs (m\<lparr>m_refValues := rv\<rparr>) = tables wcs m"
  by (simp_all add: tables_def)

definition input_ok :: "WeakConnection list \<Rightarrow> nat \<Rightarrow> SendSetXType \<Rightarrow> bool" where
  "input_ok wcs i t \<longleftrightarrow> shape_ok t \<and> ints t = [] \<and> bools t = [] \<and> strings t = [] \<and> real_vrs t \<in> {[], map toInputVR (inputs_of wcs i)}"

definition inputs_ok :: "WeakConnection list \<Rightarrow> InputRefsValuesType \<Rightarrow> bool" where
  "inputs_ok wcs rv \<longleftrightarrow> (\<forall>i t. rv i = Some t \<longrightarrow> input_ok wcs i t)"

lemma inputs_ok_lookup: "inputs_ok wcs rv \<Longrightarrow> input_ok wcs i (lookup_input rv i)"
  by (auto simp: inputs_ok_def lookup_input_def input_ok_def shape_ok_def empty_SendSetX_def split: option.splits)

definition cache_ok :: "(nat \<Rightarrow> ('f, 's) fmu) \<Rightarrow> nat \<Rightarrow> (nat \<Rightarrow> 'f) \<Rightarrow> client list \<Rightarrow> bool" where
  "cache_ok apis n \<sigma> cs \<longleftrightarrow> (\<forall>i<n. \<forall>vr x. m_reals (cs ! i) vr = Some x \<longrightarrow> x = real_output (apis i) (\<sigma> i) vr)"

definition implements :: "(nat \<Rightarrow> ('f, 's) fmu) \<Rightarrow> nat \<Rightarrow> WeakConnection list \<Rightarrow> Rend list \<Rightarrow> config \<Rightarrow> ('f, 's) cluster smaster \<Rightarrow> bool" where
  "implements apis n wcs rs cfg m \<longleftrightarrow> good cluster_flight (cluster_alive apis) n m \<and> rends m = rs \<and> tables wcs m \<and> inputs_ok wcs (m_refValues m)
     \<and> (DEBUG cfg \<longrightarrow> cache_ok apis n (instances apis m) (clients_of m))"

subsection \<open>Inputs\<close>

text \<open>\<open>arrived\<close>: the values the FMUs in \<open>S\<close> need are in the caches.\<close>

definition arrived :: "(nat \<Rightarrow> ('f, 's) fmu) \<Rightarrow> WeakConnection list \<Rightarrow> (nat \<Rightarrow> 'f) \<Rightarrow> int list \<Rightarrow> client list \<Rightarrow> bool" where
  "arrived apis wcs \<sigma> S cs \<longleftrightarrow> (\<forall>wc\<in>set wcs. int (toFMU wc) \<in> set S \<longrightarrow>
     m_reals (cs ! fromFMU wc) (fromOutputVR wc) = Some (real_output (apis (fromFMU wc)) (\<sigma> (fromFMU wc)) (fromOutputVR wc)))"

lemma reals_at_known: "\<forall>(vr, j)\<in>set ss. m_reals (cs ! j) vr = Some (f vr j) \<Longrightarrow> reals_at ss cs = (map (\<lambda>(vr, j). f vr j) ss, cs)"
  by (induction ss) (auto simp: real_at_def)

lemma inputs_arrive:
  assumes "arrived apis wcs \<sigma> S cs" and "int i \<in> set S"
  shows "reals_at (map (\<lambda>wc. (fromOutputVR wc, fromFMU wc)) (inputs_of wcs i)) cs = (input_values apis wcs \<sigma> i, cs)"
proof -
  have "\<forall>(vr, j)\<in>set (map (\<lambda>wc. (fromOutputVR wc, fromFMU wc)) (inputs_of wcs i)). m_reals (cs ! j) vr = Some (real_output (apis j) (\<sigma> j) vr)"
    using assms by (auto simp: arrived_def inputs_of_def)
  from reals_at_known[OF this] show ?thesis by (simp add: input_values_def comp_def)
qed

lemma resize_full: "length xs = k \<Longrightarrow> resize k xs = xs"
  by (simp add: resize_def)

lemma init_simple_exact:
  assumes "tables wcs m" and "arrived apis wcs \<sigma> S (clients_of m)" and "input_ok wcs i (lookup_input (m_refValues m) i)"
    and "m_id (clients_of m ! i) = int i"
  shows "init_simple S i m = (if int i \<in> set S \<and> inputs_of wcs i \<noteq> []
     then m\<lparr>m_refValues := (m_refValues m)(i \<mapsto> (lookup_input (m_refValues m) i)\<lparr>real_vrs := map toInputVR (inputs_of wcs i), reals := input_values apis wcs \<sigma> i\<rparr>)\<rparr>
     else m)"
proof (cases "int i \<in> set S \<and> inputs_of wcs i \<noteq> []")
  case True
  then have ss: "m_simpleConnections m i = Some (map (\<lambda>wc. (fromOutputVR wc, fromFMU wc)) (inputs_of wcs i))"
    "m_simpleInputsVRs m i = Some (map toInputVR (inputs_of wcs i))" using assms(1) by (simp_all add: tables_def)
  let ?t = "lookup_input (m_refValues m) i"
  have "real_vrs ?t \<noteq> [] \<longrightarrow> resize (length (inputs_of wcs i)) (real_vrs ?t) = map toInputVR (inputs_of wcs i)"
    using assms(3) by (auto simp: input_ok_def resize_full)
  then show ?thesis using True inputs_arrive[OF assms(2)] assms(4)
    by (simp add: init_simple_def ss is_count_def Let_def)
next
  case False
  then show ?thesis using assms(1,4) by (auto simp: init_simple_def tables_def is_count_def split: option.splits)
qed

definition filled :: "(nat \<Rightarrow> ('f, 's) fmu) \<Rightarrow> WeakConnection list \<Rightarrow> (nat \<Rightarrow> 'f) \<Rightarrow> int list \<Rightarrow> nat \<Rightarrow> InputRefsValuesType \<Rightarrow> InputRefsValuesType" where
  "filled apis wcs \<sigma> S k rv = (\<lambda>i. if i < k \<and> int i \<in> set S \<and> inputs_of wcs i \<noteq> []
     then Some ((lookup_input rv i)\<lparr>real_vrs := map toInputVR (inputs_of wcs i), reals := input_values apis wcs \<sigma> i\<rparr>) else rv i)"

lemma init_simples_exact:
  assumes "tables wcs m" and "arrived apis wcs \<sigma> S (clients_of m)" and "inputs_ok wcs (m_refValues m)" and "\<forall>i<k. m_id (clients_of m ! i) = int i"
  shows "fold (init_simple S) [0..<k] m = m\<lparr>m_refValues := filled apis wcs \<sigma> S k (m_refValues m)\<rparr>"
  using assms(4)
proof (induction k)
  case 0
  then show ?case by (simp add: filled_def)
next
  case (Suc k)
  let ?rv = "filled apis wcs \<sigma> S k (m_refValues m)" and ?m = "m\<lparr>m_refValues := filled apis wcs \<sigma> S k (m_refValues m)\<rparr>"
  have look: "lookup_input ?rv k = lookup_input (m_refValues m) k" by (simp add: lookup_input_def filled_def)
  have "init_simple S k ?m = (if int k \<in> set S \<and> inputs_of wcs k \<noteq> []
     then ?m\<lparr>m_refValues := ?rv(k \<mapsto> (lookup_input ?rv k)\<lparr>real_vrs := map toInputVR (inputs_of wcs k), reals := input_values apis wcs \<sigma> k\<rparr>)\<rparr> else ?m)"
    using init_simple_exact[of wcs ?m apis \<sigma> S k] assms(1,2) inputs_ok_lookup[OF assms(3)] Suc.prems look by simp
  also have "\<dots> = m\<lparr>m_refValues := filled apis wcs \<sigma> S (Suc k) (m_refValues m)\<rparr>"
    using look by (auto simp: filled_def less_Suc_eq fun_eq_iff)
  finally show ?case using Suc by simp
qed

lemma setX_requests_simple:
  "input_ok wcs i t \<Longrightarrow> real_vrs t = [] \<Longrightarrow> setX_requests t = []"
  "input_ok wcs i t \<Longrightarrow> vals \<noteq> [] \<Longrightarrow> setX_requests (t\<lparr>real_vrs := vrs, reals := vals\<rparr>) = [set_real_req vrs vals]"
  by (auto simp: setX_requests_def input_ok_def shape_ok_def)

lemma fill_inputs_exact:
  assumes "tables wcs m" and "arrived apis wcs \<sigma> S (clients_of m)" and "inputs_ok wcs (m_refValues m)" and "map m_id (clients_of m) = map int [0..<n]"
  shows "\<exists>rv. fill_inputs S m = Inr (m\<lparr>m_refValues := rv\<rparr>) \<and> inputs_ok wcs rv
     \<and> (\<forall>i<n. int i \<in> set S \<longrightarrow> setX_requests (lookup_input rv i)
          = (if inputs_of wcs i = [] then [] else [set_real_req (map toInputVR (inputs_of wcs i)) (input_values apis wcs \<sigma> i)]))"
proof -
  let ?clr = "\<lambda>i. map_option (clear_values (is_count S (m_id (clients_of m ! i)) \<noteq> 0)) (m_refValues m i)"
  have n: "length (clients_of m) = n" using assms(4) by (metis length_map length_upt minus_nat.diff_0)
  have "input_ok wcs i (clear_values b t)" if "input_ok wcs i t" for b i t
    using that by (auto simp: input_ok_def shape_ok_def clear_values_def Let_def)
  then have clr: "inputs_ok wcs ?clr" using assms(3) by (auto simp: inputs_ok_def)
  let ?rv = "filled apis wcs \<sigma> S n ?clr"
  have "initRefValues S m = m\<lparr>m_refValues := ?rv\<rparr>"
    using init_simples_exact[of wcs "m\<lparr>m_refValues := ?clr\<rparr>" apis \<sigma> S n] assms(1,2) clr ids_nth[OF assms(4)] n
    by (simp add: initRefValues_def)
  then have "fill_inputs S m = Inr (m\<lparr>m_refValues := ?rv\<rparr>)"
    using assms(1) by (simp add: fill_inputs_def tables_def getInputWeakRefsAndValues_into_def getInputWeakRefsAndValues_inner_def)
  moreover have "input_ok wcs i (t\<lparr>real_vrs := map toInputVR (inputs_of wcs i), reals := input_values apis wcs \<sigma> i\<rparr>)" if "input_ok wcs i t" for i t
    using that by (simp add: input_ok_def shape_ok_def input_values_def)
  then have "inputs_ok wcs ?rv" using clr inputs_ok_lookup[OF clr] by (auto simp: inputs_ok_def filled_def)
  moreover have "setX_requests (lookup_input ?rv i)
          = (if inputs_of wcs i = [] then [] else [set_real_req (map toInputVR (inputs_of wcs i)) (input_values apis wcs \<sigma> i)])"
    if "i < n" "int i \<in> set S" for i
  proof (cases "inputs_of wcs i = []")
    case True
    then have "input_ok wcs i (lookup_input ?rv i)" "real_vrs (lookup_input ?rv i) = []" using inputs_ok_lookup[OF \<open>inputs_ok wcs ?rv\<close>, of i]
      by (auto simp: input_ok_def)
    then show ?thesis using True setX_requests_simple(1) by simp
  next
    case False
    then have "lookup_input ?rv i = (lookup_input ?clr i)\<lparr>real_vrs := map toInputVR (inputs_of wcs i), reals := input_values apis wcs \<sigma> i\<rparr>"
      using that by (simp add: filled_def lookup_input_def)
    moreover have "input_values apis wcs \<sigma> i \<noteq> []" using False by (simp add: input_values_def)
    ultimately show ?thesis using False setX_requests_simple(2)[OF inputs_ok_lookup[OF clr]] by simp
  qed
  ultimately show ?thesis by blast
qed

subsection \<open>Steps\<close>

definition with_queue :: "client \<Rightarrow> request list \<Rightarrow> client" where
  "with_queue c qs = c\<lparr>m_messageQueue := m_messageQueue c @ qs\<rparr>"

lemma with_queue_simps [simp]:
  "m_messageQueue (with_queue c qs) = m_messageQueue c @ qs" "m_reals (with_queue c qs) = m_reals c" "m_id (with_queue c qs) = m_id c"
  "with_queue (with_queue c qs) qs' = with_queue c (qs @ qs')"
  by (simp_all add: with_queue_def)

lemma send_and_step_exact:
  assumes "shape_ok (lookup_input (m_refValues m) (nat i))" and "nat i < length (clients_of m)"
  shows "\<exists>p tr. send_and_step t dt i m = Inr (m\<lparr>base := (base m)\<lparr>m_clients := (clients_of m)[nat i := with_queue (clients_of m ! nat i)
     (setX_requests (lookup_input (m_refValues m) (nat i)) @ [do_step_req t dt True])], m_pendingRequests := p, trace := tr\<rparr>\<rparr>)"
proof -
  let ?b = "base m" and ?t = "lookup_input (m_refValues m) (nat i)"
  obtain tr where 1: "master_sendSetX (nat i) ?t ?b = Inr (?b\<lparr>m_clients := (m_clients ?b)[nat i := with_queue (m_clients ?b ! nat i) (setX_requests ?t)],
     m_pendingRequests := m_pendingRequests ?b + length (setX_requests ?t), trace := tr\<rparr>)"
    using sendSetX_total[OF assms(1), of "nat i" ?b] by (auto simp: with_queue_def)
  let ?c = "?b\<lparr>m_clients := (m_clients ?b)[nat i := with_queue (m_clients ?b ! nat i) (setX_requests ?t)],
     m_pendingRequests := m_pendingRequests ?b + length (setX_requests ?t), trace := tr\<rparr>"
  obtain tr' where "master_queueMessage (nat i) (do_step_req t dt True) ?c = ?c\<lparr>m_clients := (m_clients ?c)[nat i := with_queue (m_clients ?c ! nat i) [do_step_req t dt True]],
     m_pendingRequests := m_pendingRequests ?c + 1, trace := tr'\<rparr>"
    using queueMessage_total[of "nat i" "do_step_req t dt True" ?c] by (auto simp: with_queue_def)
  then show ?thesis using 1 assms(2)
    by (intro exI[of _ "m_pendingRequests ?c + 1"] exI[of _ tr']) (simp add: send_and_step_def on_base_res_def on_base_def fmi2_import_do_step_def)
qed

lemma send_and_steps_exact:
  assumes "shapes_ok (m_refValues m)" and "distinct S" and "set S \<subseteq> {0..<int n}" and "length (clients_of m) = n"
  shows "\<exists>cs' p tr. rfold (send_and_step t dt) S m = Inr (m\<lparr>base := (base m)\<lparr>m_clients := cs', m_pendingRequests := p, trace := tr\<rparr>\<rparr>) \<and> length cs' = n
     \<and> (\<forall>j<n. cs' ! j = (if int j \<in> set S then with_queue (clients_of m ! j) (setX_requests (lookup_input (m_refValues m) j) @ [do_step_req t dt True])
          else clients_of m ! j))"
  using assms
proof (induction S arbitrary: m)
  case Nil
  then show ?case by (intro exI[of _ "clients_of m"] exI[of _ "m_pendingRequests (base m)"] exI[of _ "trace (base m)"]) simp
next
  case (Cons i S)
  have i: "nat i < length (clients_of m)" using Cons.prems by auto
  define c where "c = with_queue (clients_of m ! nat i) (setX_requests (lookup_input (m_refValues m) (nat i)) @ [do_step_req t dt True])"
  obtain p tr where 1: "send_and_step t dt i m = Inr (m\<lparr>base := (base m)\<lparr>m_clients := (clients_of m)[nat i := c], m_pendingRequests := p, trace := tr\<rparr>\<rparr>)"
    using send_and_step_exact[OF shapes_ok_lookup[OF Cons.prems(1)] i, of t dt] unfolding c_def by blast
  let ?m = "m\<lparr>base := (base m)\<lparr>m_clients := (clients_of m)[nat i := c], m_pendingRequests := p, trace := tr\<rparr>\<rparr>"
  have "\<exists>cs' p' tr'. rfold (send_and_step t dt) S ?m = Inr (?m\<lparr>base := (base ?m)\<lparr>m_clients := cs', m_pendingRequests := p', trace := tr'\<rparr>\<rparr>) \<and> length cs' = n
     \<and> (\<forall>j<n. cs' ! j = (if int j \<in> set S then with_queue (clients_of ?m ! j) (setX_requests (lookup_input (m_refValues ?m) j) @ [do_step_req t dt True])
          else clients_of ?m ! j))"
    by (rule Cons.IH) (use Cons.prems in simp_all)
  then obtain cs' p' tr' where 2: "rfold (send_and_step t dt) S ?m = Inr (m\<lparr>base := (base m)\<lparr>m_clients := cs', m_pendingRequests := p', trace := tr'\<rparr>\<rparr>)"
    "length cs' = n" "\<forall>j<n. cs' ! j = (if int j \<in> set S then with_queue ((clients_of m)[nat i := c] ! j) (setX_requests (lookup_input (m_refValues m) j) @ [do_step_req t dt True])
          else (clients_of m)[nat i := c] ! j)" by auto
  have "cs' ! j = (if int j \<in> set (i # S) then with_queue (clients_of m ! j) (setX_requests (lookup_input (m_refValues m) j) @ [do_step_req t dt True])
          else clients_of m ! j)" if "j < n" for j
  proof (cases "int j = i")
    case True
    then show ?thesis using 2(3) that Cons.prems(2,4) by (auto simp: c_def)
  next
    case False
    then have "nat i \<noteq> j" using Cons.prems(3) by auto
    then show ?thesis using 2(3) that False by simp
  qed
  then show ?case using 1 2(1,2) by (intro exI[of _ cs'] exI[of _ p'] exI[of _ tr']) simp
qed

lemma sent_reals [simp]: "m_reals (sent c) = m_reals c"
  by (simp add: sent_def sendQueuedMessages_def)

lemma asking_reals [simp]: "m_reals (asking c) = m_reals c"
  by (simp add: asking_def)

lemma outputs_frame [simp]:
  "m_outputs (sent c) = m_outputs c" "m_outputs (asking c) = m_outputs c" "m_outputs (with_queue c qs) = m_outputs c"
  "m_outputs (client_deleteCachedValues dbg c) = m_outputs c"
  by (simp_all add: sent_def sendQueuedMessages_def asking_def with_queue_def client_deleteCachedValues_def)

lemma request_values_exact:
  assumes r: "ready cluster_flight (cluster_alive apis) n (base m)" and p: "\<forall>i<n. plain (clients_of m ! i)" and pw: "\<forall>i. pointwise (apis i)"
  shows "\<exists>cs' w k tr. on_base_res (wait (cluster_net env apis arrive) cfg) (on_base queueValueRequests m)
       = Inr (m\<lparr>base := (base m)\<lparr>m_clients := cs', m_pendingRequests := 0, world := w, rendezvous := k, trace := tr\<rparr>\<rparr>) \<and> length cs' = n
     \<and> (\<forall>i<n. m_messageQueue (cs' ! i) = [] \<and> m_id (cs' ! i) = m_id (clients_of m ! i) \<and> m_outputs (cs' ! i) = m_outputs (clients_of m ! i)
          \<and> m_fmi2Instance (servers w i) = instances apis m i
          \<and> m_reals (cs' ! i) = store_values (m_outgoing_reals (clients_of m ! i))
               (map (real_output (apis i) (instances apis m i)) (m_outgoing_reals (clients_of m ! i))) (m_reals (clients_of m ! i)))"
proof -
  let ?b = "base m" and ?net = "cluster_net env apis arrive"
  have n: "length (clients_of m) = n" using r by (simp add: ready_def)
  obtain tr where tr: "queueValueRequests ?b = ?b\<lparr>m_clients := map asking (m_clients ?b),
     m_pendingRequests := m_pendingRequests ?b + (\<Sum>i < length (m_clients ?b). length (value_requests (m_clients ?b ! i))), trace := tr\<rparr>"
    using queueValueRequests_eq by blast
  let ?b1 = "queueValueRequests ?b"
  have r1: "ready cluster_flight (cluster_alive apis) n ?b1" using r p n by (simp add: tr ready_def asking_matching sum.distrib)
  from wait_exact[OF this, of env arrive cfg] obtain cs' w k where
    1: "wait ?net cfg ?b1 = Inr (?b1\<lparr>m_clients := cs', m_pendingRequests := 0, world := w, rendezvous := k\<rparr>)" "length cs' = n"
    "\<forall>i<n. m_messageQueue (cs' ! i) = [] \<and> m_id (cs' ! i) = m_id (m_clients ?b1 ! i)"
    "\<forall>i<n. \<exists>rs. server_clientData env (apis i) (m_messageQueue (m_clients ?b1 ! i)) (servers (world ?b1) i) = Inr (servers w i, rs)
       \<and> disp (parse_xml cfg) rs (sent (m_clients ?b1 ! i)) = Inr (cs' ! i)" by (auto simp: ready_def)
  have al: "cluster_alive apis (world ?b)" using r by (simp add: ready_def)
  have "m_fmi2Instance (servers w i) = instances apis m i \<and> m_outputs (cs' ! i) = m_outputs (clients_of m ! i) \<and> m_reals (cs' ! i) = store_values (m_outgoing_reals (clients_of m ! i))
               (map (real_output (apis i) (instances apis m i)) (m_outgoing_reals (clients_of m ! i))) (m_reals (clients_of m ! i))"
    if i: "i < n" for i
  proof -
    obtain rs where rs: "server_clientData env (apis i) (m_messageQueue (clients_of m ! i) @ value_requests (clients_of m ! i)) (servers (world ?b) i) = Inr (servers w i, rs)"
      "disp (parse_xml cfg) rs (sent (asking (clients_of m ! i))) = Inr (cs' ! i)" using 1(4) i n by (auto simp: tr)
    from value_exchange[OF _ _ _ _ _ _ rs] al pw p i show ?thesis
      by (auto simp: cluster_alive_def plain_def instance_of_def)
  qed
  then show ?thesis using 1(1,2,3) n
    by (intro exI[of _ cs'] exI[of _ w] exI[of _ k] exI[of _ tr]) (simp add: on_base_res_def on_base_def tr)
qed

subsection \<open>A batch\<close>

text \<open>What the master's own operations leave as it is: the flags the control socket sets, and the outputs to print.\<close>

definition frame :: "'w smaster \<Rightarrow> bool \<times> bool \<times> variable list list" where
  "frame m = (running (base m), paused (base m), map m_outputs (clients_of m))"

lemma frame_clients:
  assumes "length cs = length (clients_of m)" and "\<forall>i < length (clients_of m). m_outputs (cs ! i) = m_outputs (clients_of m ! i)"
    and "clients_of m' = cs" and "running (base m') = running (base m)" and "paused (base m') = paused (base m)"
  shows "frame m' = frame m"
  using assms by (auto simp: frame_def intro: nth_equalityI)

definition in_range :: "nat \<Rightarrow> WeakConnection list \<Rightarrow> bool" where
  "in_range n wcs \<longleftrightarrow> (\<forall>wc\<in>set wcs. fromFMU wc < n \<and> toFMU wc < n)"

lemma batch_arrived:
  assumes "in_range n wcs" and "tables wcs m" and cache: "DEBUG cfg \<Longrightarrow> cache_ok apis n \<sigma> (clients_of m)"
    and asks: "\<forall>j<n. asks (clients_of m ! j) (cs1 ! j) \<and> (\<forall>i\<in>set S. \<forall>r. clientGetXs m i j = Some r \<longrightarrow> covers (DEBUG cfg) r (cs1 ! j))"
    and vals: "\<forall>i<n. m_reals (cs2 ! i) = store_values (m_outgoing_reals (cs1 ! i)) (map (real_output (apis i) (\<sigma> i)) (m_outgoing_reals (cs1 ! i))) (m_reals (cs1 ! i))"
  shows "arrived apis wcs \<sigma> S cs2"
  unfolding arrived_def
proof (intro ballI impI)
  fix wc assume wc: "wc \<in> set wcs" "int (toFMU wc) \<in> set S"
  let ?j = "fromFMU wc" and ?vr = "fromOutputVR wc"
  have j: "?j < n" using assms(1) wc(1) by (simp add: in_range_def)
  obtain r vrs where r: "clientGetXs m (int (toFMU wc)) ?j = Some r" "r fmi2_base_type_real = Some vrs" "?vr \<in> set vrs"
    using assms(2) wc(1) by (auto simp: tables_def)
  have "covers (DEBUG cfg) r (cs1 ! ?j)" "m_reals (cs1 ! ?j) = m_reals (clients_of m ! ?j)" using asks j r(1) wc(2) by (auto simp: asks_def)
  moreover from this(1) have "set vrs \<subseteq> (if DEBUG cfg then known fmi2_base_type_real (cs1 ! ?j) else {}) \<union> set (outgoing fmi2_base_type_real (cs1 ! ?j))"
    using r(2) unfolding covers_def by blast
  ultimately have "?vr \<in> set (m_outgoing_reals (cs1 ! ?j)) \<or> DEBUG cfg \<and> ?vr \<in> dom (m_reals (clients_of m ! ?j))"
    using r(3) by (auto split: if_splits)
  then show "m_reals (cs2 ! ?j) ?vr = Some (real_output (apis ?j) (\<sigma> ?j) ?vr)"
    using vals j cache \<open>m_reals (cs1 ! ?j) = m_reals (clients_of m ! ?j)\<close> by (auto simp: store_values_map cache_ok_def)
qed

lemma cosim_queue:
  "instance_of apis w cs i = \<sigma> i \<Longrightarrow> cs' ! i = with_queue (cs ! i) ((if inputs_of wcs i = [] then []
       else [set_real_req (map toInputVR (inputs_of wcs i)) (input_values apis wcs \<sigma> i)]) @ [do_step_req t dt True])
   \<Longrightarrow> instance_of apis w cs' i = cosim_step apis wcs t dt \<sigma> i"
  by (simp add: instance_of_def cosim_step_def Let_def)

lemma crank_batch_cosim:
  assumes im: "implements apis n wcs rs cfg m" and pw: "\<forall>i. pointwise (apis i)" and rng: "in_range n wcs"
    and S: "distinct S" "set S \<subseteq> {0..<int n}" and run: "crank_batch (cluster_net env apis arrive) cfg t dt S m = Inr m'"
  shows "implements apis n wcs rs cfg m' \<and> frame m' = frame m \<and> (\<forall>i<n. instances apis m' i = cosim_batch apis wcs t dt S (instances apis m) i)"
proof -
  let ?net = "cluster_net env apis arrive" and ?\<sigma> = "instances apis m"
  have g: "good cluster_flight (cluster_alive apis) n m" using im by (simp add: implements_def)
  have g': "good cluster_flight (cluster_alive apis) n m'" using cl.crank_batch_total[OF g S(2), of env arrive cfg t dt] run by auto
  obtain cs1 where 1: "queue_inputs cfg S m = Inr (m\<lparr>base := (base m)\<lparr>m_clients := cs1\<rparr>\<rparr>)" "length cs1 = n"
    "\<forall>j<n. asks (clients_of m ! j) (cs1 ! j) \<and> (\<forall>i\<in>set S. \<forall>r. clientGetXs m i j = Some r \<longrightarrow> covers (DEBUG cfg) r (cs1 ! j))"
    "good cluster_flight (cluster_alive apis) n (m\<lparr>base := (base m)\<lparr>m_clients := cs1\<rparr>\<rparr>)" using queue_inputs_good[OF g] by blast
  let ?m1 = "m\<lparr>base := (base m)\<lparr>m_clients := cs1\<rparr>\<rparr>"
  have \<sigma>1: "instances apis ?m1 i = ?\<sigma> i" if "i < n" for i using 1(3) that asks_same[of "clients_of m ! i" "cs1 ! i"] by (simp add: instance_of_def)
  from 1(4) have "ready cluster_flight (cluster_alive apis) n (base ?m1)" "\<forall>i<n. plain (clients_of ?m1 ! i)" by (simp_all add: good_def)
  from request_values_exact[OF this pw, of env arrive cfg] obtain cs2 w k tr where
    2: "on_base_res (wait ?net cfg) (on_base queueValueRequests ?m1)
       = Inr (m\<lparr>base := (base m)\<lparr>m_clients := cs2, m_pendingRequests := 0, world := w, rendezvous := k, trace := tr\<rparr>\<rparr>)" "length cs2 = n"
    "\<forall>i<n. m_messageQueue (cs2 ! i) = [] \<and> m_id (cs2 ! i) = m_id (cs1 ! i) \<and> m_outputs (cs2 ! i) = m_outputs (cs1 ! i) \<and> m_fmi2Instance (servers w i) = ?\<sigma> i"
    "\<forall>i<n. m_reals (cs2 ! i) = store_values (m_outgoing_reals (cs1 ! i)) (map (real_output (apis i) (?\<sigma> i)) (m_outgoing_reals (cs1 ! i))) (m_reals (cs1 ! i))"
    using \<sigma>1 by auto
  let ?m2 = "m\<lparr>base := (base m)\<lparr>m_clients := cs2, m_pendingRequests := 0, world := w, rendezvous := k, trace := tr\<rparr>\<rparr>"
  have arr: "arrived apis wcs ?\<sigma> S cs2" by (rule batch_arrived[OF rng _ _ 1(3) 2(4)]) (use im in \<open>simp_all add: implements_def\<close>)
  have ids: "map m_id cs2 = map int [0..<n]"
    using 2(2,3) 1(3) ids_nth[of "clients_of m" n] g by (auto intro!: nth_equalityI simp: good_def asks_def)
  from fill_inputs_exact[of wcs ?m2 apis ?\<sigma> S n] arr ids im obtain rv where
    3: "fill_inputs S ?m2 = Inr (?m2\<lparr>m_refValues := rv\<rparr>)" "inputs_ok wcs rv" "\<forall>i<n. int i \<in> set S \<longrightarrow> setX_requests (lookup_input rv i)
          = (if inputs_of wcs i = [] then [] else [set_real_req (map toInputVR (inputs_of wcs i)) (input_values apis wcs ?\<sigma> i)])"
    by (auto simp: implements_def)
  have "shapes_ok rv" using 3(2) by (simp add: inputs_ok_def input_ok_def shapes_ok_def)
  from send_and_steps_exact[of "?m2\<lparr>m_refValues := rv\<rparr>" S n t dt] this S 2(2) obtain cs3 p tr' where
    4: "rfold (send_and_step t dt) S (?m2\<lparr>m_refValues := rv\<rparr>)
       = Inr (?m2\<lparr>m_refValues := rv, base := (base ?m2)\<lparr>m_clients := cs3, m_pendingRequests := p, trace := tr'\<rparr>\<rparr>)" "length cs3 = n"
    "\<forall>j<n. cs3 ! j = (if int j \<in> set S then with_queue (cs2 ! j) (setX_requests (lookup_input rv j) @ [do_step_req t dt True]) else cs2 ! j)" by auto
  let ?m4 = "?m2\<lparr>m_refValues := rv, base := (base ?m2)\<lparr>m_clients := cs3, m_pendingRequests := p, trace := tr'\<rparr>\<rparr>"
  have m': "m' = on_base (deleteCachedValues cfg True S) ?m4" using run 1(1) 2(1) 3(1) 4(1) by (simp add: crank_batch_def)
  have \<sigma>2: "instance_of apis w cs2 i = ?\<sigma> i" if "i < n" for i using 2(3) that by (simp add: instance_of_def)
  have \<sigma>3: "instance_of apis w cs3 i = cosim_batch apis wcs t dt S ?\<sigma> i" if "i < n" for i
    using cosim_queue[of apis w cs2 i ?\<sigma> cs3 wcs t dt, OF \<sigma>2[OF that]] 4(3) 3(3) \<sigma>2[OF that] that by (simp add: cosim_batch_def instance_of_def)
  define del where "del c = (if is_count S (m_id c) \<noteq> 0 then client_deleteCachedValues (DEBUG cfg) c else c)" for c
  have cs': "clients_of m' = map del cs3" "world (base m') = w" "m_refValues m' = rv"
    by (simp_all add: m' on_base_def deleteCachedValues_def del_def)
  have "instances apis m' i = cosim_batch apis wcs t dt S ?\<sigma> i" if "i < n" for i
    using \<sigma>3[OF that] that 4(2) cs' by (simp add: instance_of_def del_def client_deleteCachedValues_def)
  moreover have "cache_ok apis n (instances apis m') (clients_of m')" if dbg: "DEBUG cfg"
    unfolding cache_ok_def
  proof (intro allI impI)
    fix i vr x assume i: "i < n" and x: "m_reals (clients_of m' ! i) vr = Some x"
    have id: "m_id (cs3 ! i) = int i" using 4(3) i ids_nth[OF ids i] by simp
    have "int i \<notin> set S" using x i 4(2) id dbg by (auto simp: cs' del_def client_deleteCachedValues_def)
    then have "m_reals (cs2 ! i) vr = Some x" "instances apis m' i = ?\<sigma> i"
      using x i 4(2,3) id calculation by (simp_all add: cs' del_def cosim_batch_def)
    then show "x = real_output (apis i) (instances apis m' i) vr"
      using 2(4) i 1(3) im dbg by (auto simp: store_values_map asks_def implements_def cache_ok_def split: if_splits)
  qed
  moreover have "tables wcs m'" "rends m' = rs" using im by (simp_all add: m' on_base_def implements_def)
  moreover have "frame m' = frame m"
    by (rule frame_clients[of "map del cs3"])
      (use 4(2,3) 2(3) 1(3) good_length[OF g] in \<open>simp_all add: cs'(1) del_def asks_def m' on_base_def deleteCachedValues_def\<close>)
  ultimately show ?thesis using g' 3(2) cs'(3) by (simp add: implements_def)
qed

subsection \<open>An iteration\<close>

definition cosim_effect ::
  "(nat \<Rightarrow> ('f, 's) fmu) \<Rightarrow> nat \<Rightarrow> WeakConnection list \<Rightarrow> double \<Rightarrow> double \<Rightarrow> int list \<Rightarrow> ('f, 's) cluster smaster \<Rightarrow> ('f, 's) cluster smaster \<Rightarrow> bool" where
  "cosim_effect apis n wcs t dt S m m' \<longleftrightarrow> frame m' = frame m \<and> (\<forall>i<n. instances apis m' i = cosim_batch apis wcs t dt S (instances apis m) i)"

definition cosim_setting :: "(nat \<Rightarrow> ('f, 's) fmu) \<Rightarrow> nat \<Rightarrow> WeakConnection list \<Rightarrow> bool" where
  "cosim_setting apis n wcs \<longleftrightarrow> (\<forall>i. pointwise (apis i)) \<and> in_range n wcs"

interpretation cs: cranker "crank_batch (cluster_net env apis arrive) cfg t dt" "cosim_effect apis n wcs t dt"
    "\<lambda>m. implements apis n wcs rs cfg m \<and> cosim_setting apis n wcs" n
  for env apis arrive cfg t dt wcs rs n
proof
  show "(implements apis n wcs rs cfg m' \<and> cosim_setting apis n wcs) \<and> cosim_effect apis n wcs t dt S m m'"
    if "implements apis n wcs rs cfg m \<and> cosim_setting apis n wcs" "distinct S" "set S \<subseteq> {0..<int n}"
      "crank_batch (cluster_net env apis arrive) cfg t dt S m = Inr m'" for m S m'
    using crank_batch_cosim[of apis n wcs rs cfg m S env arrive t dt m'] that by (simp add: cosim_effect_def cosim_setting_def)
qed

lemma cosim_batch_cong:
  assumes "in_range n wcs" and "\<forall>i<n. \<sigma> i = \<tau> i"
  shows "\<forall>i<n. cosim_batch apis wcs t dt S \<sigma> i = cosim_batch apis wcs t dt S \<tau> i"
proof (intro allI impI)
  fix i assume i: "i < n"
  have "input_values apis wcs \<sigma> i = input_values apis wcs \<tau> i" using assms by (auto simp: input_values_def inputs_of_def in_range_def)
  then show "cosim_batch apis wcs t dt S \<sigma> i = cosim_batch apis wcs t dt S \<tau> i" using assms(2) i by (simp add: cosim_batch_def cosim_step_def Let_def)
qed

lemma cosim_batches_cong:
  "in_range n wcs \<Longrightarrow> \<forall>i<n. \<sigma> i = \<tau> i \<Longrightarrow> \<forall>i<n. fold (cosim_batch apis wcs t dt) bs \<sigma> i = fold (cosim_batch apis wcs t dt) bs \<tau> i"
  by (induction bs arbitrary: \<sigma> \<tau>) (simp_all add: cosim_batch_cong)

lemma cosim_effects:
  "in_range n wcs \<Longrightarrow> batches (cosim_effect apis n wcs t dt) bs m m' \<Longrightarrow>
     frame m' = frame m \<and> (\<forall>i<n. instances apis m' i = fold (cosim_batch apis wcs t dt) bs (instances apis m) i)"
proof (induction bs arbitrary: m)
  case (Cons S bs)
  then obtain m1 where 1: "cosim_effect apis n wcs t dt S m m1" "batches (cosim_effect apis n wcs t dt) bs m1 m'" by auto
  have "\<forall>i<n. instances apis m1 i = cosim_batch apis wcs t dt S (instances apis m) i" "frame m1 = frame m" using 1(1) by (simp_all add: cosim_effect_def)
  with cosim_batches_cong[OF Cons.prems(1) this(1)] Cons.IH[OF Cons.prems(1) 1(2)] show ?case by simp
qed simp

lemma prefetch_cosim:
  assumes im: "implements apis n wcs rs cfg m" and run: "prefetch cfg m = Inr m'"
  shows "implements apis n wcs rs cfg m' \<and> frame m' = frame m \<and> (\<forall>i<n. instances apis m' i = instances apis m i)"
proof -
  have g: "good cluster_flight (cluster_alive apis) n m" using im by (simp add: implements_def)
  have g': "good cluster_flight (cluster_alive apis) n m'" using good_prefetch[OF g, of cfg] run by auto
  define same where "same x \<longleftrightarrow> (\<exists>cs. x = m\<lparr>base := (base m)\<lparr>m_clients := cs\<rparr>\<rparr> \<and> length cs = n
      \<and> (\<forall>j<n. m_messageQueue (cs ! j) = m_messageQueue (clients_of m ! j) \<and> m_reals (cs ! j) = m_reals (clients_of m ! j)
        \<and> m_outputs (cs ! j) = m_outputs (clients_of m ! j)))" for x
  obtain m1 where 1: "queue_inputs cfg (children (rends m ! 0)) m = Inr m1" "same m1"
    using queue_inputs_good[OF g, of cfg "children (rends m ! 0)"] unfolding same_def asks_def by blast
  have "same (queue_strong cfg i x)" if "same x" for i x
  proof -
    obtain cs where cs: "x = m\<lparr>base := (base m)\<lparr>m_clients := cs\<rparr>\<rparr>" "length cs = n"
      "\<forall>j<n. m_messageQueue (cs ! j) = m_messageQueue (clients_of m ! j) \<and> m_reals (cs ! j) = m_reals (clients_of m ! j)
        \<and> m_outputs (cs ! j) = m_outputs (clients_of m ! j)" using \<open>same x\<close> same_def by blast
    let ?c = "queueReals (DEBUG cfg) (strong_refs x i) (cs ! i)"
    have "m_messageQueue (cs[i := ?c] ! j) = m_messageQueue (cs ! j)" "m_reals (cs[i := ?c] ! j) = m_reals (cs ! j)"
      "m_outputs (cs[i := ?c] ! j) = m_outputs (cs ! j)" for j
      by (rule nth_update_field; simp add: queueReals_def)+
    then show ?thesis using cs unfolding same_def
      by (intro exI[of _ "cs[i := ?c]"]) (simp add: queue_strong_def on_base_def set_client_def)
  qed
  then have "same (fold (queue_strong cfg) is x)" if "same x" for "is" x using that by (induction "is" arbitrary: x) auto
  then have "same m'" using 1 run by (auto simp: prefetch_def)
  then obtain cs where cs: "m' = m\<lparr>base := (base m)\<lparr>m_clients := cs\<rparr>\<rparr>" "length cs = n"
    "\<forall>j<n. m_messageQueue (cs ! j) = m_messageQueue (clients_of m ! j) \<and> m_reals (cs ! j) = m_reals (clients_of m ! j)
        \<and> m_outputs (cs ! j) = m_outputs (clients_of m ! j)" using same_def by blast
  then have "\<forall>i<n. instances apis m' i = instances apis m i" by (simp add: instance_of_def)
  moreover have "frame m' = frame m" by (rule frame_clients[of cs]) (use cs good_length[OF g] in simp_all)
  ultimately show ?thesis using im g' cs by (simp add: implements_def cache_ok_def)
qed

lemma iteration_cosim:
  assumes im: "implements apis n wcs rs cfg m" and set: "cosim_setting apis n wcs"
  shows "\<exists>m' bs. runIteration umf (cluster_net env apis arrive) cfg t dt m = Inr m' \<and> implements apis n wcs rs cfg m' \<and> frame m' = frame m \<and> hist_ok rs bs {0..<int n}
     \<and> (\<forall>i<n. instances apis m' i = fold (cosim_batch apis wcs t dt) bs (instances apis m) i)"
proof -
  let ?net = "cluster_net env apis arrive"
  have g: "good cluster_flight (cluster_alive apis) n m" and rs: "rends m = rs" using im by (simp_all add: implements_def)
  then have w: "checkRends n rs = Inr (clientrend m)" "topo_rends rs" "kins m = []" by (auto simp: good_def wired_def)
  then have root: "parents (rs ! 0) = []" using topo_root by (auto simp: checkRends_eq)
  obtain m' where m': "runIteration umf ?net cfg t dt m = Inr m'" using cl.iteration_good[OF g] by blast
  obtain m1 s1 where 1: "run_sched (crank_batch ?net cfg t dt) (stepKinematicFmus umf ?net cfg t dt) n rs (clientrend m) [] m = Inr (m1, s1)"
    "prefetch cfg m1 = Inr m'" using m' w(3) good_length[OF g] rs by (auto simp: runIteration_def)
  from cs.run_without_kins[OF w(1) root _ 1(1)] im set obtain bs where
    bs: "implements apis n wcs rs cfg m1" "batches (cosim_effect apis n wcs t dt) bs m m1" "hist_ok rs bs {0..<int n}" by blast
  show ?thesis using m' bs(3) prefetch_cosim[OF bs(1) 1(2)] cosim_effects[OF _ bs(2)] set
    by (intro exI[of _ m'] exI[of _ bs]) (simp add: cosim_setting_def)
qed

subsection \<open>A simulation\<close>

definition cosim_run ::
  "(nat \<Rightarrow> ('f, 's) fmu) \<Rightarrow> WeakConnection list \<Rightarrow> ((double \<times> double) \<times> int list list) list \<Rightarrow> (nat \<Rightarrow> 'f) \<Rightarrow> (nat \<Rightarrow> 'f)" where
  "cosim_run apis wcs xs \<sigma> = fold (\<lambda>((t, dt), bs). fold (cosim_batch apis wcs t dt) bs) xs \<sigma>"

lemma cosim_run_simps [simp]:
  "cosim_run apis wcs [] \<sigma> = \<sigma>" "cosim_run apis wcs (((t, dt), bs) # xs) \<sigma> = cosim_run apis wcs xs (fold (cosim_batch apis wcs t dt) bs \<sigma>)"
  by (simp_all add: cosim_run_def)

lemma cosim_run_cong: "in_range n wcs \<Longrightarrow> \<forall>i<n. \<sigma> i = \<tau> i \<Longrightarrow> \<forall>i<n. cosim_run apis wcs xs \<sigma> i = cosim_run apis wcs xs \<tau> i"
proof (induction xs arbitrary: \<sigma> \<tau>)
  case (Cons x xs)
  obtain t dt bs where "x = ((t, dt), bs)" by (metis surj_pair)
  then show ?case using Cons.IH[OF Cons.prems(1) cosim_batches_cong[OF Cons.prems]] by simp
qed simp

lemma iterations_cosim:
  assumes "cosim_setting apis n wcs"
  shows "implements apis n wcs rs cfg m \<Longrightarrow> \<exists>m' bss. simulate umf (cluster_net env apis arrive) cfg ts m = Inr m' \<and> length bss = length ts
     \<and> (\<forall>bs\<in>set bss. hist_ok rs bs {0..<int n})
     \<and> (\<forall>i<n. instances apis m' i = cosim_run apis wcs (zip ts bss) (instances apis m) i)"
proof (induction ts arbitrary: m)
  case Nil
  then show ?case by (simp add: simulate_def)
next
  case (Cons a ts)
  obtain t dt where a: "a = (t, dt)" by fastforce
  obtain m1 bs where 1: "runIteration umf (cluster_net env apis arrive) cfg t dt m = Inr m1" "implements apis n wcs rs cfg m1" "hist_ok rs bs {0..<int n}"
    "\<forall>i<n. instances apis m1 i = fold (cosim_batch apis wcs t dt) bs (instances apis m) i" using iteration_cosim[OF Cons.prems assms] by blast
  obtain m' bss where 2: "simulate umf (cluster_net env apis arrive) cfg ts m1 = Inr m'" "length bss = length ts" "\<forall>bs\<in>set bss. hist_ok rs bs {0..<int n}"
    "\<forall>i<n. instances apis m' i = cosim_run apis wcs (zip ts bss) (instances apis m1) i" using Cons.IH[OF 1(2)] by blast
  show ?case using 1(1,3) 2(1,2,3) cosim_run_cong[OF _ 1(4), of wcs apis "zip ts bss"] 2(4) assms
    by (intro exI[of _ m'] exI[of _ "bs # bss"]) (simp add: a simulate_def cosim_setting_def)
qed

text \<open>The constructor.\<close>

lemma inputs_of_snoc: "inputs_of (wcs @ [wc]) i = inputs_of wcs i @ (if toFMU wc = i then [wc] else [])"
  by (simp add: inputs_of_def)

lemma add_connection_tables:
  assumes t: "tables wcs m" and wc: "is_simple wc" "m_id (clients_of m ! toFMU wc) = int (toFMU wc)"
  shows "tables (wcs @ [wc]) (add_connection wc m)"
proof -
  have "\<exists>r vrs. clientGetXs (add_connection wc m) (int (toFMU w)) (fromFMU w) = Some r \<and> r fmi2_base_type_real = Some vrs \<and> fromOutputVR w \<in> set vrs"
    if w: "w \<in> set (wcs @ [wc])" for w
  proof (cases "w = wc")
    case True
    then show ?thesis using push_output_ref_new[of wc "clientGetXs m (int (toFMU wc))"] wc by (auto simp: add_connection_refs is_simple_def)
  next
    case False
    then obtain r vrs where r: "clientGetXs m (int (toFMU w)) (fromFMU w) = Some r" "r fmi2_base_type_real = Some vrs" "fromOutputVR w \<in> set vrs"
      using t w by (auto simp: tables_def)
    then show ?thesis using push_output_ref_mono[of "clientGetXs m (int (toFMU w))", OF r] wc(2) by (auto simp: add_connection_refs)
  qed
  then show ?thesis using t wc(1) by (simp add: tables_def add_connection_def Let_def push_back_def inputs_of_snoc)
qed

lemma add_connections_tables:
  "tables us m \<Longrightarrow> \<forall>wc\<in>set wcs. is_simple wc \<and> m_id (clients_of m ! toFMU wc) = int (toFMU wc) \<Longrightarrow> tables (us @ wcs) (fold add_connection wcs m)"
proof (induction wcs arbitrary: us m)
  case (Cons wc wcs)
  have "tables (us @ [wc]) (add_connection wc m)" using add_connection_tables[OF Cons.prems(1)] Cons.prems(2) by simp
  from Cons.IH[OF this] Cons.prems(2) show ?case by (simp add: add_connection_def Let_def)
qed simp

lemma new_master_implements:
  assumes ob: "\<forall>i. obedient (apis i)" and wc: "\<forall>wc\<in>set wcs. is_simple wc" "in_range n wcs" and rs: "wf_rends n rs" "topo_rends rs"
    and cs: "length cs = n" "\<forall>i<n. m_id (cs ! i) = int i \<and> m_messageQueue (cs ! i) = [] \<and> m_reals (cs ! i) = Map.empty"
  shows "\<exists>m. new_StrongMaster (new_master cs wcs (new_cluster apis inst)) None ([], []) False rs (\<lambda>_. False) = Inr m
     \<and> implements apis n wcs rs cfg m \<and> (\<forall>i<n. instances apis m i = inst i) \<and> base m = new_master cs wcs (new_cluster apis inst)"
proof -
  define b where "b = new_master cs wcs (new_cluster apis inst)"
  have c: "m_clients b = cs" "m_weakConnections b = wcs" by (simp_all add: b_def new_master_def)
  have r: "ready cluster_flight (cluster_alive apis) n b"
    using new_cluster_alive[OF ob] cs by (simp add: b_def ready_def new_master_def matching_def cluster_flight_def new_cluster_def)
  have p: "\<forall>i<n. plain (m_clients b ! i)" using cs(2) by (simp add: c plain_def)
  have ids: "map m_id (m_clients b) = map int [0..<n]" using cs by (auto simp: c intro: nth_equalityI)
  have sw: "safe_wiring n (m_weakConnections b)" using wc by (auto simp: c safe_wiring_def is_simple_def in_range_def)
  from new_StrongMaster_good[OF r p ids sw rs, of None "([], [])" False "\<lambda>_. False"]
  obtain m where m: "new_StrongMaster b None ([], []) False rs (\<lambda>_. False) = Inr m" "good cluster_flight (cluster_alive apis) n m" by blast
  obtain cr where cr: "m = fold add_connection wcs
         \<lparr>base = b, m_strongCouplingSolver = None, connector_store = ([], []), holonomic = False, rends = rs, clientrend = cr, kins = [],
          clientGetXs = (\<lambda>_. Map.empty), m_simpleConnections = Map.empty, m_simpleInputsVRs = Map.empty, m_complexConnections = [],
          m_refValues = Map.empty, forces = [], canGetAndSetFMUstate = (\<lambda>_. False)\<rparr>" (is "_ = fold _ _ ?init")
    using m(1) by (auto simp: new_StrongMaster_def rbind_eq_Inr b_def new_master_def)
  have "tables [] ?init" by (simp add: tables_def inputs_of_def)
  from add_connections_tables[OF this, of wcs] wc c cs have "tables wcs m" by (simp add: cr in_range_def)
  moreover have "base m = b" "rends m = rs" "m_refValues m = Map.empty" by (simp_all add: cr add_connections_frame)
  moreover have "m_fmi2Instance (servers (world b) i) = inst i" for i by (simp add: b_def new_master_def new_cluster_def new_server_def)
  ultimately show ?thesis using m cs c(1) unfolding b_def[symmetric]
    by (simp add: implements_def inputs_ok_def cache_ok_def instance_of_def)
qed

lemma new_simulation_implements:
  assumes "\<forall>i. obedient (apis i)" and "\<forall>wc\<in>set wcs. is_simple wc" "in_range n wcs" and "wf_rends n rs" "topo_rends rs"
  shows "\<exists>m. new_simulation n apis inst wcs rs = Inr m \<and> implements apis n wcs rs cfg m \<and> (\<forall>i<n. instances apis m i = inst i)"
  using new_master_implements[OF assms, of "map (\<lambda>i. new_client (int i)) [0..<n]" inst cfg] by (auto simp: new_simulation_def new_client_def)

text \<open>C2: the master implements co-simulation. For FMUs that accept the calls of a step, plain connections of reals and
  rends without a cycle, any sequence of iterations returns, with or without cached values and however the responses are spread over the
  polls; and afterwards the FMUs are in the states the abstract co-simulation gives: in each iteration a
  sequence of batches, every FMU in exactly one of them and after the FMUs its rend waits for, where a
  batch reads the current outputs, sets the inputs and steps.\<close>

theorem master_implements_cosim:
  assumes "\<forall>i. obedient (apis i) \<and> pointwise (apis i)" and "\<forall>wc\<in>set wcs. is_simple wc" and "in_range n wcs"
    and "wf_rends n rs" and "topo_rends rs"
  shows "\<exists>m m' bss. new_simulation n apis inst wcs rs = Inr m \<and> simulate umf (cluster_net env apis arrive) cfg ts m = Inr m'
     \<and> length bss = length ts \<and> (\<forall>bs\<in>set bss. hist_ok rs bs {0..<int n})
     \<and> (\<forall>i<n. instances apis m' i = cosim_run apis wcs (zip ts bss) inst i)"
proof -
  have set: "cosim_setting apis n wcs" using assms(1,3) by (simp add: cosim_setting_def)
  obtain m where m: "new_simulation n apis inst wcs rs = Inr m" "implements apis n wcs rs cfg m" "\<forall>i<n. instances apis m i = inst i"
    using new_simulation_implements[of apis wcs n rs inst cfg] assms by blast
  obtain m' bss where 1: "simulate umf (cluster_net env apis arrive) cfg ts m = Inr m'" "length bss = length ts" "\<forall>bs\<in>set bss. hist_ok rs bs {0..<int n}"
    "\<forall>i<n. instances apis m' i = cosim_run apis wcs (zip ts bss) (instances apis m) i" using iterations_cosim[OF set m(2)] by blast
  then show ?thesis using m(1) cosim_run_cong[OF assms(3) m(3), of apis "zip ts bss"] by (intro exI[of _ m] exI[of _ m'] exI[of _ bss]) simp
qed

text \<open>The two integrators of before, both connections plain.\<close>

definition coupled_integrators :: "WeakConnection list" where
  "coupled_integrators =
     [\<lparr>fromType = fmi2_base_type_real, fromFMU = 0, fromOutputVR = 0, toType = fmi2_base_type_real, toFMU = 1, toInputVR = 1, slope = 1, intercept = 0\<rparr>,
      \<lparr>fromType = fmi2_base_type_real, fromFMU = 1, fromOutputVR = 0, toType = fmi2_base_type_real, toFMU = 0, toInputVR = 1, slope = 1, intercept = 0\<rparr>]"

lemma integrator_pointwise: "pointwise integrator"
  by (auto simp: pointwise_def real_output_def integrator_def split: prod.splits)

lemma empty_batches: "concat bs = [] \<Longrightarrow> fold (cosim_batch apis wcs t dt) bs \<sigma> = \<sigma>"
  by (induction bs) (simp_all add: cosim_batch_def)

lemma batch_split: "x \<in> set (concat bs) \<Longrightarrow> \<exists>us B vs. bs = us @ B # vs \<and> x \<in> set B"
  unfolding set_concat UN_iff by (metis split_list)

lemma distinct_singleton: "set xs = {a} \<Longrightarrow> distinct xs \<Longrightarrow> xs = [a]"
proof (cases xs)
  case (Cons y ys)
  assume "set xs = {a}" "distinct xs"
  then have "y = a" "set ys \<subseteq> {a}" "a \<notin> set ys" using Cons by auto
  then have "y = a" "ys = []" by (cases ys; auto)+
  then show ?thesis using Cons by simp
qed simp

lemma two_in_order_batches:
  assumes "hist_ok two_in_order bs {0..<2}"
  shows "fold (cosim_batch apis wcs t dt) bs \<sigma> = cosim_batch apis wcs t dt [1] (cosim_batch apis wcs t dt [0] \<sigma>)"
proof -
  have d: "distinct (concat bs)" and s: "set (concat bs) = {0, 1}" using assms by (auto simp: hist_ok_def)
  have o: "\<forall>i<length bs. 1 \<in> set (bs ! i) \<longrightarrow> 0 \<in> set (concat (take i bs))"
  proof (intro allI impI)
    fix i assume i: "i < length bs" "1 \<in> set (bs ! i)"
    have "1 < length two_in_order" "1 \<in> set (children (two_in_order ! 1))" "0 \<in> set (parents (two_in_order ! 1))" by (simp_all add: two_in_order_def)
    then show "0 \<in> set (concat (take i bs))" using assms i unfolding hist_ok_def by blast
  qed
  obtain us B vs where b: "bs = us @ B # vs" "0 \<in> set B" using batch_split[of 0 bs] s by blast
  have "0 \<notin> set (concat us)" using d b by auto
  have "1 \<notin> set (concat us)"
  proof
    assume "1 \<in> set (concat us)"
    then obtain us1 C us2 where u: "us = us1 @ C # us2" "1 \<in> set C" using batch_split[of 1 us] by blast
    have "0 \<in> set (concat (take (length us1) bs))" using o[rule_format, of "length us1"] by (simp add: b u)
    then show False using \<open>0 \<notin> set (concat us)\<close> by (simp add: b u)
  qed
  then have us: "concat us = []" using \<open>0 \<notin> set (concat us)\<close> s b(1) by (cases "concat us") auto
  have "1 \<notin> set B" using o[rule_format, of "length us"] us by (auto simp: b)
  then have "set B = {0}" "distinct B" using s b d by auto
  then have B: "B = [0]" by (rule distinct_singleton)
  have cb: "concat bs = 0 # concat vs" by (simp add: b(1) us B)
  have vs: "set (concat vs) = {1}" "distinct (concat vs)" using s d insert_ident[of 0 "set (concat vs)" "{1}"] unfolding cb by (simp_all del: set_concat)
  then obtain vs1 C vs2 where v: "vs = vs1 @ C # vs2" "1 \<in> set C" using batch_split[of 1 vs] by blast
  from vs have "concat vs = [1]" by (rule distinct_singleton)
  then have "C = [1]" "concat vs1 = []" "concat vs2 = []" using v by (auto simp: append_eq_Cons_conv Cons_eq_append_conv)
  then show ?thesis using us B by (simp add: b v empty_batches)
qed

text \<open>One iteration of length 1 from the positions 5 and 7: the first moves by the position of the second to 12, then
  the second by the new position of the first to 19.\<close>

theorem master_implements_cosim_witness:
  "\<exists>m m'. new_simulation 2 (\<lambda>_. integrator) (\<lambda>i. if i = 0 then (5, 0) else (7, 0)) coupled_integrators two_in_order = Inr m
     \<and> simulate (\<lambda>_ _ _. (0, \<lambda>_. 0)) (cluster_net quiet_env (\<lambda>_. integrator) (\<lambda>_. 0)) no_debug [(0, 1)] m = Inr m'
     \<and> instances (\<lambda>_. integrator) m' 0 = (12, 7) \<and> instances (\<lambda>_. integrator) m' 1 = (19, 12)"
proof -
  let ?inst = "\<lambda>i::nat. if i = 0 then (5, 0) else (7, 0) :: double \<times> double" and ?run = "cosim_batch (\<lambda>_. integrator) coupled_integrators 0 1"
  have ob: "\<forall>i::nat. obedient integrator \<and> pointwise integrator" using integrator_obedient integrator_pointwise by blast
  have "\<forall>wc\<in>set coupled_integrators. is_simple wc" "in_range 2 coupled_integrators" by (simp_all add: coupled_integrators_def is_simple_def in_range_def)
  from master_implements_cosim[of "\<lambda>_. integrator", OF ob this two_in_order_wf, of ?inst "\<lambda>_ _ _. (0, \<lambda>_. 0)" quiet_env "\<lambda>_. 0" no_debug "[(0, 1)]"]
  obtain m m' bss where 1: "new_simulation 2 (\<lambda>_. integrator) ?inst coupled_integrators two_in_order = Inr m"
    "simulate (\<lambda>_ _ _. (0, \<lambda>_. 0)) (cluster_net quiet_env (\<lambda>_. integrator) (\<lambda>_. 0)) no_debug [(0, 1)] m = Inr m'"
    "length bss = length [(0::double, 1::double)]" "\<forall>bs\<in>set bss. hist_ok two_in_order bs {0..<int 2}"
    "\<forall>i<2. instances (\<lambda>_. integrator) m' i = cosim_run (\<lambda>_. integrator) coupled_integrators (zip [(0, 1)] bss) ?inst i" by blast
  obtain bs where bs: "bss = [bs]" using 1(3) by (cases bss) auto
  have "cosim_run (\<lambda>_. integrator) coupled_integrators (zip [(0, 1)] bss) ?inst = ?run [1] (?run [0] ?inst)"
    using two_in_order_batches[of bs] 1(4) bs by simp
  moreover have "?run [1] (?run [0] ?inst) 0 = (12, 7)" "?run [1] (?run [0] ?inst) 1 = (19, 12)"
    by (simp_all add: cosim_batch_def cosim_step_def Let_def input_values_def inputs_of_def coupled_integrators_def real_output_def integrator_def)
  ultimately show ?thesis using 1(1,2,5) by auto
qed

end
