(* ===== verification/User_Params.thy ===== *)
theory User_Params
  imports Base_Master Strong_Connector
begin

text \<open>
  Parameters from the command line (\<^verbatim>\<open>-p\<close>) and from CSV files, in src/master/main.cpp: how they are read with the
  type of their variable (\<^verbatim>\<open>resolve_string_params\<close>, \<^verbatim>\<open>param_mapFromCSV\<close>), how the row of a CSV file that holds at
  a time is found, and how they are sent (\<^verbatim>\<open>sendUserParams\<close>).
\<close>

subsection \<open>Reading\<close>

text \<open>The fields of a \<^verbatim>\<open>param\<close> that do not belong to its type are never set; they are zero here.\<close>

record param =
  valueReference :: int
  ptype :: fmi2_base_type
  stringValue :: string
  intValue :: int
  realValue :: double
  boolValue :: bool

definition param_from_vr_type_string :: "int \<Rightarrow> fmi2_base_type \<Rightarrow> string \<Rightarrow> param res" where
  "param_from_vr_type_string vr ty s =
     (let p = \<lparr>valueReference = vr, ptype = ty, stringValue = [], intValue = 0, realValue = 0, boolValue = False\<rparr> in
      case ty of
        fmi2_base_type_real \<Rightarrow> if \<not> isReal s then Inl (Fatal ''Value does not look like a Real'') else Inr (p\<lparr>realValue := atof s\<rparr>)
      | fmi2_base_type_int \<Rightarrow> if \<not> isInteger s then Inl (Fatal ''Value does not look like an Integer'') else Inr (p\<lparr>intValue := atoi s\<rparr>)
      | fmi2_base_type_bool \<Rightarrow> if \<not> isBoolean s then Inl (Fatal ''Value does not look like a Boolean'') else Inr (p\<lparr>boolValue := (s = ''true'')\<rparr>)
      | fmi2_base_type_str \<Rightarrow> Inr (p\<lparr>stringValue := s\<rparr>)
      | fmi2_base_type_enum \<Rightarrow> Inl (Fatal ''An enum snuck its way into -p''))"

type_synonym param_map = "nat \<times> fmi2_base_type \<rightharpoonup> param list"

definition add_param :: "nat \<times> fmi2_base_type \<Rightarrow> param \<Rightarrow> param_map \<Rightarrow> param_map" where
  "add_param k p m = m(k \<mapsto> (case m k of None \<Rightarrow> [] | Some ps \<Rightarrow> ps) @ [p])"

text \<open>One option. With three parts the type is that of the named variable, or real for a number; with four it is the first part.\<close>

definition resolve_param :: "client list \<Rightarrow> string list \<Rightarrow> ((nat \<times> fmi2_base_type) \<times> param) res" where
  "resolve_param clients parts =
     (if length parts < 3 then Inl (UB ''parts'')
      else let fmuIndex = atoi (parts ! (length parts - 3)) in
      if fmuIndex < 0 \<or> int (length clients) \<le> fmuIndex then Inl (Fatal ''Parameter refers to FMU, which does not exist'')
      else let i = nat fmuIndex; c = clients ! i in
      if length parts = 3 then
        rbind (vrFromKeyName c (parts ! 1)) (\<lambda>vr.
          let ty = (if isVR (parts ! 1) then fmi2_base_type_real
                    else case m_variables c (parts ! 1) of None \<Rightarrow> fmi2_base_type_real | Some v \<Rightarrow> vtype v)
          in rbind (param_from_vr_type_string vr ty (parts ! 2)) (\<lambda>p. Inr ((i, ty), p)))
      else if length parts = 4 then
        rbind (type_from_char (parts ! 0)) (\<lambda>ty.
          if \<not> isVR (parts ! 2) then Inl (Fatal ''Must use VRs when specifying parameters with explicit types'')
          else rbind (param_from_vr_type_string (atoi (parts ! 2)) ty (parts ! 3)) (\<lambda>p. Inr ((i, ty), p)))
      else Inl (UB ''param p''))"

definition resolve_string_params :: "string list list \<Rightarrow> client list \<Rightarrow> param_map res" where
  "resolve_string_params params clients =
     rfold (\<lambda>parts m. rbind (resolve_param clients parts) (\<lambda>(k, p). Inr (add_param k p m))) params Map.empty"

subsection \<open>CSV files\<close>

text \<open>\<^verbatim>\<open>map<double, param_map>\<close>, sorted by the time.\<close>

fun update_at :: "double \<Rightarrow> (param_map \<Rightarrow> param_map) \<Rightarrow> (double \<times> param_map) list \<Rightarrow> (double \<times> param_map) list" where
  "update_at t f [] = [(t, f Map.empty)]"
| "update_at t f ((u, m) # ms) =
     (if t < u then (t, f Map.empty) # (u, m) # ms else if t = u then (u, f m) # ms else (u, m) # update_at t f ms)"

text \<open>\<^verbatim>\<open>operator[]\<close> on the maps: an unknown header is a real variable with value reference 0, a missing cell an empty text.\<close>

definition csv_variable :: "client \<Rightarrow> string \<Rightarrow> int \<times> fmi2_base_type" where
  "csv_variable c h = (case m_variables c h of None \<Rightarrow> (0, fmi2_base_type_real) | Some v \<Rightarrow> (vvr v, vtype v))"

definition csv_value :: "csv_matrix \<Rightarrow> string \<Rightarrow> string \<Rightarrow> string" where
  "csv_value m t h = (case matrix m t of None \<Rightarrow> [] | Some row \<Rightarrow> (case row h of None \<Rightarrow> [] | Some s \<Rightarrow> s))"

definition csv_param :: "client \<Rightarrow> nat \<Rightarrow> csv_matrix \<Rightarrow> string \<times> string \<Rightarrow> (double \<times> param_map) list \<Rightarrow> (double \<times> param_map) list res" where
  "csv_param c i m = (\<lambda>(t, h) pm.
     let (vr, ty) = csv_variable c h in
     rbind (param_from_vr_type_string vr ty (csv_value m t h)) (\<lambda>p.
       Inr (update_at (atof t) (add_param (i, ptype p) p) pm)))"

definition param_mapFromCSV :: "(nat \<times> csv_matrix) list \<Rightarrow> client list \<Rightarrow> (double \<times> param_map) list res" where
  "param_mapFromCSV csvfmus clients =
     rfold (\<lambda>(i, m) pm.
       if length clients \<le> i then Inl (UB ''clients'')
       else rfold (csv_param (clients ! i) i m) (concat (map (\<lambda>t. map (Pair t) (headers m)) (time m))) pm) csvfmus []"

text \<open>\<^verbatim>\<open>upper_bound\<close>, then one back unless at the beginning.\<close>

definition upper_bound :: "double \<Rightarrow> (double \<times> 'a) list \<Rightarrow> nat" where
  "upper_bound t pm = length (takeWhile (\<lambda>(u, _). u \<le> t) pm)"

definition zero_order_hold :: "double \<Rightarrow> (double \<times> 'a) list \<Rightarrow> 'a res" where
  "zero_order_hold t pm =
     (let it = upper_bound t pm; it = (if it \<noteq> 0 then it - 1 else it)
      in if it < length pm then Inr (snd (pm ! it)) else Inl (UB ''csvParam.end()''))"

subsection \<open>Sending\<close>

definition is_sent :: "bool \<Rightarrow> variable \<Rightarrow> bool" where
  "is_sent initialization v \<longleftrightarrow> \<not> (initialization \<and> \<not> (vinitial v = initial_exact \<or> vcausality v = causality_input))"

definition param_vrs :: "bool \<Rightarrow> client \<Rightarrow> fmi2_base_type \<Rightarrow> param list \<Rightarrow> int list res" where
  "param_vrs initialization c ty ps =
     rfold (\<lambda>p vrs. case m_vr_variables c (valueReference p, ty) of
         None \<Rightarrow> Inl (Fatal ''Couldn't find variable'')
       | Some v \<Rightarrow> Inr (if is_sent initialization v then vrs @ [valueReference p] else vrs)) ps []"

definition set_request :: "fmi2_base_type \<Rightarrow> int list \<Rightarrow> param list \<Rightarrow> request res" where
  "set_request ty vrs ps =
     (case ty of
        fmi2_base_type_real \<Rightarrow> fmi2_import_set_real vrs (map realValue ps)
      | fmi2_base_type_enum \<Rightarrow> Inr (set_integer_req vrs (map intValue ps))
      | fmi2_base_type_int \<Rightarrow> Inr (set_integer_req vrs (map intValue ps))
      | fmi2_base_type_bool \<Rightarrow> Inr (set_boolean_req vrs (map boolValue ps))
      | fmi2_base_type_str \<Rightarrow> Inr (set_string_req vrs (map stringValue ps)))"

definition send_params :: "bool \<Rightarrow> nat \<Rightarrow> fmi2_base_type \<Rightarrow> param list \<Rightarrow> 'w master \<Rightarrow> 'w master res" where
  "send_params initialization i ty ps m =
     (if length (m_clients m) \<le> i then Inl (UB ''clients'')
      else rbind (param_vrs initialization (m_clients m ! i) ty ps) (\<lambda>vrs.
        if vrs = [] then Inr m
        else rbind (set_request ty vrs ps) (\<lambda>q. Inr (master_queueMessage i q m))))"

text \<open>The entries of the map in the order of its keys.\<close>

definition sendUserParams :: "bool \<Rightarrow> param_map \<Rightarrow> 'w master \<Rightarrow> 'w master res" where
  "sendUserParams initialization params m =
     rfold (\<lambda>i. rfold (\<lambda>ty m. case params (i, ty) of None \<Rightarrow> Inr m | Some ps \<Rightarrow> send_params initialization i ty ps m) all_base_types)
       [0..<length (m_clients m)] m"

subsection \<open>The value that holds\<close>

lemma takeWhile_sorted:
  assumes "sorted (map fst pm)"
  shows "i < length pm \<Longrightarrow> fst (pm ! i) \<le> t \<longleftrightarrow> i < upper_bound t pm"
  using assms unfolding upper_bound_def
proof (induction pm arbitrary: i)
  case (Cons a pm)
  show ?case
  proof (cases "fst a \<le> t")
    case True
    then show ?thesis using Cons by (cases i) (auto simp: split_beta)
  next
    case False
    have "fst a \<le> fst (pm ! k)" if "k < length pm" for k using Cons.prems(2) nth_mem[OF that] by simp
    then show ?thesis using Cons.prems False by (cases i) (auto simp: split_beta not_le intro: less_le_trans)
  qed
qed simp

text \<open>The row of the CSV data used at time \<open>t\<close>: the last one whose time is at most \<open>t\<close>, and the first one when \<open>t\<close> is
  before all of them. There is always one when there are any data.\<close>

theorem zero_order_hold_correct:
  assumes "sorted (map fst pm)" and "distinct (map fst pm)" and "pm \<noteq> []"
  shows "\<exists>i < length pm. zero_order_hold t pm = Inr (snd (pm ! i))
     \<and> (if t < fst (pm ! 0) then i = 0 else fst (pm ! i) \<le> t \<and> (\<forall>j < length pm. fst (pm ! j) \<le> t \<longrightarrow> fst (pm ! j) \<le> fst (pm ! i)))"
proof -
  let ?k = "upper_bound t pm"
  have k: "?k \<le> length pm" by (simp add: upper_bound_def length_takeWhile_le)
  have iff: "fst (pm ! i) \<le> t \<longleftrightarrow> i < ?k" if "i < length pm" for i using takeWhile_sorted[OF assms(1) that] .
  show ?thesis
  proof (cases "?k = 0")
    case True
    then have "t < fst (pm ! 0)" using iff[of 0] assms(3) by auto
    then show ?thesis using True assms(3) by (intro exI[of _ 0]) (simp add: zero_order_hold_def)
  next
    case False
    then have i: "?k - 1 < length pm" "fst (pm ! (?k - 1)) \<le> t" "\<not> t < fst (pm ! 0)" using k iff[of "?k - 1"] iff[of 0] assms(3) by auto
    have "fst (pm ! j) \<le> fst (pm ! (?k - 1))" if "j < length pm" "fst (pm ! j) \<le> t" for j
      using sorted_nth_mono[OF assms(1), of j "?k - 1"] iff[OF that(1)] that i(1) by simp
    then show ?thesis using False i by (intro exI[of _ "?k - 1"]) (simp add: zero_order_hold_def Let_def)
  qed
qed

theorem zero_order_hold_correct_witness:
  "zero_order_hold (3 / 2) [(0, ''a''), (1, ''b''), (2, ''c'')] = Inr ''b''"
proof -
  define pm where "pm = [(0::double, ''a''), (1, ''b''), (2, ''c'')]"
  have pm: "sorted (map fst pm)" "distinct (map fst pm)" "pm \<noteq> []" "length pm = 3" "\<not> 3 / 2 < fst (pm ! 0)" "fst (pm ! 1) = 1" by (simp_all add: pm_def)
  from zero_order_hold_correct[OF pm(1-3), of "3 / 2"] pm(4,5) obtain i where i: "i < 3" "zero_order_hold (3 / 2) pm = Inr (snd (pm ! i))"
    "fst (pm ! i) \<le> 3 / 2" "\<forall>j<3. fst (pm ! j) \<le> 3 / 2 \<longrightarrow> fst (pm ! j) \<le> fst (pm ! i)" by auto
  have one: "1 \<le> fst (pm ! i)" using i(4)[rule_format, of 1] pm(6) by simp
  from i(1) consider "i = 0" | "i = 1" | "i = 2" by linarith
  then have "i = 1" by cases (use one i(3) in \<open>simp_all add: pm_def\<close>)
  then show ?thesis using i(2) by (simp add: pm_def)
qed

lemma update_at_keys: "set (map fst (update_at t f pm)) = insert t (set (map fst pm))"
  by (induction t f pm rule: update_at.induct) auto

lemma update_at_sorted: "sorted (map fst pm) \<Longrightarrow> distinct (map fst pm) \<Longrightarrow> sorted (map fst (update_at t f pm)) \<and> distinct (map fst (update_at t f pm))"
proof (induction pm)
  case (Cons a pm)
  have "set (map fst (update_at t f pm)) = insert t (set (map fst pm))" by (rule update_at_keys)
  then show ?case using Cons by (cases a) force
qed simp

lemma csv_sorted:
  assumes "param_mapFromCSV fmus clients = Inr pm"
  shows "sorted (map fst pm) \<and> distinct (map fst pm)"
proof -
  let ?P = "\<lambda>pm :: (double \<times> param_map) list. sorted (map fst pm) \<and> distinct (map fst pm)"
  have one: "?P pm'" if "csv_param c i m th pm = Inr pm'" "?P pm" for c i m th pm pm'
    using that update_at_sorted by (auto simp: csv_param_def rbind_eq_Inr split: prod.splits)
  have "?P pm'" if "rfold (csv_param c i m) xs pm = Inr pm'" "?P pm" for c i m xs pm pm'
    using rfold_inv[where P = ?P, OF that(1)] that(2) one by blast
  then have "?P pm'" if "(case im of (i, m) \<Rightarrow> \<lambda>pm. if length clients \<le> i then Inl (UB ''clients'')
       else rfold (csv_param (clients ! i) i m) (concat (map (\<lambda>t. map (Pair t) (headers m)) (time m))) pm) pm = Inr pm'" "?P pm" for im pm pm'
    using that by (auto split: prod.splits if_splits)
  from rfold_inv[where P = ?P, OF assms[unfolded param_mapFromCSV_def]] this show ?thesis by auto
qed

subsection \<open>What is sent\<close>

lemma param_vrs_append:
  "rfold (\<lambda>p vrs. case m_vr_variables c (valueReference p, ty) of
         None \<Rightarrow> Inl (Fatal ''Couldn't find variable'')
       | Some v \<Rightarrow> Inr (if is_sent ini v then vrs @ [valueReference p] else vrs)) ps us = Inr vrs
   \<longleftrightarrow> (\<forall>p\<in>set ps. m_vr_variables c (valueReference p, ty) \<noteq> None)
     \<and> vrs = us @ map valueReference (filter (\<lambda>p. is_sent ini (the (m_vr_variables c (valueReference p, ty)))) ps)"
  by (induction ps arbitrary: us) (auto split: option.splits)

lemma param_vrs_eq:
  "param_vrs ini c ty ps = Inr vrs \<longleftrightarrow> (\<forall>p\<in>set ps. m_vr_variables c (valueReference p, ty) \<noteq> None)
     \<and> vrs = map valueReference (filter (\<lambda>p. is_sent ini (the (m_vr_variables c (valueReference p, ty)))) ps)"
  using param_vrs_append[where us = "[]"] by (simp add: param_vrs_def)

text \<open>Before initialization mode the parameters of one type are sent in one request that sets each value reference to its own value,
  and an unknown value reference stops the program.\<close>

theorem send_params_correct:
  assumes "i < length (m_clients m)" and "ps \<noteq> []" and "ty \<noteq> fmi2_base_type_enum"
  shows "send_params False i ty ps m =
     (if \<forall>p\<in>set ps. m_vr_variables (m_clients m ! i) (valueReference p, ty) \<noteq> None
      then Inr (master_queueMessage i (case ty of
          fmi2_base_type_real \<Rightarrow> set_real_req (map valueReference ps) (map realValue ps)
        | fmi2_base_type_bool \<Rightarrow> set_boolean_req (map valueReference ps) (map boolValue ps)
        | fmi2_base_type_str \<Rightarrow> set_string_req (map valueReference ps) (map stringValue ps)
        | _ \<Rightarrow> set_integer_req (map valueReference ps) (map intValue ps)) m)
      else Inl (Fatal ''Couldn't find variable''))"
proof -
  let ?c = "m_clients m ! i"
  have err: "param_vrs False ?c ty ps = Inl (Fatal ''Couldn't find variable'')" if "\<exists>p\<in>set ps. m_vr_variables ?c (valueReference p, ty) = None"
  proof -
    have "rfold (\<lambda>p vrs. case m_vr_variables ?c (valueReference p, ty) of None \<Rightarrow> Inl (Fatal ''Couldn't find variable'')
       | Some v \<Rightarrow> Inr (if is_sent False v then vrs @ [valueReference p] else vrs)) ps us = Inl (Fatal ''Couldn't find variable'')" for us
      using that by (induction ps arbitrary: us) (auto split: option.splits)
    then show ?thesis by (simp add: param_vrs_def)
  qed
  show ?thesis
  proof (cases "\<forall>p\<in>set ps. m_vr_variables ?c (valueReference p, ty) \<noteq> None")
    case True
    then have "param_vrs False ?c ty ps = Inr (map valueReference ps)" by (simp add: param_vrs_eq is_sent_def)
    then show ?thesis using True assms by (cases ty) (simp_all add: send_params_def set_request_def fmi2_import_set_real_def)
  next
    case False
    then show ?thesis using err assms(1) by (auto simp: send_params_def)
  qed
qed

definition gain :: variable where
  "gain = \<lparr>vvr = 1, vtype = fmi2_base_type_real, vcausality = causality_parameter, vinitial = initial_exact, vname = ''gain''\<rparr>"

definition offset :: variable where
  "offset = \<lparr>vvr = 2, vtype = fmi2_base_type_real, vcausality = causality_parameter, vinitial = initial_approx, vname = ''offset''\<rparr>"

definition param_client :: client where
  "param_client = setVariables [offset, gain] [] (new_client 0)"

definition real_param :: "int \<Rightarrow> double \<Rightarrow> param" where
  "real_param vr x = \<lparr>valueReference = vr, ptype = fmi2_base_type_real, stringValue = [], intValue = 0, realValue = x, boolValue = False\<rparr>"

lemma param_client_variables: "m_vr_variables param_client (1, fmi2_base_type_real) = Some gain" "m_vr_variables param_client (2, fmi2_base_type_real) = Some offset"
  by (simp_all add: param_client_def setVariables_def gain_def offset_def)

theorem send_params_correct_witness:
  "send_params False 0 fmi2_base_type_real [real_param 1 3, real_param 2 4] (new_master [param_client] [] ()) =
     Inr (master_queueMessage 0 (set_real_req [1, 2] [3, 4]) (new_master [param_client] [] ()))"
  using send_params_correct[of 0 "new_master [param_client] [] ()" "[real_param 1 3, real_param 2 4]" fmi2_base_type_real]
  by (simp add: new_master_def real_param_def param_client_variables)

text \<open>C40: during initialization mode parameters that are neither exact nor inputs are to be skipped. Their value references are, their values are not: whenever
  one of several real parameters of an FMU is skipped and another is not, the program stops.\<close>

theorem send_params_skip_fatal:
  assumes "i < length (m_clients m)" and "p \<in> set ps" and "q \<in> set ps"
    and "\<forall>p\<in>set ps. m_vr_variables (m_clients m ! i) (valueReference p, fmi2_base_type_real) \<noteq> None"
    and "is_sent True (the (m_vr_variables (m_clients m ! i) (valueReference p, fmi2_base_type_real)))"
    and "\<not> is_sent True (the (m_vr_variables (m_clients m ! i) (valueReference q, fmi2_base_type_real)))"
  shows "\<not> ok (send_params True i fmi2_base_type_real ps m)"
proof -
  let ?ok = "\<lambda>p. is_sent True (the (m_vr_variables (m_clients m ! i) (valueReference p, fmi2_base_type_real)))"
  have vrs: "param_vrs True (m_clients m ! i) fmi2_base_type_real ps = Inr (map valueReference (filter ?ok ps))" using assms(4) by (simp add: param_vrs_eq)
  have "filter ?ok ps \<noteq> []" using assms(2,5) by (auto simp: filter_empty_conv)
  moreover have "length (filter ?ok ps) < length ps" using assms(3,6) by (intro length_filter_less) auto
  ultimately show ?thesis using vrs assms(1) by (simp add: send_params_def set_request_def fmi2_import_set_real_def ok_def)
qed

theorem send_params_skip_fatal_witness:
  "\<not> ok (send_params True 0 fmi2_base_type_real [real_param 1 3, real_param 2 4] (new_master [param_client] [] ()))"
  by (rule send_params_skip_fatal[where p = "real_param 1 3" and q = "real_param 2 4"])
     (simp_all add: new_master_def real_param_def param_client_variables is_sent_def gain_def offset_def)

end
