(* ===== verification/Sim_Loop.thy ===== *)
theory Sim_Loop
  imports System User_Params
begin

text \<open>
  The loop of \<^verbatim>\<open>main\<close> (src/master/main.cpp): the number of steps, the times, which rows are written, and the rows
  themselves (\<^verbatim>\<open>printOutputs\<close>). A row is the time and one value per output of each FMU; how a number is
  printed, pacing by the wall clock and the results socket are left out. \<^verbatim>\<open>runIteration\<close> is virtual and therefore an argument.
\<close>

subsection \<open>Steps and times\<close>

definition c_round :: "double \<Rightarrow> int" where
  "c_round x = (if x \<ge> 0 then \<lfloor>x + 1 / 2\<rfloor> else \<lceil>x - 1 / 2\<rceil>)"

definition INT_MAX :: int where
  "INT_MAX = 2147483647"

text \<open>A time step of zero makes an infinite number of steps, or none that is a number.\<close>

definition num_steps :: "double \<Rightarrow> double \<Rightarrow> int res" where
  "num_steps endTime timeStep =
     (if timeStep = 0 then (if endTime > 0 then Inr INT_MAX else if endTime < 0 then Inr 0 else Inl (UB ''(int)fsteps''))
      else let fsteps = c_round (endTime / timeStep)
        in Inr (if fsteps < 0 then 0 else if fsteps \<ge> INT_MAX then INT_MAX else fsteps))"

definition write_period :: "int \<Rightarrow> int \<Rightarrow> int" where
  "write_period maxSamples nsteps = (if maxSamples > 0 then \<lceil>real_of_int nsteps / real_of_int maxSamples\<rceil> else 1)"

text \<open>The remainder by zero stops the process.\<close>

definition suppressed :: "int \<Rightarrow> int \<Rightarrow> bool res" where
  "suppressed period step = (if period = 0 then Inl (UB ''step % write_period'') else Inr (step mod period \<noteq> 0))"

definition step_time :: "double \<Rightarrow> int \<Rightarrow> int \<Rightarrow> double" where
  "step_time endTime nsteps step = real_of_int step * endTime / real_of_int nsteps"

subsection \<open>Rows\<close>

datatype cell = Out_real double | Out_int int | Out_bool bool | Out_str string

record row =
  row_time :: double
  row_cells :: "cell list"

definition getInt :: "client \<Rightarrow> int \<Rightarrow> int res" where
  "getInt c v = rbind (getInts c [v]) (\<lambda>xs. Inr (xs ! 0))"

definition getBool :: "client \<Rightarrow> int \<Rightarrow> bool res" where
  "getBool c v = rbind (getBools c [v]) (\<lambda>xs. Inr (xs ! 0))"

definition getString :: "client \<Rightarrow> int \<Rightarrow> string res" where
  "getString c v = rbind (getStrings c [v]) (\<lambda>xs. Inr (xs ! 0))"

text \<open>The references of all outputs by type. The four types with a \<^verbatim>\<open>reserve\<close> always have an entry.\<close>

definition output_refs :: "client \<Rightarrow> SendGetXType" where
  "output_refs c = (\<lambda>ty. let vrs = map vvr (filter (\<lambda>v. vtype v = ty) (m_outputs c)) in
     if ty = fmi2_base_type_enum \<and> vrs = [] then None else Some vrs)"

definition output_cell :: "bool \<Rightarrow> client \<Rightarrow> variable \<Rightarrow> cell list res" where
  "output_cell matlab c out =
     (case vtype out of
        fmi2_base_type_real \<Rightarrow> rbind (getReal c (vvr out)) (\<lambda>x. Inr [Out_real x])
      | fmi2_base_type_int \<Rightarrow> rbind (getInt c (vvr out)) (\<lambda>x. Inr [Out_int x])
      | fmi2_base_type_bool \<Rightarrow> rbind (getBool c (vvr out)) (\<lambda>x. Inr [Out_bool x])
      | fmi2_base_type_str \<Rightarrow> if matlab then Inr [] else rbind (getString c (vvr out)) (\<lambda>x. Inr [Out_str x])
      | fmi2_base_type_enum \<Rightarrow> Inl (Fatal ''Enum outputs not allowed for now''))"

definition client_cells :: "bool \<Rightarrow> client \<Rightarrow> cell list res" where
  "client_cells matlab c = rbind (rmap (output_cell matlab c) (m_outputs c)) (\<lambda>cs. Inr (concat cs))"

definition queue_output :: "config \<Rightarrow> nat \<Rightarrow> 'w smaster \<Rightarrow> 'w smaster res" where
  "queue_output cfg i m = on_base_res (master_queueX cfg i (output_refs (clients_of m ! i))) m"

definition printOutputs :: "'w net \<Rightarrow> config \<Rightarrow> bool \<Rightarrow> double \<Rightarrow> 'w smaster \<Rightarrow> (row \<times> 'w smaster) res" where
  "printOutputs net cfg matlab t m =
     rbind (rfold (queue_output cfg) [0..<length (clients_of m)] m) (\<lambda>m.
     rbind (on_base_res (wait net cfg) (on_base queueValueRequests m)) (\<lambda>m.
     rbind (rmap (client_cells matlab) (clients_of m)) (\<lambda>cs.
       Inr (\<lparr>row_time = t, row_cells = concat cs\<rparr>, m))))"

subsection \<open>The loop\<close>

record sim_config =
  endTime :: double
  timeStep :: double
  nsteps :: int
  period :: int
  writes :: bool   \<comment> \<open>\<^verbatim>\<open>fileFormat != none\<close>\<close>
  matlab_output :: bool
  csvParam :: "(double \<times> param_map) list"
  no_time :: "int \<Rightarrow> double"   \<comment> \<open>the time of a step when \<^verbatim>\<open>nsteps\<close> is zero, with the step\<close>

record 'w sim =
  sim_master :: "'w smaster"
  step :: int
  suppress_output :: bool
  rows :: "row list"

datatype 'a turn = Break 'a | Again 'a

definition print_row :: "'w net \<Rightarrow> config \<Rightarrow> sim_config \<Rightarrow> double \<Rightarrow> 'w sim \<Rightarrow> 'w sim res" where
  "print_row net cfg sc t s =
     (if writes sc \<and> \<not> suppress_output s
      then rbind (printOutputs net cfg (matlab_output sc) t (sim_master s)) (\<lambda>(r, m). Inr (s\<lparr>sim_master := m, rows := rows s @ [r]\<rparr>))
      else Inr s)"

definition csv_inputs :: "sim_config \<Rightarrow> double \<Rightarrow> 'w smaster \<Rightarrow> 'w smaster res" where
  "csv_inputs sc t m =
     (if csvParam sc = [] then Inr m
      else rbind (zero_order_hold t (csvParam sc)) (\<lambda>ps. on_base_res (sendUserParams False ps) m))"

text \<open>The quotient by a number of steps that is zero is an infinity or not a number, which are no reals: a run without end whose end time is at
  least half a time step below zero has such times, and what they are is a parameter.\<close>

definition turn_time :: "sim_config \<Rightarrow> int \<Rightarrow> double" where
  "turn_time sc k = (if nsteps sc = 0 then no_time sc k else step_time (endTime sc) (nsteps sc) k)"

text \<open>The body of the loop, for one turn. The iteration is given the number of the step too, for the results behind it.\<close>

definition sim_turn ::
  "(int \<Rightarrow> double \<Rightarrow> double \<Rightarrow> 'w smaster \<Rightarrow> 'w smaster res) \<Rightarrow> 'w net \<Rightarrow> config \<Rightarrow> sim_config \<Rightarrow> 'w sim \<Rightarrow> 'w sim turn res" where
  "sim_turn iter net cfg sc s =
     rbind (suppressed (period sc) (step s)) (\<lambda>sup.
     let t = turn_time sc (step s); s = s\<lparr>suppress_output := sup, sim_master := on_base (\<lambda>b. b\<lparr>t_now := t\<rparr>) (sim_master s)\<rparr> in
     rbind (on_base_res (handleZmqControl net) (sim_master s)) (\<lambda>m.
     let s = s\<lparr>sim_master := m\<rparr> in
     if \<not> running (base m) then Inr (Break s)
     else if paused (base m) then Inr (Again s)
     else rbind (csv_inputs sc t m) (\<lambda>m.
     rbind (print_row net cfg sc t (s\<lparr>sim_master := m\<rparr>)) (\<lambda>s.
     rbind (iter (step s) t (timeStep sc) (sim_master s)) (\<lambda>m.
       Inr (Again (s\<lparr>sim_master := m, step := step s + 1\<rparr>)))))))"

definition sim_more :: "sim_config \<Rightarrow> 'w sim \<Rightarrow> bool" where
  "sim_more sc s \<longleftrightarrow> (endTime sc < 0 \<or> step s < nsteps sc) \<and> running (base (sim_master s))"

text \<open>A negative end time means no end: the loop may run forever.\<close>

partial_function (option) sim_loop ::
  "(int \<Rightarrow> double \<Rightarrow> double \<Rightarrow> 'w smaster \<Rightarrow> 'w smaster res) \<Rightarrow> 'w net \<Rightarrow> config \<Rightarrow> sim_config \<Rightarrow> 'w sim \<Rightarrow> 'w sim res option" where
  "sim_loop iter net cfg sc s =
     (if sim_more sc s
      then (case sim_turn iter net cfg sc s of
          Inl e \<Rightarrow> Some (Inl e)
        | Inr (Break s') \<Rightarrow> Some (Inr s')
        | Inr (Again s') \<Rightarrow> sim_loop iter net cfg sc s')
      else Some (Inr s))"

text \<open>The row after the loop.\<close>

definition last_row :: "'w net \<Rightarrow> config \<Rightarrow> sim_config \<Rightarrow> 'w sim \<Rightarrow> 'w sim res" where
  "last_row net cfg sc s = print_row net cfg sc (endTime sc) s"

text \<open>What is set before the loop.\<close>

definition start_running :: "bool \<Rightarrow> 'w smaster \<Rightarrow> 'w smaster" where
  "start_running startPaused = on_base (\<lambda>b. b\<lparr>m_clients := map (\<lambda>c. c\<lparr>m_fmuState := fmu_running\<rparr>) (m_clients b), initing := False,
     running := True, paused := startPaused\<rparr>)"

text \<open>The loop and the row after it, from the step counts computed before it. The argument \<open>maxSamples\<close> limits the number of rows.\<close>

definition run_simulation ::
  "(int \<Rightarrow> double \<Rightarrow> double \<Rightarrow> 'w smaster \<Rightarrow> 'w smaster res) \<Rightarrow> 'w net \<Rightarrow> config \<Rightarrow> sim_config \<Rightarrow> int \<Rightarrow> bool \<Rightarrow> 'w smaster \<Rightarrow> 'w sim res option" where
  "run_simulation iter net cfg sc maxSamples startPaused m =
     (case num_steps (endTime sc) (timeStep sc) of
        Inl e \<Rightarrow> Some (Inl e)
      | Inr N \<Rightarrow>
          let sc = sc\<lparr>nsteps := N, period := write_period maxSamples N\<rparr> in
          map_option (\<lambda>r. rbind r (last_row net cfg sc))
            (sim_loop iter net cfg sc \<lparr>sim_master = start_running startPaused m, step = 0, suppress_output = False, rows = []\<rparr>))"

subsection \<open>Communication points\<close>

lemma c_round_near: "\<bar>real_of_int (c_round x) - x\<bar> \<le> 1 / 2"
proof (cases "x \<ge> 0")
  case True
  then have "c_round x = \<lfloor>x + 1 / 2\<rfloor>" by (simp add: c_round_def)
  then show ?thesis by linarith
next
  case False
  then have "c_round x = \<lceil>x - 1 / 2\<rceil>" by (simp add: c_round_def)
  then show ?thesis by linarith
qed

lemma num_steps_near:
  assumes "0 < h" and "num_steps E h = Inr N" and "0 < N" and "N < INT_MAX"
  shows "\<bar>E - real_of_int N * h\<bar> \<le> h / 2"
proof -
  have "N = c_round (E / h)" using assms by (auto simp: num_steps_def Let_def split: if_splits)
  then have "\<bar>real_of_int N - E / h\<bar> \<le> 1 / 2" using c_round_near[of "E / h"] by simp
  then have "\<bar>real_of_int N - E / h\<bar> * h \<le> h / 2" using assms(1) mult_right_mono[of "\<bar>real_of_int N - E / h\<bar>" "1/2" h] by simp
  moreover have "\<bar>real_of_int N - E / h\<bar> * h = \<bar>(real_of_int N - E / h) * h\<bar>" using assms(1) by (simp add: abs_mult)
  moreover have "(real_of_int N - E / h) * h = real_of_int N * h - E" using assms(1) by (simp add: left_diff_distrib)
  ultimately show ?thesis by (simp add: abs_minus_commute)
qed

text \<open>C37: the times the master announces. The FMUs are told to advance by the time step at the times \<^verbatim>\<open>step * endTime / nsteps\<close>.
  These are off the multiples of the time step by at most half a time step; the step that starts at one of them ends at the
  next one exactly if the end time is a multiple of the time step.\<close>

theorem communication_points:
  assumes "0 < h" and "num_steps E h = Inr N" and "0 < N" and "N < INT_MAX" and "0 \<le> k" and "k \<le> N"
  shows "\<bar>step_time E N k - real_of_int k * h\<bar> \<le> h / 2 \<and> (step_time E N (k + 1) = step_time E N k + h \<longleftrightarrow> E = real_of_int N * h)"
proof -
  let ?k = "real_of_int k" and ?N = "real_of_int N"
  have "?k * E / ?N - ?k * h = ?k / ?N * (E - ?N * h)" using assms(3) by (simp add: field_simps)
  moreover have "0 \<le> ?k / ?N" "?k / ?N \<le> 1" using assms(3,5,6) by simp_all
  ultimately have "\<bar>?k * E / ?N - ?k * h\<bar> \<le> 1 * (h / 2)"
    using mult_mono[of "?k / ?N" 1 "\<bar>E - ?N * h\<bar>" "h / 2"] num_steps_near[OF assms(1-4)] assms(3,5) by (simp add: abs_mult)
  moreover have "(?k + 1) * E / ?N = ?k * E / ?N + h \<longleftrightarrow> E = ?N * h" using assms(3) by (simp add: field_simps)
  ultimately show ?thesis using assms(3) by (simp add: step_time_def)
qed

theorem communication_points_witness:
  "num_steps 1 (3 / 10) = Inr 3 \<and> \<bar>step_time 1 3 2 - 2 * (3 / 10)\<bar> \<le> 3 / 20 \<and> step_time 1 3 3 \<noteq> step_time 1 3 2 + 3 / 10"
proof -
  have "num_steps 1 (3 / 10) = Inr 3" by (simp add: num_steps_def c_round_def INT_MAX_def Let_def floor_eq_iff)
  then show ?thesis using communication_points[of "3 / 10" 1 3 2] by (auto simp: INT_MAX_def)
qed

text \<open>C39: a run without end whose rows are limited stops at once: a negative end time means that the loop does not end, but the number of steps is
  then zero, so is the distance of the rows, and the first turn takes a remainder by zero.\<close>

theorem endless_run_with_sample_limit_faults:
  assumes "endTime sc < 0" and "0 < timeStep sc" and "endTime sc / timeStep sc \<le> - (1 / 2)" and "0 < maxSamples"
  shows "run_simulation iter net cfg sc maxSamples startPaused m = Some (Inl (UB ''step % write_period''))"
proof -
  have "c_round (endTime sc / timeStep sc) < 0"
    using assms(3) unfolding c_round_def by (simp add: ceiling_less_iff)
  then have "num_steps (endTime sc) (timeStep sc) = Inr 0" using assms(2) by (simp add: num_steps_def Let_def)
  moreover have "write_period maxSamples 0 = 0" using assms(4) by (simp add: write_period_def)
  ultimately show ?thesis using assms(1)
    by (simp add: run_simulation_def Let_def sim_loop.simps sim_more_def start_running_def on_base_def sim_turn_def suppressed_def)
qed

theorem endless_run_with_sample_limit_faults_witness:
  "\<forall>iter net cfg (m :: unit smaster). run_simulation iter net cfg
     \<lparr>endTime = -1, timeStep = 1, nsteps = 0, period = 0, writes = True, matlab_output = False, csvParam = [], no_time = \<lambda>_. 0\<rparr> 10 False m
     = Some (Inl (UB ''step % write_period''))"
  by (intro allI endless_run_with_sample_limit_faults) simp_all

subsection \<open>The loop ends\<close>

lemma control_loop_running:
  "control_loop msgs m = Inr m' \<Longrightarrow> zmqControl m \<Longrightarrow> \<not> initing m \<Longrightarrow> running m' \<Longrightarrow> \<not> paused m'"
proof (induction msgs arbitrary: m)
  case Nil
  then show ?case by (auto split: if_splits)
next
  case (Cons ctrl msgs)
  show ?case
  proof (cases "running m")
    case False
    then show ?thesis using Cons.prems by auto
  next
    case True
    then obtain m1 where 1: "control_loop msgs (reply_state m1) = Inr m'"
      "(if version ctrl = Some 1 then rfold set_control_variables (ctrl_variables ctrl) (run_command (command ctrl) m) else Inr m) = Inr m1"
      using Cons.prems(1) by auto
    have "quiet m m1"
      using 1(2) rfold_quiet[of set_control_variables "ctrl_variables ctrl" "run_command (command ctrl) m" m1, OF _ set_control_variables_quiet]
        run_command_quiet[OF Cons.prems(2)] quiet_trans by (fastforce split: if_splits)
    then show ?thesis using Cons.IH[OF 1(1)] Cons.prems by (simp add: reply_state_def quiet_def same_flags_def)
  qed
qed

lemma handleZmqControl_running:
  "handleZmqControl net m = Inr m' \<Longrightarrow> \<not> initing m \<Longrightarrow> zmqControl m \<or> \<not> paused m \<Longrightarrow> running m' \<Longrightarrow> \<not> paused m'"
  by (cases "net_control net (world m)") (auto simp: handleZmqControl_def split: if_splits dest: control_loop_running)

lemma set_request_step: "set_request ty vrs ps = Inr q \<Longrightarrow> \<not> is_do_step q"
  by (cases ty) (auto simp: set_request_def fmi2_import_set_real_def is_do_step_def split: if_splits)

lemma sendUserParams_quiet: "sendUserParams b params m = Inr m' \<Longrightarrow> quiet m m'"
  unfolding sendUserParams_def
proof (erule rfold_quiet, erule rfold_quiet)
  show "quiet m m'" if "(case params (i, ty) of None \<Rightarrow> Inr m | Some ps \<Rightarrow> send_params b i ty ps m) = Inr m'" for i ty and m m' :: "'a master"
    using that by (auto simp: send_params_def not_le intro!: queue_quiet set_request_step split: option.splits if_splits)
qed

lemma csv_inputs_squiet: "csv_inputs sc t m = Inr m' \<Longrightarrow> squiet m m'"
  by (auto simp: csv_inputs_def split: if_splits intro: on_base_res_squiet sendUserParams_quiet)

lemma master_queueX_quiet: "master_queueX cfg i refs m = Inr m' \<Longrightarrow> quiet m m'"
  by (auto simp: master_queueX_def intro!: set_client_quiet dest: queueX_id)

lemma printOutputs_squiet: "printOutputs net cfg mat t m = Inr (r, m') \<Longrightarrow> squiet m m'"
proof -
  assume "printOutputs net cfg mat t m = Inr (r, m')"
  then obtain m1 where 1: "rfold (queue_output cfg) [0..<length (clients_of m)] m = Inr m1"
    "on_base_res (wait net cfg) (on_base queueValueRequests m1) = Inr m'" by (auto simp: printOutputs_def)
  have "squiet m m1" by (rule rfold_squiet[OF 1(1)]) (unfold queue_output_def, erule on_base_res_squiet, erule master_queueX_quiet)
  then show ?thesis using request_values_squiet[OF 1(2)] squiet_trans by blast
qed

lemma print_row_squiet: "print_row net cfg sc t s = Inr s' \<Longrightarrow> squiet (sim_master s) (sim_master s') \<and> step s' = step s"
  by (auto simp: print_row_def split: if_splits dest: printOutputs_squiet)

text \<open>An iteration of \<^verbatim>\<open>StrongMaster\<close> keeps the rends and leaves starting and stopping to the control socket.\<close>

definition startable :: "'w smaster \<Rightarrow> bool" where
  "startable m \<longleftrightarrow> checkRends (length (clients_of m)) (rends m) = Inr (clientrend m) \<and> parents (rends m ! 0) = []"

definition in_loop :: "'w smaster \<Rightarrow> bool" where
  "in_loop m \<longleftrightarrow> startable m \<and> \<not> initing (base m) \<and> (zmqControl (base m) \<or> \<not> paused (base m) \<and> running (base m))"

lemma in_loop_setup: "same_setup m m' \<Longrightarrow> length (clients_of m') = length (clients_of m) \<Longrightarrow> in_loop m \<Longrightarrow> in_loop m'"
  by (auto simp: in_loop_def startable_def same_setup_def same_flags_def)

lemma squiet_setup: "squiet m m' \<Longrightarrow> same_setup m m' \<and> length (clients_of m') = length (clients_of m)"
  using squiet_steps squiet_length by blast

lemma in_loop_squiet: "squiet m m' \<Longrightarrow> in_loop m \<Longrightarrow> in_loop m'"
  using squiet_setup in_loop_setup by blast

lemma iteration_setup:
  assumes "startable m" and "runIteration umf net cfg t dt m = Inr m'"
  shows "same_setup m m' \<and> length (clients_of m') = length (clients_of m)"
proof -
  let ?n = "length (clients_of m)"
  obtain m1 s1 where 1: "run_sched (crank_batch net cfg t dt) (stepKinematicFmus umf net cfg t dt) ?n (rends m)
      (clientrend m) (kins m) m = Inr (m1, s1)" "prefetch cfg m1 = Inr m'"
    using assms(2) by (auto simp: runIteration_def)
  have "has_clients ?n m" by (simp add: has_clients_def)
  from sm.run_partial[OF _ _ this 1(1)] assms(1) obtain bs where 2: "has_clients ?n m1" "batches (step_effect t dt) bs m m1"
    by (auto simp: startable_def)
  then have "same_setup m m1" "length (clients_of m1) = ?n" using step_effects[OF 2(2)] by (auto simp: has_clients_def)
  then show ?thesis using squiet_setup[OF prefetch_squiet[OF 1(2)]] same_setup_trans by metis
qed

text \<open>What the main loop needs of an iteration.\<close>

definition steady :: "(int \<Rightarrow> double \<Rightarrow> double \<Rightarrow> 'w smaster \<Rightarrow> 'w smaster res) \<Rightarrow> bool" where
  "steady iter \<longleftrightarrow> (\<forall>k t dt m m'. startable m \<longrightarrow> iter k t dt m = Inr m' \<longrightarrow> same_setup m m' \<and> length (clients_of m') = length (clients_of m))"

lemma runIteration_steady: "steady (\<lambda>_. runIteration umf net cfg)"
  unfolding steady_def using iteration_setup by blast

text \<open>A turn is the last one or makes a step.\<close>

lemma turn_steps:
  assumes inv: "in_loop (sim_master s)" and steady: "steady iter" and turn: "sim_turn iter net cfg sc s = Inr (Again s')"
  shows "step s' = step s + 1 \<and> in_loop (sim_master s') \<and> zmqControl (base (sim_master s')) = zmqControl (base (sim_master s))"
proof -
  let ?m0 = "\<lambda>t. on_base (\<lambda>b. b\<lparr>t_now := t\<rparr>) (sim_master s)"
  obtain sup t m1 m2 s2 where 1: "on_base_res (handleZmqControl net) (?m0 t) = Inr m1" "running (base m1)"
    "paused (base m1) \<longrightarrow> s' = s\<lparr>suppress_output := sup, sim_master := m1\<rparr>"
    "\<not> paused (base m1) \<longrightarrow> csv_inputs sc t m1 = Inr m2 \<and> print_row net cfg sc t (s\<lparr>suppress_output := sup, sim_master := m2\<rparr>) = Inr s2
       \<and> (\<exists>m3. iter (step s2) t (timeStep sc) (sim_master s2) = Inr m3 \<and> s' = s2\<lparr>sim_master := m3, step := step s2 + 1\<rparr>)"
    using turn unfolding sim_turn_def Let_def by (fastforce split: if_splits)
  have 0: "in_loop (?m0 t)" using inv by (simp add: in_loop_def startable_def on_base_def)
  then have p: "\<not> paused (base m1)"
    using 1(1,2) handleZmqControl_running[of net "base (?m0 t)" "base m1"] by (auto simp: on_base_res_def in_loop_def)
  have a: "in_loop m1" by (rule in_loop_squiet[OF on_base_res_squiet[OF 1(1) handleZmqControl_quiet] 0])
  have c: "squiet m1 m2" using 1(4) p csv_inputs_squiet by blast
  have d: "squiet m2 (sim_master s2)" "step s2 = step s" using 1(4) p print_row_squiet by fastforce+
  have b: "in_loop (sim_master s2)" by (rule in_loop_squiet[OF squiet_trans[OF c d(1)] a])
  obtain m3 where i3: "iter (step s2) t (timeStep sc) (sim_master s2) = Inr m3" "s' = s2\<lparr>sim_master := m3, step := step s2 + 1\<rparr>"
    using 1(4) p by blast
  have m3: "same_setup (sim_master s2) m3" "length (clients_of m3) = length (clients_of (sim_master s2))"
    using steady i3(1) b by (auto simp: in_loop_def steady_def)
  have "squiet (?m0 t) (sim_master s2)"
    using squiet_trans[OF on_base_res_squiet[OF 1(1) handleZmqControl_quiet] squiet_trans[OF c d(1)]] .
  then have "same_setup (?m0 t) m3" using m3(1) squiet_setup same_setup_trans by blast
  then show ?thesis using i3(2) in_loop_setup[OF m3 b] d(2) by (simp add: same_setup_def same_flags_def on_base_def)
qed

lemma break_controlled:
  assumes inv: "in_loop (sim_master s)" and turn: "sim_turn iter net cfg sc s = Inr (Break s')"
  shows "zmqControl (base (sim_master s'))" "zmqControl (base (sim_master s))"
proof -
  obtain sup t m1 where 1: "on_base_res (handleZmqControl net) (on_base (\<lambda>b. b\<lparr>t_now := t\<rparr>) (sim_master s)) = Inr m1"
    "\<not> running (base m1)" "s' = s\<lparr>suppress_output := sup, sim_master := m1\<rparr>"
    using turn unfolding sim_turn_def Let_def by (fastforce split: if_splits)
  have "in_loop (on_base (\<lambda>b. b\<lparr>t_now := t\<rparr>) (sim_master s))" using inv by (simp add: in_loop_def startable_def on_base_def)
  from in_loop_squiet[OF on_base_res_squiet[OF 1(1) handleZmqControl_quiet] this] 1(2)
  show "zmqControl (base (sim_master s'))" by (simp add: 1(3) in_loop_def)
  with squiet_setup[OF on_base_res_squiet[OF 1(1) handleZmqControl_quiet]]
  show "zmqControl (base (sim_master s))" by (simp add: 1(3) same_setup_def same_flags_def on_base_def)
qed

lemma loop_ends:
  assumes "0 \<le> endTime sc" and steady: "steady iter"
  shows "in_loop (sim_master s) \<Longrightarrow> step s \<le> nsteps sc \<Longrightarrow> \<exists>r. sim_loop iter net cfg sc s = Some r
     \<and> (\<forall>s'. r = Inr s' \<longrightarrow> zmqControl (base (sim_master s')) = zmqControl (base (sim_master s))
          \<and> (step s' = nsteps sc \<or> zmqControl (base (sim_master s'))))"
proof (induction "nat (nsteps sc - step s)" arbitrary: s)
  case 0
  then have "\<not> sim_more sc s" using assms by (simp add: sim_more_def)
  then show ?case using 0 by (simp add: sim_loop.simps)
next
  case (Suc k)
  show ?case
  proof (cases "sim_more sc s")
    case False
    then show ?thesis using Suc.prems assms by (auto simp: sim_loop.simps sim_more_def in_loop_def)
  next
    case more: True
    consider (err) e where "sim_turn iter net cfg sc s = Inl e"
      | (break) s' where "sim_turn iter net cfg sc s = Inr (Break s')"
      | (again) s' where "sim_turn iter net cfg sc s = Inr (Again s')"
      by (metis turn.exhaust sum.exhaust)
    then show ?thesis
    proof cases
      case err
      then show ?thesis using more by (simp add: sim_loop.simps)
    next
      case break
      from break_controlled[OF Suc.prems(1) break] show ?thesis using more break by (simp add: sim_loop.simps)
    next
      case again
      from turn_steps[OF Suc.prems(1) steady again] have s': "step s' = step s + 1" "in_loop (sim_master s')"
        "zmqControl (base (sim_master s')) = zmqControl (base (sim_master s))" by auto
      have "sim_loop iter net cfg sc s = sim_loop iter net cfg sc s'"
        using more again by (subst sim_loop.simps) simp
      moreover have "k = nat (nsteps sc - step s')" "step s' \<le> nsteps sc" using Suc.hyps(2) s'(1) by auto
      ultimately show ?thesis using Suc.hyps(1)[of s'] s'(2,3) by metis
    qed
  qed
qed

lemma num_steps_nonneg: "num_steps E h = Inr N \<Longrightarrow> 0 \<le> N"
  by (auto simp: num_steps_def INT_MAX_def Let_def split: if_splits)

lemma run_ends:
  assumes "0 \<le> endTime sc" and "num_steps (endTime sc) (timeStep sc) = Inr N" and "startable m" and "startPaused \<Longrightarrow> zmqControl (base m)" and "steady iter"
  shows "\<exists>r. run_simulation iter net cfg sc maxSamples startPaused m = Some r
     \<and> (\<forall>s. r = Inr s \<longrightarrow> step s = N \<or> zmqControl (base m))"
proof -
  let ?sc = "sc\<lparr>nsteps := N, period := write_period maxSamples N\<rparr>"
  let ?s = "\<lparr>sim_master = start_running startPaused m, step = 0, suppress_output = False, rows = []\<rparr>"
  have "in_loop (sim_master ?s)" using assms(3,4) by (auto simp: in_loop_def startable_def start_running_def on_base_def)
  moreover have "zmqControl (base (sim_master ?s)) = zmqControl (base m)" by (simp add: start_running_def on_base_def)
  ultimately obtain r where r: "sim_loop iter net cfg ?sc ?s = Some r"
    "\<forall>s'. r = Inr s' \<longrightarrow> zmqControl (base (sim_master s')) = zmqControl (base m) \<and> (step s' = N \<or> zmqControl (base (sim_master s')))"
    using loop_ends[of ?sc iter ?s net cfg] assms(1,5) num_steps_nonneg[OF assms(2)] by auto
  then show ?thesis using assms(2) print_row_squiet
    by (fastforce simp: run_simulation_def Let_def last_row_def rbind_eq_Inr)
qed

text \<open>The main loop ends. With an end time, the loop of \<^verbatim>\<open>main\<close> over \<^verbatim>\<open>StrongMaster\<close> returns, whatever the transport, the
  control socket and the FMUs do (a call that blocks or fails is a result); without a control socket it makes all of its steps unless a call fails.\<close>

theorem simulation_terminates:
  assumes "0 \<le> endTime sc" and "num_steps (endTime sc) (timeStep sc) = Inr N" and "startable m" and "startPaused \<Longrightarrow> zmqControl (base m)"
  shows "\<exists>r. run_simulation (\<lambda>_. runIteration umf net cfg) net cfg sc maxSamples startPaused m = Some r
     \<and> (\<forall>s. r = Inr s \<longrightarrow> step s = N \<or> zmqControl (base m))"
  using run_ends[OF assms runIteration_steady] .

theorem simulation_terminates_witness:
  "\<exists>m r. new_simulation 2 (\<lambda>_. integrator) (\<lambda>_. (5, 2)) two_integrators two_in_order = Inr m
     \<and> run_simulation (\<lambda>_. runIteration (\<lambda>_ _ _. (0, \<lambda>_. 0)) (cluster_net quiet_env (\<lambda>_. integrator) (\<lambda>_. 0)) no_debug)
         (cluster_net quiet_env (\<lambda>_. integrator) (\<lambda>_. 0)) no_debug
         \<lparr>endTime = 3, timeStep = 1, nsteps = 0, period = 0, writes = True, matlab_output = False, csvParam = [], no_time = \<lambda>_. 0\<rparr> 0 False m = Some r
     \<and> (\<forall>s. r = Inr s \<longrightarrow> step s = 3)"
proof -
  obtain m where m: "new_simulation 2 (\<lambda>_. integrator) (\<lambda>_. (5, 2)) two_integrators two_in_order = Inr m"
    "good cluster_flight (cluster_alive (\<lambda>_. integrator)) 2 m"
    using new_simulation_good[of "\<lambda>_. integrator" 2 two_integrators two_in_order] integrator_obedient two_integrators_safe two_in_order_wf by blast
  let ?net = "cluster_net quiet_env (\<lambda>_. integrator) (\<lambda>_. 0)"
  let ?sc = "\<lparr>endTime = 3, timeStep = 1, nsteps = 0, period = 0, writes = True, matlab_output = False, csvParam = [], no_time = \<lambda>_. 0\<rparr>"
  have rs: "rends m = two_in_order" using m(1) by (auto simp: new_simulation_def new_StrongMaster_def add_connections_frame)
  have "startable m" "\<not> zmqControl (base m)" using m(2) good_length[OF m(2)]
    by (auto simp: startable_def good_def wired_def ready_def rs two_in_order_def)
  then show ?thesis using m(1) simulation_terminates[of ?sc 3 m False "\<lambda>_ _ _. (0, \<lambda>_. 0)" ?net no_debug 0]
    by (auto simp: num_steps_def c_round_def INT_MAX_def)
qed

end
