(* ===== verification/Sim_Cosim.thy ===== *)
theory Sim_Cosim
  imports Cosim Sim_Loop
begin

text \<open>
  The main loop on a cluster of FMU servers: the rows it writes are the outputs of the co-simulation at the
  announced times. This puts together the loop of \<^verbatim>\<open>main\<close>, \<^verbatim>\<open>printOutputs\<close>, the iterations of \<^verbatim>\<open>StrongMaster\<close> with
  its scheduler, the clients with their caches and queues, and the FMU servers.
\<close>

subsection \<open>Writing a row\<close>

text \<open>Outputs that are all reals.\<close>

definition real_outputs :: "variable list list \<Rightarrow> bool" where
  "real_outputs outs \<longleftrightarrow> (\<forall>vs\<in>set outs. \<forall>v\<in>set vs. vtype v = fmi2_base_type_real)"

definition output_row :: "(nat \<Rightarrow> ('f, 's) fmu) \<Rightarrow> variable list list \<Rightarrow> double \<Rightarrow> (nat \<Rightarrow> 'f) \<Rightarrow> row" where
  "output_row apis outs t \<sigma> =
     \<lparr>row_time = t, row_cells = concat (map (\<lambda>i. map (\<lambda>v. Out_real (real_output (apis i) (\<sigma> i) (vvr v))) (outs ! i)) [0..<length outs])\<rparr>"

lemma output_row_cong: "\<forall>i<length outs. \<sigma> i = \<tau> i \<Longrightarrow> output_row apis outs t \<sigma> = output_row apis outs t \<tau>"
  by (auto simp: output_row_def intro!: arg_cong[of _ _ concat] map_cong)

lemma output_refs_real:
  assumes "\<forall>v\<in>set (m_outputs c). vtype v = fmi2_base_type_real"
  shows "output_refs c fmi2_base_type_enum = None" "output_refs c fmi2_base_type_real = Some (map vvr (m_outputs c))"
proof -
  have "filter (\<lambda>v. vtype v = fmi2_base_type_enum) (m_outputs c) = []" using assms by (auto simp: filter_empty_conv)
  then show "output_refs c fmi2_base_type_enum = None" by (simp add: output_refs_def Let_def)
  have "filter (\<lambda>v. vtype v = fmi2_base_type_real) (m_outputs c) = m_outputs c" using assms by (simp add: filter_id_conv)
  then show "output_refs c fmi2_base_type_real = Some (map vvr (m_outputs c))" by (simp add: output_refs_def Let_def)
qed

lemma queue_outputs:
  assumes "\<forall>i < length (clients_of m). \<forall>v\<in>set (m_outputs (clients_of m ! i)). vtype v = fmi2_base_type_real"
  shows "k \<le> length (clients_of m) \<Longrightarrow>
     \<exists>cs'. rfold (queue_output cfg) [0..<k] m = Inr (m\<lparr>base := (base m)\<lparr>m_clients := cs'\<rparr>\<rparr>)
       \<and> length cs' = length (clients_of m) \<and> (\<forall>j\<ge>k. cs' ! j = clients_of m ! j)
       \<and> (\<forall>j<k. asks (clients_of m ! j) (cs' ! j) \<and> covers (DEBUG cfg) (output_refs (clients_of m ! j)) (cs' ! j))"
proof (induction k)
  case 0
  then show ?case by (intro exI[of _ "clients_of m"]) simp
next
  case (Suc k)
  then obtain cs1 where 1: "rfold (queue_output cfg) [0..<k] m = Inr (m\<lparr>base := (base m)\<lparr>m_clients := cs1\<rparr>\<rparr>)"
    "length cs1 = length (clients_of m)" "\<forall>j\<ge>k. cs1 ! j = clients_of m ! j"
    "\<forall>j<k. asks (clients_of m ! j) (cs1 ! j) \<and> covers (DEBUG cfg) (output_refs (clients_of m ! j)) (cs1 ! j)" by auto
  have "output_refs (clients_of m ! k) fmi2_base_type_enum = None"
    using output_refs_real(1) assms Suc_le_lessD[OF Suc.prems] by blast
  from queueX_total[of "output_refs (clients_of m ! k)" "DEBUG cfg" "cs1 ! k", OF this] obtain c' where
    c': "queueX (DEBUG cfg) (output_refs (clients_of m ! k)) (cs1 ! k) = Inr c'" "asks (cs1 ! k) c'" "covers (DEBUG cfg) (output_refs (clients_of m ! k)) c'" by blast
  have "queue_output cfg k (m\<lparr>base := (base m)\<lparr>m_clients := cs1\<rparr>\<rparr>) = Inr (m\<lparr>base := (base m)\<lparr>m_clients := cs1[k := c']\<rparr>\<rparr>)"
    using 1(3) c'(1) by (simp add: queue_output_def master_queueX_def on_base_res_def set_client_def)
  then show ?case using 1 c' Suc.prems
    by (intro exI[of _ "cs1[k := c']"]) (auto simp: rfold_append less_Suc_eq nth_list_update)
qed

text \<open>The cells, once the values have arrived.\<close>

lemma rmap_nth: "n = length xs \<Longrightarrow> rmap f xs = rmap (\<lambda>i. f (xs ! i)) [0..<n]"
proof (induction xs arbitrary: n)
  case (Cons x xs)
  have m: "rmap g (map h ys) = rmap (\<lambda>i. g (h i)) ys" for g h and ys :: "nat list" by (induction ys) simp_all
  have "[0..<n] = 0 # map Suc [0..<length xs]" using Cons.prems by (simp add: upt_conv_Cons map_Suc_upt del: upt_Suc)
  then show ?case using Cons.IH[OF refl] by (simp add: m)
qed simp

lemma client_cells_known:
  assumes "\<forall>v\<in>set (m_outputs c). vtype v = fmi2_base_type_real \<and> m_reals c (vvr v) = Some (f (vvr v))"
  shows "client_cells mat c = Inr (map (\<lambda>v. Out_real (f (vvr v))) (m_outputs c))"
proof -
  have "rmap (output_cell mat c) (m_outputs c) = Inr (map (\<lambda>v. [Out_real (f (vvr v))]) (m_outputs c))"
    by (rule rmap_pure) (use assms in \<open>simp add: output_cell_def getReal_def getReals_def getFoo_def\<close>)
  then show ?thesis by (simp add: client_cells_def)
qed

lemma print_cosim:
  assumes im: "implements apis n wcs rs cfg m" and pw: "\<forall>i. pointwise (apis i)"
    and fr: "frame m = (r, p, outs)" and ro: "real_outputs outs"
  shows "\<exists>m'. printOutputs (cluster_net env apis arrive) cfg mat t m = Inr (output_row apis outs t (instances apis m), m')
     \<and> implements apis n wcs rs cfg m' \<and> frame m' = frame m \<and> (\<forall>i<n. instances apis m' i = instances apis m i)"
proof -
  let ?net = "cluster_net env apis arrive" and ?\<sigma> = "instances apis m"
  have g: "good cluster_flight (cluster_alive apis) n m" using im by (simp add: implements_def)
  have n: "length (clients_of m) = n" using good_length[OF g] .
  have outs: "outs ! i = m_outputs (clients_of m ! i)" "\<forall>v\<in>set (m_outputs (clients_of m ! i)). vtype v = fmi2_base_type_real" if "i < n" for i
    using fr ro that n by (auto simp: frame_def real_outputs_def)
  have ln: "length outs = n" using fr n by (auto simp: frame_def)
  obtain cs1 where 1: "rfold (queue_output cfg) [0..<n] m = Inr (m\<lparr>base := (base m)\<lparr>m_clients := cs1\<rparr>\<rparr>)"
    "length cs1 = n" "\<forall>j<n. asks (clients_of m ! j) (cs1 ! j) \<and> covers (DEBUG cfg) (output_refs (clients_of m ! j)) (cs1 ! j)"
    using queue_outputs[of m n cfg] outs(2) n by auto
  let ?m1 = "m\<lparr>base := (base m)\<lparr>m_clients := cs1\<rparr>\<rparr>"
  have g1: "good cluster_flight (cluster_alive apis) n ?m1"
    using good_clients[OF g 1(2), of "m_refValues m"] g 1(3) by (auto simp: good_def asks_def)
  then have r1: "ready cluster_flight (cluster_alive apis) n (base ?m1)" and p1: "\<forall>i<n. plain (clients_of ?m1 ! i)" by (simp_all add: good_def)
  have \<sigma>1: "instances apis ?m1 i = ?\<sigma> i" if "i < n" for i using 1(3) that asks_same[of "clients_of m ! i" "cs1 ! i"] by (simp add: instance_of_def)
  from request_values_exact[OF r1 p1 pw, of env arrive cfg] obtain cs2 w k tr where
    2: "on_base_res (wait ?net cfg) (on_base queueValueRequests ?m1)
       = Inr (m\<lparr>base := (base m)\<lparr>m_clients := cs2, m_pendingRequests := 0, world := w, rendezvous := k, trace := tr\<rparr>\<rparr>)" "length cs2 = n"
    "\<forall>i<n. m_messageQueue (cs2 ! i) = [] \<and> m_id (cs2 ! i) = m_id (cs1 ! i) \<and> m_outputs (cs2 ! i) = m_outputs (cs1 ! i) \<and> m_fmi2Instance (servers w i) = ?\<sigma> i"
    "\<forall>i<n. m_reals (cs2 ! i) = store_values (m_outgoing_reals (cs1 ! i)) (map (real_output (apis i) (?\<sigma> i)) (m_outgoing_reals (cs1 ! i))) (m_reals (cs1 ! i))"
    using \<sigma>1 by auto
  let ?m2 = "m\<lparr>base := (base m)\<lparr>m_clients := cs2, m_pendingRequests := 0, world := w, rendezvous := k, trace := tr\<rparr>\<rparr>"
  have "ready cluster_flight (cluster_alive apis) n (base ?m2)"
    using cl.request_values[OF r1 p1, of env arrive cfg] 2(1) by (auto dest!: arg_cong[of _ _ base])
  moreover have "map m_id cs2 = map int [0..<n]"
    using 2(2,3) 1(3) ids_nth[of "clients_of m" n] g by (auto intro!: nth_equalityI simp: good_def asks_def)
  moreover have "\<forall>i<n. plain (cs2 ! i)" using 2(3) by (simp add: plain_def)
  ultimately have g2: "good cluster_flight (cluster_alive apis) n ?m2" using g by (simp add: good_def wired_def refs_queueable_def simple_aligned_def)
  have o2: "m_outputs (cs2 ! i) = outs ! i" if "i < n" for i using 2(3) 1(3) that outs(1) by (simp add: asks_def)
  have reals2: "m_reals (cs2 ! i) vr = (if vr \<in> set (m_outgoing_reals (cs1 ! i)) then Some (real_output (apis i) (?\<sigma> i) vr) else m_reals (cs1 ! i) vr)"
    if "i < n" for i vr using 2(4) that by (simp add: store_values_map)
  have known: "m_reals (cs2 ! i) vr = Some x \<Longrightarrow> DEBUG cfg \<or> vr \<in> set (m_outgoing_reals (cs1 ! i)) \<Longrightarrow> x = real_output (apis i) (?\<sigma> i) vr"
    if "i < n" for i vr x
    using reals2[OF that, of vr] 1(3) that im by (auto simp: asks_def implements_def cache_ok_def split: if_splits)
  have cell: "m_reals (cs2 ! i) (vvr v) = Some (real_output (apis i) (?\<sigma> i) (vvr v))" if i: "i < n" and v: "v \<in> set (outs ! i)" for i v
  proof -
    have "covers (DEBUG cfg) (output_refs (clients_of m ! i)) (cs1 ! i)" using 1(3) i by blast
    from this[unfolded covers_def, rule_format, OF output_refs_real(2)[OF outs(2)[OF i]]] v
    have "vvr v \<in> (if DEBUG cfg then dom (m_reals (cs1 ! i)) else {}) \<union> set (m_outgoing_reals (cs1 ! i))"
      by (auto simp: outs(1)[OF i, symmetric])
    then obtain x where "m_reals (cs2 ! i) (vvr v) = Some x" using reals2[OF i, of "vvr v"] by (auto split: if_splits)
    moreover from this \<open>vvr v \<in> _ \<union> _\<close> have "x = real_output (apis i) (?\<sigma> i) (vvr v)" by (intro known[OF i]) (auto split: if_splits)
    ultimately show ?thesis by simp
  qed
  have ro': "\<forall>v\<in>set (outs ! i). vtype v = fmi2_base_type_real" if "i < n" for i using outs that by simp
  have cells: "client_cells mat (cs2 ! i) = Inr (map (\<lambda>v. Out_real (real_output (apis i) (?\<sigma> i) (vvr v))) (outs ! i))" if i: "i < n" for i
  proof -
    have "\<forall>v\<in>set (m_outputs (cs2 ! i)). vtype v = fmi2_base_type_real \<and> m_reals (cs2 ! i) (vvr v) = Some (real_output (apis i) (?\<sigma> i) (vvr v))"
      unfolding o2[OF i] using cell[OF i] ro'[OF i] by blast
    from client_cells_known[of "cs2 ! i" "real_output (apis i) (?\<sigma> i)" mat, OF this] show ?thesis unfolding o2[OF i] .
  qed
  have "rmap (client_cells mat) cs2 = rmap (\<lambda>i. client_cells mat (cs2 ! i)) [0..<n]" by (rule rmap_nth) (rule 2(2)[symmetric])
  also have "\<dots> = Inr (map (\<lambda>i. map (\<lambda>v. Out_real (real_output (apis i) (?\<sigma> i) (vvr v))) (outs ! i)) [0..<n])"
    by (rule rmap_pure) (use cells in simp)
  finally have row: "printOutputs ?net cfg mat t m = Inr (output_row apis outs t ?\<sigma>, ?m2)"
    using 1(1) 2(1) by (simp add: printOutputs_def n output_row_def ln)
  have "\<forall>i<n. instances apis ?m2 i = ?\<sigma> i" using 2(3) by (simp add: instance_of_def)
  moreover have "frame ?m2 = frame m" by (rule frame_clients[of cs2]) (use 2(2) o2 outs(1) n in simp_all)
  moreover have "cache_ok apis n (instances apis ?m2) cs2" if "DEBUG cfg"
    using known that 2(3) by (simp add: cache_ok_def instance_of_def)
  ultimately show ?thesis using row g2 im by (intro exI[of _ ?m2]) (simp add: implements_def)
qed

subsection \<open>A turn of the loop\<close>

lemma implements_time [simp]:
  "implements apis n wcs rs cfg (on_base (\<lambda>b. b\<lparr>t_now := t\<rparr>) m) = implements apis n wcs rs cfg m"
  "instances apis (on_base (\<lambda>b. b\<lparr>t_now := t\<rparr>) m) = instances apis m" "frame (on_base (\<lambda>b. b\<lparr>t_now := t\<rparr>) m) = frame m"
  by (simp_all add: implements_def good_def ready_def on_base_def instance_of_def fun_eq_iff frame_def)

lemma implements_no_control: "implements apis n wcs rs cfg m \<Longrightarrow> \<not> zmqControl (base m)"
  by (simp add: implements_def good_def ready_def)

lemma good_flags:
  "good flight alive n (m\<lparr>base := (base m)\<lparr>m_clients := cs\<rparr>\<rparr>) \<Longrightarrow>
     good flight alive n (m\<lparr>base := (base m)\<lparr>m_clients := cs, initing := a, running := b, paused := c\<rparr>\<rparr>)"
  by (simp add: good_def ready_def)

lemma start_implements:
  assumes im: "implements apis n wcs rs cfg m"
  shows "implements apis n wcs rs cfg (start_running False m)" "instances apis (start_running False m) i = instances apis m i \<or> \<not> i < n"
    "frame (start_running False m) = (True, False, map m_outputs (clients_of m))"
proof -
  let ?cs = "map (\<lambda>c. c\<lparr>m_fmuState := fmu_running\<rparr>) (clients_of m)"
  have g: "good cluster_flight (cluster_alive apis) n m" using im by (simp add: implements_def)
  have n: "length (clients_of m) = n" using good_length[OF g] .
  have "good cluster_flight (cluster_alive apis) n (m\<lparr>base := (base m)\<lparr>m_clients := ?cs\<rparr>, m_refValues := m_refValues m\<rparr>)"
    by (rule good_clients[OF g]) (use g n in \<open>simp_all add: good_def\<close>)
  then have "good cluster_flight (cluster_alive apis) n (start_running False m)"
    unfolding start_running_def on_base_def by (auto dest: good_flags)
  moreover have inst: "instances apis (start_running False m) i = instances apis m i" if "i < n" for i
    using that n by (simp add: instance_of_def start_running_def on_base_def)
  ultimately show "implements apis n wcs rs cfg (start_running False m)"
    using im n by (simp add: implements_def cache_ok_def) (simp add: start_running_def on_base_def)
  show "instances apis (start_running False m) i = instances apis m i \<or> \<not> i < n" using inst by blast
  show "frame (start_running False m) = (True, False, map m_outputs (clients_of m))"
    by (simp add: frame_def start_running_def on_base_def comp_def)
qed

definition plain_loop :: "sim_config \<Rightarrow> bool" where
  "plain_loop sc \<longleftrightarrow> writes sc \<and> csvParam sc = [] \<and> nsteps sc > 0 \<and> period sc > 0 \<and> endTime sc \<ge> 0"

definition at_step :: "sim_config \<Rightarrow> int \<Rightarrow> double" where
  "at_step sc k = real_of_int k * endTime sc / real_of_int (nsteps sc)"

definition row_at :: "(nat \<Rightarrow> ('f, 's) fmu) \<Rightarrow> variable list list \<Rightarrow> sim_config \<Rightarrow> int \<Rightarrow> (nat \<Rightarrow> 'f) \<Rightarrow> row list" where
  "row_at apis outs sc k \<sigma> = (if k mod period sc = 0 then [output_row apis outs (at_step sc k) \<sigma>] else [])"

lemma cosim_turn:
  assumes im: "implements apis n wcs rs cfg (sim_master s)" and fr: "frame (sim_master s) = (True, False, outs)" and ro: "real_outputs outs"
    and set: "cosim_setting apis n wcs" and sc: "plain_loop sc"
  shows "\<exists>s' bs. sim_turn (\<lambda>_. runIteration umf (cluster_net env apis arrive) cfg) (cluster_net env apis arrive) cfg sc s = Inr (Again s')
     \<and> implements apis n wcs rs cfg (sim_master s') \<and> frame (sim_master s') = (True, False, outs) \<and> step s' = step s + 1
     \<and> suppress_output s' = (step s mod period sc \<noteq> 0) \<and> rows s' = rows s @ row_at apis outs sc (step s) (instances apis (sim_master s))
     \<and> hist_ok rs bs {0..<int n}
     \<and> (\<forall>i<n. instances apis (sim_master s') i = fold (cosim_batch apis wcs (at_step sc (step s)) (timeStep sc)) bs (instances apis (sim_master s)) i)"
proof -
  let ?net = "cluster_net env apis arrive" and ?t = "at_step sc (step s)" and ?sup = "step s mod period sc \<noteq> 0"
  let ?m0 = "on_base (\<lambda>b. b\<lparr>t_now := ?t\<rparr>) (sim_master s)"
  let ?s0 = "s\<lparr>suppress_output := ?sup, sim_master := ?m0\<rparr>"
  have pw: "\<forall>i. pointwise (apis i)" and rng: "in_range n wcs" using set by (simp_all add: cosim_setting_def)
  have run: "running (base ?m0)" "\<not> paused (base ?m0)" using fr by (simp_all add: frame_def on_base_def)
  have ctrl: "on_base_res (handleZmqControl ?net) ?m0 = Inr ?m0"
    using implements_no_control[OF im] by (simp add: on_base_res_def handleZmqControl_def on_base_def)
  have im0: "implements apis n wcs rs cfg ?m0" and fr0: "frame ?m0 = (True, False, outs)" using im fr by simp_all
  have "\<exists>s1. print_row ?net cfg sc ?t ?s0 = Inr s1 \<and> implements apis n wcs rs cfg (sim_master s1) \<and> frame (sim_master s1) = (True, False, outs)
     \<and> step s1 = step s \<and> suppress_output s1 = ?sup \<and> rows s1 = rows s @ row_at apis outs sc (step s) (instances apis (sim_master s))
     \<and> (\<forall>i<n. instances apis (sim_master s1) i = instances apis (sim_master s) i)"
  proof (cases ?sup)
    case True
    then show ?thesis using im0 fr0 by (simp add: print_row_def row_at_def)
  next
    case False
    obtain m1 where m1: "printOutputs ?net cfg (matlab_output sc) ?t ?m0 = Inr (output_row apis outs ?t (instances apis (sim_master s)), m1)"
      "implements apis n wcs rs cfg m1" "frame m1 = (True, False, outs)" "\<forall>i<n. instances apis m1 i = instances apis (sim_master s) i"
      using print_cosim[OF im0 pw fr0 ro, of env arrive "matlab_output sc" ?t] unfolding fr0 implements_time(2) by blast
    then show ?thesis using False sc
      by (intro exI[of _ "?s0\<lparr>sim_master := m1, rows := rows s @ [output_row apis outs ?t (instances apis (sim_master s))]\<rparr>"])
         (simp add: print_row_def row_at_def plain_loop_def)
  qed
  then obtain s1 where s1: "print_row ?net cfg sc ?t ?s0 = Inr s1" "implements apis n wcs rs cfg (sim_master s1)" "frame (sim_master s1) = (True, False, outs)"
     "step s1 = step s" "suppress_output s1 = ?sup" "rows s1 = rows s @ row_at apis outs sc (step s) (instances apis (sim_master s))"
     "\<forall>i<n. instances apis (sim_master s1) i = instances apis (sim_master s) i" by (elim exE conjE) (rule that; assumption)
  obtain m2 bs where m2: "runIteration umf ?net cfg ?t (timeStep sc) (sim_master s1) = Inr m2" "implements apis n wcs rs cfg m2"
    "frame m2 = frame (sim_master s1)" "hist_ok rs bs {0..<int n}"
    "\<forall>i<n. instances apis m2 i = fold (cosim_batch apis wcs ?t (timeStep sc)) bs (instances apis (sim_master s1)) i"
    using iteration_cosim[OF s1(2) set, of umf env arrive ?t "timeStep sc"] by (elim exE conjE) (rule that; assumption)
  have "sim_turn (\<lambda>_. runIteration umf ?net cfg) ?net cfg sc s = Inr (Again (s1\<lparr>sim_master := m2, step := step s + 1\<rparr>))"
    using sc ctrl run s1(1,4) m2(1)
    by (simp add: sim_turn_def suppressed_def turn_time_def step_time_def plain_loop_def at_step_def Let_def csv_inputs_def)
  then show ?thesis using m2 s1(3,5,6) cosim_batches_cong[OF rng s1(7), of apis ?t "timeStep sc" bs]
    by (intro exI[of _ "s1\<lparr>sim_master := m2, step := step s + 1\<rparr>"] exI[of _ bs]) simp
qed

subsection \<open>The loop\<close>

text \<open>The reference: the rows and the final states of a simulation, given the batches of each iteration.\<close>

fun cosim_sim ::
  "(nat \<Rightarrow> ('f, 's) fmu) \<Rightarrow> WeakConnection list \<Rightarrow> variable list list \<Rightarrow> sim_config \<Rightarrow> int \<Rightarrow> int list list list \<Rightarrow> (nat \<Rightarrow> 'f)
     \<Rightarrow> row list \<times> (nat \<Rightarrow> 'f)" where
  "cosim_sim apis wcs outs sc k [] \<sigma> = ([], \<sigma>)"
| "cosim_sim apis wcs outs sc k (bs # bss) \<sigma> =
     (let (rs, \<tau>) = cosim_sim apis wcs outs sc (k + 1) bss (fold (cosim_batch apis wcs (at_step sc k) (timeStep sc)) bs \<sigma>)
      in (row_at apis outs sc k \<sigma> @ rs, \<tau>))"

lemma cosim_sim_cong:
  assumes "in_range (length outs) wcs"
  shows "\<forall>i<length outs. \<sigma> i = \<tau> i \<Longrightarrow> fst (cosim_sim apis wcs outs sc k bss \<sigma>) = fst (cosim_sim apis wcs outs sc k bss \<tau>)
     \<and> (\<forall>i<length outs. snd (cosim_sim apis wcs outs sc k bss \<sigma>) i = snd (cosim_sim apis wcs outs sc k bss \<tau>) i)"
proof (induction bss arbitrary: k \<sigma> \<tau>)
  case (Cons bs bss)
  have "row_at apis outs sc k \<sigma> = row_at apis outs sc k \<tau>" using output_row_cong[OF Cons.prems, of apis "at_step sc k"] by (simp add: row_at_def)
  with Cons.IH[OF cosim_batches_cong[OF assms Cons.prems], of "k + 1" apis "at_step sc k" "timeStep sc" bs]
  show ?case by (simp add: split_beta)
qed simp

lemma cosim_loop:
  assumes ro: "real_outputs outs" and set: "cosim_setting apis n wcs" and sc: "plain_loop sc" and n: "length outs = n"
  shows "implements apis n wcs rs cfg (sim_master s) \<Longrightarrow> frame (sim_master s) = (True, False, outs) \<Longrightarrow> step s \<le> nsteps sc
     \<Longrightarrow> step s = nsteps sc \<longrightarrow> suppress_output s = ((nsteps sc - 1) mod period sc \<noteq> 0)
     \<Longrightarrow> \<exists>s' bss. sim_loop (\<lambda>_. runIteration umf (cluster_net env apis arrive) cfg) (cluster_net env apis arrive) cfg sc s = Some (Inr s')
       \<and> implements apis n wcs rs cfg (sim_master s') \<and> frame (sim_master s') = (True, False, outs)
       \<and> length bss = nat (nsteps sc - step s) \<and> (\<forall>bs\<in>set bss. hist_ok rs bs {0..<int n})
       \<and> suppress_output s' = ((nsteps sc - 1) mod period sc \<noteq> 0)
       \<and> rows s' = rows s @ fst (cosim_sim apis wcs outs sc (step s) bss (instances apis (sim_master s)))
       \<and> (\<forall>i<n. instances apis (sim_master s') i = snd (cosim_sim apis wcs outs sc (step s) bss (instances apis (sim_master s))) i)"
proof (induction "nat (nsteps sc - step s)" arbitrary: s)
  case 0
  then have "step s = nsteps sc" by simp
  moreover from this have "\<not> sim_more sc s" using sc by (simp add: sim_more_def plain_loop_def)
  ultimately show ?case using 0 by (intro exI[of _ s] exI[of _ "[]"]) (simp add: sim_loop.simps)
next
  case (Suc k)
  let ?net = "cluster_net env apis arrive" and ?\<sigma> = "instances apis (sim_master s)"
  have "running (base (sim_master s))" using Suc.prems(2) by (simp add: frame_def)
  moreover have "step s < nsteps sc" using Suc.hyps(2) by linarith
  ultimately have more: "sim_more sc s" by (simp add: sim_more_def)
  from cosim_turn[OF Suc.prems(1,2) ro set sc, of umf env arrive] obtain s1 bs where
    1: "sim_turn (\<lambda>_. runIteration umf ?net cfg) ?net cfg sc s = Inr (Again s1)" "implements apis n wcs rs cfg (sim_master s1)"
    "frame (sim_master s1) = (True, False, outs)" "step s1 = step s + 1" "suppress_output s1 = (step s mod period sc \<noteq> 0)"
    "rows s1 = rows s @ row_at apis outs sc (step s) ?\<sigma>" "hist_ok rs bs {0..<int n}"
    "\<forall>i<n. instances apis (sim_master s1) i = fold (cosim_batch apis wcs (at_step sc (step s)) (timeStep sc)) bs ?\<sigma> i"
    by (elim exE conjE) (rule that; assumption)
  have left: "k = nat (nsteps sc - step s1)" "step s1 \<le> nsteps sc" using Suc.hyps(2) 1(4) by auto
  have last: "step s1 = nsteps sc \<longrightarrow> suppress_output s1 = ((nsteps sc - 1) mod period sc \<noteq> 0)"
  proof
    assume "step s1 = nsteps sc"
    then have "nsteps sc - 1 = step s" using 1(4) by simp
    then show "suppress_output s1 = ((nsteps sc - 1) mod period sc \<noteq> 0)" using 1(5) by simp
  qed
  obtain s' bss where 2: "sim_loop (\<lambda>_. runIteration umf ?net cfg) ?net cfg sc s1 = Some (Inr s')" "implements apis n wcs rs cfg (sim_master s')"
    "frame (sim_master s') = (True, False, outs)" "length bss = nat (nsteps sc - step s1)" "\<forall>bs\<in>set bss. hist_ok rs bs {0..<int n}"
    "suppress_output s' = ((nsteps sc - 1) mod period sc \<noteq> 0)"
    "rows s' = rows s1 @ fst (cosim_sim apis wcs outs sc (step s1) bss (instances apis (sim_master s1)))"
    "\<forall>i<n. instances apis (sim_master s') i = snd (cosim_sim apis wcs outs sc (step s1) bss (instances apis (sim_master s1))) i"
    using Suc.hyps(1)[OF left(1) 1(2,3) left(2) last] by (elim exE conjE) (rule that; assumption)
  have loop: "sim_loop (\<lambda>_. runIteration umf ?net cfg) ?net cfg sc s = Some (Inr s')"
    using more 1(1) 2(1) by (subst sim_loop.simps) simp
  have rng: "in_range (length outs) wcs" using set n by (simp add: cosim_setting_def)
  let ?\<tau> = "fold (cosim_batch apis wcs (at_step sc (step s)) (timeStep sc)) bs ?\<sigma>"
  have c: "fst (cosim_sim apis wcs outs sc (step s1) bss (instances apis (sim_master s1))) = fst (cosim_sim apis wcs outs sc (step s1) bss ?\<tau>)"
    "\<forall>i<n. snd (cosim_sim apis wcs outs sc (step s1) bss (instances apis (sim_master s1))) i = snd (cosim_sim apis wcs outs sc (step s1) bss ?\<tau>) i"
    using cosim_sim_cong[OF rng, of "instances apis (sim_master s1)" ?\<tau> apis sc "step s1" bss] 1(8) n by auto
  have "rows s' = rows s @ fst (cosim_sim apis wcs outs sc (step s) (bs # bss) ?\<sigma>)"
    using 2(7) 1(6) c(1) by (simp add: split_beta 1(4))
  moreover have "\<forall>i<n. instances apis (sim_master s') i = snd (cosim_sim apis wcs outs sc (step s) (bs # bss) ?\<sigma>) i"
    using 2(8) c(2) by (simp add: split_beta 1(4))
  moreover have "length (bs # bss) = nat (nsteps sc - step s)" using 2(4) left(1) Suc.hyps(2) by simp
  ultimately show ?case using loop 2(2,3,5,6) 1(7) by (intro exI[of _ s'] exI[of _ "bs # bss"]) simp
qed

subsection \<open>A simulation\<close>

lemma write_period_pos: "0 < N \<Longrightarrow> 0 < write_period maxSamples N"
  by (simp add: write_period_def)

text \<open>The clients know the outputs of their FMUs from the model descriptions.\<close>

definition described_simulation ::
  "nat \<Rightarrow> (nat \<Rightarrow> ('f, 's) fmu) \<Rightarrow> (nat \<Rightarrow> 'f) \<Rightarrow> variable list list \<Rightarrow> WeakConnection list \<Rightarrow> Rend list \<Rightarrow> ('f, 's) cluster smaster res" where
  "described_simulation n apis inst outs wcs rs =
     new_StrongMaster (new_master (map (\<lambda>i. setVariables (outs ! i) (outs ! i) (new_client (int i))) [0..<n]) wcs (new_cluster apis inst))
       None ([], []) False rs (\<lambda>_. False)"

text \<open>C1: what FmiGo writes. The main loop on a cluster of FMU servers with plain connections of reals returns, and the rows
  it has written are those of a co-simulation from the initial states: at every announced time that is to be written, the
  outputs of all FMUs in their states before the iteration, and after the last step the outputs at the end time. In each iteration every FMU makes one step, in
  an order allowed by the rends.\<close>

theorem rows_are_cosimulation:
  assumes "\<forall>i. obedient (apis i) \<and> pointwise (apis i)" and "\<forall>wc\<in>set wcs. is_simple wc" and "in_range n wcs"
    and "wf_rends n rs" and "topo_rends rs" and "length outs = n" and "real_outputs outs"
    and "num_steps (endTime sc) (timeStep sc) = Inr N" and "0 < N" and "0 \<le> endTime sc" and "writes sc" and "csvParam sc = []"
  shows "\<exists>m s bss. described_simulation n apis inst outs wcs rs = Inr m
     \<and> run_simulation (\<lambda>_. runIteration umf (cluster_net env apis arrive) cfg) (cluster_net env apis arrive) cfg sc maxSamples False m = Some (Inr s)
     \<and> length bss = nat N \<and> (\<forall>bs\<in>set bss. hist_ok rs bs {0..<int n})
     \<and> rows s = (let sc = sc\<lparr>nsteps := N, period := write_period maxSamples N\<rparr>; (rs, \<sigma>) = cosim_sim apis wcs outs sc 0 bss inst
                 in rs @ (if (N - 1) mod period sc = 0 then [output_row apis outs (endTime sc) \<sigma>] else []))"
proof -
  let ?net = "cluster_net env apis arrive" and ?sc = "sc\<lparr>nsteps := N, period := write_period maxSamples N\<rparr>"
  let ?cs = "map (\<lambda>i. setVariables (outs ! i) (outs ! i) (new_client (int i))) [0..<n]"
  have set: "cosim_setting apis n wcs" and ob: "\<forall>i. obedient (apis i)" and pw: "\<forall>i. pointwise (apis i)"
    using assms(1,3) by (simp_all add: cosim_setting_def)
  have rng: "in_range (length outs) wcs" using assms(3,6) by simp
  have "\<forall>i<n. m_id (?cs ! i) = int i \<and> m_messageQueue (?cs ! i) = [] \<and> m_reals (?cs ! i) = Map.empty" by (simp add: setVariables_def new_client_def)
  from new_master_implements[OF ob assms(2-5) _ this, of inst cfg] obtain m where m: "described_simulation n apis inst outs wcs rs = Inr m"
    "implements apis n wcs rs cfg m" "\<forall>i<n. instances apis m i = inst i" "base m = new_master ?cs wcs (new_cluster apis inst)"
    by (auto simp: described_simulation_def)
  let ?s0 = "\<lparr>sim_master = start_running False m, step = 0, suppress_output = False, rows = []\<rparr>"
  have "map m_outputs (clients_of m) = outs" using assms(6) by (auto simp: m(4) new_master_def setVariables_def new_client_def intro: nth_equalityI)
  then have s0: "implements apis n wcs rs cfg (sim_master ?s0)" "frame (sim_master ?s0) = (True, False, outs)"
    using start_implements(1,3)[OF m(2)] by simp_all
  have i0: "\<forall>i<length outs. instances apis (start_running False m) i = inst i" 
  proof (intro allI impI)
    show "instances apis (start_running False m) i = inst i" if "i < length outs" for i
      using start_implements(2)[OF m(2), of i] m(3) assms(6) that by auto
  qed
  have st: "step ?s0 \<le> nsteps ?sc" "step ?s0 = nsteps ?sc \<longrightarrow> suppress_output ?s0 = ((nsteps ?sc - 1) mod period ?sc \<noteq> 0)"
    using assms(9) by simp_all
  have pl: "plain_loop ?sc" using assms(9-12) write_period_pos[OF assms(9)] by (simp add: plain_loop_def)
  obtain s bss where 1: "sim_loop (\<lambda>_. runIteration umf ?net cfg) ?net cfg ?sc ?s0 = Some (Inr s)" "implements apis n wcs rs cfg (sim_master s)"
    "frame (sim_master s) = (True, False, outs)" "length bss = nat N" "\<forall>bs\<in>set bss. hist_ok rs bs {0..<int n}"
    "suppress_output s = ((N - 1) mod period ?sc \<noteq> 0)"
    "rows s = fst (cosim_sim apis wcs outs ?sc 0 bss (instances apis (start_running False m)))"
    "\<forall>i<n. instances apis (sim_master s) i = snd (cosim_sim apis wcs outs ?sc 0 bss (instances apis (start_running False m))) i"
    using cosim_loop[OF assms(7) set pl assms(6) s0 st, of umf env arrive] by (elim exE conjE) (rule that; simp)
  let ?r = "cosim_sim apis wcs outs ?sc 0 bss inst"
  have c: "rows s = fst ?r" "\<forall>i<length outs. instances apis (sim_master s) i = snd ?r i"
    using cosim_sim_cong[OF rng i0, of apis ?sc 0 bss] 1(7,8) assms(6) by auto
  have "\<exists>s'. last_row ?net cfg ?sc s = Inr s'
     \<and> rows s' = fst ?r @ (if (N - 1) mod period ?sc = 0 then [output_row apis outs (endTime sc) (snd ?r)] else [])"
  proof (cases "suppress_output s")
    case True
    then show ?thesis using 1(6) c(1) by (simp add: last_row_def print_row_def)
  next
    case False
    then show ?thesis using print_cosim[OF 1(2) pw 1(3) assms(7), of env arrive "matlab_output sc" "endTime sc"] assms(11) 1(6) c(1)
        output_row_cong[OF c(2), of apis "endTime sc"] by (auto simp: last_row_def print_row_def)
  qed
  then obtain s' where s': "last_row ?net cfg ?sc s = Inr s'"
    "rows s' = fst ?r @ (if (N - 1) mod period ?sc = 0 then [output_row apis outs (endTime sc) (snd ?r)] else [])" by blast
  have "run_simulation (\<lambda>_. runIteration umf ?net cfg) ?net cfg sc maxSamples False m = Some (Inr s')"
    using 1(1) s'(1) assms(8) by (simp add: run_simulation_def)
  then show ?thesis using m(1) 1(4,5) s'(2) by (intro exI[of _ m] exI[of _ s'] exI[of _ bss]) (simp add: split_beta Let_def)
qed

text \<open>The two coupled integrators for one step from the positions 5 and 7: two rows.\<close>

definition position :: variable where
  "position = \<lparr>vvr = 0, vtype = fmi2_base_type_real, vcausality = causality_output, vinitial = initial_calculated, vname = ''x''\<rparr>"

definition one_step :: sim_config where
  "one_step = \<lparr>endTime = 1, timeStep = 1, nsteps = 0, period = 0, writes = True, matlab_output = False, csvParam = [], no_time = \<lambda>_. 0\<rparr>"

theorem rows_are_cosimulation_witness:
  "\<exists>m s. described_simulation 2 (\<lambda>_. integrator) (\<lambda>i. if i = 0 then (5, 0) else (7, 0)) [[position], [position]] coupled_integrators two_in_order = Inr m
     \<and> run_simulation (\<lambda>_. runIteration (\<lambda>_ _ _. (0, \<lambda>_. 0)) (cluster_net quiet_env (\<lambda>_. integrator) (\<lambda>_. 0)) no_debug)
         (cluster_net quiet_env (\<lambda>_. integrator) (\<lambda>_. 0)) no_debug one_step 0 False m = Some (Inr s)
     \<and> rows s = [\<lparr>row_time = 0, row_cells = [Out_real 5, Out_real 7]\<rparr>, \<lparr>row_time = 1, row_cells = [Out_real 12, Out_real 19]\<rparr>]"
proof -
  let ?inst = "\<lambda>i::nat. if i = 0 then (5, 0) else (7, 0) :: double \<times> double" and ?run = "cosim_batch (\<lambda>_. integrator) coupled_integrators 0 1"
  let ?net = "cluster_net quiet_env (\<lambda>_. integrator) (\<lambda>_. 0)"
  have ob: "\<forall>i::nat. obedient integrator \<and> pointwise integrator" using integrator_obedient integrator_pointwise by blast
  have wc: "\<forall>wc\<in>set coupled_integrators. is_simple wc" "in_range 2 coupled_integrators" by (simp_all add: coupled_integrators_def is_simple_def in_range_def)
  have outs: "length [[position], [position]] = 2" "real_outputs [[position], [position]]" by (simp_all add: real_outputs_def position_def)
  have N: "num_steps (endTime one_step) (timeStep one_step) = Inr 1" by (simp add: one_step_def num_steps_def c_round_def INT_MAX_def)
  have sc: "(0::int) < 1" "0 \<le> endTime one_step" "writes one_step" "csvParam one_step = []" by (simp_all add: one_step_def)
  from rows_are_cosimulation[of "\<lambda>_. integrator", OF ob wc two_in_order_wf outs N sc, of ?inst "\<lambda>_ _ _. (0, \<lambda>_. 0)" quiet_env "\<lambda>_. 0" no_debug 0]
  obtain m s bss where 1: "described_simulation 2 (\<lambda>_. integrator) ?inst [[position], [position]] coupled_integrators two_in_order = Inr m"
    "run_simulation (\<lambda>_. runIteration (\<lambda>_ _ _. (0, \<lambda>_. 0)) ?net no_debug) ?net no_debug one_step 0 False m = Some (Inr s)"
    "length bss = nat 1" "\<forall>bs\<in>set bss. hist_ok two_in_order bs {0..<int 2}"
    "rows s = (let sc = one_step\<lparr>nsteps := 1, period := write_period 0 1\<rparr>; (rs, \<sigma>) = cosim_sim (\<lambda>_. integrator) coupled_integrators [[position], [position]] sc 0 bss ?inst
       in rs @ (if (1 - 1) mod period sc = 0 then [output_row (\<lambda>_. integrator) [[position], [position]] (endTime sc) \<sigma>] else []))"
    by (elim exE conjE) (rule that; assumption)
  obtain bs where bs: "bss = [bs]" using 1(3) by (cases bss) auto
  have "fold ?run bs ?inst = ?run [1] (?run [0] ?inst)" using two_in_order_batches[of bs] 1(4) bs by simp
  moreover have "?run [1] (?run [0] ?inst) 0 = (12, 7)" "?run [1] (?run [0] ?inst) (Suc 0) = (19, 12)"
    by (simp_all add: cosim_batch_def cosim_step_def Let_def input_values_def inputs_of_def coupled_integrators_def real_output_def integrator_def)
  ultimately have "rows s = [\<lparr>row_time = 0, row_cells = [Out_real 5, Out_real 7]\<rparr>, \<lparr>row_time = 1, row_cells = [Out_real 12, Out_real 19]\<rparr>]"
    using 1(5) by (simp add: bs one_step_def write_period_def row_at_def at_step_def output_row_def position_def real_output_def integrator_def)
  then show ?thesis using 1(1,2) by (intro exI[of _ m] exI[of _ s] conjI) assumption+
qed

end
