(* ===== verification/Fmu_Template.thy ===== *)
theory Fmu_Template
  imports Messages
begin

text \<open>
  The implementation of the FMI interface which the FMUs of the repository are built from
  (tools/fmi2template/fmuTemplate.h and fmuTemplate_impl.h): the states of an instance, which calls each of them allows, and what
  the calls do. What the includer of the template defines is a parameter (\<open>includer\<close>); the two ways the template is compiled, with arrays of
  variables and with a generated structure, are the two constructors of \<open>model_data\<close>. A pointer that may be \<^verbatim>\<open>NULL\<close> is an
  option; for an array it stands for \<^verbatim>\<open>NULL\<close> with a positive number of elements. The messages to the logger are left out, and so
  is a simulation object beside the structure (\<^verbatim>\<open>SIMULATION_TYPE\<close>).
\<close>

unbundle bit_operations_syntax

subsection \<open>State\<close>

datatype ModelState = modelInstantiated | modelInitializationMode | modelInitialized | modelStepping
  | modelTerminated | modelError | modelEventMode | modelContinuousTimeMode

fun state_flag :: "ModelState \<Rightarrow> int" where
  "state_flag modelInstantiated = 1"
| "state_flag modelInitializationMode = 2"
| "state_flag modelInitialized = 4"
| "state_flag modelStepping = 8"
| "state_flag modelTerminated = 16"
| "state_flag modelError = 32"
| "state_flag modelEventMode = 64"
| "state_flag modelContinuousTimeMode = 128"

definition MASK_fmi2EnterEventMode :: int where
  "MASK_fmi2EnterEventMode = (state_flag modelEventMode OR state_flag modelContinuousTimeMode)"

definition MASK_fmi2NewDiscreteStates :: int where
  "MASK_fmi2NewDiscreteStates = state_flag modelEventMode"

definition MASK_fmi2EnterContinuousTimeMode :: int where
  "MASK_fmi2EnterContinuousTimeMode = state_flag modelEventMode"

definition MASK_fmi2CompletedIntegratorStep :: int where
  "MASK_fmi2CompletedIntegratorStep = state_flag modelContinuousTimeMode"

definition MASK_fmi2SetTime :: int where
  "MASK_fmi2SetTime = (state_flag modelEventMode OR state_flag modelContinuousTimeMode)"

definition MASK_fmi2SetContinuousStates :: int where
  "MASK_fmi2SetContinuousStates = state_flag modelContinuousTimeMode"

definition MASK_fmi2GetEventIndicators :: int where
  "MASK_fmi2GetEventIndicators = (state_flag modelInitializationMode OR state_flag modelEventMode OR state_flag modelContinuousTimeMode
     OR state_flag modelTerminated OR state_flag modelError)"

definition MASK_fmi2GetNominalsOfContinuousStates :: int where
  "MASK_fmi2GetNominalsOfContinuousStates = (state_flag modelInstantiated OR state_flag modelEventMode OR state_flag modelContinuousTimeMode
     OR state_flag modelTerminated OR state_flag modelError)"

definition MASK_fmi2GetX :: int where
  "MASK_fmi2GetX = (state_flag modelInitializationMode OR state_flag modelInitialized OR state_flag modelStepping
     OR state_flag modelEventMode OR state_flag modelContinuousTimeMode OR state_flag modelTerminated OR state_flag modelError)"

definition MASK_fmi2SetX :: int where
  "MASK_fmi2SetX = (state_flag modelInstantiated OR state_flag modelInitializationMode OR state_flag modelInitialized
     OR state_flag modelStepping OR state_flag modelEventMode)"

text \<open>The variables: arrays, or the structure generated from the model description.\<close>

datatype 'm model_data = Arrays (arr_r: "double list") (arr_i: "int list") (arr_b: "bool list") (isPositive: "bool list") | Struct (md: 'm)

record 'm state_t =
  s_model :: "'m model_data"
  s_time :: double
  s_state :: ModelState
  s_eventInfo :: event_info

record 'm ModelInstance =
  instanceName :: string
  fmuResourceLocation :: string
  loggingOn :: bool
  logCategories :: "bool list"
  inst_s :: "'m state_t"

text \<open>What the includer defines. The hooks of a simulation are functions that do nothing where they are not defined.\<close>

record 'm includer =
  NUMBER_OF_REALS :: nat
  NUMBER_OF_INTEGERS :: nat
  NUMBER_OF_BOOLEANS :: nat
  NUMBER_OF_STATES :: nat
  NUMBER_OF_EVENT_INDICATORS :: nat
  FMI_COSIMULATION :: bool
  CAN_GET_SET_FMU_STATE :: bool
  HAVE_DIRECTIONAL_DERIVATIVE :: bool
  MODEL_GUID :: string
  vrStates :: "nat list"
  vrDerivatives :: "nat list"
  zero_model :: "'m model_data"   \<comment> \<open>\<^verbatim>\<open>memset\<close> of the variables\<close>
  model_defaults :: "'m option"
  generated_getReal :: "nat list \<Rightarrow> 'm \<Rightarrow> fmi2_status \<times> double list"
  generated_setReal :: "nat list \<Rightarrow> double list \<Rightarrow> 'm \<Rightarrow> fmi2_status \<times> 'm"
  generated_getInteger :: "nat list \<Rightarrow> 'm \<Rightarrow> fmi2_status \<times> int list"
  generated_setInteger :: "nat list \<Rightarrow> int list \<Rightarrow> 'm \<Rightarrow> fmi2_status \<times> 'm"
  generated_getBoolean :: "nat list \<Rightarrow> 'm \<Rightarrow> fmi2_status \<times> bool list"
  generated_setBoolean :: "nat list \<Rightarrow> bool list \<Rightarrow> 'm \<Rightarrow> fmi2_status \<times> 'm"
  generated_getString :: "nat list \<Rightarrow> 'm \<Rightarrow> fmi2_status \<times> string list"
  generated_setString :: "nat list \<Rightarrow> string list \<Rightarrow> 'm \<Rightarrow> fmi2_status \<times> 'm"
  inc_getReal :: "'m state_t \<Rightarrow> nat \<Rightarrow> double"
  inc_getEventIndicator :: "'m state_t \<Rightarrow> nat \<Rightarrow> double"
  inc_eventIndicators :: "'m \<Rightarrow> nat \<Rightarrow> fmi2_status \<times> double list"
  inc_eventUpdate :: "double \<Rightarrow> event_info \<Rightarrow> 'm model_data \<Rightarrow> event_info \<times> 'm model_data"
  inc_getPartial :: "'m state_t \<Rightarrow> nat \<Rightarrow> nat \<Rightarrow> fmi2_status \<times> double"
  inc_doStep :: "double \<Rightarrow> double \<Rightarrow> bool \<Rightarrow> 'm model_data \<Rightarrow> 'm model_data"
  inc_sync_initial :: "'m model_data \<Rightarrow> 'm model_data"
  sim_instantiate :: "'m model_data \<Rightarrow> fmi2_status \<times> 'm model_data"
  sim_setup_experiment :: "'m model_data \<Rightarrow> fmi2_status \<times> 'm model_data"
  sim_enter_init :: "'m model_data \<Rightarrow> fmi2_status \<times> 'm model_data"
  sim_exit_init :: "'m model_data \<Rightarrow> fmi2_status \<times> 'm model_data"

subsection \<open>Checking arguments\<close>

definition set_state :: "ModelState \<Rightarrow> 'm ModelInstance \<Rightarrow> 'm ModelInstance" where
  "set_state st c = c\<lparr>inst_s := (inst_s c)\<lparr>s_state := st\<rparr>\<rparr>"

definition set_model :: "'m model_data \<Rightarrow> 'm ModelInstance \<Rightarrow> 'm ModelInstance" where
  "set_model d c = c\<lparr>inst_s := (inst_s c)\<lparr>s_model := d\<rparr>\<rparr>"

abbreviation model_of :: "'m ModelInstance \<Rightarrow> 'm model_data" where
  "model_of c \<equiv> s_model (inst_s c)"

abbreviation state_of :: "'m ModelInstance \<Rightarrow> ModelState" where
  "state_of c \<equiv> s_state (inst_s c)"

definition invalidNumber :: "nat \<Rightarrow> nat \<Rightarrow> 'm ModelInstance \<Rightarrow> bool \<times> 'm ModelInstance" where
  "invalidNumber n nExpected c = (if n \<noteq> nExpected then (True, set_state modelError c) else (False, c))"

definition invalidState :: "int \<Rightarrow> 'm ModelInstance \<Rightarrow> bool \<times> 'm ModelInstance" where
  "invalidState statesExpected c =
     (if state_flag (state_of c) AND statesExpected = 0 then (True, set_state modelError c) else (False, c))"

definition nullPointer :: "'a option \<Rightarrow> 'm ModelInstance \<Rightarrow> bool \<times> 'm ModelInstance" where
  "nullPointer p c = (if p = None then (True, set_state modelError c) else (False, c))"

definition vrOutOfRange :: "nat \<Rightarrow> nat \<Rightarrow> 'm ModelInstance \<Rightarrow> bool \<times> 'm ModelInstance" where
  "vrOutOfRange vr e c = (if vr \<ge> e then (True, set_state modelError c) else (False, c))"

text \<open>A check, then the rest of a function; a failed check returns \<^verbatim>\<open>fmi2Error\<close> with the result \<open>x\<close>.\<close>

definition unless :: "('m ModelInstance \<Rightarrow> bool \<times> 'm ModelInstance) \<Rightarrow> 'r \<Rightarrow> ('m ModelInstance \<Rightarrow> (fmi2_status \<times> 'r) \<times> 'm ModelInstance)
     \<Rightarrow> 'm ModelInstance \<Rightarrow> (fmi2_status \<times> 'r) \<times> 'm ModelInstance" where
  "unless check x f c = (let (bad, c) = check c in if bad then ((fmi2_status_error, x), c) else f c)"

text \<open>A function that only has a status.\<close>

type_synonym 'm fmi_result = "(fmi2_status \<times> unit) \<times> 'm ModelInstance"

abbreviation returns :: "fmi2_status \<Rightarrow> 'm ModelInstance \<Rightarrow> 'm fmi_result" where
  "returns st c \<equiv> ((st, ()), c)"

definition unsupportedFunction :: "int \<Rightarrow> 'r \<Rightarrow> 'm ModelInstance \<Rightarrow> (fmi2_status \<times> 'r) \<times> 'm ModelInstance" where
  "unsupportedFunction statesExpected x = unless (invalidState statesExpected) x (\<lambda>c. ((fmi2_status_error, x), c))"

definition zeroState :: "'m includer \<Rightarrow> 'm state_t" where
  "zeroState inc = \<lparr>s_model = zero_model inc, s_time = 0, s_state = modelInstantiated,
     s_eventInfo = \<lparr>newDiscreteStatesNeeded = False, terminateSimulation = False, nominalsOfContinuousStatesChanged = False,
       valuesOfContinuousStatesChanged = False, nextEventTimeDefined = False, nextEventTime = 0\<rparr>\<rparr>"

subsection \<open>Logging categories\<close>

definition logCategoriesNames :: "string list" where
  "logCategoriesNames = [''logAll'', ''logError'', ''logFmiCall'', ''logEvent'']"

definition isCategoryLogged :: "nat \<Rightarrow> 'm ModelInstance \<Rightarrow> bool" where
  "isCategoryLogged k c = (k < 4 \<and> (logCategories c ! k \<or> logCategories c ! 0))"

text \<open>The first category with the name; a name that is not known only gives a warning.\<close>

definition set_category :: "bool \<Rightarrow> string \<Rightarrow> bool list \<Rightarrow> bool list" where
  "set_category on name cats = (case find (\<lambda>j. logCategoriesNames ! j = name) [0..<4] of None \<Rightarrow> cats | Some j \<Rightarrow> cats[j := on])"

definition fmi2SetDebugLogging :: "bool \<Rightarrow> string list \<Rightarrow> 'm ModelInstance \<Rightarrow> 'm fmi_result" where
  "fmi2SetDebugLogging on categories c =
     returns fmi2_status_ok (c\<lparr>loggingOn := on, logCategories := fold (set_category on) categories (replicate 4 False)\<rparr>)"

subsection \<open>The resource location\<close>

definition isHex :: "char \<Rightarrow> bool" where
  "isHex c = (c \<in> set ''0123456789abcdefABCDEF'')"

definition hex2Int :: "char \<Rightarrow> int" where
  "hex2Int c = (let k = int (of_char c) in if k \<le> 57 then k - 48 else if k \<ge> 97 then 10 + k - 97 else 10 + k - 65)"

text \<open>\<open>room\<close> is the space that is left in the destination. Behind the last character there is a zero, which is no hex digit.\<close>

fun unescape_loop :: "nat \<Rightarrow> string \<Rightarrow> string option" where
  "unescape_loop 0 uri = None"
| "unescape_loop (Suc room) [] = Some []"
| "unescape_loop (Suc room) (c # uri) =
     (if c = CHR ''%''
      then (case uri of a # b # rest \<Rightarrow>
              if isHex a \<and> isHex b then map_option ((#) (char_of (16 * hex2Int a + hex2Int b))) (unescape_loop room rest) else None
            | _ \<Rightarrow> None)
      else map_option ((#) c) (unescape_loop room uri))"

definition unescapeFileURI :: "string \<Rightarrow> nat \<Rightarrow> string option" where
  "unescapeFileURI uri n = (if take 7 uri = ''file://'' then unescape_loop n (drop 7 uri) else None)"

definition strlcpy2 :: "string \<Rightarrow> nat \<Rightarrow> string" where
  "strlcpy2 src n = take (n - 1) src"

subsection \<open>Life cycle\<close>

text \<open>The callbacks: is there a logger, are there functions to allocate and free memory, and is there memory?\<close>

record callbacks =
  has_logger :: bool
  has_memory :: bool
  allocates :: bool

definition fmi2Instantiate ::
  "'m includer \<Rightarrow> callbacks \<Rightarrow> string option \<Rightarrow> string \<Rightarrow> string option \<Rightarrow> bool \<Rightarrow> 'm ModelInstance option" where
  "fmi2Instantiate inc cb name fmuGUID loc on =
     (if \<not> has_logger cb \<or> \<not> has_memory cb then None
      else case (name, loc) of
        (Some name, Some loc) \<Rightarrow>
          if name = [] \<or> loc = [] \<or> fmuGUID \<noteq> MODEL_GUID inc \<or> \<not> allocates cb then None
          else let s = zeroState inc; s = (case model_defaults inc of None \<Rightarrow> s | Some d \<Rightarrow> s\<lparr>s_model := Struct d\<rparr>) in
          (case unescapeFileURI loc 1024 of
             None \<Rightarrow> None
           | Some path \<Rightarrow>
               let (st, d) = sim_instantiate inc (s_model s) in
               if st \<noteq> fmi2_status_ok then None
               else Some \<lparr>instanceName = strlcpy2 name 1024, fmuResourceLocation = path, loggingOn = on,
                 logCategories = [False, on, False, False], inst_s = s\<lparr>s_model := d\<rparr>\<rparr>)
      | _ \<Rightarrow> None)"

text \<open>\<open>None\<close>: the instance has been freed.\<close>

definition fmi2FreeInstance :: "'m ModelInstance \<Rightarrow> 'm ModelInstance option" where
  "fmi2FreeInstance c = (let (bad, c) = invalidState (state_flag modelTerminated) c in if bad then Some c else None)"

text \<open>A hook may change the variables and gives the status.\<close>

definition run_hook :: "('m model_data \<Rightarrow> fmi2_status \<times> 'm model_data) \<Rightarrow> 'm ModelInstance \<Rightarrow> 'm fmi_result" where
  "run_hook h c = (let (st, d) = h (model_of c) in returns st (set_model d c))"

definition fmi2SetupExperiment :: "'m includer \<Rightarrow> double \<Rightarrow> 'm ModelInstance \<Rightarrow> 'm fmi_result" where
  "fmi2SetupExperiment inc startTime =
     unless (invalidState (state_flag modelInstantiated)) () (\<lambda>c.
       run_hook (sim_setup_experiment inc) (c\<lparr>inst_s := (inst_s c)\<lparr>s_time := startTime\<rparr>\<rparr>))"

definition fmi2EnterInitializationMode :: "'m includer \<Rightarrow> 'm ModelInstance \<Rightarrow> 'm fmi_result" where
  "fmi2EnterInitializationMode inc =
     unless (invalidState (state_flag modelInstantiated)) () (\<lambda>c.
       run_hook (sim_enter_init inc) (set_state modelInitializationMode c))"

definition fmi2ExitInitializationMode :: "'m includer \<Rightarrow> 'm ModelInstance \<Rightarrow> 'm fmi_result" where
  "fmi2ExitInitializationMode inc =
     unless (invalidState (state_flag modelInitializationMode)) () (\<lambda>c.
       let (st, c) = run_hook (sim_exit_init inc) c
       in (st, set_state (if FMI_COSIMULATION inc then modelInitialized else modelEventMode) c))"

definition fmi2Terminate :: "'m ModelInstance \<Rightarrow> 'm fmi_result" where
  "fmi2Terminate =
     unless (invalidState (state_flag modelInitialized OR state_flag modelStepping OR state_flag modelEventMode OR state_flag modelContinuousTimeMode)) ()
       (\<lambda>c. returns fmi2_status_ok (set_state modelTerminated c))"

text \<open>A reset zeroes the variables; the defaults are not set again.\<close>

definition fmi2Reset :: "'m includer \<Rightarrow> 'm ModelInstance \<Rightarrow> 'm fmi_result" where
  "fmi2Reset inc =
     unless (invalidState (state_flag modelInitialized OR state_flag modelStepping)) () (\<lambda>c. returns fmi2_status_ok (c\<lparr>inst_s := zeroState inc\<rparr>))"

subsection \<open>Variables\<close>

fun get_loop :: "nat \<Rightarrow> 'a list \<Rightarrow> nat list \<Rightarrow> 'm ModelInstance \<Rightarrow> (fmi2_status \<times> 'a list) \<times> 'm ModelInstance" where
  "get_loop n arr [] c = ((fmi2_status_ok, []), c)"
| "get_loop n arr (vr # vrs) c = unless (vrOutOfRange vr n) [] (\<lambda>c.
     let ((st, xs), c) = get_loop n arr vrs c in ((st, arr ! vr # xs), c)) c"

definition get_vars ::
  "nat \<Rightarrow> ('m model_data \<Rightarrow> 'a list) \<Rightarrow> (nat list \<Rightarrow> 'm \<Rightarrow> fmi2_status \<times> 'a list) \<Rightarrow> nat list option \<Rightarrow> bool \<Rightarrow> 'm ModelInstance
     \<Rightarrow> (fmi2_status \<times> 'a list) \<times> 'm ModelInstance" where
  "get_vars n arr generated vr value_ok =
     unless (invalidState MASK_fmi2GetX) [] (unless (nullPointer vr) [] (\<lambda>c.
       let vrs = the vr in
       unless (nullPointer (if value_ok \<or> vrs = [] then Some () else None)) [] (\<lambda>c.
         case model_of c of Struct d \<Rightarrow> (generated vrs d, c) | data \<Rightarrow> get_loop n (arr data) vrs c) c))"

definition fmi2GetReal :: "'m includer \<Rightarrow> nat list option \<Rightarrow> bool \<Rightarrow> 'm ModelInstance \<Rightarrow> (fmi2_status \<times> double list) \<times> 'm ModelInstance" where
  "fmi2GetReal inc = get_vars (NUMBER_OF_REALS inc) arr_r (generated_getReal inc)"

definition fmi2GetInteger :: "'m includer \<Rightarrow> nat list option \<Rightarrow> bool \<Rightarrow> 'm ModelInstance \<Rightarrow> (fmi2_status \<times> int list) \<times> 'm ModelInstance" where
  "fmi2GetInteger inc = get_vars (NUMBER_OF_INTEGERS inc) arr_i (generated_getInteger inc)"

definition fmi2GetBoolean :: "'m includer \<Rightarrow> nat list option \<Rightarrow> bool \<Rightarrow> 'm ModelInstance \<Rightarrow> (fmi2_status \<times> bool list) \<times> 'm ModelInstance" where
  "fmi2GetBoolean inc = get_vars (NUMBER_OF_BOOLEANS inc) arr_b (generated_getBoolean inc)"

text \<open>There are no strings in arrays.\<close>

definition fmi2GetString :: "'m includer \<Rightarrow> nat list option \<Rightarrow> bool \<Rightarrow> 'm ModelInstance \<Rightarrow> (fmi2_status \<times> string list) \<times> 'm ModelInstance" where
  "fmi2GetString inc vr value_ok c =
     (case model_of c of
        Arrays _ _ _ _ \<Rightarrow> unsupportedFunction MASK_fmi2GetX [] c
      | Struct _ \<Rightarrow> get_vars 0 (\<lambda>_. []) (generated_getString inc) vr value_ok c)"

fun set_loop :: "nat \<Rightarrow> (nat \<Rightarrow> 'a \<Rightarrow> 'm model_data \<Rightarrow> 'm model_data) \<Rightarrow> nat list \<Rightarrow> 'a list \<Rightarrow> 'm ModelInstance \<Rightarrow> 'm fmi_result" where
  "set_loop n put (vr # vrs) (x # xs) c = unless (vrOutOfRange vr n) () (\<lambda>c. set_loop n put vrs xs (set_model (put vr x (model_of c)) c)) c"
| "set_loop n put _ _ c = returns fmi2_status_ok c"

definition put_r :: "nat \<Rightarrow> double \<Rightarrow> 'm model_data \<Rightarrow> 'm model_data" where
  "put_r vr x d = (case d of Arrays r i b p \<Rightarrow> Arrays (r[vr := x]) i b p | Struct m \<Rightarrow> Struct m)"

definition put_i :: "nat \<Rightarrow> int \<Rightarrow> 'm model_data \<Rightarrow> 'm model_data" where
  "put_i vr x d = (case d of Arrays r i b p \<Rightarrow> Arrays r (i[vr := x]) b p | Struct m \<Rightarrow> Struct m)"

definition put_b :: "nat \<Rightarrow> bool \<Rightarrow> 'm model_data \<Rightarrow> 'm model_data" where
  "put_b vr x d = (case d of Arrays r i b p \<Rightarrow> Arrays r i (b[vr := x]) p | Struct m \<Rightarrow> Struct m)"

definition set_vars ::
  "int \<Rightarrow> nat \<Rightarrow> (nat \<Rightarrow> 'a \<Rightarrow> 'm model_data \<Rightarrow> 'm model_data) \<Rightarrow> (nat list \<Rightarrow> 'a list \<Rightarrow> 'm \<Rightarrow> fmi2_status \<times> 'm)
     \<Rightarrow> nat list option \<Rightarrow> 'a list option \<Rightarrow> 'm ModelInstance \<Rightarrow> 'm fmi_result" where
  "set_vars states n put generated vr value =
     unless (invalidState states) () (unless (nullPointer vr) () (\<lambda>c.
       let vrs = the vr in
       unless (nullPointer (if vrs = [] then Some [] else value)) () (\<lambda>c.
         let vals = (if vrs = [] then [] else the value) in
         (case model_of c of
            Struct d \<Rightarrow> (let (st, d) = generated vrs vals d in returns st (set_model (Struct d) c))
          | _ \<Rightarrow> set_loop n put vrs vals c)) c))"

text \<open>In initialization mode the outputs are brought up to date after a successful or failed call that got to the variables.\<close>

definition fmi2SetReal :: "'m includer \<Rightarrow> nat list option \<Rightarrow> double list option \<Rightarrow> 'm ModelInstance \<Rightarrow> 'm fmi_result" where
  "fmi2SetReal inc vr value c =
     (let (st, c) = set_vars (MASK_fmi2SetX OR state_flag modelContinuousTimeMode) (NUMBER_OF_REALS inc) put_r (generated_setReal inc) vr value c
      in (st, if state_of c = modelInitializationMode then set_model (inc_sync_initial inc (model_of c)) c else c))"

definition fmi2SetInteger :: "'m includer \<Rightarrow> nat list option \<Rightarrow> int list option \<Rightarrow> 'm ModelInstance \<Rightarrow> 'm fmi_result" where
  "fmi2SetInteger inc = set_vars MASK_fmi2SetX (NUMBER_OF_INTEGERS inc) put_i (generated_setInteger inc)"

definition fmi2SetBoolean :: "'m includer \<Rightarrow> nat list option \<Rightarrow> bool list option \<Rightarrow> 'm ModelInstance \<Rightarrow> 'm fmi_result" where
  "fmi2SetBoolean inc = set_vars MASK_fmi2SetX (NUMBER_OF_BOOLEANS inc) put_b (generated_setBoolean inc)"

definition fmi2SetString :: "'m includer \<Rightarrow> nat list option \<Rightarrow> string list option \<Rightarrow> 'm ModelInstance \<Rightarrow> 'm fmi_result" where
  "fmi2SetString inc vr value c =
     (case model_of c of
        Arrays _ _ _ _ \<Rightarrow> unsupportedFunction MASK_fmi2SetX () c
      | Struct _ \<Rightarrow> set_vars MASK_fmi2SetX 0 (\<lambda>_ _ d. d) (generated_setString inc) vr value c)"

subsection \<open>Saved states\<close>

definition fmi2GetFMUstate :: "'m includer \<Rightarrow> 'm ModelInstance \<Rightarrow> (fmi2_status \<times> 'm state_t option) \<times> 'm ModelInstance" where
  "fmi2GetFMUstate inc c =
     (if CAN_GET_SET_FMU_STATE inc then ((fmi2_status_ok, Some (inst_s c)), c) else ((fmi2_status_error, None), c))"

definition fmi2SetFMUstate :: "'m includer \<Rightarrow> 'm state_t \<Rightarrow> 'm ModelInstance \<Rightarrow> 'm fmi_result" where
  "fmi2SetFMUstate inc FMUstate c =
     (if CAN_GET_SET_FMU_STATE inc then returns fmi2_status_ok (c\<lparr>inst_s := FMUstate\<rparr>) else returns fmi2_status_error c)"

subsection \<open>Directional derivatives\<close>

fun weighted_partials :: "(nat \<Rightarrow> fmi2_status \<times> double) \<Rightarrow> (nat \<times> double) list \<Rightarrow> double \<Rightarrow> fmi2_status \<times> double" where
  "weighted_partials p [] acc = (fmi2_status_ok, acc)"
| "weighted_partials p ((vr, wt) # ks) acc =
     (let (st, x) = p vr in if st \<noteq> fmi2_status_ok then (st, acc) else weighted_partials p ks (acc + wt * x))"

fun directional_loop :: "(nat \<Rightarrow> nat \<Rightarrow> fmi2_status \<times> double) \<Rightarrow> (nat \<times> double) list \<Rightarrow> nat list \<Rightarrow> fmi2_status \<times> double list" where
  "directional_loop p ks [] = (fmi2_status_ok, [])"
| "directional_loop p ks (u # us) =
     (let (st, x) = weighted_partials (p u) ks 0 in
      if st \<noteq> fmi2_status_ok then (st, [x]) else let (st, xs) = directional_loop p ks us in (st, x # xs))"

definition fmi2GetDirectionalDerivative ::
  "'m includer \<Rightarrow> nat list \<Rightarrow> nat list \<Rightarrow> double list \<Rightarrow> 'm ModelInstance \<Rightarrow> (fmi2_status \<times> double list) \<times> 'm ModelInstance" where
  "fmi2GetDirectionalDerivative inc vUnknown vKnown dvKnown c =
     (if HAVE_DIRECTIONAL_DERIVATIVE inc then (directional_loop (inc_getPartial inc (inst_s c)) (zip vKnown dvKnown) vUnknown, c)
      else ((fmi2_status_error, []), c))"

subsection \<open>Co-simulation\<close>

definition fmi2SetRealInputDerivatives :: "'m ModelInstance \<Rightarrow> 'm fmi_result" where
  "fmi2SetRealInputDerivatives =
     unsupportedFunction (state_flag modelInstantiated OR state_flag modelInitializationMode OR state_flag modelInitialized OR state_flag modelStepping) ()"

definition fmi2GetRealOutputDerivatives :: "nat \<Rightarrow> 'm ModelInstance \<Rightarrow> (fmi2_status \<times> double list) \<times> 'm ModelInstance" where
  "fmi2GetRealOutputDerivatives nvr =
     unless (invalidState (state_flag modelInitialized OR state_flag modelStepping OR state_flag modelError)) []
       (\<lambda>c. ((fmi2_status_error, replicate nvr 0), c))"

text \<open>The state is \<^verbatim>\<open>modelStepping\<close> before the step size is checked.\<close>

definition fmi2DoStep :: "'m includer \<Rightarrow> double \<Rightarrow> double \<Rightarrow> bool \<Rightarrow> 'm ModelInstance \<Rightarrow> 'm fmi_result" where
  "fmi2DoStep inc currentCommunicationPoint communicationStepSize noSet =
     unless (invalidState (state_flag modelInitialized OR state_flag modelStepping)) () (\<lambda>c.
       let c = set_state modelStepping c in
       if communicationStepSize \<le> 0 then returns fmi2_status_error c
       else returns fmi2_status_ok (set_model (inc_doStep inc currentCommunicationPoint communicationStepSize noSet (model_of c)) c))"

definition fmi2CancelStep :: "'m ModelInstance \<Rightarrow> 'm fmi_result" where
  "fmi2CancelStep = unsupportedFunction (state_flag modelStepping) ()"

text \<open>The array of the names of the kinds has three entries; it is only read when calls are logged.\<close>

definition status_kind_index :: "fmi2_status_kind \<Rightarrow> nat" where
  "status_kind_index k = (case k of fmi2_do_step_status \<Rightarrow> 0 | fmi2_pending_status \<Rightarrow> 1 | fmi2_last_successful_time \<Rightarrow> 2 | fmi2_terminated \<Rightarrow> 3)"

definition getStatus :: "fmi2_status_kind \<Rightarrow> 'm ModelInstance \<Rightarrow> 'm fmi_result res" where
  "getStatus k c =
     (let (bad, c) = invalidState (state_flag modelInitialized OR state_flag modelStepping) c in
      if bad then Inr (returns fmi2_status_error c)
      else if isCategoryLogged 2 c \<and> status_kind_index k \<ge> 3 then Inl (UB ''statusKind'')
      else Inr (returns fmi2_status_error c))"

definition fmi2GetRealStatus :: "fmi2_status_kind \<Rightarrow> 'm ModelInstance \<Rightarrow> (double option \<times> 'm fmi_result) res" where
  "fmi2GetRealStatus k c =
     (if k = fmi2_last_successful_time then Inr (Some (s_time (inst_s c)), returns fmi2_status_ok c)
      else rbind (getStatus k c) (\<lambda>r. Inr (None, r)))"

definition fmi2GetBooleanStatus :: "fmi2_status_kind \<Rightarrow> 'm ModelInstance \<Rightarrow> (bool option \<times> 'm fmi_result) res" where
  "fmi2GetBooleanStatus k c =
     (if k = fmi2_terminated then Inr (Some (terminateSimulation (s_eventInfo (inst_s c))), returns fmi2_status_ok c)
      else rbind (getStatus k c) (\<lambda>r. Inr (None, r)))"

subsection \<open>Model exchange\<close>

text \<open>With arrays the state stays as it is.\<close>

definition fmi2EnterEventMode :: "'m ModelInstance \<Rightarrow> 'm fmi_result" where
  "fmi2EnterEventMode =
     unless (invalidState MASK_fmi2EnterEventMode) () (\<lambda>c.
       returns fmi2_status_ok (case model_of c of Struct _ \<Rightarrow> set_state modelEventMode c | _ \<Rightarrow> c))"

definition fmi2NewDiscreteStates :: "'m includer \<Rightarrow> 'm ModelInstance \<Rightarrow> (fmi2_status \<times> event_info option) \<times> 'm ModelInstance" where
  "fmi2NewDiscreteStates inc =
     unless (invalidState MASK_fmi2NewDiscreteStates) None (\<lambda>c.
       let s = inst_s c;
           e = (s_eventInfo s)\<lparr>newDiscreteStatesNeeded := False, terminateSimulation := False,
                 nominalsOfContinuousStatesChanged := False, valuesOfContinuousStatesChanged := False\<rparr>;
           (e, d) = inc_eventUpdate inc (s_time s) e (s_model s)
       in ((fmi2_status_ok, Some e), c\<lparr>inst_s := s\<lparr>s_eventInfo := e, s_model := d\<rparr>\<rparr>))"

definition fmi2EnterContinuousTimeMode :: "'m ModelInstance \<Rightarrow> 'm fmi_result" where
  "fmi2EnterContinuousTimeMode =
     unless (invalidState MASK_fmi2EnterContinuousTimeMode) () (\<lambda>c. returns fmi2_status_ok (set_state modelContinuousTimeMode c))"

text \<open>Without an event the two flags that are returned are false.\<close>

definition fmi2CompletedIntegratorStep :: "unit option \<Rightarrow> unit option \<Rightarrow> 'm ModelInstance \<Rightarrow> (fmi2_status \<times> (bool \<times> bool) option) \<times> 'm ModelInstance" where
  "fmi2CompletedIntegratorStep enterEventMode terminateSim =
     unless (invalidState MASK_fmi2CompletedIntegratorStep) None (unless (nullPointer enterEventMode) None (unless (nullPointer terminateSim) None
       (\<lambda>c. ((fmi2_status_ok, Some (False, False)), c))))"

definition fmi2SetTime :: "double \<Rightarrow> 'm ModelInstance \<Rightarrow> 'm fmi_result" where
  "fmi2SetTime t =
     unless (invalidState MASK_fmi2SetTime) () (\<lambda>c. returns fmi2_status_ok (c\<lparr>inst_s := (inst_s c)\<lparr>s_time := t\<rparr>\<rparr>))"

definition fmi2SetContinuousStates :: "'m includer \<Rightarrow> double list option \<Rightarrow> nat \<Rightarrow> 'm ModelInstance \<Rightarrow> 'm fmi_result" where
  "fmi2SetContinuousStates inc x nx =
     unless (invalidState MASK_fmi2SetContinuousStates) () (unless (invalidNumber nx (NUMBER_OF_STATES inc)) () (\<lambda>c.
       if NUMBER_OF_STATES inc = 0 then returns fmi2_status_ok c
       else unless (nullPointer x) () (\<lambda>c.
         (case model_of c of
            Struct d \<Rightarrow> (let (st, d) = generated_setReal inc (vrStates inc) (the x) d in returns st (set_model (Struct d) c))
          | data \<Rightarrow> returns fmi2_status_ok (set_model (fold (\<lambda>(vr, v). put_r vr v) (zip (vrStates inc) (the x)) data) c))) c))"

text \<open>Reading a vector of the model: the derivatives, the states, the event indicators.\<close>

definition read_vector ::
  "int \<Rightarrow> nat \<Rightarrow> ('m \<Rightarrow> fmi2_status \<times> double list) \<Rightarrow> ('m state_t \<Rightarrow> double list) \<Rightarrow> bool \<Rightarrow> nat \<Rightarrow> 'm ModelInstance
     \<Rightarrow> (fmi2_status \<times> double list) \<times> 'm ModelInstance" where
  "read_vector states n generated plain value_ok nx =
     unless (invalidState states) [] (unless (invalidNumber nx n) [] (\<lambda>c.
       if n = 0 then ((fmi2_status_ok, []), c)
       else unless (nullPointer (if value_ok then Some () else None)) [] (\<lambda>c.
         (case model_of c of Struct d \<Rightarrow> (generated d, c) | _ \<Rightarrow> ((fmi2_status_ok, plain (inst_s c)), c))) c))"

definition fmi2GetDerivatives :: "'m includer \<Rightarrow> bool \<Rightarrow> nat \<Rightarrow> 'm ModelInstance \<Rightarrow> (fmi2_status \<times> double list) \<times> 'm ModelInstance" where
  "fmi2GetDerivatives inc =
     read_vector MASK_fmi2GetEventIndicators (NUMBER_OF_STATES inc) (generated_getReal inc (vrDerivatives inc))
       (\<lambda>s. map (\<lambda>vr. inc_getReal inc s (vr + 1)) (vrStates inc))"

definition fmi2GetEventIndicators :: "'m includer \<Rightarrow> bool \<Rightarrow> nat \<Rightarrow> 'm ModelInstance \<Rightarrow> (fmi2_status \<times> double list) \<times> 'm ModelInstance" where
  "fmi2GetEventIndicators inc =
     read_vector MASK_fmi2GetEventIndicators (NUMBER_OF_EVENT_INDICATORS inc) (\<lambda>d. inc_eventIndicators inc d (NUMBER_OF_EVENT_INDICATORS inc))
       (\<lambda>s. map (inc_getEventIndicator inc s) [0..<NUMBER_OF_EVENT_INDICATORS inc])"

definition fmi2GetContinuousStates :: "'m includer \<Rightarrow> bool \<Rightarrow> nat \<Rightarrow> 'm ModelInstance \<Rightarrow> (fmi2_status \<times> double list) \<times> 'm ModelInstance" where
  "fmi2GetContinuousStates inc =
     read_vector MASK_fmi2GetEventIndicators (NUMBER_OF_STATES inc) (generated_getReal inc (vrStates inc))
       (\<lambda>s. map (inc_getReal inc s) (vrStates inc))"

definition fmi2GetNominalsOfContinuousStates :: "'m includer \<Rightarrow> bool \<Rightarrow> nat \<Rightarrow> 'm ModelInstance \<Rightarrow> (fmi2_status \<times> double list) \<times> 'm ModelInstance" where
  "fmi2GetNominalsOfContinuousStates inc value_ok nx =
     unless (invalidState MASK_fmi2GetNominalsOfContinuousStates) [] (unless (invalidNumber nx (NUMBER_OF_STATES inc)) [] (\<lambda>c.
       if NUMBER_OF_STATES inc = 0 then ((fmi2_status_ok, []), c)
       else unless (nullPointer (if value_ok then Some () else None)) [] (\<lambda>c. ((fmi2_status_ok, replicate nx 1), c)) c))"

end
