(* ===== verification/Fmu_Lifecycle.thy ===== *)
theory Fmu_Lifecycle
  imports Fmu_Template
begin

text \<open>
  What the FMUs built from the template promise about the order of calls: a call outside its states is an error that the
  instance does not recover from, the states follow the automaton of the FMI standard, a session in the right order is accepted.
\<close>

subsection \<open>Calls\<close>

datatype 'm fmi_call =
    SetDebugLogging bool "string list" | SetupExperiment double | EnterInitializationMode | ExitInitializationMode | Terminate | Reset
  | GetReal "nat list option" bool | GetInteger "nat list option" bool | GetBoolean "nat list option" bool | GetString "nat list option" bool
  | SetReal "nat list option" "double list option" | SetInteger "nat list option" "int list option"
  | SetBoolean "nat list option" "bool list option" | SetString "nat list option" "string list option"
  | GetFMUstate | SetFMUstate "'m state_t" | GetDirectionalDerivative "nat list" "nat list" "double list"
  | SetRealInputDerivatives | GetRealOutputDerivatives nat | DoStep double double bool | CancelStep
  | GetStatus fmi2_status_kind | GetRealStatus fmi2_status_kind | GetBooleanStatus fmi2_status_kind
  | EnterEventMode | NewDiscreteStates | EnterContinuousTimeMode | CompletedIntegratorStep "unit option" "unit option"
  | SetTime double | SetContinuousStates "double list option" nat
  | GetDerivatives bool nat | GetEventIndicators bool nat | GetContinuousStates bool nat | GetNominals bool nat

abbreviation status_of :: "(fmi2_status \<times> 'r) \<times> 'm ModelInstance \<Rightarrow> (fmi2_status \<times> 'm ModelInstance) res" where
  "status_of r \<equiv> Inr (fst (fst r), snd r)"

fun exec_call :: "'m includer \<Rightarrow> 'm fmi_call \<Rightarrow> 'm ModelInstance \<Rightarrow> (fmi2_status \<times> 'm ModelInstance) res" where
  "exec_call inc (SetDebugLogging on cats) c = status_of (fmi2SetDebugLogging on cats c)"
| "exec_call inc (SetupExperiment t) c = status_of (fmi2SetupExperiment inc t c)"
| "exec_call inc EnterInitializationMode c = status_of (fmi2EnterInitializationMode inc c)"
| "exec_call inc ExitInitializationMode c = status_of (fmi2ExitInitializationMode inc c)"
| "exec_call inc Terminate c = status_of (fmi2Terminate c)"
| "exec_call inc Reset c = status_of (fmi2Reset inc c)"
| "exec_call inc (GetReal vr v) c = status_of (fmi2GetReal inc vr v c)"
| "exec_call inc (GetInteger vr v) c = status_of (fmi2GetInteger inc vr v c)"
| "exec_call inc (GetBoolean vr v) c = status_of (fmi2GetBoolean inc vr v c)"
| "exec_call inc (GetString vr v) c = status_of (fmi2GetString inc vr v c)"
| "exec_call inc (SetReal vr v) c = status_of (fmi2SetReal inc vr v c)"
| "exec_call inc (SetInteger vr v) c = status_of (fmi2SetInteger inc vr v c)"
| "exec_call inc (SetBoolean vr v) c = status_of (fmi2SetBoolean inc vr v c)"
| "exec_call inc (SetString vr v) c = status_of (fmi2SetString inc vr v c)"
| "exec_call inc GetFMUstate c = status_of (fmi2GetFMUstate inc c)"
| "exec_call inc (SetFMUstate s) c = status_of (fmi2SetFMUstate inc s c)"
| "exec_call inc (GetDirectionalDerivative us ks dvs) c = status_of (fmi2GetDirectionalDerivative inc us ks dvs c)"
| "exec_call inc SetRealInputDerivatives c = status_of (fmi2SetRealInputDerivatives c)"
| "exec_call inc (GetRealOutputDerivatives n) c = status_of (fmi2GetRealOutputDerivatives n c)"
| "exec_call inc (DoStep t h b) c = status_of (fmi2DoStep inc t h b c)"
| "exec_call inc CancelStep c = status_of (fmi2CancelStep c)"
| "exec_call inc (GetStatus k) c = rbind (getStatus k c) status_of"
| "exec_call inc (GetRealStatus k) c = rbind (fmi2GetRealStatus k c) (\<lambda>(_, r). status_of r)"
| "exec_call inc (GetBooleanStatus k) c = rbind (fmi2GetBooleanStatus k c) (\<lambda>(_, r). status_of r)"
| "exec_call inc EnterEventMode c = status_of (fmi2EnterEventMode c)"
| "exec_call inc NewDiscreteStates c = status_of (fmi2NewDiscreteStates inc c)"
| "exec_call inc EnterContinuousTimeMode c = status_of (fmi2EnterContinuousTimeMode c)"
| "exec_call inc (CompletedIntegratorStep e t) c = status_of (fmi2CompletedIntegratorStep e t c)"
| "exec_call inc (SetTime t) c = status_of (fmi2SetTime t c)"
| "exec_call inc (SetContinuousStates x nx) c = status_of (fmi2SetContinuousStates inc x nx c)"
| "exec_call inc (GetDerivatives v n) c = status_of (fmi2GetDerivatives inc v n c)"
| "exec_call inc (GetEventIndicators v n) c = status_of (fmi2GetEventIndicators inc v n c)"
| "exec_call inc (GetContinuousStates v n) c = status_of (fmi2GetContinuousStates inc v n c)"
| "exec_call inc (GetNominals v n) c = status_of (fmi2GetNominalsOfContinuousStates inc v n c)"

text \<open>The states a call is meant for. The calls on saved states, partial derivatives and the log are possible in all.\<close>

fun allowed_in :: "'m fmi_call \<Rightarrow> ModelState set" where
  "allowed_in (SetupExperiment t) = {modelInstantiated}"
| "allowed_in EnterInitializationMode = {modelInstantiated}"
| "allowed_in ExitInitializationMode = {modelInitializationMode}"
| "allowed_in Terminate = {modelInitialized, modelStepping, modelEventMode, modelContinuousTimeMode}"
| "allowed_in Reset = {modelInitialized, modelStepping}"
| "allowed_in (GetReal _ _) = UNIV - {modelInstantiated}"
| "allowed_in (GetInteger _ _) = UNIV - {modelInstantiated}"
| "allowed_in (GetBoolean _ _) = UNIV - {modelInstantiated}"
| "allowed_in (GetString _ _) = UNIV - {modelInstantiated}"
| "allowed_in (SetReal _ _) = UNIV - {modelTerminated, modelError}"
| "allowed_in (SetInteger _ _) = UNIV - {modelTerminated, modelError, modelContinuousTimeMode}"
| "allowed_in (SetBoolean _ _) = UNIV - {modelTerminated, modelError, modelContinuousTimeMode}"
| "allowed_in (SetString _ _) = UNIV - {modelTerminated, modelError, modelContinuousTimeMode}"
| "allowed_in SetRealInputDerivatives = {modelInstantiated, modelInitializationMode, modelInitialized, modelStepping}"
| "allowed_in (GetRealOutputDerivatives _) = {modelInitialized, modelStepping, modelError}"
| "allowed_in (DoStep _ _ _) = {modelInitialized, modelStepping}"
| "allowed_in CancelStep = {modelStepping}"
| "allowed_in (GetStatus _) = {modelInitialized, modelStepping}"
| "allowed_in (GetRealStatus k) = (if k = fmi2_last_successful_time then UNIV else {modelInitialized, modelStepping})"
| "allowed_in (GetBooleanStatus k) = (if k = fmi2_terminated then UNIV else {modelInitialized, modelStepping})"
| "allowed_in EnterEventMode = {modelEventMode, modelContinuousTimeMode}"
| "allowed_in NewDiscreteStates = {modelEventMode}"
| "allowed_in EnterContinuousTimeMode = {modelEventMode}"
| "allowed_in (CompletedIntegratorStep _ _) = {modelContinuousTimeMode}"
| "allowed_in (SetTime _) = {modelEventMode, modelContinuousTimeMode}"
| "allowed_in (SetContinuousStates _ _) = {modelContinuousTimeMode}"
| "allowed_in (GetDerivatives _ _) = {modelInitializationMode, modelEventMode, modelContinuousTimeMode, modelTerminated, modelError}"
| "allowed_in (GetEventIndicators _ _) = {modelInitializationMode, modelEventMode, modelContinuousTimeMode, modelTerminated, modelError}"
| "allowed_in (GetContinuousStates _ _) = {modelInitializationMode, modelEventMode, modelContinuousTimeMode, modelTerminated, modelError}"
| "allowed_in (GetNominals _ _) = {modelInstantiated, modelEventMode, modelContinuousTimeMode, modelTerminated, modelError}"
| "allowed_in _ = UNIV"

subsection \<open>The masks\<close>

lemma mask_bits:
  "state_flag s AND MASK_fmi2GetX = 0 \<longleftrightarrow> s = modelInstantiated"
  "state_flag s AND MASK_fmi2SetX = 0 \<longleftrightarrow> s \<in> {modelTerminated, modelError, modelContinuousTimeMode}"
  "state_flag s AND (MASK_fmi2SetX OR state_flag modelContinuousTimeMode) = 0 \<longleftrightarrow> s \<in> {modelTerminated, modelError}"
  "state_flag s AND MASK_fmi2EnterEventMode = 0 \<longleftrightarrow> s \<notin> {modelEventMode, modelContinuousTimeMode}"
  "state_flag s AND MASK_fmi2NewDiscreteStates = 0 \<longleftrightarrow> s \<noteq> modelEventMode"
  "state_flag s AND MASK_fmi2EnterContinuousTimeMode = 0 \<longleftrightarrow> s \<noteq> modelEventMode"
  "state_flag s AND MASK_fmi2CompletedIntegratorStep = 0 \<longleftrightarrow> s \<noteq> modelContinuousTimeMode"
  "state_flag s AND MASK_fmi2SetTime = 0 \<longleftrightarrow> s \<notin> {modelEventMode, modelContinuousTimeMode}"
  "state_flag s AND MASK_fmi2SetContinuousStates = 0 \<longleftrightarrow> s \<noteq> modelContinuousTimeMode"
  "state_flag s AND MASK_fmi2GetEventIndicators = 0 \<longleftrightarrow> s \<notin> {modelInitializationMode, modelEventMode, modelContinuousTimeMode, modelTerminated, modelError}"
  "state_flag s AND MASK_fmi2GetNominalsOfContinuousStates = 0 \<longleftrightarrow> s \<notin> {modelInstantiated, modelEventMode, modelContinuousTimeMode, modelTerminated, modelError}"
  by (cases s; simp add: MASK_fmi2GetX_def MASK_fmi2SetX_def MASK_fmi2EnterEventMode_def MASK_fmi2NewDiscreteStates_def
      MASK_fmi2EnterContinuousTimeMode_def MASK_fmi2CompletedIntegratorStep_def MASK_fmi2SetTime_def MASK_fmi2SetContinuousStates_def
      MASK_fmi2GetEventIndicators_def MASK_fmi2GetNominalsOfContinuousStates_def)+

lemma flag_bits:
  "state_flag s AND state_flag t = 0 \<longleftrightarrow> s \<noteq> t"
  by (cases s; cases t; simp)

lemma flag_union:
  "state_flag s AND (x OR y) = 0 \<longleftrightarrow> state_flag s AND x = 0 \<and> state_flag s AND y = 0"
  by (simp add: bit.conj_disj_distrib or_eq_0_iff)

lemma flag_nonzero: "state_flag s \<noteq> 0"
  by (cases s) simp_all

lemmas state_bits = mask_bits flag_bits flag_union flag_nonzero

declare state_flag.simps [simp del]

subsection \<open>Calls in the wrong state\<close>

lemma set_state_simps [simp]:
  "inst_s (set_state st c) = (inst_s c)\<lparr>s_state := st\<rparr>" "inst_s (set_model d c) = (inst_s c)\<lparr>s_model := d\<rparr>"
  by (simp_all add: set_state_def set_model_def)

lemma unless_refused: "state_flag (state_of c) AND states = 0 \<Longrightarrow> unless (invalidState states) x f c = ((fmi2_status_error, x), set_state modelError c)"
  by (simp add: unless_def invalidState_def)

lemma unless_allowed: "state_flag (state_of c) AND states \<noteq> 0 \<Longrightarrow> unless (invalidState states) x f c = f c"
  by (simp add: unless_def invalidState_def)

lemmas variable_calls = fmi2GetReal_def fmi2GetInteger_def fmi2GetBoolean_def fmi2GetString_def get_vars_def
  fmi2SetReal_def fmi2SetInteger_def fmi2SetBoolean_def fmi2SetString_def set_vars_def unsupportedFunction_def

lemmas cosim_calls = fmi2SetupExperiment_def fmi2EnterInitializationMode_def fmi2ExitInitializationMode_def fmi2Terminate_def fmi2Reset_def
  fmi2SetRealInputDerivatives_def fmi2GetRealOutputDerivatives_def fmi2DoStep_def fmi2CancelStep_def
  getStatus_def fmi2GetRealStatus_def fmi2GetBooleanStatus_def unsupportedFunction_def

lemmas exchange_calls = fmi2EnterEventMode_def fmi2NewDiscreteStates_def fmi2EnterContinuousTimeMode_def fmi2CompletedIntegratorStep_def
  fmi2SetTime_def fmi2SetContinuousStates_def read_vector_def fmi2GetDerivatives_def fmi2GetEventIndicators_def fmi2GetContinuousStates_def
  fmi2GetNominalsOfContinuousStates_def

lemma wrong_state_refused_aux:
  assumes "state_of c \<notin> allowed_in call"
  shows "exec_call inc call c = Inr (fmi2_status_error, set_state modelError c)"
  using assms
  by (cases call)
     (auto simp: variable_calls cosim_calls exchange_calls unless_refused state_bits invalidState_def split: if_splits model_data.split)

text \<open>C30: the order of calls is enforced. A call in a state in which the FMI standard does not allow it is answered with an
  error, changes nothing else and leaves the instance in the error state, where no step is possible.\<close>

theorem wrong_state_refused:
  assumes "state_of c \<notin> allowed_in call"
  shows "\<exists>c'. exec_call inc call c = Inr (fmi2_status_error, c') \<and> c' = set_state modelError c
     \<and> exec_call inc (DoStep t h b) c' = Inr (fmi2_status_error, c')"
  using wrong_state_refused_aux[OF assms] wrong_state_refused_aux[of "set_state modelError c" "DoStep t h b" inc]
  by (simp add: set_state_def)

subsection \<open>The automaton\<close>

inductive moves :: "bool \<Rightarrow> ModelState \<Rightarrow> ModelState \<Rightarrow> bool" for cosim :: bool where
  stays: "moves cosim s s"
| fails: "moves cosim s modelError"
| enters_init: "moves cosim modelInstantiated modelInitializationMode"
| exits_init: "moves cosim modelInitializationMode (if cosim then modelInitialized else modelEventMode)"
| steps: "s \<in> {modelInitialized, modelStepping} \<Longrightarrow> moves cosim s modelStepping"
| enters_event: "moves cosim modelContinuousTimeMode modelEventMode"
| enters_continuous: "moves cosim modelEventMode modelContinuousTimeMode"
| terminates: "s \<in> {modelInitialized, modelStepping, modelEventMode, modelContinuousTimeMode} \<Longrightarrow> moves cosim s modelTerminated"
| resets: "s \<in> {modelInitialized, modelStepping} \<Longrightarrow> moves cosim s modelInstantiated"

text \<open>Reading leaves the instance as it is, but for the state after an error.\<close>

definition only_fails :: "'m ModelInstance \<Rightarrow> 'm ModelInstance \<Rightarrow> bool" where
  "only_fails c c' \<longleftrightarrow> inst_s c' \<in> {inst_s c, (inst_s c)\<lparr>s_state := modelError\<rparr>}"

lemma only_fails_state: "only_fails c c' \<Longrightarrow> state_of c' \<in> {state_of c, modelError}"
  by (auto simp: only_fails_def)

lemma get_loop_reads: "only_fails c (snd (get_loop n arr vrs c))"
proof (induction vrs arbitrary: c)
  case (Cons vr vrs)
  show ?case using Cons[of c] by (auto simp: unless_def vrOutOfRange_def split_beta only_fails_def)
qed (simp add: only_fails_def)

lemma get_vars_reads: "only_fails c (snd (get_vars n arr g vr v c))"
  using get_loop_reads by (fastforce simp: get_vars_def unless_def invalidState_def nullPointer_def Let_def only_fails_def split: model_data.splits)

lemma get_vars_state: "state_of (snd (get_vars n arr g vr v c)) \<in> {state_of c, modelError}"
  by (rule only_fails_state, rule get_vars_reads)

lemma set_loop_state: "state_of (snd (set_loop n put vrs xs c)) \<in> {state_of c, modelError}"
proof (induction n put vrs xs c rule: set_loop.induct)
  case (1 n put vr vrs x xs c)
  have "state_of (set_model (put vr x (model_of c)) c) = state_of c" by simp
  then show ?case using 1 by (auto simp: unless_def vrOutOfRange_def)
qed simp_all

lemma set_vars_state: "state_of (snd (set_vars m n put g vr v c)) \<in> {state_of c, modelError}"
  using set_loop_state by (fastforce simp: set_vars_def unless_def invalidState_def nullPointer_def Let_def split: model_data.splits prod.splits)

lemma unless_state: "state_of (snd (f c)) \<in> {state_of c, modelError} \<Longrightarrow> state_of (snd (unless (invalidState m) x f c)) \<in> {state_of c, modelError}"
  by (simp add: unless_def invalidState_def)

text \<open>A result that stays in its state or fails.\<close>

definition steady :: "'m ModelInstance \<Rightarrow> (fmi2_status \<times> 'm ModelInstance) res \<Rightarrow> bool" where
  "steady c r \<longleftrightarrow> (\<forall>st c'. r = Inr (st, c') \<longrightarrow> state_of c' \<in> {state_of c, modelError})"

lemma steady_moves: "steady c r \<Longrightarrow> r = Inr (st, c') \<Longrightarrow> moves b (state_of c) (state_of c')"
  using moves.stays moves.fails by (auto simp: steady_def)

lemma steady_status_of: "state_of (snd r) \<in> {state_of c, modelError} \<Longrightarrow> steady c (status_of r)"
  by (simp add: steady_def)

lemma read_vector_reads: "only_fails c (snd (read_vector m n g p v nx c))"
  by (auto simp: read_vector_def unless_def invalidState_def invalidNumber_def nullPointer_def only_fails_def split: model_data.splits)

lemma steady_read: "state_of (snd (read_vector m n g p v nx c)) \<in> {state_of c, modelError}"
  by (rule only_fails_state, rule read_vector_reads)

lemma steady_getStatus: "getStatus k c = Inr r \<Longrightarrow> state_of (snd r) \<in> {state_of c, modelError}"
  by (auto simp: getStatus_def invalidState_def split: if_splits)

lemma steady_setReal: "state_of (snd (fmi2SetReal inc vr v c)) \<in> {state_of c, modelError}"
proof -
  obtain st c1 where "set_vars (MASK_fmi2SetX OR state_flag modelContinuousTimeMode) (NUMBER_OF_REALS inc) put_r (generated_setReal inc) vr v c = (st, c1)"
    by fastforce
  with set_vars_state[of "MASK_fmi2SetX OR state_flag modelContinuousTimeMode" "NUMBER_OF_REALS inc" put_r "generated_setReal inc" vr v c]
  show ?thesis by (auto simp: fmi2SetReal_def)
qed

lemma steady_results:
  "state_of (snd (get_vars n arr g vr v c)) \<noteq> modelError \<Longrightarrow> state_of (snd (get_vars n arr g vr v c)) = state_of c"
  "state_of (snd (set_vars m n put g' vr w c)) \<noteq> modelError \<Longrightarrow> state_of (snd (set_vars m n put g' vr w c)) = state_of c"
  "state_of (snd (read_vector m n h p v nx c)) \<noteq> modelError \<Longrightarrow> state_of (snd (read_vector m n h p v nx c)) = state_of c"
  using get_vars_state[of n arr g vr v c] set_vars_state[of m n put g' vr w c] steady_read[of m n h p v nx c] by auto

fun changes_state :: "'m fmi_call \<Rightarrow> bool" where
  "changes_state EnterInitializationMode = True"
| "changes_state ExitInitializationMode = True"
| "changes_state Terminate = True"
| "changes_state Reset = True"
| "changes_state (SetFMUstate _) = True"
| "changes_state (DoStep _ _ _) = True"
| "changes_state EnterEventMode = True"
| "changes_state EnterContinuousTimeMode = True"
| "changes_state _ = False"

lemma steady_calls: "\<not> changes_state call \<Longrightarrow> steady c (exec_call inc call c)"
proof (cases call)
  case (GetString vr v)
  then show ?thesis using get_vars_state[of 0 "\<lambda>_. []" "generated_getString inc" vr v c] by (cases "model_of c")
      (auto simp: steady_def fmi2GetString_def unsupportedFunction_def unless_def invalidState_def dest: arg_cong[of _ _ state_of])
next
  case (SetString vr v)
  then show ?thesis using set_vars_state[of MASK_fmi2SetX 0 "\<lambda>_ _ d. d" "generated_setString inc" vr v c] by (cases "model_of c")
      (auto simp: steady_def fmi2SetString_def unsupportedFunction_def unless_def invalidState_def dest: arg_cong[of _ _ state_of])
next
  case (GetStatus k)
  then show ?thesis using steady_getStatus by (fastforce simp: steady_def rbind_eq_Inr)
next
  case (GetRealStatus k)
  then show ?thesis using steady_getStatus[of k c] by (auto simp: steady_def fmi2GetRealStatus_def rbind_eq_Inr)
next
  case (GetBooleanStatus k)
  then show ?thesis using steady_getStatus[of k c] by (auto simp: steady_def fmi2GetBooleanStatus_def rbind_eq_Inr)
next
  case (SetReal vr v)
  then show ?thesis using steady_setReal by (auto simp: steady_def)
qed (auto simp: steady_def fmi2SetDebugLogging_def fmi2SetupExperiment_def run_hook_def fmi2GetReal_def fmi2GetInteger_def fmi2GetBoolean_def
    fmi2SetInteger_def fmi2SetBoolean_def fmi2GetFMUstate_def fmi2GetDirectionalDerivative_def fmi2SetRealInputDerivatives_def
    fmi2GetRealOutputDerivatives_def fmi2CancelStep_def unsupportedFunction_def fmi2NewDiscreteStates_def fmi2CompletedIntegratorStep_def
    fmi2SetTime_def fmi2SetContinuousStates_def fmi2GetDerivatives_def fmi2GetEventIndicators_def fmi2GetContinuousStates_def
    fmi2GetNominalsOfContinuousStates_def unless_def invalidState_def invalidNumber_def nullPointer_def Let_def split_beta
    dest: arg_cong[of _ _ state_of] split: if_splits model_data.splits
    intro: steady_results)

lemma call_moves:
  assumes "exec_call inc call c = Inr (st, c')" and "\<And>s. call \<noteq> SetFMUstate s"
  shows "moves (FMI_COSIMULATION inc) (state_of c) (state_of c')"
proof (cases "changes_state call")
  case False
  then show ?thesis using steady_moves[OF steady_calls assms(1)] by blast
next
  case True
  show ?thesis
  proof (cases "state_of c \<in> allowed_in call")
    case False
    then have "state_of c' = modelError" using wrong_state_refused_aux[OF False, of inc] assms(1) by auto
    then show ?thesis by (simp add: moves.fails)
  next
    case ok: True
    then show ?thesis using True assms
      by (cases call)
         (auto simp: fmi2EnterInitializationMode_def fmi2ExitInitializationMode_def fmi2Terminate_def fmi2Reset_def fmi2DoStep_def
           fmi2EnterEventMode_def fmi2EnterContinuousTimeMode_def unless_allowed state_bits run_hook_def zeroState_def Let_def split_beta
           split: if_splits model_data.splits intro: moves.intros moves.exits_init[of True, simplified] moves.exits_init[of False, simplified])
  qed
qed

text \<open>Which call is responsible for a change of the state.\<close>

definition initialized_states :: "ModelState set" where
  "initialized_states = {modelInitialized, modelStepping, modelEventMode, modelContinuousTimeMode, modelTerminated}"

lemma call_causes:
  assumes "exec_call inc q c = Inr (st, c')" and "\<And>s. q \<noteq> SetFMUstate s"
  shows "state_of c' = state_of c \<and> (q, st) \<noteq> (Reset, fmi2_status_ok) \<or> state_of c' = modelError
     \<or> q = EnterInitializationMode \<and> state_of c' = modelInitializationMode
     \<or> q = ExitInitializationMode \<and> state_of c = modelInitializationMode \<or> q = Reset \<and> state_of c' = modelInstantiated
     \<or> state_of c \<in> initialized_states \<and> state_of c' \<in> initialized_states \<and> q \<noteq> Reset"
proof (cases "changes_state q")
  case False
  then show ?thesis using steady_calls[OF False, of c inc] assms(1) by (auto simp: steady_def)
next
  case True
  show ?thesis
  proof (cases "state_of c \<in> allowed_in q")
    case False
    then have "state_of c' = modelError" using wrong_state_refused_aux[OF False, of inc] assms(1) by auto
    then show ?thesis by simp
  next
    case ok: True
    then show ?thesis using True assms
      by (cases q)
         (auto simp: initialized_states_def fmi2EnterInitializationMode_def fmi2ExitInitializationMode_def fmi2Terminate_def fmi2Reset_def
           fmi2DoStep_def fmi2EnterEventMode_def fmi2EnterContinuousTimeMode_def unless_allowed state_bits run_hook_def zeroState_def Let_def
           split_beta split: if_splits model_data.splits)
  qed
qed

subsection \<open>Sessions\<close>

text \<open>The calls of a session with the statuses they returned.\<close>

inductive session :: "'m includer \<Rightarrow> 'm ModelInstance \<Rightarrow> ('m fmi_call \<times> fmi2_status) list \<Rightarrow> 'm ModelInstance \<Rightarrow> bool" for inc c where
  begins: "session inc c [] c"
| calls: "session inc c tr c1 \<Longrightarrow> exec_call inc q c1 = Inr (st, c2) \<Longrightarrow> session inc c (tr @ [(q, st)]) c2"

definition no_restore :: "('m fmi_call \<times> fmi2_status) list \<Rightarrow> bool" where
  "no_restore tr \<longleftrightarrow> (\<forall>q\<in>fst ` set tr. \<forall>s. q \<noteq> SetFMUstate s)"

lemma no_restore_snoc [simp]: "no_restore (tr @ [(q, st)]) \<longleftrightarrow> no_restore tr \<and> (\<forall>s. q \<noteq> SetFMUstate s)"
  by (auto simp: no_restore_def)

text \<open>The last initialization: entered, then left, and the instance not reset since.\<close>

inductive entered_init :: "('m fmi_call \<times> fmi2_status) list \<Rightarrow> bool" where
  enters: "entered_init (tr @ [(EnterInitializationMode, st)])"
| later: "entered_init tr \<Longrightarrow> x \<noteq> (Reset, fmi2_status_ok) \<Longrightarrow> entered_init (tr @ [x])"

inductive left_init :: "('m fmi_call \<times> fmi2_status) list \<Rightarrow> bool" where
  leaves: "entered_init tr \<Longrightarrow> left_init (tr @ [(ExitInitializationMode, st)])"
| later: "left_init tr \<Longrightarrow> x \<noteq> (Reset, fmi2_status_ok) \<Longrightarrow> left_init (tr @ [x])"

lemma entered_init_split:
  "entered_init tr \<Longrightarrow> \<exists>us a ws. tr = us @ (EnterInitializationMode, a) # ws \<and> (Reset, fmi2_status_ok) \<notin> set ws"
proof (induction rule: entered_init.induct)
  case (enters tr st)
  show ?case by (intro exI[of _ tr] exI[of _ st] exI[of _ "[]"]) simp
next
  case (later tr x)
  then obtain us a ws where "tr = us @ (EnterInitializationMode, a) # ws" "(Reset, fmi2_status_ok) \<notin> set ws" by blast
  then show ?case using later.hyps(2) by (intro exI[of _ us] exI[of _ a] exI[of _ "ws @ [x]"]) auto
qed

lemma left_init_split:
  "left_init tr \<Longrightarrow> \<exists>us a vs b ws. tr = us @ (EnterInitializationMode, a) # vs @ (ExitInitializationMode, b) # ws
     \<and> (Reset, fmi2_status_ok) \<notin> set vs \<union> set ws"
proof (induction rule: left_init.induct)
  case (leaves tr st)
  then obtain us a ws where "tr = us @ (EnterInitializationMode, a) # ws" "(Reset, fmi2_status_ok) \<notin> set ws" using entered_init_split by blast
  then show ?case by (intro exI[of _ us] exI[of _ a] exI[of _ ws] exI[of _ st] exI[of _ "[]"]) simp
next
  case (later tr x)
  then obtain us a vs b ws where "tr = us @ (EnterInitializationMode, a) # vs @ (ExitInitializationMode, b) # ws"
    "(Reset, fmi2_status_ok) \<notin> set vs \<union> set ws" by blast
  then show ?case using later.hyps(2) by (intro exI[of _ us] exI[of _ a] exI[of _ vs] exI[of _ b] exI[of _ "ws @ [x]"]) auto
qed

lemma session_initialized:
  assumes "session inc c tr c'" and "state_of c = modelInstantiated" and "no_restore tr"
  shows "(state_of c' = modelInitializationMode \<longrightarrow> entered_init tr) \<and> (state_of c' \<in> initialized_states \<longrightarrow> left_init tr)"
  using assms
proof (induction rule: session.induct)
  case begins
  then show ?case by (simp add: initialized_states_def)
next
  case (calls tr c1 q st c2)
  have q: "\<And>s. q \<noteq> SetFMUstate s" using calls.prems(2) by simp
  have IH: "state_of c1 = modelInitializationMode \<longrightarrow> entered_init tr" "state_of c1 \<in> initialized_states \<longrightarrow> left_init tr"
    using calls.IH calls.prems by simp_all
  from call_causes[OF calls.hyps(2) q] consider (same) "state_of c2 = state_of c1" "(q, st) \<noteq> (Reset, fmi2_status_ok)"
    | (error) "state_of c2 = modelError"
    | (enter) "q = EnterInitializationMode" "state_of c2 = modelInitializationMode"
    | (leave) "q = ExitInitializationMode" "state_of c1 = modelInitializationMode"
    | (reset) "state_of c2 = modelInstantiated"
    | (inside) "state_of c1 \<in> initialized_states" "state_of c2 \<in> initialized_states" "q \<noteq> Reset" by blast
  then show ?case
  proof cases
    case same
    then show ?thesis using IH entered_init.later[of tr "(q, st)"] left_init.later[of tr "(q, st)"] by simp
  next
    case enter
    then show ?thesis using entered_init.enters by (auto simp: initialized_states_def)
  next
    case leave
    then have "left_init (tr @ [(q, st)])" using IH(1) left_init.leaves by simp
    moreover have "entered_init (tr @ [(q, st)])" using leave IH(1) entered_init.later[of tr "(q, st)"] by simp
    ultimately show ?thesis by simp
  next
    case inside
    then show ?thesis using IH(2) left_init.later[of tr "(q, st)"] by (auto simp: initialized_states_def)
  qed (simp_all add: initialized_states_def)
qed

text \<open>C31: no step before the initialization. When a call of fmi2DoStep succeeds in a session in which no saved state is restored,
  the initialization has been entered and left before, and the instance has not been reset since then.\<close>

theorem step_needs_initialization:
  assumes "session inc c tr c1" and "state_of c = modelInstantiated" and "no_restore tr"
    and "exec_call inc (DoStep t h b) c1 = Inr (fmi2_status_ok, c2)"
  shows "\<exists>us a vs b ws. tr = us @ (EnterInitializationMode, a) # vs @ (ExitInitializationMode, b) # ws
     \<and> (Reset, fmi2_status_ok) \<notin> set vs \<union> set ws"
proof -
  have "state_of c1 \<in> {modelInitialized, modelStepping}"
    using wrong_state_refused_aux[of c1 "DoStep t h b" inc] assms(4) by fastforce
  then have "state_of c1 \<in> initialized_states" by (auto simp: initialized_states_def)
  then have "left_init tr" using session_initialized[OF assms(1-3)] by blast
  then show ?thesis by (rule left_init_split)
qed

subsection \<open>The error state\<close>

lemma set_error [simp]: "state_of c = modelError \<Longrightarrow> inst_s (set_state modelError c) = inst_s c"
  by simp

lemma only_fails_error: "only_fails c c' \<Longrightarrow> state_of c = modelError \<Longrightarrow> inst_s c' = inst_s c"
  by (auto simp: only_fails_def)

lemma error_state_kept:
  assumes "exec_call inc q c = Inr (st, c')" and "state_of c = modelError" and "\<And>s. q \<noteq> SetFMUstate s"
  shows "inst_s c' = inst_s c"
proof (cases "state_of c \<in> allowed_in q")
  case False
  then show ?thesis using wrong_state_refused_aux[OF False, of inc] assms by auto
next
  case True
  show ?thesis using True assms
    by (cases q)
       (auto simp: only_fails_error[OF get_vars_reads assms(2)] only_fails_error[OF read_vector_reads assms(2)]
          fmi2SetDebugLogging_def fmi2GetReal_def fmi2GetInteger_def fmi2GetBoolean_def fmi2GetString_def unsupportedFunction_def
          unless_allowed state_bits fmi2GetFMUstate_def fmi2GetDirectionalDerivative_def fmi2GetRealOutputDerivatives_def
          fmi2GetRealStatus_def fmi2GetBooleanStatus_def fmi2GetDerivatives_def fmi2GetEventIndicators_def fmi2GetContinuousStates_def
          fmi2GetNominalsOfContinuousStates_def unless_def invalidState_def invalidNumber_def nullPointer_def Let_def
          split: if_splits model_data.splits)
qed

text \<open>C32: errors are final. After an error the variables, the time and the state of an instance do not change any more, whatever is
  called, except when a saved state is restored. In particular fmi2FreeInstance does not free the instance.\<close>

theorem error_is_final:
  assumes "session inc c tr c'" and "state_of c = modelError" and "no_restore tr"
  shows "inst_s c' = inst_s c \<and> (\<exists>d. fmi2FreeInstance c' = Some d)"
proof -
  have "inst_s c' = inst_s c" using assms
  proof (induction rule: session.induct)
    case (calls tr c1 q st c2)
    then show ?case using error_state_kept[OF calls.hyps(2)] by simp
  qed simp
  then show ?thesis using assms(2) by (simp add: fmi2FreeInstance_def invalidState_def state_bits)
qed

end
