(* ===== verification/Fmu_Session.thy ===== *)
theory Fmu_Session
  imports Fmu_Lifecycle
begin

text \<open>
  What a master that keeps to the order of the FMI standard gets from the FMUs built from the template: every call succeeds and
  the instance can be freed, values that are set are read back, and a resource location is the escaped path it was made from.
\<close>

subsection \<open>Witness instances\<close>

text \<open>A co-simulation FMU with two reals: a step adds the step size times the second to the first.\<close>

abbreviation arrays_doStep :: "double \<Rightarrow> double \<Rightarrow> bool \<Rightarrow> unit model_data \<Rightarrow> unit model_data" where
  "arrays_doStep t h b d \<equiv> (case d of Arrays r i bs p \<Rightarrow> Arrays (r[0 := r ! 0 + h * r ! 1]) i bs p | Struct m \<Rightarrow> Struct m)"

abbreviation no_hook :: "unit model_data \<Rightarrow> fmi2_status \<times> unit model_data" where
  "no_hook d \<equiv> (fmi2_status_ok, d)"

definition demo_fmu :: "unit includer" where
  "demo_fmu = \<lparr>NUMBER_OF_REALS = 2, NUMBER_OF_INTEGERS = 0, NUMBER_OF_BOOLEANS = 0, NUMBER_OF_STATES = 0, NUMBER_OF_EVENT_INDICATORS = 0,
     FMI_COSIMULATION = True, CAN_GET_SET_FMU_STATE = True, HAVE_DIRECTIONAL_DERIVATIVE = False, MODEL_GUID = ''guid'', vrStates = [], vrDerivatives = [],
     zero_model = Arrays [0, 0] [0] [False] [False], model_defaults = None,
     generated_getReal = \<lambda>_ _. (fmi2_status_ok, []), generated_setReal = \<lambda>_ _ m. (fmi2_status_ok, m),
     generated_getInteger = \<lambda>_ _. (fmi2_status_ok, []), generated_setInteger = \<lambda>_ _ m. (fmi2_status_ok, m),
     generated_getBoolean = \<lambda>_ _. (fmi2_status_ok, []), generated_setBoolean = \<lambda>_ _ m. (fmi2_status_ok, m),
     generated_getString = \<lambda>_ _. (fmi2_status_ok, []), generated_setString = \<lambda>_ _ m. (fmi2_status_ok, m),
     inc_getReal = \<lambda>_ _. 0, inc_getEventIndicator = \<lambda>_ _. 0, inc_eventIndicators = \<lambda>_ _. (fmi2_status_ok, []),
     inc_eventUpdate = \<lambda>_ e d. (e, d), inc_getPartial = \<lambda>_ _ _. (fmi2_status_error, 0), inc_doStep = arrays_doStep, inc_sync_initial = \<lambda>d. d,
     sim_instantiate = no_hook, sim_setup_experiment = no_hook, sim_enter_init = no_hook, sim_exit_init = no_hook\<rparr>"

definition demo_instance :: "unit ModelInstance" where
  "demo_instance = \<lparr>instanceName = ''body'', fmuResourceLocation = ''/fmu'', loggingOn = False,
     logCategories = [False, False, False, False], inst_s = zeroState demo_fmu\<rparr>"

lemma wrong_state_refused_witness:
  "\<exists>c'. exec_call demo_fmu (DoStep 0 1 True) demo_instance = Inr (fmi2_status_error, c') \<and> c' = set_state modelError demo_instance
     \<and> exec_call demo_fmu (DoStep 1 1 True) c' = Inr (fmi2_status_error, c')"
  by (rule wrong_state_refused) (simp add: demo_instance_def zeroState_def)

lemma error_is_final_witness:
  "\<exists>c'. session demo_fmu (set_state modelError demo_instance) [(Reset, fmi2_status_error)] c' \<and> inst_s c' = inst_s (set_state modelError demo_instance)"
proof -
  let ?c = "set_state modelError demo_instance"
  have "exec_call demo_fmu Reset ?c = Inr (fmi2_status_error, set_state modelError ?c)"
    by (simp add: fmi2Reset_def unless_refused state_bits)
  then have s: "session demo_fmu ?c [(Reset, fmi2_status_error)] (set_state modelError ?c)"
    using session.calls[OF session.begins] by fastforce
  from error_is_final[OF s] have "inst_s (set_state modelError ?c) = inst_s ?c" by (simp add: no_restore_def)
  with s show ?thesis by blast
qed

subsection \<open>A session in the right order\<close>

fun run_calls :: "'m includer \<Rightarrow> 'm fmi_call list \<Rightarrow> 'm ModelInstance \<Rightarrow> (fmi2_status list \<times> 'm ModelInstance) res" where
  "run_calls inc [] c = Inr ([], c)"
| "run_calls inc (q # qs) c = rbind (exec_call inc q c) (\<lambda>(st, c). rbind (run_calls inc qs c) (\<lambda>(sts, c). Inr (st # sts, c)))"

definition is_arrays :: "'m model_data \<Rightarrow> bool" where
  "is_arrays d \<longleftrightarrow> (\<forall>m. d \<noteq> Struct m)"

text \<open>The hooks and the step of an FMU with arrays; values that may be set and steps that may be taken.\<close>

definition sound_arrays :: "'m includer \<Rightarrow> bool" where
  "sound_arrays inc \<longleftrightarrow> FMI_COSIMULATION inc
     \<and> (\<forall>h\<in>{sim_setup_experiment inc, sim_enter_init inc, sim_exit_init inc}. \<forall>d. is_arrays d \<longrightarrow> fst (h d) = fmi2_status_ok \<and> is_arrays (snd (h d)))
     \<and> (\<forall>t h b d. is_arrays d \<longrightarrow> is_arrays (inc_doStep inc t h b d)) \<and> (\<forall>d. is_arrays d \<longrightarrow> is_arrays (inc_sync_initial inc d))"

fun in_order :: "'m includer \<Rightarrow> 'm fmi_call \<Rightarrow> bool" where
  "in_order inc (GetReal (Some vrs) avail) = ((avail \<or> vrs = []) \<and> (\<forall>vr\<in>set vrs. vr < NUMBER_OF_REALS inc))"
| "in_order inc (GetInteger (Some vrs) avail) = ((avail \<or> vrs = []) \<and> (\<forall>vr\<in>set vrs. vr < NUMBER_OF_INTEGERS inc))"
| "in_order inc (SetReal (Some vrs) (Some xs)) = (\<forall>vr\<in>set vrs. vr < NUMBER_OF_REALS inc)"
| "in_order inc (SetInteger (Some vrs) (Some xs)) = (\<forall>vr\<in>set vrs. vr < NUMBER_OF_INTEGERS inc)"
| "in_order inc _ = False"

fun step_in_order :: "'m includer \<Rightarrow> 'm fmi_call \<Rightarrow> bool" where
  "step_in_order inc (DoStep t h b) = (h > 0)"
| "step_in_order inc q = in_order inc q"

lemma is_arrays_cases [simp]: "is_arrays (Arrays r i b p)" "\<not> is_arrays (Struct m)"
  by (simp_all add: is_arrays_def)

lemma put_arrays [simp]: "is_arrays (put_r vr x d) = is_arrays d" "is_arrays (put_i vr y d) = is_arrays d" "is_arrays (put_b vr z d) = is_arrays d"
  by (simp_all add: put_r_def put_i_def put_b_def split: model_data.split)

lemma get_loop_ok: "\<forall>vr\<in>set vrs. vr < n \<Longrightarrow> get_loop n arr vrs c = ((fmi2_status_ok, map (\<lambda>vr. arr ! vr) vrs), c)"
  by (induction vrs) (simp_all add: unless_def vrOutOfRange_def)

lemma set_loop_ok:
  "\<forall>vr\<in>set vrs. vr < n \<Longrightarrow> set_loop n put vrs xs c = returns fmi2_status_ok (set_model (fold (\<lambda>(vr, x). put vr x) (zip vrs xs) (model_of c)) c)"
  by (induction n put vrs xs c rule: set_loop.induct) (simp_all add: unless_def vrOutOfRange_def set_model_def)

lemma set_model_same: "model_of c = d \<Longrightarrow> set_model d c = c"
  by (auto simp: set_model_def)

lemma get_vars_ok:
  assumes "state_of c \<noteq> modelInstantiated" and "is_arrays (model_of c)" and "avail \<or> vrs = []" and "\<forall>vr\<in>set vrs. vr < n"
  shows "get_vars n arr g (Some vrs) avail c = ((fmi2_status_ok, map (\<lambda>vr. arr (model_of c) ! vr) vrs), c)"
  using assms get_loop_ok[OF assms(4)]
  by (auto simp: get_vars_def unless_def invalidState_def state_bits nullPointer_def is_arrays_def split: model_data.split)

lemma set_vars_ok:
  assumes "state_flag (state_of c) AND states \<noteq> 0" and "is_arrays (model_of c)" and "\<forall>vr\<in>set vrs. vr < n"
  shows "set_vars states n put g (Some vrs) (Some xs) c
    = returns fmi2_status_ok (set_model (fold (\<lambda>(vr, x). put vr x) (zip vrs xs) (model_of c)) c)"
  using assms
  by (cases "model_of c")
     (auto simp: set_vars_def unless_def invalidState_def nullPointer_def Let_def set_loop_ok set_model_same)

lemma fold_put_arrays: "(\<And>vr x d. is_arrays (put vr x d) = is_arrays d) \<Longrightarrow> is_arrays (fold (\<lambda>(vr, x). put vr x) ps d) = is_arrays d"
  by (induction ps arbitrary: d) auto

text \<open>A call in the right order succeeds.\<close>

lemma in_order_ok:
  assumes "in_order inc q" and "sound_arrays inc" and "is_arrays (model_of c)"
    and "state_of c \<in> {modelInitializationMode, modelInitialized, modelStepping}"
  shows "\<exists>c'. exec_call inc q c = Inr (fmi2_status_ok, c') \<and> is_arrays (model_of c') \<and> state_of c' = state_of c"
proof -
  have flags: "state_flag (state_of c) AND MASK_fmi2SetX \<noteq> 0" "state_flag (state_of c) AND (MASK_fmi2SetX OR state_flag modelContinuousTimeMode) \<noteq> 0"
    "state_of c \<noteq> modelInstantiated" using assms(4) by (auto simp: state_bits)
  show ?thesis using assms flags
    by (cases "(inc, q)" rule: in_order.cases)
       (auto simp: fmi2GetReal_def fmi2GetInteger_def fmi2SetReal_def fmi2SetInteger_def get_vars_ok set_vars_ok fold_put_arrays sound_arrays_def)
qed

lemma step_in_order_ok:
  assumes "step_in_order inc q" and "sound_arrays inc" and "is_arrays (model_of c)" and "state_of c \<in> {modelInitialized, modelStepping}"
  shows "\<exists>c'. exec_call inc q c = Inr (fmi2_status_ok, c') \<and> is_arrays (model_of c') \<and> state_of c' \<in> {modelInitialized, modelStepping}"
proof (cases "\<exists>t h b. q = DoStep t h b")
  case True
  then show ?thesis using assms by (auto simp: fmi2DoStep_def unless_allowed state_bits sound_arrays_def)
next
  case False
  then have "in_order inc q" using assms(1) by (cases q) auto
  then show ?thesis using in_order_ok[of inc q c] assms by auto
qed

lemma run_calls_ok:
  assumes "\<And>q c. q \<in> set qs \<Longrightarrow> P c \<Longrightarrow> \<exists>c'. exec_call inc q c = Inr (fmi2_status_ok, c') \<and> P c'" and "P c"
  shows "\<exists>c'. run_calls inc qs c = Inr (replicate (length qs) fmi2_status_ok, c') \<and> P c'"
  using assms
proof (induction qs arbitrary: c)
  case (Cons q qs)
  obtain c1 where c1: "exec_call inc q c = Inr (fmi2_status_ok, c1)" "P c1" using Cons.prems(1)[of q c] Cons.prems(2) by auto
  obtain c2 where "run_calls inc qs c1 = Inr (replicate (length qs) fmi2_status_ok, c2)" "P c2" using Cons.IH[of c1] Cons.prems(1) c1(2) by auto
  with c1 show ?case by simp
qed simp

lemma run_calls_append:
  "run_calls inc qs c = Inr (sts, c1) \<Longrightarrow> run_calls inc qs' c1 = Inr (sts', c2) \<Longrightarrow> run_calls inc (qs @ qs') c = Inr (sts @ sts', c2)"
  by (induction qs arbitrary: c sts) (auto simp: rbind_eq_Inr)

abbreviation cosim_session :: "double \<Rightarrow> 'm fmi_call list \<Rightarrow> 'm fmi_call list \<Rightarrow> 'm fmi_call list" where
  "cosim_session t inits steps \<equiv>
     [SetupExperiment t, EnterInitializationMode] @ inits @ [ExitInitializationMode] @ steps @ [Terminate]"

text \<open>C33: a session in the order of the standard succeeds. For a co-simulation FMU with arrays, a session of instantiation, setup,
  initialization, calls on existing variables and positive steps, and termination gets only successes, and the instance is freed.\<close>

theorem session_in_order_succeeds:
  assumes "sound_arrays inc" and "\<forall>q\<in>set inits. in_order inc q" and "\<forall>q\<in>set steps. step_in_order inc q"
    and "is_arrays (model_of c)" and "state_of c = modelInstantiated"
  shows "\<exists>c'. run_calls inc (cosim_session t inits steps) c = Inr (replicate (length inits + length steps + 4) fmi2_status_ok, c')
     \<and> fmi2FreeInstance c' = None"
proof -
  have hook: "is_arrays d \<Longrightarrow> \<exists>d'. h d = (fmi2_status_ok, d') \<and> is_arrays d'"
    if "h \<in> {sim_setup_experiment inc, sim_enter_init inc, sim_exit_init inc}" for h d
    using assms(1) that by (cases "h d") (auto simp: sound_arrays_def)
  obtain c1 where c1: "run_calls inc [SetupExperiment t, EnterInitializationMode] c = Inr ([fmi2_status_ok, fmi2_status_ok], c1)"
    "is_arrays (model_of c1)" "state_of c1 = modelInitializationMode"
  proof -
    obtain d where d: "sim_setup_experiment inc (model_of c) = (fmi2_status_ok, d)" "is_arrays d" using hook assms(4) by blast
    obtain d' where "sim_enter_init inc d = (fmi2_status_ok, d')" "is_arrays d'" using hook d(2) by blast
    with d assms(5) show thesis
      by (intro that) (auto simp: fmi2SetupExperiment_def fmi2EnterInitializationMode_def unless_allowed state_bits run_hook_def)
  qed
  obtain c2 where c2: "run_calls inc inits c1 = Inr (replicate (length inits) fmi2_status_ok, c2)"
    "is_arrays (model_of c2) \<and> state_of c2 = modelInitializationMode"
    using run_calls_ok[of inits "\<lambda>c. is_arrays (model_of c) \<and> state_of c = modelInitializationMode" inc c1] in_order_ok assms(1,2) c1(2,3)
    by (metis insertCI)
  obtain d where d: "sim_exit_init inc (model_of c2) = (fmi2_status_ok, d)" "is_arrays d" using hook c2(2) by blast
  then obtain c3 where c3: "run_calls inc [ExitInitializationMode] c2 = Inr ([fmi2_status_ok], c3)"
    "is_arrays (model_of c3) \<and> state_of c3 \<in> {modelInitialized, modelStepping}"
    using c2(2) assms(1) by (auto simp: fmi2ExitInitializationMode_def unless_allowed state_bits run_hook_def sound_arrays_def)
  obtain c4 where c4: "run_calls inc steps c3 = Inr (replicate (length steps) fmi2_status_ok, c4)"
    "is_arrays (model_of c4) \<and> state_of c4 \<in> {modelInitialized, modelStepping}"
    using run_calls_ok[of steps "\<lambda>c. is_arrays (model_of c) \<and> state_of c \<in> {modelInitialized, modelStepping}" inc c3] step_in_order_ok assms(1,3) c3(2)
    by blast
  have c5: "run_calls inc [Terminate] c4 = Inr ([fmi2_status_ok], set_state modelTerminated c4)"
    using c4(2) by (auto simp: fmi2Terminate_def unless_allowed state_bits)
  have "run_calls inc (cosim_session t inits steps) c
    = Inr ([fmi2_status_ok, fmi2_status_ok] @ replicate (length inits) fmi2_status_ok @ [fmi2_status_ok]
        @ replicate (length steps) fmi2_status_ok @ [fmi2_status_ok], set_state modelTerminated c4)"
    by (intro run_calls_append[OF c1(1)] run_calls_append[OF c2(1)] run_calls_append[OF c3(1)] run_calls_append[OF c4(1)] c5)
  moreover have "[fmi2_status_ok, fmi2_status_ok] @ replicate (length inits) fmi2_status_ok @ [fmi2_status_ok]
        @ replicate (length steps) fmi2_status_ok @ [fmi2_status_ok] = replicate (length inits + length steps + 4) fmi2_status_ok"
    by (intro nth_equalityI) (auto simp: nth_append nth_Cons split: nat.split)
  ultimately show ?thesis by (simp add: fmi2FreeInstance_def invalidState_def state_bits)
qed

lemma demo_sound: "sound_arrays demo_fmu"
  by (auto simp: sound_arrays_def demo_fmu_def is_arrays_def split: model_data.split)

lemma demo_start [simp]: "is_arrays (model_of demo_instance)" "state_of demo_instance = modelInstantiated"
  by (simp_all add: demo_instance_def demo_fmu_def zeroState_def)

lemma session_in_order_succeeds_witness:
  "\<exists>c'. run_calls demo_fmu (cosim_session 0 [SetReal (Some [1]) (Some [2])] [DoStep 0 1 True, GetReal (Some [0]) True]) demo_instance
       = Inr (replicate 7 fmi2_status_ok, c') \<and> fmi2FreeInstance c' = None"
  using session_in_order_succeeds[of demo_fmu "[SetReal (Some [1]) (Some [2])]" "[DoStep 0 1 True, GetReal (Some [0]) True]" demo_instance 0]
    demo_sound by (simp add: demo_fmu_def)

lemma step_needs_initialization_witness:
  "\<exists>us a vs b ws. [(SetupExperiment 0 :: unit fmi_call, fmi2_status_ok), (EnterInitializationMode, fmi2_status_ok), (ExitInitializationMode, fmi2_status_ok)]
      = us @ (EnterInitializationMode, a) # vs @ (ExitInitializationMode, b) # ws \<and> (Reset, fmi2_status_ok) \<notin> set vs \<union> set ws"
proof -
  let ?c1 = "demo_instance" and ?c2 = "set_state modelInitializationMode demo_instance" and ?c3 = "set_state modelInitialized demo_instance"
  have upd: "set_model (model_of c) c = c" "c\<lparr>inst_s := inst_s c\<lparr>s_time := s_time (inst_s c)\<rparr>\<rparr> = c" for c :: "unit ModelInstance"
    by (simp_all add: set_model_def)
  have t: "s_time (inst_s demo_instance) = 0" by (simp add: demo_instance_def zeroState_def)
  have e: "exec_call demo_fmu (SetupExperiment 0) ?c1 = Inr (fmi2_status_ok, ?c1)"
    "exec_call demo_fmu EnterInitializationMode ?c1 = Inr (fmi2_status_ok, ?c2)"
    "exec_call demo_fmu ExitInitializationMode ?c2 = Inr (fmi2_status_ok, ?c3)"
    using upd(2)[of demo_instance] t
    by (simp_all add: fmi2SetupExperiment_def fmi2EnterInitializationMode_def fmi2ExitInitializationMode_def unless_allowed state_bits
        run_hook_def demo_fmu_def upd(1) set_state_def set_model_def)
  have s: "session demo_fmu ?c1 (([] @ [(SetupExperiment 0, fmi2_status_ok)]) @ [(EnterInitializationMode, fmi2_status_ok)] @ [(ExitInitializationMode, fmi2_status_ok)]) ?c3"
    using session.calls[OF session.calls[OF session.calls[OF session.begins e(1)] e(2)] e(3)] by simp
  show ?thesis
    using step_needs_initialization[OF s, of 0 1 True]
    by (simp add: no_restore_def fmi2DoStep_def unless_allowed state_bits demo_fmu_def)
qed

subsection \<open>Values\<close>

lemma fold_put_r: "fold (\<lambda>(vr, x). put_r vr x) ps (Arrays r i b p) = Arrays (fold (\<lambda>(vr, x) r. r[vr := x]) ps r) i b p"
  by (induction ps arbitrary: r) (auto simp: put_r_def)

lemma fold_update_other: "j \<notin> fst ` set ps \<Longrightarrow> fold (\<lambda>(vr, x) r. r[vr := x]) ps r ! j = r ! j"
  by (induction ps arbitrary: r) auto

lemma fold_update_length [simp]: "length (fold (\<lambda>(vr, x) r. r[vr := x]) ps r) = length r"
  by (induction ps arbitrary: r) auto

lemma fold_update_map:
  assumes "distinct vrs" and "length xs = length vrs" and "\<forall>vr\<in>set vrs. vr < length r"
  shows "map (\<lambda>vr. fold (\<lambda>(vr, x) r. r[vr := x]) (zip vrs xs) r ! vr) vrs = xs"
  using assms
proof (induction vrs arbitrary: xs r)
  case (Cons v vrs)
  then obtain x xs' where xs: "xs = x # xs'" by (cases xs) auto
  have "v \<notin> fst ` set (zip vrs xs')" using Cons.prems(1) by (auto dest: set_zip_leftD)
  then show ?case using Cons.IH[of xs' "r[v := x]"] Cons.prems xs by (simp add: fold_update_other)
qed simp

lemma set_loop_range: "set_loop n put vrs xs c = returns fmi2_status_ok c1 \<Longrightarrow> length xs = length vrs \<Longrightarrow> \<forall>vr\<in>set vrs. vr < n"
  by (induction n put vrs xs c rule: set_loop.induct) (auto simp: unless_def vrOutOfRange_def split: if_splits)

lemma set_real_range:
  assumes "fmi2SetReal inc (Some vrs) (Some xs) c = returns fmi2_status_ok c1" and "model_of c = Arrays r i b p" and "length xs = length vrs"
  shows "\<forall>vr\<in>set vrs. vr < NUMBER_OF_REALS inc"
proof (cases "vrs = []")
  case False
  then obtain c2 where "set_loop (NUMBER_OF_REALS inc) put_r vrs xs c = returns fmi2_status_ok c2"
    using assms(1,2) by (auto simp: fmi2SetReal_def set_vars_def unless_def invalidState_def nullPointer_def Let_def split: if_splits prod.splits)
  then show ?thesis using set_loop_range assms(3) by blast
qed simp

text \<open>C34: values that are set are read back. After a successful call of fmi2SetReal on distinct references, outside the initialization,
  fmi2GetReal returns the values for these references and the old value of every other variable, and the other variables are kept.\<close>

theorem set_get_real:
  assumes "fmi2SetReal inc (Some vrs) (Some xs) c = returns fmi2_status_ok c1" and "model_of c = Arrays r i b p" and "length r = NUMBER_OF_REALS inc"
    and "distinct vrs" and "length xs = length vrs" and "state_of c \<in> {modelInitialized, modelStepping, modelEventMode, modelContinuousTimeMode}"
  shows "fmi2GetReal inc (Some vrs) True c1 = ((fmi2_status_ok, xs), c1)
     \<and> (\<forall>j. j < NUMBER_OF_REALS inc \<longrightarrow> j \<notin> set vrs \<longrightarrow> fmi2GetReal inc (Some [j]) True c1 = ((fmi2_status_ok, [r ! j]), c1))
     \<and> (\<exists>r'. model_of c1 = Arrays r' i b p)"
proof -
  let ?m = "MASK_fmi2SetX OR state_flag modelContinuousTimeMode"
  have flag: "state_flag (state_of c) AND ?m \<noteq> 0" using assms(6) by (auto simp: state_bits)
  have range: "\<forall>vr\<in>set vrs. vr < NUMBER_OF_REALS inc"
    by (rule set_real_range[OF assms(1,2,5)])
  let ?r = "fold (\<lambda>(vr, x) r. r[vr := x]) (zip vrs xs) r"
  have c1: "c1 = set_model (Arrays ?r i b p) c"
    using assms(1,2,6) by (auto simp: fmi2SetReal_def set_vars_ok[OF flag _ range] fold_put_r)
  have st: "state_of c1 \<noteq> modelInstantiated" "is_arrays (model_of c1)" "arr_r (model_of c1) = ?r" using c1 assms(6) by auto
  have other: "?r ! j = r ! j" if "j \<notin> set vrs" for j using that by (intro fold_update_other) (auto dest: set_zip_leftD)
  have model: "\<exists>r'. model_of c1 = Arrays r' i b p" using c1 by simp
  have "map ((!) ?r) vrs = xs" using fold_update_map[of vrs xs r] assms(3,4,5) range by simp
  then show ?thesis
    using st(3) range other model by (simp add: fmi2GetReal_def get_vars_ok[OF st(1,2)])
qed

lemma demo_values [simp]: "NUMBER_OF_REALS demo_fmu = 2" "model_of demo_instance = Arrays [0, 0] [0] [False] [False]"
  by (simp_all add: demo_fmu_def demo_instance_def zeroState_def)

lemma set_get_real_witness:
  "let c = set_state modelStepping demo_instance in
     \<exists>c1. fmi2SetReal demo_fmu (Some [1]) (Some [5]) c = returns fmi2_status_ok c1 \<and> fmi2GetReal demo_fmu (Some [1]) True c1 = ((fmi2_status_ok, [5]), c1)"
proof -
  let ?c = "set_state modelStepping demo_instance" and ?c1 = "set_model (Arrays [0, 5] [0] [False] [False]) (set_state modelStepping demo_instance)"
  have "fmi2SetReal demo_fmu (Some [1]) (Some [5]) ?c = returns fmi2_status_ok ?c1"
    by (simp add: fmi2SetReal_def set_vars_ok state_bits put_r_def)
  moreover from set_get_real[OF this, of "[0, 0]" "[0]" "[False]" "[False]"]
  have "fmi2GetReal demo_fmu (Some [1]) True ?c1 = ((fmi2_status_ok, [5]), ?c1)"
    by simp
  ultimately show ?thesis by (auto simp: Let_def)
qed

subsection \<open>Resource locations\<close>

text \<open>The digits of a byte and an encoder of paths: the characters in \<open>plain\<close> stay, the others are escaped.\<close>

definition hex_digit :: "nat \<Rightarrow> char" where
  "hex_digit n = ''0123456789ABCDEF'' ! n"

definition escape_char :: "(char \<Rightarrow> bool) \<Rightarrow> char \<Rightarrow> string" where
  "escape_char plain c = (if plain c \<and> c \<noteq> CHR ''%'' then [c] else [CHR ''%'', hex_digit (of_char c div 16), hex_digit (of_char c mod 16)])"

definition file_uri :: "(char \<Rightarrow> bool) \<Rightarrow> string \<Rightarrow> string" where
  "file_uri plain path = ''file://'' @ concat (map (escape_char plain) path)"

lemma hex_digit_cases: "n < 16 \<Longrightarrow> isHex (hex_digit n) \<and> hex2Int (hex_digit n) = int n"
proof -
  have "\<forall>n\<in>set [0..<16]. isHex (hex_digit n) \<and> hex2Int (hex_digit n) = int n" by code_simp
  then show "n < 16 \<Longrightarrow> ?thesis" by simp
qed

lemma unescape_escape: "unescape_loop (Suc n) (escape_char plain c @ uri) = map_option ((#) c) (unescape_loop n uri)"
proof -
  have b: "of_char c div 16 < (16::nat)" "of_char c mod 16 < (16::nat)" using nat_of_char_less_256[of c] by (simp_all add: less_mult_imp_div_less)
  have "16 * int (of_char c div 16) + int (of_char c mod 16) = int (of_char c)" by presburger
  then have "char_of (16 * int (of_char c div 16) + int (of_char c mod 16)) = c" by simp
  then show ?thesis using hex_digit_cases[OF b(1)] hex_digit_cases[OF b(2)] by (simp add: escape_char_def)
qed

lemma unescape_escaped: "unescape_loop n (concat (map (escape_char plain) path)) = (if length path < n then Some path else None)"
proof (induction path arbitrary: n)
  case Nil
  then show ?case by (cases n) auto
next
  case (Cons c path)
  then show ?case by (cases n) (auto simp: unescape_escape)
qed

text \<open>A path survives its encoding as a URI. Whatever characters are escaped, unescaping gives back the path if it fits into the buffer
  with its terminating zero, and an error otherwise.\<close>

theorem uri_roundtrip: "unescapeFileURI (file_uri plain path) n = (if length path < n then Some path else None)"
  by (simp add: unescapeFileURI_def file_uri_def unescape_escaped)

end
