(* ===== verification/Command_Line.thy ===== *)
theory Command_Line
  imports Exec_Order_Rends Strong_Connector "HOL-Library.AList"
begin

text \<open>
  The command line of the master (\<^verbatim>\<open>parseArguments\<close> in src/master/parseargs.cpp, without MPI): the options as \<^verbatim>\<open>getopt\<close> finds them, the
  connections, the argument files, the checks at the end and the execution order. The contents of files are a parameter.
  Numbers in hexadecimal and infinite numbers are not read by \<open>scans_real\<close>, as by \<open>atof\<close>. Messages are left out.
\<close>

subsection \<open>What is parsed\<close>

record connection_option =
  c_needs_type :: bool
  c_fromType :: fmi2_base_type
  c_fromFMU :: int
  c_toType :: fmi2_base_type
  c_toFMU :: int
  c_slope :: double
  c_intercept :: double
  c_from :: string   \<comment> \<open>\<^verbatim>\<open>fromOutputVRorNAME\<close>\<close>
  c_to :: string     \<comment> \<open>\<^verbatim>\<open>toInputVRorNAME\<close>\<close>

datatype FILEFORMAT = csv | tikz | mat5 | mat5_zlib | no_output

datatype METHOD = method_none | jacobi | gs

record options =
  o_connections :: "connection_option list"
  o_params :: "string list list"
  o_tEnd :: double
  o_timeStep :: double
  o_loglevel :: jm_log_level
  o_outFilePath :: string
  o_fileFormat :: FILEFORMAT
  o_realtimeMode :: bool
  o_executionOrder :: "Rend list"
  o_fmuVisibilities :: "int list"
  o_strongConnections :: "strongconnection list"
  o_hdf5Filename :: string
  o_fieldnameFilename :: string
  o_holonomic :: bool
  o_compliance :: double
  o_relaxation :: double
  o_command_port :: int
  o_results_port :: int
  o_paused :: bool
  o_solveLoops :: bool
  o_useHeadersInCSV :: bool
  o_csv_fmu :: "(int \<times> csv_matrix) list"
  o_maxSamples :: int
  o_writeSolverFields :: bool
  o_numericalDerivatives :: bool
  o_method :: METHOD
  o_g :: "int list"

text \<open>The values \<^verbatim>\<open>main\<close> sets before; the log level is a parameter.\<close>

definition default_options :: "jm_log_level \<Rightarrow> options" where
  "default_options loglevel = \<lparr>o_connections = [], o_params = [], o_tEnd = 10, o_timeStep = 1 / 10, o_loglevel = loglevel, o_outFilePath = [],
     o_fileFormat = csv, o_realtimeMode = False, o_executionOrder = [], o_fmuVisibilities = [], o_strongConnections = [], o_hdf5Filename = [],
     o_fieldnameFilename = [], o_holonomic = True, o_compliance = 0, o_relaxation = 2, o_command_port = 0, o_results_port = 0,
     o_paused = False, o_solveLoops = False, o_useHeadersInCSV = False, o_csv_fmu = [], o_maxSamples = -1, o_writeSolverFields = False,
     o_numericalDerivatives = False, o_method = method_none, o_g = []\<rparr>"

text \<open>The environment: files by name, the standard input, expat.\<close>

record environment =
  file_content :: "string \<Rightarrow> string option"
  standard_input :: string
  expat :: "string \<Rightarrow> xml_event list option"

subsection \<open>Connections\<close>

definition connection_of :: "bool \<Rightarrow> fmi2_base_type \<Rightarrow> fmi2_base_type \<Rightarrow> double \<Rightarrow> double \<Rightarrow> string \<Rightarrow> string \<Rightarrow> string \<Rightarrow> string \<Rightarrow> connection_option" where
  "connection_of nt ft tt k m fromF from_v toF to_v = \<lparr>c_needs_type = nt, c_fromType = ft, c_fromFMU = atoi fromF, c_toType = tt, c_toFMU = atoi toF,
     c_slope = k, c_intercept = m, c_from = from_v, c_to = to_v\<rparr>"

definition parse_connection :: "string list \<Rightarrow> connection_option res" where
  "parse_connection v =
     (if length v = 8
      then if \<not> isVR (v ! 2) \<or> \<not> isVR (v ! 5) then Inl (Fatal ''TYPEFROM,FMUFROM,NAMEFROM,TYPETO,FMUTO,NAMETO,k,m syntax not allowed'')
           else rbind (type_from_char (v ! 0)) (\<lambda>ft. rbind (type_from_char (v ! 3)) (\<lambda>tt.
             Inr (connection_of False ft tt (atof (v ! 6)) (atof (v ! 7)) (v ! 1) (v ! 2) (v ! 4) (v ! 5))))
      else if length v = 6
      then if isVR (v ! 1)
           then rbind (type_from_char (v ! 0)) (\<lambda>ft. rbind (type_from_char (v ! 3)) (\<lambda>tt.
             Inr (connection_of False ft tt 1 0 (v ! 1) (v ! 2) (v ! 4) (v ! 5))))
           else Inr (connection_of True fmi2_base_type_real fmi2_base_type_real (atof (v ! 4)) (atof (v ! 5)) (v ! 0) (v ! 1) (v ! 2) (v ! 3))
      else if length v = 5
      then rbind (type_from_char (v ! 0)) (\<lambda>ty. Inr (connection_of False ty ty 1 0 (v ! 1) (v ! 2) (v ! 3) (v ! 4)))
      else if length v = 4
      then if isVR (v ! 1) \<noteq> isVR (v ! 3) then Inl (Fatal ''Must specify VRs or names, not both'')
           else Inr (connection_of (\<not> isVR (v ! 1)) fmi2_base_type_real fmi2_base_type_real 1 0 (v ! 0) (v ! 1) (v ! 2) (v ! 3))
      else Inl (Fatal ''Bad param''))"

definition parse_strong_connection :: "string list \<Rightarrow> strongconnection res" where
  "parse_strong_connection v =
     (if length v < 3 then Inl (Fatal ''Bad strong connection specification'')
      else let multi = (v ! 0 = ''multiway''); N = (if multi then atoi (v ! 1) else 2); ofs = (if multi then 2 else 1) in
        if multi \<and> N < 2 then Inl (Fatal ''Multiway constraints must have N>=2'')
        else if length v < ofs + nat N then Inl (UB ''values'')
        else Inr \<lparr>sc_type = v ! 0, sc_fmus = map atoi (take (nat N) (drop ofs v)), sc_vrORname = drop (ofs + nat N) v\<rparr>)"

subsection \<open>Numbers\<close>

text \<open>Whether \<^verbatim>\<open>sscanf\<close> finds a number with \<^verbatim>\<open>%lf\<close>, and what it reads with \<^verbatim>\<open>%i\<close>: decimal, octal or hexadecimal.\<close>

definition scans_real :: "string \<Rightarrow> bool" where
  "scans_real s = (let r = snd (strip_sign (dropWhile isspace s)); ip = takeWhile isdigit r; r = dropWhile isdigit r in
     ip \<noteq> [] \<or> (case r of [] \<Rightarrow> False | c # cs \<Rightarrow> c = CHR ''.'' \<and> takeWhile isdigit cs \<noteq> []))"

definition in_base :: "int \<Rightarrow> char \<Rightarrow> int option" where
  "in_base b c = (let k = of_char c; d = (if 48 \<le> k \<and> k \<le> 57 then k - 48 else if 97 \<le> k \<and> k \<le> 102 then k - 87
      else if 65 \<le> k \<and> k \<le> 70 then k - 55 else 99) in if d < b then Some d else None)"

definition scan_int :: "string \<Rightarrow> int option" where
  "scan_int s =
     (let (neg, r) = strip_sign (dropWhile isspace s);
          (b, r) = (case r of c # x # cs \<Rightarrow> if c = CHR ''0'' \<and> x \<in> {CHR ''x'', CHR ''X''} then (16, cs) else if c = CHR ''0'' then (8, r) else (10, r)
                    | [c] \<Rightarrow> (10, r) | [] \<Rightarrow> (10, r));
          ds = takeWhile (\<lambda>c. in_base b c \<noteq> None) r;
          v = foldl (\<lambda>acc c. acc * b + the (in_base b c)) 0 ds
      in if ds = [] then None else Some (to_int32 (max (- (2 ^ 63)) (min (2 ^ 63 - 1) (if neg then - v else v)))))"

subsection \<open>Options\<close>

definition fileFormat_of :: "string \<Rightarrow> FILEFORMAT res" where
  "fileFormat_of s = (if s = ''csv'' then Inr csv else if s = ''tikz'' then Inr tikz else if s = ''mat5'' then Inr mat5
     else if s = ''mat5_zlib'' then Inr mat5_zlib else if s = ''none'' then Inr no_output else Inl (Fatal ''File format not recognized''))"

definition csv_option :: "environment \<Rightarrow> string \<Rightarrow> options \<Rightarrow> options res" where
  "csv_option env arg o' =
     rbind (escapeSplit arg (CHR '','')) (\<lambda>v.
       if length v \<noteq> 2 then Inl (Fatal ''Option -V requires two arguments'')
       else rbind (fmigo_CSV_matrix (case file_content env (v ! 1) of None \<Rightarrow> [] | Some t \<Rightarrow> t) (CHR '','')) (\<lambda>m.
         Inr (o'\<lparr>o_csv_fmu := AList.update (atoi (v ! 0)) m (o_csv_fmu o')\<rparr>)))"

definition port_option :: "string list \<Rightarrow> options \<Rightarrow> options res" where
  "port_option parts o' =
     (if length parts < 1 \<or> length parts > 2 then Inl (Fatal ''-z must have exactly one or two parts'')
      else let o' = o'\<lparr>o_command_port := atoi (parts ! 0)\<rparr> in
        Inr (if length parts = 2 then o'\<lparr>o_fileFormat := no_output, o_results_port := atoi (parts ! 1)\<rparr> else o'))"

text \<open>An option with an argument. Every argument is split at colons first, which may already end the program.\<close>

definition option_with_argument :: "environment \<Rightarrow> char \<Rightarrow> string \<Rightarrow> options \<Rightarrow> options res" where
  "option_with_argument env c arg o' =
     rbind (escapeSplit arg (CHR '':'')) (\<lambda>parts.
       if c = CHR ''c'' then rbind (rmap (\<lambda>p. rbind (escapeSplit p (CHR '','')) parse_connection) parts)
           (\<lambda>cs. Inr (o'\<lparr>o_connections := o_connections o' @ cs\<rparr>))
       else if c = CHR ''C'' then rbind (rmap (\<lambda>p. rbind (escapeSplit p (CHR '','')) parse_strong_connection) parts)
           (\<lambda>cs. Inr (o'\<lparr>o_strongConnections := o_strongConnections o' @ cs\<rparr>))
       else if c = CHR ''d'' then (if scans_real arg then Inr (o'\<lparr>o_timeStep := atof arg\<rparr>) else Inl (Exit 1))
       else if c = CHR ''t'' then (if scans_real arg then Inr (o'\<lparr>o_tEnd := atof arg\<rparr>) else Inl (Exit 1))
       else if c = CHR ''S'' then (case scan_int arg of Some n \<Rightarrow> Inr (o'\<lparr>o_maxSamples := n\<rparr>) | None \<Rightarrow> Inl (Exit 1))
       else if c = CHR ''f'' then rbind (fileFormat_of arg) (\<lambda>f. Inr (o'\<lparr>o_fileFormat := f\<rparr>))
       else if c = CHR ''l'' then rbind (logOptionToJMLogLevel arg) (\<lambda>l. Inr (o'\<lparr>o_loglevel := l\<rparr>))
       else if c = CHR ''m'' then
         (if arg = ''jacobi'' then Inr (o'\<lparr>o_method := jacobi\<rparr>) else if arg = ''gs'' then Inr (o'\<lparr>o_method := gs\<rparr>)
          else Inl (Fatal ''Method not recognized''))
       else if c = CHR ''g'' then
         (if o_executionOrder o' \<noteq> [] then Inl (Fatal ''Do not use -g and -G together'')
          else rbind (escapeSplit arg (CHR '','')) (\<lambda>ss. Inr (o'\<lparr>o_g := o_g o' @ map atoi ss\<rparr>)))
       else if c = CHR ''G'' then
         (if o_g o' \<noteq> [] then Inl (Fatal ''Do not use -g and -G together'')
          else rbind (executionOrderFromXML (expat env) arg) (\<lambda>rs. Inr (o'\<lparr>o_executionOrder := rs\<rparr>)))
       else if c = CHR ''o'' then Inr (o'\<lparr>o_outFilePath := arg\<rparr>)
       else if c = CHR ''p'' then
         rbind (rmap (\<lambda>p. rbind (escapeSplit p (CHR '','')) (\<lambda>v. if length v < 3 \<or> length v > 4
             then Inl (Fatal ''Parameters must have exactly 3 or 4 parts'') else Inr v)) parts)
           (\<lambda>ps. Inr (o'\<lparr>o_params := o_params o' @ ps\<rparr>))
       else if c = CHR ''w'' then Inr (o'\<lparr>o_fmuVisibilities := o_fmuVisibilities o' @ map atoi parts\<rparr>)
       else if c = CHR ''5'' then Inr (o'\<lparr>o_hdf5Filename := arg\<rparr>)
       else if c = CHR ''F'' then Inr (o'\<lparr>o_fieldnameFilename := arg\<rparr>)
       else if c = CHR ''M'' then Inr (o'\<lparr>o_compliance := atof arg\<rparr>)
       else if c = CHR ''z'' then port_option parts o'
       else if c = CHR ''V'' then csv_option env arg o'
       else Inl (Fatal ''abort''))"

text \<open>An option without one. \<^verbatim>\<open>R\<close> is among them in the string given to \<^verbatim>\<open>getopt\<close>, but its argument is read.\<close>

definition plain_option :: "char \<Rightarrow> options \<Rightarrow> options res" where
  "plain_option c o' =
     (if c = CHR ''h'' then Inl (Exit 1)
      else if c = CHR ''r'' then Inr (o'\<lparr>o_realtimeMode := True\<rparr>)
      else if c = CHR ''H'' then Inr (o'\<lparr>o_useHeadersInCSV := True\<rparr>)
      else if c = CHR ''N'' then Inr (o'\<lparr>o_holonomic := False\<rparr>)
      else if c = CHR ''R'' then Inl (UB ''atof(NULL)'')
      else if c = CHR ''Z'' then Inr (o'\<lparr>o_paused := True\<rparr>)
      else if c = CHR ''L'' then Inr (o'\<lparr>o_solveLoops := True\<rparr>)
      else if c = CHR ''D'' then Inr (o'\<lparr>o_numericalDerivatives := True\<rparr>)
      else if c = CHR ''e'' then Inl (Exit 0)
      else if c = CHR ''E'' then Inr (o'\<lparr>o_writeSolverFields := True\<rparr>)
      else Inl (Fatal ''abort''))"

subsection \<open>Finding the options\<close>

text \<open>\<^verbatim>\<open>getopt\<close> with \<^verbatim>\<open>"rl:ht:c:d:o:p:f:m:g:w:C:5:F:NM:a:z:ZLHV:DeS:G:RE"\<close>: the next option or the end, with the rest of the
  current word, the words to come and the words that are no options, which it moves to the end.\<close>

definition takes_argument :: "char \<Rightarrow> bool" where
  "takes_argument c = (c \<in> set ''ltcdopfmgwC5FMazVSG'')"

definition is_plain :: "char \<Rightarrow> bool" where
  "is_plain c = (c \<in> set ''rhNZLHDeRE'')"

datatype found = Found char "string option" | Bad_option | No_more

record scanner =
  nextchar :: string
  argv :: "string list"         \<comment> \<open>the words to come\<close>
  nonoptions :: "string list"   \<comment> \<open>from \<^verbatim>\<open>first_nonopt\<close> to \<^verbatim>\<open>last_nonopt\<close>\<close>
  passed :: "string list"       \<comment> \<open>the words before those to come, in the order of \<^verbatim>\<open>argvstore\<close>\<close>
  option_at :: nat              \<comment> \<open>how many words are before that of the last option\<close>
  stdin_text :: string          \<comment> \<open>what has not been read of the standard input\<close>

definition found_in_word :: "scanner \<Rightarrow> found \<times> scanner" where
  "found_in_word s =
     (let c = hd (nextchar s); cs = List.tl (nextchar s) in
      if takes_argument c
      then if cs \<noteq> [] then (Found c (Some cs), s\<lparr>nextchar := []\<rparr>)
           else (case argv s of [] \<Rightarrow> (Bad_option, s) | a # as \<Rightarrow> (Found c (Some a), s\<lparr>nextchar := [], argv := as, passed := passed s @ [a]\<rparr>))
      else if is_plain c then (Found c None, s\<lparr>nextchar := cs\<rparr>)
      else (Bad_option, s))"

function getopt :: "scanner \<Rightarrow> found \<times> scanner" where
  "getopt s =
     (if nextchar s \<noteq> [] then found_in_word s
      else case argv s of
        [] \<Rightarrow> (No_more, s)
      | a # as \<Rightarrow>
          if a = ''--'' then (No_more, s\<lparr>argv := [], nonoptions := nonoptions s @ as\<rparr>)
          else if length a > 1 \<and> hd a = CHR ''-'' then found_in_word (s\<lparr>nextchar := List.tl a, argv := as, passed := passed s @ [a], option_at := length (passed s)\<rparr>)
          else getopt (s\<lparr>argv := as, nonoptions := nonoptions s @ [a], passed := passed s @ [a]\<rparr>))"
  by auto
termination by (relation "measure (\<lambda>s. length (argv s))") auto

declare getopt.simps [simp del]

subsection \<open>Argument files\<close>

text \<open>\<^verbatim>\<open>ifs >> std::quoted(token)\<close> until it fails.\<close>

fun quoted_body :: "string \<Rightarrow> (string \<times> string) option" where
  "quoted_body [] = None"
| "quoted_body (c # cs) =
     (if c = CHR 0x5C then (case cs of [] \<Rightarrow> None | d # ds \<Rightarrow> map_option (\<lambda>(t, r). (d # t, r)) (quoted_body ds))
      else if c = CHR 0x22 then Some ([], cs)
      else map_option (\<lambda>(t, r). (c # t, r)) (quoted_body cs))"

lemma quoted_body_shorter: "quoted_body s = Some (t, r) \<Longrightarrow> length r < length s"
  by (induction s arbitrary: t r rule: quoted_body.induct) (fastforce split: if_splits list.splits)+

function tokens :: "string \<Rightarrow> string list" where
  "tokens s =
     (case dropWhile isspace s of
        [] \<Rightarrow> []
      | c # cs \<Rightarrow>
          if c = CHR 0x22 then (case quoted_body cs of None \<Rightarrow> [] | Some (t, r) \<Rightarrow> t # tokens r)
          else takeWhile (\<lambda>c. \<not> isspace c) (c # cs) # tokens (dropWhile (\<lambda>c. \<not> isspace c) (c # cs)))"
  by auto
termination
proof (relation "measure length")
  show "(r, s) \<in> measure length" if "dropWhile isspace s = c # cs" "quoted_body cs = Some x" "(t, r) = x" for s c cs x t r
  proof -
    have "length r < length (dropWhile isspace s)" using that quoted_body_shorter[of cs t r] by simp
    also have "\<dots> \<le> length s" by (rule length_dropWhile_le)
    finally show ?thesis by simp
  qed
  show "(dropWhile (\<lambda>c. \<not> isspace c) (c # cs), s) \<in> measure length" if "dropWhile isspace s = c # cs" for s c cs
  proof -
    have "\<not> isspace c" using that by (metis hd_dropWhile list.discI list.sel(1))
    then have "length (dropWhile (\<lambda>c. \<not> isspace c) (c # cs)) \<le> length cs" using length_dropWhile_le by simp
    also have "\<dots> < length (dropWhile isspace s)" using that by simp
    also have "\<dots> \<le> length s" by (rule length_dropWhile_le)
    finally show ?thesis by simp
  qed
qed simp

declare tokens.simps [simp del]

text \<open>The tokens go before the words to come. \<^verbatim>\<open>getopt\<close> moves words that are no options behind the options, in \<^verbatim>\<open>argv2\<close> only, and remembers where
  they are: right before the word of the last option. Now \<^verbatim>\<open>argv2\<close> is made again from \<^verbatim>\<open>argvstore\<close>, where nothing has been moved, and the words at
  these places may be others.\<close>

definition nonoptions_again :: "scanner \<Rightarrow> string list" where
  "nonoptions_again s = (let before = take (option_at s) (passed s) in drop (length before - length (nonoptions s)) before)"

definition insert_tokens :: "string \<Rightarrow> scanner \<Rightarrow> scanner res" where
  "insert_tokens text s =
     (let ts = tokens text in
       if ''-a'' \<in> set ts then Inl (Fatal ''Found -a token in argument file'')
       else Inr (s\<lparr>argv := ts @ argv s, nonoptions := nonoptions_again s\<rparr>))"

definition add_args :: "environment \<Rightarrow> string \<Rightarrow> scanner \<Rightarrow> scanner res" where
  "add_args env filename s =
     (if filename = ''-'' then insert_tokens (stdin_text s) (s\<lparr>stdin_text := []\<rparr>)
      else case file_content env filename of
        None \<Rightarrow> Inl (Fatal ''Could not open file to parse more arguments'')
      | Some t \<Rightarrow> insert_tokens t s)"

subsection \<open>The loop\<close>

definition handle_found :: "environment \<Rightarrow> char \<Rightarrow> string option \<Rightarrow> options \<times> scanner \<Rightarrow> (options \<times> scanner) res" where
  "handle_found env c arg = (\<lambda>(o', s).
     case arg of
       None \<Rightarrow> rbind (plain_option c o') (\<lambda>o'. Inr (o', s))
     | Some a \<Rightarrow>
         if c = CHR ''a'' then rbind (escapeSplit a (CHR '':'')) (\<lambda>_. rbind (add_args env a s) (\<lambda>s. Inr (o', s)))
         else rbind (option_with_argument env c a o') (\<lambda>o'. Inr (o', s)))"

text \<open>\<open>None\<close>: the loop does not end.\<close>

partial_function (option) parse_loop :: "environment \<Rightarrow> options \<times> scanner \<Rightarrow> (options \<times> string list) res option" where
  "parse_loop env st =
     (case getopt (snd st) of
        (No_more, s) \<Rightarrow> Some (Inr (fst st, nonoptions s))
      | (Bad_option, s) \<Rightarrow> Some (Inl (Fatal ''Unknown option or missing argument''))
      | (Found c arg, s) \<Rightarrow>
          (case handle_found env c arg (fst st, s) of Inl e \<Rightarrow> Some (Inl e) | Inr st' \<Rightarrow> parse_loop env st'))"

subsection \<open>The checks at the end\<close>

definition check_connection :: "nat \<Rightarrow> connection_option \<Rightarrow> unit res" where
  "check_connection n c =
     (if c_fromFMU c < 0 \<or> int n \<le> c_fromFMU c then Inl (Fatal ''Connection connects from FMU, which does not exist'')
      else if c_toFMU c < 0 \<or> int n \<le> c_toFMU c then Inl (Fatal ''Connection connects to FMU, which does not exist'')
      else Inr ())"

definition check_strong_connection :: "nat \<Rightarrow> strongconnection \<Rightarrow> unit res" where
  "check_strong_connection n sc =
     (if \<exists>f\<in>set (sc_fmus sc). f < 0 \<or> int n \<le> f then Inl (Fatal ''Strong connection connects from FMU, which does not exist'') else Inr ())"

definition choose_order :: "nat \<Rightarrow> options \<Rightarrow> options res" where
  "choose_order n o' =
     (if o_method o' = jacobi \<or> o_method o' = method_none \<and> o_executionOrder o' = []
      then if o_g o' \<noteq> [] then Inl (Fatal ''You may not use -g and -m jacobi together'')
           else Inr (o'\<lparr>o_executionOrder := jacobiOrder n\<rparr>)
      else if o_method o' = gs then rbind (gsOrder (o_g o') n) (\<lambda>rs. Inr (o'\<lparr>o_executionOrder := rs\<rparr>))
      else Inr o')"

definition finish_parsing :: "options \<times> string list \<Rightarrow> (options \<times> string list) res" where
  "finish_parsing = (\<lambda>(o', fmus).
     if fmus = [] then Inl (Exit 1)
     else rbind (rfold (\<lambda>c _. check_connection (length fmus) c) (o_connections o') ()) (\<lambda>_.
       rbind (rfold (\<lambda>sc _. check_strong_connection (length fmus) sc) (o_strongConnections o') ()) (\<lambda>_.
       rbind (choose_order (length fmus) o') (\<lambda>o'. Inr (o', fmus)))))"

definition start_scanner :: "environment \<Rightarrow> string list \<Rightarrow> scanner" where
  "start_scanner env args = \<lparr>nextchar = [], argv = args, nonoptions = [], passed = [], option_at = 0, stdin_text = standard_input env\<rparr>"

definition parseArguments :: "environment \<Rightarrow> jm_log_level \<Rightarrow> string list \<Rightarrow> (options \<times> string list) res option" where
  "parseArguments env loglevel args =
     map_option (\<lambda>r. rbind r finish_parsing)
       (parse_loop env (default_options loglevel, start_scanner env args))"

end
