(* ===== verification/Gsl_Interface.thy ===== *)
theory Gsl_Interface
  imports Prelude
begin

text \<open>
  The interface to the integrators of the GNU Scientific Library (tools/cgsl/include/gsl-interface.h, src/gsl-interface.c).
  The library itself is not part of the repository. A call of it is only known by its interaction: it asks for the
  derivatives at some points and times, one after another, and in the end gives a result (\<open>gsl\<close>); which points and which result is a parameter
  (\<open>gsl_lib\<close>). The files that are printed to are the lists of their rows; freeing memory is left out.
\<close>

subsection \<open>The library\<close>

text \<open>The answer of the equations is a status and the derivatives; \<open>None\<close> means that the output array is left as it was.\<close>

type_synonym answer = "int \<times> double list option"

datatype 'r gsl = Finished 'r | Evaluate double "double list" "answer \<Rightarrow> 'r gsl"

type_synonym 'p equations = "double \<Rightarrow> double list \<Rightarrow> 'p \<Rightarrow> answer \<times> 'p"

primrec run_gsl :: "'p equations \<Rightarrow> 'r gsl \<Rightarrow> 'p \<Rightarrow> 'r \<times> 'p" where
  "run_gsl f (Finished r) p = (r, p)"
| "run_gsl f (Evaluate t x k) p = (let (a, p) = f t x p in run_gsl f (k a) p)"

datatype gsl_step_type = step_rk2 | step_rk4 | step_rkf45 | step_rkck | step_rk8pd | step_rk1imp | step_rk2imp | step_rk4imp
  | step_bsimp | step_msadams | step_msbdf

text \<open>What the interface sees of the memory of an integrator, and the rest of it.\<close>

record 'g evolution =
  dydt_out :: "double list"
  failed_steps :: nat
  gsl_memory :: 'g

record 'g gsl_lib =
  gsl_alloc :: "gsl_step_type \<Rightarrow> nat \<Rightarrow> double \<Rightarrow> double \<Rightarrow> 'g evolution"   \<comment> \<open>with the tolerances of the control\<close>
  evolve_apply :: "'g evolution \<Rightarrow> double \<Rightarrow> double \<Rightarrow> double \<Rightarrow> double list \<Rightarrow> (int \<times> double \<times> double \<times> double list \<times> 'g evolution) gsl"
  evolve_apply_fixed_step :: "'g evolution \<Rightarrow> double \<Rightarrow> double \<Rightarrow> double list \<Rightarrow> (int \<times> double \<times> double list \<times> 'g evolution) gsl"
  evolve_reset :: "'g evolution \<Rightarrow> 'g evolution"
  step_reset :: "'g evolution \<Rightarrow> 'g evolution"
  driver_reset :: "'g evolution \<Rightarrow> 'g evolution"

subsection \<open>Models and simulations\<close>

type_synonym 'p pre_post_step = "double \<Rightarrow> double \<Rightarrow> nat \<Rightarrow> double list \<Rightarrow> 'p \<Rightarrow> int \<times> 'p"

record 'p cgsl_model =
  n_variables :: nat
  m_x :: "double list"
  m_x_backup :: "double list"
  parameters :: 'p
  ode_function :: "'p equations"
  pre_step :: "'p pre_post_step option"
  post_step :: "'p pre_post_step option"

record ('p, 'g) cgsl_simulation =
  model :: "'p cgsl_model"
  step_type :: gsl_step_type
  evolution :: "'g evolution"
  sim_t :: double
  sim_t1 :: double
  sim_h :: double
  fixed_step :: bool
  file_rows :: "(double \<times> double list) list option"   \<comment> \<open>no file, or what has been written to it\<close>
  store_data :: bool
  saved_data :: "double option list"   \<comment> \<open>\<open>None\<close>: not initialised\<close>
  buffer_size :: nat
  sim_n :: nat
  save :: bool
  print_on :: bool
  iterations :: nat

definition cgsl_get_integrator :: "int \<Rightarrow> gsl_step_type res" where
  "cgsl_get_integrator i =
     (let integrators = [step_rk2, step_rk4, step_rkf45, step_rkck, step_rk8pd, step_rk1imp, step_rk2imp, step_rk4imp,
                         step_bsimp, step_msadams, step_msbdf];
          i = (if i < 0 \<or> i > int (length integrators) then 2 else i)
      in if nat i < length integrators then Inr (integrators ! nat i) else Inl (UB ''integrators''))"

definition CGSL_RESTART :: int where "CGSL_RESTART = 1"

definition cgsl_model_default_alloc ::
  "nat \<Rightarrow> double list option \<Rightarrow> 'p \<Rightarrow> 'p equations \<Rightarrow> 'p pre_post_step option \<Rightarrow> 'p pre_post_step option \<Rightarrow> 'p cgsl_model" where
  "cgsl_model_default_alloc n x0 params f pre post =
     \<lparr>n_variables = n, m_x = (case x0 of None \<Rightarrow> replicate n 0 | Some x \<Rightarrow> take n x), m_x_backup = replicate n 0, parameters = params,
      ode_function = f, pre_step = pre, post_step = post\<rparr>"

definition cgsl_model_default_get_state :: "'p cgsl_model \<Rightarrow> 'p cgsl_model" where
  "cgsl_model_default_get_state m = m\<lparr>m_x_backup := m_x m\<rparr>"

definition cgsl_model_default_set_state :: "'p cgsl_model \<Rightarrow> 'p cgsl_model" where
  "cgsl_model_default_set_state m = m\<lparr>m_x := m_x_backup m\<rparr>"

text \<open>The model is the one of \<open>cgsl_model_default_alloc\<close>, whose functions to get and set its state are the default ones.\<close>

definition cgsl_simulation_get :: "('p, 'g) cgsl_simulation \<Rightarrow> ('p, 'g) cgsl_simulation" where
  "cgsl_simulation_get s = s\<lparr>model := cgsl_model_default_get_state (model s)\<rparr>"

definition cgsl_simulation_set :: "('p, 'g) cgsl_simulation \<Rightarrow> ('p, 'g) cgsl_simulation" where
  "cgsl_simulation_set s = s\<lparr>model := cgsl_model_default_set_state (model s)\<rparr>"

definition cgsl_simulation_set_fixed_step :: "double \<Rightarrow> ('p, 'g) cgsl_simulation \<Rightarrow> ('p, 'g) cgsl_simulation" where
  "cgsl_simulation_set_fixed_step h s = s\<lparr>sim_h := h, fixed_step := True\<rparr>"

definition cgsl_simulation_set_variable_step :: "('p, 'g) cgsl_simulation \<Rightarrow> ('p, 'g) cgsl_simulation" where
  "cgsl_simulation_set_variable_step s = s\<lparr>fixed_step := False\<rparr>"

subsection \<open>Output\<close>

definition cgsl_print_data :: "('p, 'g) cgsl_simulation \<Rightarrow> ('p, 'g) cgsl_simulation" where
  "cgsl_print_data s =
     (case file_rows s of
        Some rows \<Rightarrow> if print_on s then s\<lparr>file_rows := Some (rows @ [(sim_t s, m_x (model s))])\<rparr> else s
      | None \<Rightarrow> s)"

text \<open>The new size and the array, whose tail is not initialised.\<close>

definition gsl_hungry_alloc :: "nat \<Rightarrow> double option list \<Rightarrow> nat \<times> double option list" where
  "gsl_hungry_alloc n x = (let N = 2 * n + 10 in (N, take n x @ replicate (N - n) None))"

function grow :: "nat \<Rightarrow> nat \<times> double option list \<Rightarrow> nat \<times> double option list" where
  "grow needed b = (if fst b < needed then grow needed (gsl_hungry_alloc (fst b) (snd b)) else b)"
  by auto
termination by (relation "measure (\<lambda>(needed, b). needed - fst b)") (auto simp: gsl_hungry_alloc_def Let_def)

definition cgsl_save_data :: "('p, 'g) cgsl_simulation \<Rightarrow> ('p, 'g) cgsl_simulation" where
  "cgsl_save_data s =
     (if store_data s
      then let stride = 1 + n_variables (model s); N = stride * sim_n s; b = grow (N + stride) (buffer_size s, saved_data s)
           in s\<lparr>buffer_size := fst b, saved_data := (snd b)[N := Some (sim_t s)]\<rparr>
      else s)"

definition cgsl_init_simulation_tolerance ::
  "'g gsl_lib \<Rightarrow> 'p cgsl_model \<Rightarrow> int \<Rightarrow> double \<Rightarrow> bool \<Rightarrow> bool \<Rightarrow> bool \<Rightarrow> (double \<times> double list) list option \<Rightarrow> double \<Rightarrow> double
     \<Rightarrow> ('p, 'g) cgsl_simulation res" where
  "cgsl_init_simulation_tolerance lib m integrator h fixed sv pr f reltol abstol =
     rbind (cgsl_get_integrator integrator) (\<lambda>ty.
       Inr (cgsl_print_data \<lparr>model = m, step_type = ty, evolution = gsl_alloc lib ty (n_variables m) reltol abstol, sim_t = 0, sim_t1 = 0,
         sim_h = h, fixed_step = fixed, file_rows = f, store_data = False, saved_data = [], buffer_size = 0, sim_n = 0, save = sv,
         print_on = pr, iterations = 0\<rparr>))"

definition cgsl_init_simulation ::
  "'g gsl_lib \<Rightarrow> 'p cgsl_model \<Rightarrow> int \<Rightarrow> double \<Rightarrow> bool \<Rightarrow> bool \<Rightarrow> bool \<Rightarrow> (double \<times> double list) list option \<Rightarrow> ('p, 'g) cgsl_simulation res" where
  "cgsl_init_simulation lib m integrator h fixed sv pr f =
     cgsl_init_simulation_tolerance lib m integrator h fixed sv pr f (1 / 10 ^ 6) 0"

subsection \<open>Integration\<close>

definition set_model_parameters :: "'p \<Rightarrow> ('p, 'g) cgsl_simulation \<Rightarrow> ('p, 'g) cgsl_simulation" where
  "set_model_parameters p s = s\<lparr>model := (model s)\<lparr>parameters := p\<rparr>\<rparr>"

definition cgsl_step :: "'g gsl_lib \<Rightarrow> ('p, 'g) cgsl_simulation \<Rightarrow> int \<times> ('p, 'g) cgsl_simulation" where
  "cgsl_step lib s =
     (let m = model s in
      if fixed_step s
      then let ((st, t, x, e), p) = run_gsl (ode_function m) (evolve_apply_fixed_step lib (evolution s) (sim_t s) (sim_h s) (m_x m)) (parameters m)
           in (st, s\<lparr>sim_t := t, evolution := e, model := m\<lparr>m_x := x, parameters := p\<rparr>\<rparr>)
      else let ((st, t, h, x, e), p) = run_gsl (ode_function m) (evolve_apply lib (evolution s) (sim_t s) (sim_t1 s) (sim_h s) (m_x m)) (parameters m)
           in (st, s\<lparr>sim_t := t, sim_h := h, evolution := e, model := m\<lparr>m_x := x, parameters := p\<rparr>\<rparr>))"

definition record_step :: "('p, 'g) cgsl_simulation \<Rightarrow> ('p, 'g) cgsl_simulation" where
  "record_step s = (let s = cgsl_print_data s in if save s then cgsl_save_data s else s)"

partial_function (option) cgsl_loop :: "'g gsl_lib \<Rightarrow> ('p, 'g) cgsl_simulation \<Rightarrow> ('p, 'g) cgsl_simulation res option" where
  "cgsl_loop lib s =
     (if sim_t s < sim_t1 s
      then let (st, s) = cgsl_step lib s; s = s\<lparr>iterations := iterations s + 1\<rparr>
           in if st \<noteq> 0 then Some (Inl (Exit (-1))) else cgsl_loop lib (record_step s)
      else Some (Inr s))"

definition call_pre_step :: "'g gsl_lib \<Rightarrow> double \<Rightarrow> double \<Rightarrow> ('p, 'g) cgsl_simulation \<Rightarrow> ('p, 'g) cgsl_simulation" where
  "call_pre_step lib t dt s =
     (case pre_step (model s) of None \<Rightarrow> s
      | Some f \<Rightarrow> let (r, p) = f t dt (n_variables (model s)) (m_x (model s)) (parameters (model s)); s = set_model_parameters p s
                 in if r = CGSL_RESTART then s\<lparr>evolution := step_reset lib (evolve_reset lib (evolution s))\<rparr> else s)"

definition call_post_step :: "double \<Rightarrow> double \<Rightarrow> ('p, 'g) cgsl_simulation \<Rightarrow> ('p, 'g) cgsl_simulation" where
  "call_post_step t dt s =
     (case post_step (model s) of None \<Rightarrow> s
      | Some f \<Rightarrow> set_model_parameters (snd (f t dt (n_variables (model s)) (m_x (model s)) (parameters (model s)))) s)"

text \<open>\<open>None\<close>: the loop does not end.\<close>

definition cgsl_step_to :: "'g gsl_lib \<Rightarrow> double \<Rightarrow> double \<Rightarrow> ('p, 'g) cgsl_simulation \<Rightarrow> ('p, 'g) cgsl_simulation res option" where
  "cgsl_step_to lib t dt s =
     (let s = s\<lparr>sim_t := t, sim_t1 := t + dt, iterations := 0\<rparr>; s = record_step (call_pre_step lib t dt s)
      in map_option (\<lambda>r. rbind r (\<lambda>s. Inr (call_post_step t dt s))) (cgsl_loop lib s))"

subsection \<open>Reaching the end of a step\<close>

text \<open>A property of all results an interaction can end with.\<close>

primrec always :: "('r \<Rightarrow> bool) \<Rightarrow> 'r gsl \<Rightarrow> bool" where
  "always P (Finished r) = P r"
| "always P (Evaluate t x k) = (\<forall>a. always P (k a))"

lemma run_always: "always P g \<Longrightarrow> P (fst (run_gsl f g p))"
proof (induction g arbitrary: p)
  case (Evaluate t x k)
  obtain a p' where "f t x p = (a, p')" by fastforce
  moreover have "always P (k a)" using Evaluate.prems by (simp del: split_paired_All)
  ultimately show ?case using Evaluate.IH[of "k a" p'] by simp
qed simp

text \<open>
  What the documentation of the library says of the time a successful step ends at: with a variable step size it is not behind the end
  of the interval; with a fixed step size it is exactly this size further. A step may always fail, with another status, and nothing is
  said of how far a step with a variable size gets.
\<close>

definition documented_times :: "'g gsl_lib \<Rightarrow> bool" where
  "documented_times lib \<longleftrightarrow>
     (\<forall>e t t1 h x. t < t1 \<longrightarrow> always (\<lambda>(st, t', _). st = 0 \<longrightarrow> t' \<le> t1) (evolve_apply lib e t t1 h x))
     \<and> (\<forall>e t h x. always (\<lambda>(st, t', _). st = 0 \<longrightarrow> t' = t + h) (evolve_apply_fixed_step lib e t h x))"

definition fixed_steps_succeed :: "'g gsl_lib \<Rightarrow> bool" where
  "fixed_steps_succeed lib \<longleftrightarrow> (\<forall>e t h x. always (\<lambda>(st, _). st = 0) (evolve_apply_fixed_step lib e t h x))"

lemma cgsl_step_frame:
  assumes "cgsl_step lib s = (st, s')"
  shows "sim_t1 s' = sim_t1 s" "fixed_step s' = fixed_step s" "iterations s' = iterations s" "fixed_step s \<Longrightarrow> sim_h s' = sim_h s"
    "pre_step (model s') = pre_step (model s)" "post_step (model s') = post_step (model s)"
    "ode_function (model s') = ode_function (model s)" "n_variables (model s') = n_variables (model s)"
  using assms by (auto simp: cgsl_step_def Let_def split_beta split: if_splits)

lemma cgsl_step_time:
  assumes "documented_times lib" and "sim_t s < sim_t1 s" and "cgsl_step lib s = (0, s')"
  shows "if fixed_step s then sim_t s' = sim_t s + sim_h s else sim_t s' \<le> sim_t1 s"
proof (cases "fixed_step s")
  case True
  have "always (\<lambda>(st, t', _). st = 0 \<longrightarrow> t' = sim_t s + sim_h s) (evolve_apply_fixed_step lib (evolution s) (sim_t s) (sim_h s) (m_x (model s)))"
    using assms(1) by (simp add: documented_times_def)
  from run_always[OF this, of "ode_function (model s)" "parameters (model s)"] show ?thesis
    using True assms(3) by (auto simp: cgsl_step_def Let_def split_beta)
next
  case False
  have "always (\<lambda>(st, t', _). st = 0 \<longrightarrow> t' \<le> sim_t1 s) (evolve_apply lib (evolution s) (sim_t s) (sim_t1 s) (sim_h s) (m_x (model s)))"
    using assms by (simp add: documented_times_def)
  from run_always[OF this, of "ode_function (model s)" "parameters (model s)"] show ?thesis
    using False assms(3) by (auto simp: cgsl_step_def Let_def split_beta)
qed

lemma cgsl_step_succeeds:
  assumes "fixed_steps_succeed lib" and "fixed_step s"
  shows "fst (cgsl_step lib s) = 0"
proof -
  have "always (\<lambda>(st, _). st = 0) (evolve_apply_fixed_step lib (evolution s) (sim_t s) (sim_h s) (m_x (model s)))"
    using assms(1) by (simp add: fixed_steps_succeed_def)
  from run_always[OF this, of "ode_function (model s)" "parameters (model s)"] show ?thesis
    using assms(2) by (auto simp: cgsl_step_def Let_def split_beta)
qed

lemma record_step_frame [simp]:
  "sim_t (record_step s) = sim_t s" "sim_t1 (record_step s) = sim_t1 s" "sim_h (record_step s) = sim_h s"
  "fixed_step (record_step s) = fixed_step s" "model (record_step s) = model s" "iterations (record_step s) = iterations s"
  "evolution (record_step s) = evolution s"
  by (simp_all add: record_step_def cgsl_print_data_def cgsl_save_data_def Let_def split: option.split)

text \<open>A turn of the loop, and the induction over the turns of a loop that returns.\<close>

definition loop_turn :: "'g gsl_lib \<Rightarrow> ('p, 'g) cgsl_simulation \<Rightarrow> ('p, 'g) cgsl_simulation" where
  "loop_turn lib s = (let s = snd (cgsl_step lib s) in record_step (s\<lparr>iterations := iterations s + 1\<rparr>))"

lemma cgsl_loop_done: "\<not> sim_t s < sim_t1 s \<Longrightarrow> cgsl_loop lib s = Some (Inr s)"
  by (simp add: cgsl_loop.simps)

lemma cgsl_loop_turn:
  "sim_t s < sim_t1 s \<Longrightarrow> cgsl_loop lib s = (if fst (cgsl_step lib s) \<noteq> 0 then Some (Inl (Exit (-1))) else cgsl_loop lib (loop_turn lib s))"
  by (subst cgsl_loop.simps) (simp add: loop_turn_def Let_def split_beta)

lemma loop_turn_frame:
  "sim_t1 (loop_turn lib s) = sim_t1 s" "fixed_step (loop_turn lib s) = fixed_step s" "iterations (loop_turn lib s) = iterations s + 1"
  "fixed_step s \<Longrightarrow> sim_h (loop_turn lib s) = sim_h s" "ode_function (model (loop_turn lib s)) = ode_function (model s)"
  "pre_step (model (loop_turn lib s)) = pre_step (model s)" "post_step (model (loop_turn lib s)) = post_step (model s)"
  "n_variables (model (loop_turn lib s)) = n_variables (model s)"
  by (auto simp: loop_turn_def Let_def cgsl_step_frame[OF surjective_pairing])

lemma loop_turn_time:
  assumes "documented_times lib" and "sim_t s < sim_t1 s" and "fst (cgsl_step lib s) = 0"
  shows "if fixed_step s then sim_t (loop_turn lib s) = sim_t s + sim_h s else sim_t (loop_turn lib s) \<le> sim_t1 s"
  using cgsl_step_time[OF assms(1,2), of "snd (cgsl_step lib s)"] assms(3) by (simp add: loop_turn_def Let_def prod_eq_iff)

lemma cgsl_loop_induct [consumes 1, case_names over turn]:
  fixes s :: "('p, 'g) cgsl_simulation"
  assumes "cgsl_loop lib s = Some (Inr s')" and over: "\<And>s. \<not> sim_t s < sim_t1 s \<Longrightarrow> P s s"
    and turn: "\<And>s s'. sim_t s < sim_t1 s \<Longrightarrow> fst (cgsl_step lib s) = 0 \<Longrightarrow> P (loop_turn lib s) s' \<Longrightarrow> P s s'"
  shows "P s s'"
proof -
  let ?P = "\<lambda>lib' s (r :: ('p, 'g) cgsl_simulation res). lib' = lib \<longrightarrow> (\<forall>s'. r = Inr s' \<longrightarrow> P s s')"
  have "?P lib s (Inr s')"
  proof (rule cgsl_loop.raw_induct[where P = ?P, OF _ assms(1)])
    fix f lib' s r
    assume IH: "\<And>lib' s r. f lib' s = Some r \<Longrightarrow> ?P lib' s r"
      and eq: "(if sim_t s < sim_t1 s then let (st, s) = cgsl_step lib' s; s = s\<lparr>iterations := iterations s + 1\<rparr>
          in if st \<noteq> 0 then Some (Inl (Exit (-1))) else f lib' (record_step s) else Some (Inr s)) = Some r"
    show "?P lib' s r"
    proof (cases "sim_t s < sim_t1 s")
      case False
      then show ?thesis using eq over by auto
    next
      case True
      have r: "(if fst (cgsl_step lib' s) \<noteq> 0 then Some (Inl (Exit (-1))) else f lib' (loop_turn lib' s)) = Some r"
        using eq unfolding if_P[OF True] loop_turn_def Let_def split_beta .
      show ?thesis
      proof (cases "fst (cgsl_step lib' s) = 0")
        case 0: True
        then show ?thesis using r IH[of lib' "loop_turn lib' s" r] turn[OF True] by auto
      next
        case False
        then show ?thesis using r by auto
      qed
    qed
  qed
  then show ?thesis by blast
qed

lemma cgsl_loop_variable:
  assumes "documented_times lib" and "cgsl_loop lib s = Some (Inr s')"
  shows "\<not> fixed_step s \<Longrightarrow> sim_t s \<le> sim_t1 s \<Longrightarrow> sim_t s' = sim_t1 s"
  using assms(2)
proof (induction rule: cgsl_loop_induct)
  case (turn s s')
  then show ?case using loop_turn_time[OF assms(1) turn(1,2)] loop_turn_frame[where lib = lib and s = s] by simp
qed simp

text \<open>The result of a loop with \<open>n\<close> steps of fixed size, or with a failure.\<close>

definition fixed_result :: "'g gsl_lib \<Rightarrow> nat \<Rightarrow> ('p, 'g) cgsl_simulation \<Rightarrow> ('p, 'g) cgsl_simulation res \<Rightarrow> bool" where
  "fixed_result lib n s r \<longleftrightarrow> (case r of Inl e \<Rightarrow> e = Exit (-1) \<and> \<not> fixed_steps_succeed lib
     | Inr s' \<Rightarrow> iterations s' = iterations s + n \<and> sim_t s' = sim_t s + real n * sim_h s)"

lemma cgsl_loop_fixed:
  assumes "documented_times lib" and "fixed_step s" and "0 < sim_h s"
    and "sim_t1 s - sim_t s \<le> real n * sim_h s" and "n = 0 \<or> (real n - 1) * sim_h s < sim_t1 s - sim_t s"
  shows "\<exists>r. cgsl_loop lib s = Some r \<and> fixed_result lib n s r"
  using assms(2-5)
proof (induction n arbitrary: s)
  case 0
  then have "\<not> sim_t s < sim_t1 s" by simp
  then show ?case by (simp add: cgsl_loop_done fixed_result_def)
next
  case (Suc n)
  have "0 \<le> real n * sim_h s" using Suc.prems(2) by simp
  then have lt: "sim_t s < sim_t1 s" using Suc.prems(4) by simp
  show ?case
  proof (cases "fst (cgsl_step lib s) = 0")
    case False
    then show ?thesis using lt Suc.prems(1) cgsl_step_succeeds[of lib s] by (auto simp: cgsl_loop_turn fixed_result_def)
  next
    case True
    note f = loop_turn_frame[where lib = lib and s = s] and t = loop_turn_time[OF assms(1) lt True]
    obtain r where r: "cgsl_loop lib (loop_turn lib s) = Some r" "fixed_result lib n (loop_turn lib s) r"
      using Suc.IH[of "loop_turn lib s"] Suc.prems f t by (fastforce simp: algebra_simps)
    then show ?thesis using True lt Suc.prems(1) f t
      by (auto simp: cgsl_loop_turn fixed_result_def algebra_simps split: sum.splits)
  qed
qed

lemma call_pre_step_frame [simp]:
  "sim_t (call_pre_step lib t dt s) = sim_t s" "sim_t1 (call_pre_step lib t dt s) = sim_t1 s" "sim_h (call_pre_step lib t dt s) = sim_h s"
  "fixed_step (call_pre_step lib t dt s) = fixed_step s" "iterations (call_pre_step lib t dt s) = iterations s"
  "ode_function (model (call_pre_step lib t dt s)) = ode_function (model s)" "n_variables (model (call_pre_step lib t dt s)) = n_variables (model s)"
  "pre_step (model (call_pre_step lib t dt s)) = pre_step (model s)" "post_step (model (call_pre_step lib t dt s)) = post_step (model s)"
  by (simp_all add: call_pre_step_def set_model_parameters_def split_beta Let_def split: option.split)

lemma call_post_step_frame [simp]:
  "sim_t (call_post_step t dt s) = sim_t s" "iterations (call_post_step t dt s) = iterations s" "fixed_step (call_post_step t dt s) = fixed_step s"
  "ode_function (model (call_post_step t dt s)) = ode_function (model s)" "n_variables (model (call_post_step t dt s)) = n_variables (model s)"
  "pre_step (model (call_post_step t dt s)) = pre_step (model s)" "post_step (model (call_post_step t dt s)) = post_step (model s)"
  by (simp_all add: call_post_step_def set_model_parameters_def split: option.split)

text \<open>The simulation the loop starts from.\<close>

definition loop_start :: "'g gsl_lib \<Rightarrow> double \<Rightarrow> double \<Rightarrow> ('p, 'g) cgsl_simulation \<Rightarrow> ('p, 'g) cgsl_simulation" where
  "loop_start lib t dt s = record_step (call_pre_step lib t dt (s\<lparr>sim_t := t, sim_t1 := t + dt, iterations := 0\<rparr>))"

lemma loop_start_simps [simp]:
  "sim_t (loop_start lib t dt s) = t" "sim_t1 (loop_start lib t dt s) = t + dt" "iterations (loop_start lib t dt s) = 0"
  "fixed_step (loop_start lib t dt s) = fixed_step s" "sim_h (loop_start lib t dt s) = sim_h s"
  by (simp_all add: loop_start_def)

lemma cgsl_step_to_loop:
  "cgsl_step_to lib t dt s = map_option (\<lambda>r. rbind r (\<lambda>s. Inr (call_post_step t dt s))) (cgsl_loop lib (loop_start lib t dt s))"
  by (simp add: cgsl_step_to_def loop_start_def Let_def)

text \<open>C29: where a step of the interface ends. With a fixed step size \<open>h\<close> the loop over the steps of the integrator ends: either a step fails and
  the program stops with its status, or exactly \<open>dt / h\<close>, rounded up, steps have been taken, so that the simulation ends at the
  first multiple of \<open>h\<close> that is not before the end time and may be less than one step behind it. With a variable step size, for which the
  documentation does not bound the number of steps, a loop that ends without a failure ends exactly at the end time.\<close>

theorem cgsl_step_to_ends:
  assumes "documented_times lib" and "0 \<le> dt"
  shows "(fixed_step s \<and> 0 < sim_h s \<longrightarrow> (\<exists>r. cgsl_step_to lib t dt s = Some r
       \<and> (case r of Inl e \<Rightarrow> e = Exit (-1) \<and> \<not> fixed_steps_succeed lib
          | Inr s' \<Rightarrow> int (iterations s') = \<lceil>dt / sim_h s\<rceil> \<and> sim_t s' = t + of_int \<lceil>dt / sim_h s\<rceil> * sim_h s
              \<and> t + dt \<le> sim_t s' \<and> sim_t s' < t + dt + sim_h s)))
     \<and> (\<forall>s'. \<not> fixed_step s \<and> cgsl_step_to lib t dt s = Some (Inr s') \<longrightarrow> sim_t s' = t + dt)"
proof (intro conjI impI allI)
  let ?s = "loop_start lib t dt s"
  assume f: "fixed_step s \<and> 0 < sim_h s"
  let ?n = "nat \<lceil>dt / sim_h s\<rceil>"
  have "0 \<le> dt / sim_h s" using assms(2) f by simp
  then have n: "int ?n = \<lceil>dt / sim_h s\<rceil>" by linarith
  then have rn: "real ?n = of_int \<lceil>dt / sim_h s\<rceil>" by (metis of_int_of_nat_eq)
  have le: "dt \<le> real ?n * sim_h s" unfolding rn using f by (simp flip: pos_divide_le_eq)
  have "real ?n - 1 < dt / sim_h s" unfolding rn by linarith
  then have lt: "(real ?n - 1) * sim_h s < dt" using f by (simp add: pos_less_divide_eq)
  obtain r where r: "cgsl_loop lib ?s = Some r" "fixed_result lib ?n ?s r"
    using cgsl_loop_fixed[OF assms(1), of ?s ?n] f le lt by auto
  then show "\<exists>r. cgsl_step_to lib t dt s = Some r \<and> (case r of Inl e \<Rightarrow> e = Exit (-1) \<and> \<not> fixed_steps_succeed lib
          | Inr s' \<Rightarrow> int (iterations s') = \<lceil>dt / sim_h s\<rceil> \<and> sim_t s' = t + of_int \<lceil>dt / sim_h s\<rceil> * sim_h s
              \<and> t + dt \<le> sim_t s' \<and> sim_t s' < t + dt + sim_h s)"
    using n rn le lt by (cases r) (auto simp: cgsl_step_to_loop fixed_result_def algebra_simps)
next
  fix s' assume v: "\<not> fixed_step s \<and> cgsl_step_to lib t dt s = Some (Inr s')"
  then obtain s1 where "cgsl_loop lib (loop_start lib t dt s) = Some (Inr s1)" "s' = call_post_step t dt s1"
    by (auto simp: cgsl_step_to_loop rbind_eq_Inr)
  then show "sim_t s' = t + dt" using cgsl_loop_variable[OF assms(1)] v assms(2) by fastforce
qed

text \<open>An integrator that takes Euler steps, with a variable step size of length at most one.\<close>

definition euler_step :: "double \<Rightarrow> double list \<Rightarrow> answer \<Rightarrow> double list" where
  "euler_step h x a = (case snd a of None \<Rightarrow> x | Some dx \<Rightarrow> map2 (\<lambda>x dx. x + h * dx) x dx)"

definition euler :: "unit gsl_lib" where
  "euler = \<lparr>gsl_alloc = \<lambda>_ n _ _. \<lparr>dydt_out = replicate n 0, failed_steps = 0, gsl_memory = ()\<rparr>,
     evolve_apply = \<lambda>e t t1 h x. Evaluate t x (\<lambda>a. Finished (0, min t1 (t + 1), h, euler_step (min t1 (t + 1) - t) x a, e)),
     evolve_apply_fixed_step = \<lambda>e t h x. Evaluate t x (\<lambda>a. Finished (0, t + h, euler_step h x a, e)),
     evolve_reset = id, step_reset = id, driver_reset = id\<rparr>"

lemma euler_times: "documented_times euler" "fixed_steps_succeed euler"
  by (simp_all add: documented_times_def fixed_steps_succeed_def euler_def)

definition decay :: "(unit, unit) cgsl_simulation" where
  "decay = \<lparr>model = cgsl_model_default_alloc 1 (Some [1]) () (\<lambda>t x p. ((0, Some (map uminus x)), p)) None None, step_type = step_rk8pd,
     evolution = gsl_alloc euler step_rk8pd 1 0 0, sim_t = 0, sim_t1 = 0, sim_h = 1, fixed_step = True, file_rows = None, store_data = False,
     saved_data = [], buffer_size = 0, sim_n = 0, save = False, print_on = False, iterations = 0\<rparr>"

lemma cgsl_step_to_ends_witness:
  "\<exists>s'. cgsl_step_to euler 0 (5/2) decay = Some (Inr s') \<and> iterations s' = 3 \<and> sim_t s' = 3"
proof -
  have c: "\<lceil>5/2 :: real\<rceil> = 3" by (simp add: ceiling_eq_iff)
  obtain r where r: "cgsl_step_to euler 0 (5/2) decay = Some r"
    "case r of Inl e \<Rightarrow> e = Exit (-1) \<and> \<not> fixed_steps_succeed euler
       | Inr s' \<Rightarrow> int (iterations s') = \<lceil>(5/2) / sim_h decay\<rceil> \<and> sim_t s' = 0 + of_int \<lceil>(5/2) / sim_h decay\<rceil> * sim_h decay
           \<and> 0 + 5/2 \<le> sim_t s' \<and> sim_t s' < 0 + 5/2 + sim_h decay"
    using cgsl_step_to_ends[OF euler_times(1), of "5/2" decay 0] by (auto simp: decay_def)
  then show ?thesis using euler_times(2) c by (cases r) (simp_all add: decay_def)
qed

subsection \<open>The evaluations of the equations\<close>

text \<open>The points at which an interaction asks for the derivatives, in order.\<close>

primrec evaluations :: "'p equations \<Rightarrow> 'r gsl \<Rightarrow> 'p \<Rightarrow> (double \<times> double list) list" where
  "evaluations f (Finished r) p = []"
| "evaluations f (Evaluate t x k) p = (t, x) # (let (a, p) = f t x p in evaluations f (k a) p)"

abbreviation evaluate :: "'p equations \<Rightarrow> double \<times> double list \<Rightarrow> 'p \<Rightarrow> 'p" where
  "evaluate f \<equiv> \<lambda>(t, x) p. snd (f t x p)"

lemma run_evaluations: "snd (run_gsl f g p) = fold (evaluate f) (evaluations f g p) p"
proof (induction g arbitrary: p)
  case (Evaluate t x k)
  obtain a p' where "f t x p = (a, p')" by fastforce
  then show ?case using Evaluate.IH[of "k a" p'] by simp
qed simp

definition step_evaluations :: "'g gsl_lib \<Rightarrow> ('p, 'g) cgsl_simulation \<Rightarrow> (double \<times> double list) list" where
  "step_evaluations lib s =
     (let m = model s in
      if fixed_step s then evaluations (ode_function m) (evolve_apply_fixed_step lib (evolution s) (sim_t s) (sim_h s) (m_x m)) (parameters m)
      else evaluations (ode_function m) (evolve_apply lib (evolution s) (sim_t s) (sim_t1 s) (sim_h s) (m_x m)) (parameters m))"

lemma step_parameters:
  "parameters (model (loop_turn lib s)) = fold (evaluate (ode_function (model s))) (step_evaluations lib s) (parameters (model s))"
  by (simp add: loop_turn_def cgsl_step_def step_evaluations_def Let_def split_beta flip: run_evaluations)

text \<open>The evaluations of \<open>n\<close> turns of the loop; the simulation counts its turns.\<close>

primrec loop_evaluations :: "'g gsl_lib \<Rightarrow> nat \<Rightarrow> ('p, 'g) cgsl_simulation \<Rightarrow> (double \<times> double list) list" where
  "loop_evaluations lib 0 s = []"
| "loop_evaluations lib (Suc n) s = step_evaluations lib s @ loop_evaluations lib n (loop_turn lib s)"

definition keeps_setup :: "('p, 'g) cgsl_simulation \<Rightarrow> ('p, 'g) cgsl_simulation \<Rightarrow> bool" where
  "keeps_setup s s' \<longleftrightarrow> ode_function (model s') = ode_function (model s) \<and> pre_step (model s') = pre_step (model s)
     \<and> post_step (model s') = post_step (model s) \<and> n_variables (model s') = n_variables (model s) \<and> fixed_step s' = fixed_step s"

lemma cgsl_loop_evaluations:
  "cgsl_loop lib s = Some (Inr s') \<Longrightarrow> \<exists>n. iterations s' = iterations s + n \<and> keeps_setup s s'
     \<and> parameters (model s') = fold (evaluate (ode_function (model s))) (loop_evaluations lib n s) (parameters (model s))"
proof (induction rule: cgsl_loop_induct)
  case (over s)
  show ?case by (rule exI[of _ 0]) (simp add: keeps_setup_def)
next
  case (turn s s')
  then obtain n where "iterations s' = iterations (loop_turn lib s) + n" "keeps_setup (loop_turn lib s) s'"
    "parameters (model s') = fold (evaluate (ode_function (model (loop_turn lib s)))) (loop_evaluations lib n (loop_turn lib s))
        (parameters (model (loop_turn lib s)))" by blast
  then show ?case using loop_turn_frame[where lib = lib and s = s] step_parameters[of lib s]
    by (intro exI[of _ "Suc n"]) (simp add: keeps_setup_def)
qed

lemma step_to_evaluations:
  assumes "cgsl_step_to lib t dt s = Some (Inr s')" and "pre_step (model s) = None" and "post_step (model s) = None"
  shows "keeps_setup s s'" and "parameters (model s')
     = fold (evaluate (ode_function (model s))) (loop_evaluations lib (iterations s') (loop_start lib t dt s)) (parameters (model s))"
proof -
  obtain s1 where s1: "cgsl_loop lib (loop_start lib t dt s) = Some (Inr s1)" "s' = call_post_step t dt s1"
    using assms(1) by (auto simp: cgsl_step_to_loop rbind_eq_Inr)
  have m: "model (loop_start lib t dt s) = model s" using assms(2) by (simp add: loop_start_def call_pre_step_def)
  obtain n where n: "iterations s1 = n" "keeps_setup (loop_start lib t dt s) s1"
    "parameters (model s1) = fold (evaluate (ode_function (model s))) (loop_evaluations lib n (loop_start lib t dt s)) (parameters (model s))"
    using cgsl_loop_evaluations[OF s1(1)] by (auto simp: m)
  have "s' = s1" using s1(2) n(2) m assms(3) by (simp add: keeps_setup_def call_post_step_def)
  then show "keeps_setup s s'" and "parameters (model s')
     = fold (evaluate (ode_function (model s))) (loop_evaluations lib (iterations s') (loop_start lib t dt s)) (parameters (model s))"
    using n m by (simp_all add: keeps_setup_def)
qed

text \<open>A property of the parameters that every evaluation keeps holds after the step.\<close>

lemma cgsl_step_to_inv:
  assumes "cgsl_step_to lib t dt s = Some (Inr s')" and "pre_step (model s) = None" and "post_step (model s) = None"
    and "\<And>t x p. I p \<Longrightarrow> I (snd (ode_function (model s) t x p))" and "I (parameters (model s))"
  shows "I (parameters (model s')) \<and> keeps_setup s s'"
proof -
  have "I (fold (evaluate (ode_function (model s))) evs p)" if "I p" for evs p
    using that assms(4) by (induction evs arbitrary: p) auto
  then show ?thesis using step_to_evaluations[OF assms(1-3)] assms(5) by simp
qed

subsection \<open>The choice of the integrator\<close>

text \<open>The check of the range lets the first index behind the array pass.\<close>

lemma integrator_behind_array: "cgsl_get_integrator 11 = Inl (UB ''integrators'')"
  by (simp add: cgsl_get_integrator_def)

lemma integrator_total: "i \<noteq> 11 \<Longrightarrow> \<exists>ty. cgsl_get_integrator i = Inr ty"
  by (auto simp: cgsl_get_integrator_def)

end
