(* ===== verification/Wrapper.thy ===== *)
theory Wrapper
  imports Gsl_Interface Fmu_Template
begin

text \<open>
  The wrapper that turns a model exchange FMU into one for co-simulation (tools/wrapper/sources/wrapper.c): the equations of
  the integrator, saving and restoring states, the search for state events, a communication step, the variables with the filter of the outputs, and
  the partial derivatives. The wrapped FMU is a parameter (\<open>me_fmu\<close>) on a state of any type. It is one object that
  the instance and the parameters of the integrator point to; here it is handed to the parameters while the integrator runs. As in
  the code, the status of most of its functions is ignored. Messages are left out.
\<close>

subsection \<open>The wrapped FMU and the configuration\<close>

record 'f me_fmu =
  me_set_time :: "double \<Rightarrow> 'f \<Rightarrow> 'f"
  me_set_continuous_states :: "double list \<Rightarrow> 'f \<Rightarrow> 'f"
  me_get_continuous_states :: "'f \<Rightarrow> double list"
  me_get_derivatives :: "'f \<Rightarrow> double list"
  me_get_event_indicators :: "'f \<Rightarrow> double list"
  me_enter_event_mode :: "'f \<Rightarrow> 'f"
  me_new_discrete_states :: "'f \<Rightarrow> event_info \<times> 'f"
  me_enter_continuous_time_mode :: "'f \<Rightarrow> fmi2_status \<times> 'f"
  me_setup_experiment :: "double \<Rightarrow> 'f \<Rightarrow> fmi2_status \<times> 'f"
  me_enter_initialization_mode :: "'f \<Rightarrow> fmi2_status \<times> 'f"
  me_exit_initialization_mode :: "'f \<Rightarrow> fmi2_status \<times> 'f"
  me_number_of_states :: "'f \<Rightarrow> nat"
  me_number_of_indicators :: "'f \<Rightarrow> nat"
  me_get_real :: "nat list \<Rightarrow> 'f \<Rightarrow> fmi2_status \<times> double list"
  me_set_real :: "nat list \<Rightarrow> double list \<Rightarrow> 'f \<Rightarrow> fmi2_status \<times> 'f"
  me_get_integer :: "nat \<Rightarrow> 'f \<Rightarrow> fmi2_status \<times> int"
  me_set_integer :: "nat \<Rightarrow> int \<Rightarrow> 'f \<Rightarrow> fmi2_status \<times> 'f"
  me_set_string :: "nat \<Rightarrow> string \<Rightarrow> 'f \<Rightarrow> fmi2_status \<times> 'f"
  me_directional :: "(nat \<Rightarrow> nat \<Rightarrow> 'f \<Rightarrow> fmi2_status \<times> double) option"   \<comment> \<open>with the capability: unknown, known\<close>

record wrapper_config =
  NX :: nat                  \<comment> \<open>\<^verbatim>\<open>NUMBER_OF_STATES\<close>\<close>
  NZ :: nat                  \<comment> \<open>\<^verbatim>\<open>NUMBER_OF_EVENT_INDICATORS\<close>\<close>
  real_output_vrs :: "nat list"
  use_filter :: bool         \<comment> \<open>\<^verbatim>\<open>WRAPPER_USE_FILTER\<close>\<close>
  n_reals :: nat
  VR_INTEGRATOR :: nat
  VR_OCTAVE_OUTPUT :: nat
  OCTAVE_SIZE :: nat         \<comment> \<open>\<^verbatim>\<open>sizeof(md.octave_output)\<close>\<close>

abbreviation n_outputs :: "wrapper_config \<Rightarrow> nat" where
  "n_outputs w \<equiv> length (real_output_vrs w)"

definition integrated :: "wrapper_config \<Rightarrow> nat" where
  "integrated w = (if use_filter w then NX w + n_outputs w else NX w)"

subsection \<open>State\<close>

record Backup =
  b_t :: double
  b_h :: double
  b_dydt :: "double list"
  b_ei :: "double list"
  b_ei_b :: "double list"
  b_x :: "double list"
  b_failed_steps :: nat
  b_eventInfo :: event_info

record 'f fmu_parameters =
  t_ok :: double
  t_past :: double
  f_count :: int
  stateEvent :: bool
  FMU :: 'f
  p_backup :: Backup

record TimeLoop =
  t_safe :: double
  dt_new :: double
  t_crossed :: double
  t_end :: double

type_synonym ('f, 'g) me_cgsl = "('f fmu_parameters, 'g) cgsl_simulation"

abbreviation get_p :: "('f, 'g) me_cgsl \<Rightarrow> 'f fmu_parameters" where
  "get_p s \<equiv> parameters (model s)"

subsection \<open>The equations\<close>

fun wrapper_past_event :: "double list \<Rightarrow> double list \<Rightarrow> nat \<Rightarrow> bool" where
  "wrapper_past_event a b 0 = False"
| "wrapper_past_event a b (Suc i) = ((a ! i < 0) \<noteq> (b ! i < 0) \<or> wrapper_past_event a b i)"

definition fmu_derivatives :: "'f me_fmu \<Rightarrow> wrapper_config \<Rightarrow> 'f \<Rightarrow> double list" where
  "fmu_derivatives L w f = me_get_derivatives L f @ (if use_filter w then snd (me_get_real L (real_output_vrs w) f) else [])"

text \<open>After an event the equations are not evaluated any more, and the derivatives are left as they were.\<close>

definition fmu_function :: "'f me_fmu \<Rightarrow> wrapper_config \<Rightarrow> 'f fmu_parameters equations" where
  "fmu_function L w t x p =
     (let p = p\<lparr>f_count := f_count p + 1\<rparr> in
      if stateEvent p then ((0, None), p)
      else let f = me_set_continuous_states L (take (NX w) x) (me_set_time L t (FMU p));
               dx = Some (fmu_derivatives L w f);
               p = p\<lparr>FMU := f\<rparr>
      in if NZ w > 0
         then let z = me_get_event_indicators L f; p = p\<lparr>p_backup := (p_backup p)\<lparr>b_ei := z\<rparr>\<rparr> in
           if wrapper_past_event (b_ei_b (p_backup p)) z (NZ w)
           then ((0, dx), p\<lparr>stateEvent := True, t_past := t\<rparr>)
           else ((0, dx), p\<lparr>stateEvent := False, t_ok := t\<rparr>)
         else ((0, dx), p))"

definition zero_event_info :: event_info where
  "zero_event_info = \<lparr>newDiscreteStatesNeeded = False, terminateSimulation = False, nominalsOfContinuousStatesChanged = False,
     valuesOfContinuousStatesChanged = False, nextEventTimeDefined = False, nextEventTime = 0\<rparr>"

text \<open>The parameters are zeroed (\<^verbatim>\<open>calloc\<close>).\<close>

definition zero_backup :: "wrapper_config \<Rightarrow> Backup" where
  "zero_backup w = \<lparr>b_t = 0, b_h = 0, b_dydt = replicate (NX w + n_outputs w) 0, b_ei = replicate (NZ w + 1) 0, b_ei_b = replicate (NZ w + 1) 0,
     b_x = replicate (NX w + n_outputs w) 0, b_failed_steps = 0, b_eventInfo = zero_event_info\<rparr>"

definition init_fmu_model :: "'f me_fmu \<Rightarrow> wrapper_config \<Rightarrow> 'f \<Rightarrow> 'f fmu_parameters cgsl_model res" where
  "init_fmu_model L w f =
     (if me_number_of_states L f \<noteq> NX w then Inl (Exit 1)
      else if me_number_of_indicators L f \<noteq> NZ w then Inl (Exit 1)
      else let p = \<lparr>t_ok = 0, t_past = 0, f_count = 0, stateEvent = False, FMU = f, p_backup = zero_backup w\<rparr>;
               m = cgsl_model_default_alloc (integrated w) None p (fmu_function L w) None None;
               x = me_get_continuous_states L f
      in Inr (m\<lparr>m_x := x @ drop (NX w) (m_x m), m_x_backup := x @ drop (NX w) (m_x_backup m)\<rparr>))"

definition wrapper_prepare :: "'g gsl_lib \<Rightarrow> 'f me_fmu \<Rightarrow> wrapper_config \<Rightarrow> 'f \<Rightarrow> int \<Rightarrow> ('f, 'g) me_cgsl res" where
  "wrapper_prepare lib L w f integrator =
     rbind (init_fmu_model L w f) (\<lambda>m. cgsl_init_simulation lib m integrator (1 / 10 ^ 10) False False False None)"

subsection \<open>Saving and restoring\<close>

definition wrapper_restoreStates :: "'g gsl_lib \<Rightarrow> 'f me_fmu \<Rightarrow> wrapper_config \<Rightarrow> Backup \<Rightarrow> ('f, 'g) me_cgsl \<Rightarrow> ('f, 'g) me_cgsl res" where
  "wrapper_restoreStates lib L w b s =
     (if integrated w \<noteq> n_variables (model s) then Inl (Exit 1)
      else let x = take (n_variables (model s)) (b_x b);
               e = (evolution s)\<lparr>dydt_out := take (n_variables (model s)) (b_dydt b), failed_steps := b_failed_steps b\<rparr>;
               f = me_set_continuous_states L (take (NX w) x) (me_set_time L (b_t b) (FMU (get_p s)))
      in Inr (s\<lparr>model := (model s)\<lparr>m_x := x, parameters := (get_p s)\<lparr>FMU := f\<rparr>\<rparr>, sim_t := b_t b, sim_h := b_h b,
                evolution := driver_reset lib (step_reset lib (evolve_reset lib e))\<rparr>))"

text \<open>The simulation, whose states are read from the FMU, and the backup.\<close>

definition wrapper_storeStates :: "'f me_fmu \<Rightarrow> wrapper_config \<Rightarrow> Backup \<Rightarrow> ('f, 'g) me_cgsl \<Rightarrow> ('f, 'g) me_cgsl \<times> Backup" where
  "wrapper_storeStates L w b s =
     (let f = FMU (get_p s); n = n_variables (model s);
          x = me_get_continuous_states L f @ drop (NX w) (m_x (model s))
      in (s\<lparr>model := (model s)\<lparr>m_x := x\<rparr>\<rparr>,
          b\<lparr>b_ei_b := me_get_event_indicators L f, b_x := take n x @ drop n (b_x b), b_failed_steps := failed_steps (evolution s),
            b_t := sim_t s, b_h := sim_h s, b_dydt := take n (dydt_out (evolution s)) @ drop n (b_dydt b)\<rparr>))"

text \<open>With the backup in the parameters.\<close>

definition set_p :: "('f fmu_parameters \<Rightarrow> 'f fmu_parameters) \<Rightarrow> ('f, 'g) me_cgsl \<Rightarrow> ('f, 'g) me_cgsl" where
  "set_p g s = set_model_parameters (g (get_p s)) s"

definition restore :: "'g gsl_lib \<Rightarrow> 'f me_fmu \<Rightarrow> wrapper_config \<Rightarrow> ('f, 'g) me_cgsl \<Rightarrow> ('f, 'g) me_cgsl res" where
  "restore lib L w s = wrapper_restoreStates lib L w (p_backup (get_p s)) s"

definition store :: "'f me_fmu \<Rightarrow> wrapper_config \<Rightarrow> ('f, 'g) me_cgsl \<Rightarrow> ('f, 'g) me_cgsl" where
  "store L w s = (let (s, b) = wrapper_storeStates L w (p_backup (get_p s)) s in set_p (\<lambda>p. p\<lparr>p_backup := b\<rparr>) s)"

subsection \<open>State events\<close>

definition hasStateEvent :: "('f, 'g) me_cgsl \<Rightarrow> bool" where
  "hasStateEvent s = stateEvent (get_p s)"

definition getSafeAndCrossed :: "('f, 'g) me_cgsl \<Rightarrow> TimeLoop \<Rightarrow> TimeLoop" where
  "getSafeAndCrossed s lp = lp\<lparr>t_safe := t_ok (get_p s), t_crossed := t_past (get_p s)\<rparr>"

text \<open>Calls that may not return and may end the process.\<close>

definition obind :: "'a res option \<Rightarrow> ('a \<Rightarrow> 'b res option) \<Rightarrow> 'b res option" where
  "obind r f = (case r of None \<Rightarrow> None | Some (Inl e) \<Rightarrow> Some (Inl e) | Some (Inr x) \<Rightarrow> f x)"

definition getGoldenNewTime ::
  "'g gsl_lib \<Rightarrow> 'f me_fmu \<Rightarrow> wrapper_config \<Rightarrow> TimeLoop \<times> ('f, 'g) me_cgsl \<Rightarrow> (TimeLoop \<times> ('f, 'g) me_cgsl) res" where
  "getGoldenNewTime lib L w = (\<lambda>(lp, s).
     let phi = (1 + sqrt 5) / 2 in
     if hasStateEvent s
     then let lp = getSafeAndCrossed s lp in
       rbind (restore lib L w s) (\<lambda>s. Inr (lp\<lparr>dt_new := (t_crossed lp - sim_t s) / phi\<rparr>, s))
     else let s = store L w s; lp = lp\<lparr>t_safe := max (t_safe lp) (sim_t s)\<rparr>
       in Inr (lp\<lparr>dt_new := t_crossed lp - sim_t s - (t_crossed lp - t_safe lp) / phi\<rparr>, s))"

definition me_step :: "'g gsl_lib \<Rightarrow> TimeLoop \<Rightarrow> ('f, 'g) me_cgsl \<Rightarrow> ('f, 'g) me_cgsl res option" where
  "me_step lib lp s =
     (let s = set_p (\<lambda>p. p\<lparr>stateEvent := False, t_past := max (t_past p) (sim_t s + dt_new lp), t_ok := sim_t s\<rparr>) s
      in cgsl_step_to lib (sim_t s) (dt_new lp) s)"

text \<open>The least element; the first one is read in any case.\<close>

definition wrapper_absmin :: "double list \<Rightarrow> nat \<Rightarrow> double" where
  "wrapper_absmin v n = foldr (\<lambda>x m. if m > x then x else m) (take (n - 1) (tl v)) (hd v)"

definition locate_turn ::
  "'g gsl_lib \<Rightarrow> 'f me_fmu \<Rightarrow> wrapper_config \<Rightarrow> TimeLoop \<times> ('f, 'g) me_cgsl \<Rightarrow> (TimeLoop \<times> ('f, 'g) me_cgsl) res option" where
  "locate_turn lib L w st =
     obind (Some (getGoldenNewTime lib L w st)) (\<lambda>(lp, s). obind (me_step lib lp s) (\<lambda>s.
       if dt_new lp = 0 then Some (Inl (Exit 1))
       else if hasStateEvent s
       then obind (Some (restore lib L w s)) (\<lambda>s.
         let lp = getSafeAndCrossed s lp; lp = lp\<lparr>dt_new := t_safe lp - sim_t s\<rparr> in
         obind (me_step lib lp s) (\<lambda>s.
           if hasStateEvent s then Some (Inl (Exit 1))
           else let s = store L w s; lp = lp\<lparr>dt_new := t_crossed lp - sim_t s\<rparr> in
             obind (me_step lib lp s) (\<lambda>s. if hasStateEvent s then Some (Inr (lp, s)) else Some (Inl (Exit 1)))))
       else Some (Inr (lp, s))))"

partial_function (option) stepToEvent ::
  "'g gsl_lib \<Rightarrow> 'f me_fmu \<Rightarrow> wrapper_config \<Rightarrow> TimeLoop \<times> ('f, 'g) me_cgsl \<Rightarrow> (TimeLoop \<times> ('f, 'g) me_cgsl) res option" where
  "stepToEvent lib L w st =
     (let tol = 1 / 10 ^ 9 in
      if \<not> hasStateEvent (snd st) \<and> \<not> (wrapper_absmin (b_ei (p_backup (get_p (snd st)))) (NZ w) < tol \<or> dt_new (fst st) < tol)
      then (case locate_turn lib L w st of
              None \<Rightarrow> None | Some (Inl e) \<Rightarrow> Some (Inl e) | Some (Inr st') \<Rightarrow> stepToEvent lib L w st')
      else Some (Inr st))"

text \<open>The events of the FMU at a point of time.\<close>

partial_function (option) discrete_loop :: "'f me_fmu \<Rightarrow> 'f \<Rightarrow> 'f res option" where
  "discrete_loop L f =
     (let (info, f) = me_new_discrete_states L f in
      if terminateSimulation info then Some (Inl (Exit 1))
      else if newDiscreteStatesNeeded info then discrete_loop L f
      else Some (Inr f))"

definition wrapper_newDiscreteStates :: "'f me_fmu \<Rightarrow> wrapper_config \<Rightarrow> ('f, 'g) me_cgsl \<Rightarrow> ('f, 'g) me_cgsl res option" where
  "wrapper_newDiscreteStates L w s =
     (let f = me_enter_event_mode L (FMU (get_p s)) in
      obind (if NZ w > 0 then discrete_loop L f else Some (Inr f)) (\<lambda>f.
        Some (Inr (store L w (set_p (\<lambda>p. p\<lparr>FMU := snd (me_enter_continuous_time_mode L f)\<rparr>) s)))))"

definition safeTimeStep :: "('f, 'g) me_cgsl \<Rightarrow> TimeLoop \<Rightarrow> TimeLoop" where
  "safeTimeStep s lp = (if hasStateEvent s then lp\<lparr>dt_new := sim_h s * (1 / 10 ^ 5)\<rparr> else lp\<lparr>dt_new := t_end lp - sim_t s\<rparr>)"

definition getSafeTime :: "double \<Rightarrow> Backup \<Rightarrow> double \<Rightarrow> double" where
  "getSafeTime t b dt = (if nextEventTimeDefined (b_eventInfo b) then min dt (nextEventTime (b_eventInfo b) - t) else dt)"

subsection \<open>A communication step\<close>

text \<open>The body of the loop: after the first steps, around an event if there was one, and at the end.\<close>

definition around_event ::
  "'g gsl_lib \<Rightarrow> 'f me_fmu \<Rightarrow> wrapper_config \<Rightarrow> TimeLoop \<times> ('f, 'g) me_cgsl \<Rightarrow> (TimeLoop \<times> ('f, 'g) me_cgsl) res option" where
  "around_event lib L w = (\<lambda>(lp, s).
     let lp = getSafeAndCrossed s lp in
     obind (Some (restore lib L w s)) (\<lambda>s.
       let lp = lp\<lparr>dt_new := t_safe lp - sim_t s\<rparr> in
       obind (me_step lib lp s) (\<lambda>s.
         let s = (if hasStateEvent s then s else store L w s); lp = lp\<lparr>dt_new := t_crossed lp - sim_t s\<rparr> in
         obind (me_step lib lp s) (\<lambda>s. if hasStateEvent s then stepToEvent lib L w (lp, s) else Some (Inr (lp, s))))))"

definition wrapper_turn ::
  "'g gsl_lib \<Rightarrow> 'f me_fmu \<Rightarrow> wrapper_config \<Rightarrow> TimeLoop \<times> ('f, 'g) me_cgsl \<Rightarrow> (TimeLoop \<times> ('f, 'g) me_cgsl) res option" where
  "wrapper_turn lib L w = (\<lambda>(lp, s).
     obind (me_step lib lp s) (\<lambda>s.
       obind (if hasStateEvent s then around_event lib L w (lp, s)
              else Some (Inr (lp\<lparr>t_safe := sim_t s, t_crossed := t_end lp\<rparr>, s))) (\<lambda>(lp, s).
         let lp = safeTimeStep s lp in
         obind (if hasStateEvent s then wrapper_newDiscreteStates L w s else Some (Inr s)) (\<lambda>s. Some (Inr (lp, store L w s))))))"

partial_function (option) wrapper_loop ::
  "'g gsl_lib \<Rightarrow> 'f me_fmu \<Rightarrow> wrapper_config \<Rightarrow> TimeLoop \<times> ('f, 'g) me_cgsl \<Rightarrow> (TimeLoop \<times> ('f, 'g) me_cgsl) res option" where
  "wrapper_loop lib L w st =
     (if t_safe (fst st) < t_end (fst st)
      then (case wrapper_turn lib L w st of
              None \<Rightarrow> None | Some (Inl e) \<Rightarrow> Some (Inl e) | Some (Inr st') \<Rightarrow> wrapper_loop lib L w st')
      else Some (Inr st))"

definition wrapper_runIteration ::
  "'g gsl_lib \<Rightarrow> 'f me_fmu \<Rightarrow> wrapper_config \<Rightarrow> double \<Rightarrow> double \<Rightarrow> ('f, 'g) me_cgsl \<Rightarrow> ('f, 'g) me_cgsl res option" where
  "wrapper_runIteration lib L w t dt s =
     (let lp = \<lparr>t_safe = t, dt_new = getSafeTime t (p_backup (get_p s)) dt, t_crossed = t, t_end = t + dt\<rparr> in
      obind (wrapper_newDiscreteStates L w s) (\<lambda>s. obind (wrapper_loop lib L w (lp, s)) (\<lambda>(lp, s). Some (Inr s))))"

subsection \<open>The instance\<close>

text \<open>The simulation exists once the initialization has been left (\<open>wrapper_prepare\<close>).\<close>

record ('f, 'g) me_simulation =
  w_sim :: "('f, 'g) me_cgsl option"
  partials :: "(nat \<times> nat \<times> nat) list"   \<comment> \<open>unknown, known, and the variable that is the derivative\<close>
  inner :: 'f
  w_backup :: Backup
  num_averaged_outputs :: nat
  averaged_outputs :: "double list \<times> double list"
  md_integrator :: int
  md_octave_output :: string

definition lend :: "('f, 'g) me_simulation \<Rightarrow> ('f, 'g) me_cgsl \<Rightarrow> ('f, 'g) me_cgsl" where
  "lend st s = set_p (\<lambda>p. p\<lparr>FMU := inner st\<rparr>) s"

definition give_back :: "('f, 'g) me_cgsl \<Rightarrow> ('f, 'g) me_simulation \<Rightarrow> ('f, 'g) me_simulation" where
  "give_back s st = st\<lparr>w_sim := Some s, inner := FMU (get_p s)\<rparr>"

subsection \<open>Variables\<close>

definition filtered :: "wrapper_config \<Rightarrow> ('f, 'g) me_simulation \<Rightarrow> nat \<Rightarrow> double \<Rightarrow> double" where
  "filtered w st vr v =
     fold (\<lambda>j v. if vr = real_output_vrs w ! j
                 then (if num_averaged_outputs st = 1 then snd (averaged_outputs st) ! j
                       else 1 / 2 * (fst (averaged_outputs st) ! j + snd (averaged_outputs st) ! j))
                 else v) [0..<n_outputs w] v"

definition wrapper_getReal :: "'f me_fmu \<Rightarrow> wrapper_config \<Rightarrow> nat list \<Rightarrow> ('f, 'g) me_simulation \<Rightarrow> fmi2_status \<times> double list" where
  "wrapper_getReal L w vr st =
     (let (ret, v) = me_get_real L vr (inner st) in
      (ret, if use_filter w \<and> num_averaged_outputs st > 0 then map2 (filtered w st) vr v else v))"

definition wrapper_setReal ::
  "'f me_fmu \<Rightarrow> nat list \<Rightarrow> double list \<Rightarrow> ('f, 'g) me_simulation \<Rightarrow> fmi2_status \<times> ('f, 'g) me_simulation" where
  "wrapper_setReal L vr v st = (let (ret, f) = me_set_real L vr v (inner st) in (ret, st\<lparr>inner := f\<rparr>))"

fun wrapper_getInteger :: "'f me_fmu \<Rightarrow> wrapper_config \<Rightarrow> nat list \<Rightarrow> ('f, 'g) me_simulation \<Rightarrow> fmi2_status \<times> int list" where
  "wrapper_getInteger L w [] st = (fmi2_status_ok, [])"
| "wrapper_getInteger L w (vr # vrs) st =
     (let (ret, v) = (if vr = VR_INTEGRATOR w then (fmi2_status_ok, md_integrator st) else me_get_integer L vr (inner st)) in
      if ret \<noteq> fmi2_status_ok then (fmi2_status_error, [])
      else let (ret, vs) = wrapper_getInteger L w vrs st in (ret, v # vs))"

fun wrapper_setInteger ::
  "'f me_fmu \<Rightarrow> wrapper_config \<Rightarrow> (nat \<times> int) list \<Rightarrow> ('f, 'g) me_simulation \<Rightarrow> fmi2_status \<times> ('f, 'g) me_simulation" where
  "wrapper_setInteger L w [] st = (fmi2_status_ok, st)"
| "wrapper_setInteger L w ((vr, v) # vs) st =
     (if vr = VR_INTEGRATOR w then wrapper_setInteger L w vs (st\<lparr>md_integrator := v\<rparr>)
      else let (ret, f) = me_set_integer L vr v (inner st); st = st\<lparr>inner := f\<rparr> in
        if ret \<noteq> fmi2_status_ok then (fmi2_status_error, st) else wrapper_setInteger L w vs st)"

fun wrapper_setString ::
  "'f me_fmu \<Rightarrow> wrapper_config \<Rightarrow> (nat \<times> string) list \<Rightarrow> ('f, 'g) me_simulation \<Rightarrow> fmi2_status \<times> ('f, 'g) me_simulation" where
  "wrapper_setString L w [] st = (fmi2_status_ok, st)"
| "wrapper_setString L w ((vr, v) # vs) st =
     (if vr = VR_OCTAVE_OUTPUT w then wrapper_setString L w vs (st\<lparr>md_octave_output := strlcpy2 v (OCTAVE_SIZE w)\<rparr>)
      else let (ret, f) = me_set_string L vr v (inner st); st = st\<lparr>inner := f\<rparr> in
        if ret \<noteq> fmi2_status_ok then (fmi2_status_error, st) else wrapper_setString L w vs st)"

subsection \<open>Saved states and partial derivatives\<close>

definition wrapper_get :: "'f me_fmu \<Rightarrow> wrapper_config \<Rightarrow> ('f, 'g) me_simulation \<Rightarrow> ('f, 'g) me_simulation res" where
  "wrapper_get L w st =
     (case w_sim st of None \<Rightarrow> Inl (UB ''sim->model'')
      | Some s \<Rightarrow> let (s, b) = wrapper_storeStates L w (w_backup st) (lend st s) in Inr (give_back s (st\<lparr>w_backup := b\<rparr>)))"

definition wrapper_set :: "'g gsl_lib \<Rightarrow> 'f me_fmu \<Rightarrow> wrapper_config \<Rightarrow> ('f, 'g) me_simulation \<Rightarrow> ('f, 'g) me_simulation res" where
  "wrapper_set lib L w st =
     (case w_sim st of None \<Rightarrow> Inl (UB ''sim->model'')
      | Some s \<Rightarrow> rbind (wrapper_restoreStates lib L w (w_backup st) (lend st s)) (\<lambda>s. Inr (give_back s st)))"

text \<open>The search for a change of the input. The last change and the last value of the output are kept.\<close>

partial_function (option) probe_loop ::
  "'f me_fmu \<Rightarrow> wrapper_config \<Rightarrow> nat \<Rightarrow> nat \<Rightarrow> double \<Rightarrow> double \<Rightarrow> double \<times> double \<Rightarrow> double \<times> double \<Rightarrow> ('f, 'g) me_simulation
     \<Rightarrow> (fmi2_status \<times> (double \<times> double) \<times> ('f, 'g) me_simulation) option" where
  "probe_loop L w vr wrt wrt0 vr0 bounds best st =
     (let (lo, hi) = bounds in
      if hi / lo > 3 / 2
      then let dwrt = sqrt hi * sqrt lo; (ret, st) = wrapper_setReal L [wrt] [wrt0 + dwrt] st in
        if ret \<noteq> fmi2_status_ok then Some (fmi2_status_error, best, st)
        else let (ret, v) = wrapper_getReal L w [vr] st in
          if ret \<noteq> fmi2_status_ok then Some (fmi2_status_error, best, st)
          else let vr1 = hd v in
            probe_loop L w vr wrt wrt0 vr0 (if \<bar>vr1 - vr0\<bar> < 1 / 2 * \<bar>vr0\<bar> then (dwrt, hi) else (lo, dwrt)) (dwrt, vr1) st
      else Some (fmi2_status_ok, best, st))"

definition probe_start :: "double \<times> double" where
  "probe_start = (1 / 10 ^ 307, 10 ^ 307)"

definition numeric_partial ::
  "'g gsl_lib \<Rightarrow> 'f me_fmu \<Rightarrow> wrapper_config \<Rightarrow> nat \<Rightarrow> nat \<Rightarrow> ('f, 'g) me_simulation \<Rightarrow> ((fmi2_status \<times> double option) \<times> ('f, 'g) me_simulation) res option" where
  "numeric_partial lib L w vr wrt st =
     obind (Some (wrapper_get L w st)) (\<lambda>st.
       let (ret, a) = wrapper_getReal L w [wrt] st; (ret', b) = wrapper_getReal L w [vr] st in
       if ret \<noteq> fmi2_status_ok \<or> ret' \<noteq> fmi2_status_ok then Some (Inr ((fmi2_status_error, None), st))
       else case probe_loop L w vr wrt (hd a) (hd b) probe_start (0, 0) st of
         None \<Rightarrow> None
       | Some (ret, (dwrt, vr1), st) \<Rightarrow>
           if ret \<noteq> fmi2_status_ok then Some (Inr ((fmi2_status_error, None), st))
           else obind (Some (wrapper_set lib L w st)) (\<lambda>st. Some (Inr ((fmi2_status_ok, Some ((vr1 - hd b) / dwrt)), st))))"

definition wrapper_getPartial ::
  "'g gsl_lib \<Rightarrow> 'f me_fmu \<Rightarrow> wrapper_config \<Rightarrow> nat \<Rightarrow> nat \<Rightarrow> ('f, 'g) me_simulation \<Rightarrow> ((fmi2_status \<times> double option) \<times> ('f, 'g) me_simulation) res option" where
  "wrapper_getPartial lib L w vr wrt st =
     (case me_directional L of
        Some d \<Rightarrow> let (ret, v) = d vr wrt (inner st) in Some (Inr ((ret, Some v), st))
      | None \<Rightarrow>
          (case find (\<lambda>(unknown, known, _). unknown = vr \<and> known = wrt) (partials st) of
             Some (_, _, d) \<Rightarrow> let (ret, v) = wrapper_getReal L w [d] st in Some (Inr ((ret, Some (hd v)), st))
           | None \<Rightarrow> numeric_partial lib L w vr wrt st))"

subsection \<open>Steps and initialization\<close>

definition clear_averages :: "wrapper_config \<Rightarrow> ('f, 'g) me_cgsl \<Rightarrow> ('f, 'g) me_cgsl" where
  "clear_averages w s =
     s\<lparr>model := (model s)\<lparr>m_x := fold (\<lambda>i x. x[NX w + i := 0]) [0..<n_outputs w] (m_x (model s))\<rparr>\<rparr>"

definition rotate_averages :: "wrapper_config \<Rightarrow> double \<Rightarrow> ('f, 'g) me_cgsl \<Rightarrow> ('f, 'g) me_simulation \<Rightarrow> ('f, 'g) me_simulation" where
  "rotate_averages w dt s st =
     st\<lparr>averaged_outputs := (snd (averaged_outputs st), map (\<lambda>i. m_x (model s) ! (NX w + i) / dt) [0..<n_outputs w]),
        num_averaged_outputs := (if num_averaged_outputs st < 2 then num_averaged_outputs st + 1 else num_averaged_outputs st)\<rparr>"

definition wrapper_doStep ::
  "'g gsl_lib \<Rightarrow> 'f me_fmu \<Rightarrow> wrapper_config \<Rightarrow> double \<Rightarrow> double \<Rightarrow> ('f, 'g) me_simulation \<Rightarrow> ('f, 'g) me_simulation res option" where
  "wrapper_doStep lib L w t dt st =
     (case w_sim st of None \<Rightarrow> Some (Inl (UB ''sim->model''))
      | Some s \<Rightarrow>
          let s = lend st s; s = (if use_filter w then clear_averages w s else s) in
          obind (wrapper_runIteration lib L w t dt s) (\<lambda>s.
            Some (Inr (let st = give_back s st in if use_filter w then rotate_averages w dt s st else st))))"

definition wrapper_setup_experiment :: "'f me_fmu \<Rightarrow> double \<Rightarrow> ('f, 'g) me_simulation \<Rightarrow> fmi2_status \<times> ('f, 'g) me_simulation" where
  "wrapper_setup_experiment L t st = (let (ret, f) = me_setup_experiment L t (inner st) in (ret, st\<lparr>inner := f\<rparr>))"

definition wrapper_enter_init :: "'f me_fmu \<Rightarrow> ('f, 'g) me_simulation \<Rightarrow> fmi2_status \<times> ('f, 'g) me_simulation" where
  "wrapper_enter_init L st = (let (ret, f) = me_enter_initialization_mode L (inner st) in (ret, st\<lparr>inner := f\<rparr>))"

text \<open>The triples of numbers at the start of the file directional.txt, if there is one.\<close>

definition read_partials :: "wrapper_config \<Rightarrow> (nat \<times> nat \<times> nat) list option \<Rightarrow> ('f, 'g) me_simulation \<Rightarrow> ('f, 'g) me_simulation res" where
  "read_partials w triples st =
     (case triples of None \<Rightarrow> Inr st
      | Some ts \<Rightarrow> let room = n_reals w * n_reals w in
          if length (partials st) \<ge> room then Inl (UB ''partials'')
          else Inr (st\<lparr>partials := partials st @ take (room - length (partials st)) ts\<rparr>))"

definition wrapper_exit_init ::
  "'g gsl_lib \<Rightarrow> 'f me_fmu \<Rightarrow> wrapper_config \<Rightarrow> (nat \<times> nat \<times> nat) list option \<Rightarrow> ('f, 'g) me_simulation \<Rightarrow> (fmi2_status \<times> ('f, 'g) me_simulation) res" where
  "wrapper_exit_init lib L w triples st =
     rbind (wrapper_prepare lib L w (inner st) (md_integrator st)) (\<lambda>s.
       let st = give_back s st; (ret, f) = me_exit_initialization_mode L (inner st); st = st\<lparr>inner := f\<rparr> in
       if ret = fmi2_status_error then Inr (ret, st)
       else let (ret, f) = me_enter_continuous_time_mode L (inner st); st = st\<lparr>inner := f\<rparr> in
         if ret = fmi2_status_error then Inr (ret, st)
         else rbind (read_partials w triples st) (\<lambda>st. Inr (fmi2_status_ok, st)))"

end
