(* ===== verification/Wrapper_Props.thy ===== *)
theory Wrapper_Props
  imports Wrapper
begin

text \<open>
  What the wrapper of model exchange FMUs does: in a step of the integrator that returns, the first sign change of an event indicator is caught with its time and the state of
  the FMU, and the numerical partial derivative is a difference quotient.
\<close>

subsection \<open>Simulations of a wrapped FMU\<close>

text \<open>The simulations which \<open>wrapper_prepare\<close> makes.\<close>

definition ready :: "'f me_fmu \<Rightarrow> wrapper_config \<Rightarrow> ('f, 'g) me_cgsl \<Rightarrow> bool" where
  "ready L w s \<longleftrightarrow> ode_function (model s) = fmu_function L w \<and> pre_step (model s) = None \<and> post_step (model s) = None
     \<and> \<not> fixed_step s \<and> n_variables (model s) = integrated w"

lemma ready_same: "ready L w s \<Longrightarrow> keeps_setup s s' \<Longrightarrow> ready L w s'"
  by (simp add: ready_def keeps_setup_def)

lemma ready_set_p [simp]: "ready L w (set_p g s) = ready L w s"
  by (simp add: ready_def set_p_def set_model_parameters_def)

lemma set_p_simps [simp]:
  "get_p (set_p g s) = g (get_p s)" "sim_t (set_p g s) = sim_t s" "sim_h (set_p g s) = sim_h s" "fixed_step (set_p g s) = fixed_step s"
  "evolution (set_p g s) = evolution s" "m_x (model (set_p g s)) = m_x (model s)" "n_variables (model (set_p g s)) = n_variables (model s)"
  by (simp_all add: set_p_def set_model_parameters_def)

lemma prepare_ready:
  assumes "wrapper_prepare lib L w f integrator = Inr s"
  shows "ready L w s \<and> sim_t s = 0 \<and> FMU (get_p s) = f \<and> \<not> hasStateEvent s \<and> \<not> nextEventTimeDefined (b_eventInfo (p_backup (get_p s)))"
  using assms
  by (auto simp: wrapper_prepare_def init_fmu_model_def cgsl_init_simulation_def cgsl_init_simulation_tolerance_def ready_def Let_def
      cgsl_model_default_alloc_def cgsl_print_data_def hasStateEvent_def zero_backup_def zero_event_info_def split: if_splits)

subsection \<open>State events\<close>

lemma wrapper_past_event_iff: "wrapper_past_event a b n \<longleftrightarrow> (\<exists>i<n. (a ! i < 0) \<noteq> (b ! i < 0))"
  by (induction n) (auto simp: less_Suc_eq)

text \<open>What an evaluation before an event does to the FMU, and the first of some evaluations after which an indicator has another sign than
  in \<open>z\<close>.\<close>

definition visit :: "'f me_fmu \<Rightarrow> wrapper_config \<Rightarrow> double \<times> double list \<Rightarrow> 'f \<Rightarrow> 'f" where
  "visit L w = (\<lambda>(t, x) f. me_set_continuous_states L (take (NX w) x) (me_set_time L t f))"

fun first_change :: "'f me_fmu \<Rightarrow> wrapper_config \<Rightarrow> double list \<Rightarrow> 'f \<Rightarrow> (double \<times> double list) list \<Rightarrow> nat option" where
  "first_change L w z f [] = None"
| "first_change L w z f (e # es) =
     (if \<exists>i<NZ w. (z ! i < 0) \<noteq> (me_get_event_indicators L (visit L w e f) ! i < 0) then Some 0
      else map_option Suc (first_change L w z (visit L w e f) es))"

lemma evaluate_after_event:
  "stateEvent p \<Longrightarrow> let p' = fold (evaluate (fmu_function L w)) es p in
     stateEvent p' \<and> FMU p' = FMU p \<and> t_past p' = t_past p \<and> t_ok p' = t_ok p \<and> p_backup p' = p_backup p"
proof (induction es arbitrary: p)
  case (Cons e es)
  obtain t x where e: "e = (t, x)" by fastforce
  have "snd (fmu_function L w t x p) = p\<lparr>f_count := f_count p + 1\<rparr>" using Cons.prems by (simp add: fmu_function_def)
  then show ?case using Cons.IH[of "p\<lparr>f_count := f_count p + 1\<rparr>"] Cons.prems by (simp add: e Let_def)
qed simp

lemma evaluate_before_event:
  assumes "0 < NZ w" and "\<not> stateEvent p"
  shows "let p' = snd (fmu_function L w t x p) in
     FMU p' = visit L w (t, x) (FMU p) \<and> b_ei_b (p_backup p') = b_ei_b (p_backup p)
     \<and> (if \<exists>i<NZ w. (b_ei_b (p_backup p) ! i < 0) \<noteq> (me_get_event_indicators L (FMU p') ! i < 0)
        then stateEvent p' \<and> t_past p' = t \<and> t_ok p' = t_ok p else \<not> stateEvent p' \<and> t_ok p' = t \<and> t_past p' = t_past p)"
  unfolding wrapper_past_event_iff[symmetric] using assms by (simp add: fmu_function_def visit_def Let_def)

lemma evaluations_caught:
  assumes "0 < NZ w"
  shows "\<not> stateEvent p \<Longrightarrow> let p' = fold (evaluate (fmu_function L w)) es p in
     case first_change L w (b_ei_b (p_backup p)) (FMU p) es of
       None \<Rightarrow> \<not> stateEvent p' \<and> FMU p' = fold (visit L w) es (FMU p) \<and> t_ok p' = (if es = [] then t_ok p else fst (last es))
         \<and> t_past p' = t_past p
     | Some k \<Rightarrow> stateEvent p' \<and> FMU p' = fold (visit L w) (take (Suc k) es) (FMU p) \<and> t_past p' = fst (es ! k)
         \<and> t_ok p' = (if k = 0 then t_ok p else fst (es ! (k - 1)))"
proof (induction es arbitrary: p)
  case (Cons e es)
  obtain t x where e: "e = (t, x)" by fastforce
  let ?p = "snd (fmu_function L w t x p)"
  note b = evaluate_before_event[OF assms Cons.prems, of L t x]
  show ?case
  proof (cases "\<exists>i<NZ w. (b_ei_b (p_backup p) ! i < 0) \<noteq> (me_get_event_indicators L (visit L w e (FMU p)) ! i < 0)")
    case True
    then show ?thesis using b evaluate_after_event[of ?p L w es] by (simp add: e Let_def)
  next
    case False
    then have "\<not> stateEvent ?p" using b by (auto simp: e Let_def)
    from Cons.IH[OF this] False b show ?thesis
      by (auto simp: e Let_def nth_Cons' split: option.splits)
  qed
qed simp

text \<open>The evaluations of a step of the integrator in a communication step.\<close>

definition me_start :: "TimeLoop \<Rightarrow> ('f, 'g) me_cgsl \<Rightarrow> ('f, 'g) me_cgsl" where
  "me_start lp s = set_p (\<lambda>p. p\<lparr>stateEvent := False, t_past := max (t_past p) (sim_t s + dt_new lp), t_ok := sim_t s\<rparr>) s"

definition me_evaluations :: "'g gsl_lib \<Rightarrow> TimeLoop \<Rightarrow> ('f, 'g) me_cgsl \<Rightarrow> nat \<Rightarrow> (double \<times> double list) list" where
  "me_evaluations lib lp s n = loop_evaluations lib n (loop_start lib (sim_t s) (dt_new lp) (me_start lp s))"

text \<open>C27: state events are caught. Take the evaluations of the equations in a step of the integrator that returns, in order. If at none of them an
  event indicator has another sign than in the last saved state, there is no state event, the FMU has been led through all of them and the
  last one is recorded as safe. Otherwise there is a state event: the FMU is left at the first evaluation with another sign, whose time
  is recorded as crossed, the time of the evaluation before it is recorded as safe, and the evaluations behind it change nothing.\<close>

theorem state_events_caught:
  assumes "me_step lib lp s = Some (Inr s')" and "ready L w s" and "0 < NZ w"
  shows "let evs = me_evaluations lib lp s (iterations s'); p = get_p s' in
     case first_change L w (b_ei_b (p_backup (get_p s))) (FMU (get_p s)) evs of
       None \<Rightarrow> \<not> hasStateEvent s' \<and> FMU p = fold (visit L w) evs (FMU (get_p s))
         \<and> t_ok p = (if evs = [] then sim_t s else fst (last evs))
     | Some k \<Rightarrow> hasStateEvent s' \<and> FMU p = fold (visit L w) (take (Suc k) evs) (FMU (get_p s)) \<and> t_past p = fst (evs ! k)
         \<and> t_ok p = (if k = 0 then sim_t s else fst (evs ! (k - 1)))"
proof -
  have r: "ready L w (me_start lp s)" using assms(2) by (simp add: me_start_def)
  have st: "cgsl_step_to lib (sim_t s) (dt_new lp) (me_start lp s) = Some (Inr s')"
    using assms(1) by (simp add: me_step_def me_start_def)
  have p: "get_p s' = fold (evaluate (fmu_function L w)) (me_evaluations lib lp s (iterations s')) (get_p (me_start lp s))"
    using step_to_evaluations(2)[OF st] r by (simp add: ready_def me_evaluations_def)
  have q: "\<not> stateEvent (get_p (me_start lp s))" "p_backup (get_p (me_start lp s)) = p_backup (get_p s)"
    "FMU (get_p (me_start lp s)) = FMU (get_p s)" "t_ok (get_p (me_start lp s)) = sim_t s" by (simp_all add: me_start_def)
  show ?thesis
    using evaluations_caught[OF assms(3) q(1), of L "me_evaluations lib lp s (iterations s')"]
    unfolding p hasStateEvent_def q by (auto simp: Let_def split: option.splits)
qed

text \<open>The search for the event is not reached: its loop wants that there is no state event, its caller that there is one.\<close>

text \<open>The search for the time of an event does nothing. In the only place where stepToEvent is called it returns at once, so the steps
  around an event are the two steps to the last safe and to the first crossed point the integrator happened to evaluate.\<close>

theorem event_search_skipped:
  "around_event lib L w (lp, s) =
     (let lp = getSafeAndCrossed s lp in
      obind (Some (restore lib L w s)) (\<lambda>s.
        obind (me_step lib (lp\<lparr>dt_new := t_safe lp - sim_t s\<rparr>) s) (\<lambda>s.
          let s = (if hasStateEvent s then s else store L w s); lp = lp\<lparr>dt_new := t_crossed lp - sim_t s\<rparr> in
          obind (me_step lib lp s) (\<lambda>s. Some (Inr (lp, s))))))"
proof -
  have skip: "hasStateEvent s \<Longrightarrow> stepToEvent lib L w (lp, s) = Some (Inr (lp, s))" for lp s
    by (subst stepToEvent.simps) simp
  have "(if hasStateEvent s then stepToEvent lib L w (lp, s) else Some (Inr (lp, s))) = Some (Inr (lp, s))" for lp s
    using skip by simp
  then show ?thesis by (simp add: around_event_def Let_def)
qed

subsection \<open>Partial derivatives\<close>

lemma probe_halves:
  assumes "0 < lo" and "0 < hi"
  shows "sqrt hi * sqrt lo / lo = sqrt (hi / lo)" "hi / (sqrt hi * sqrt lo) = sqrt (hi / lo)" "0 < sqrt hi * sqrt lo"
  using assms by (simp_all add: real_sqrt_divide field_simps)

text \<open>An FMU in which the last value set to an input counts and the output is a function of it.\<close>

definition responds :: "'f me_fmu \<Rightarrow> nat \<Rightarrow> nat \<Rightarrow> (double \<Rightarrow> 'f) \<Rightarrow> (double \<Rightarrow> double) \<Rightarrow> bool" where
  "responds L vr wrt F g \<longleftrightarrow> (\<forall>u v. me_set_real L [wrt] [v] (F u) = (fmi2_status_ok, F v)) \<and> (\<forall>u. me_get_real L [vr] (F u) = (fmi2_status_ok, [g u]))"

lemma probe_loop_returns:
  assumes "responds L vr wrt F g" and "\<not> use_filter w" and "0 < lo" and "0 < hi" and "hi / lo \<le> (3 / 2) ^ (2 ^ k)"
    and "inner st = F u" and "0 < dwrt \<and> y = g u \<and> u = u0 + dwrt \<or> 3 / 2 < hi / lo"
  shows "\<exists>h>0. probe_loop L w vr wrt u0 y0 (lo, hi) (dwrt, y) st = Some (fmi2_status_ok, (h, g (u0 + h)), st\<lparr>inner := F (u0 + h)\<rparr>)"
  using assms(3-7)
proof (induction k arbitrary: lo hi st u dwrt y)
  case 0
  then have "\<not> 3 / 2 < hi / lo" by simp
  then show ?case using 0 by (subst probe_loop.simps) auto
next
  case (Suc k)
  show ?case
  proof (cases "3 / 2 < hi / lo")
    case False
    then show ?thesis using Suc.prems by (subst probe_loop.simps) auto
  next
    case True
    let ?h = "sqrt hi * sqrt lo"
    let ?st = "st\<lparr>inner := F (u0 + ?h)\<rparr>"
    let ?b = "if \<bar>g (u0 + ?h) - y0\<bar> < 1 / 2 * \<bar>y0\<bar> then (?h, hi) else (lo, ?h)"
    have step: "probe_loop L w vr wrt u0 y0 (lo, hi) (dwrt, y) st = probe_loop L w vr wrt u0 y0 ?b (?h, g (u0 + ?h)) ?st"
      using True assms(1,2) Suc.prems(4)
      by (subst probe_loop.simps) (simp add: wrapper_setReal_def wrapper_getReal_def responds_def Let_def)
    note half = probe_halves[OF Suc.prems(1,2)]
    have "sqrt (hi / lo) \<le> sqrt ((3 / 2) ^ (2 ^ Suc k))" using Suc.prems(3) by simp
    also have "((3 / 2) ^ (2 ^ Suc k) :: real) = ((3 / 2) ^ (2 ^ k))\<^sup>2" by (simp add: power_mult[symmetric] mult.commute)
    also have "sqrt \<dots> = (3 / 2) ^ (2 ^ k)" by simp
    finally have ratio: "sqrt (hi / lo) \<le> (3 / 2) ^ (2 ^ k)" .
    obtain lo' hi' where b: "?b = (lo', hi')" by fastforce
    then have "0 < lo' \<and> 0 < hi' \<and> hi' / lo' = sqrt (hi / lo)" using half Suc.prems(1,2) by (auto split: if_splits)
    then obtain h where "h > 0" "probe_loop L w vr wrt u0 y0 (lo', hi') (?h, g (u0 + ?h)) ?st
        = Some (fmi2_status_ok, (h, g (u0 + h)), ?st\<lparr>inner := F (u0 + h)\<rparr>)"
      using Suc.IH[of lo' hi' ?st "u0 + ?h" ?h "g (u0 + ?h)"] ratio half(3) by auto
    then show ?thesis using step b by auto
  qed
qed

lemma probe_range: "(10::real) ^ 307 / (1 / 10 ^ 307) \<le> (3 / 2) ^ (2 ^ 12)"
proof -
  have "(10::real) ^ 307 / (1 / 10 ^ 307) = (10 * 10) ^ 307" by (simp only: power_mult_distrib divide_divide_eq_right div_by_1)
  also have "\<dots> \<le> ((3 / 2) ^ 12) ^ 307" by (rule power_mono) (simp_all add: power_divide)
  also have "\<dots> = (3 / 2) ^ (12 * 307)" by (simp only: power_mult)
  also have "\<dots> \<le> (3 / 2) ^ (2 ^ 12)" by (rule power_increasing) simp_all
  finally show ?thesis .
qed

lemma probe_start_range: "0 < fst probe_start" "0 < snd probe_start" "snd probe_start / fst probe_start \<le> (3 / 2) ^ (2 ^ 12)"
  "3 / 2 < snd probe_start / fst probe_start"
proof -
  show "snd probe_start / fst probe_start \<le> (3 / 2) ^ (2 ^ 12)" unfolding probe_start_def fst_conv snd_conv by (rule probe_range)
  have "(3 / 2 :: real) < 10 ^ 1" by simp
  also have "\<dots> \<le> 10 ^ (307 + 307)" by (rule power_increasing) simp_all
  also have "\<dots> = 10 ^ 307 * 10 ^ 307" by (rule power_add)
  finally show "3 / 2 < snd probe_start / fst probe_start" unfolding probe_start_def fst_conv snd_conv by (simp only: divide_divide_eq_right div_by_1)
qed (simp_all only: probe_start_def fst_conv snd_conv zero_less_divide_iff zero_less_power zero_less_numeral zero_less_one simp_thms)

text \<open>C28: the numerical partial derivative. For an FMU that has no directional derivatives and whose output is a function of the input, the search for a
  change of the input ends, and the result is the difference quotient of the output for the change that was found. But the FMU is
  left with the changed input: only its time and its continuous states are restored.\<close>

theorem numeric_partial_quotient:
  assumes "responds L vr wrt F g" and "me_directional L = None" and "find (\<lambda>(unknown, known, _). unknown = vr \<and> known = wrt) (partials st) = None"
    and "w_sim st = Some s" and "n_variables (model s) = integrated w" and "\<not> use_filter w"
    and "inner st = F u0" and "me_get_real L [wrt] (F u0) = (fmi2_status_ok, [u0])" and "length (me_get_continuous_states L (F u0)) = NX w"
    and "\<And>x t u. me_get_real L [wrt] (me_set_continuous_states L x (me_set_time L t (F u))) = (fmi2_status_ok, [u])"
  shows "\<exists>h>0. \<exists>st'. wrapper_getPartial lib L w vr wrt st = Some (Inr ((fmi2_status_ok, Some ((g (u0 + h) - g u0) / h)), st'))
     \<and> inner st' = me_set_continuous_states L (me_get_continuous_states L (F u0)) (me_set_time L (sim_t s) (F (u0 + h)))
     \<and> wrapper_getReal L w [wrt] st' = (fmi2_status_ok, [u0 + h])"
proof -
  obtain s1 b where sb: "wrapper_storeStates L w (w_backup st) (lend st s) = (s1, b)" by fastforce
  let ?st1 = "give_back s1 (st\<lparr>w_backup := b\<rparr>)"
  have s1: "FMU (get_p s1) = F u0" "n_variables (model s1) = NX w" "b_t b = sim_t s" "take (NX w) (b_x b) = me_get_continuous_states L (F u0)"
    using sb assms(5,6,7,9) by (auto simp: wrapper_storeStates_def lend_def Let_def integrated_def)
  have get: "wrapper_get L w st = Inr ?st1" using assms(4) sb by (simp add: wrapper_get_def)
  have st1: "inner ?st1 = F u0" "w_sim ?st1 = Some s1" "w_backup ?st1 = b" using s1 by (simp_all add: give_back_def)
  have in0: "wrapper_getReal L w [wrt] ?st1 = (fmi2_status_ok, [u0])" "wrapper_getReal L w [vr] ?st1 = (fmi2_status_ok, [g u0])"
    using assms(1,6,8) st1(1) by (simp_all add: wrapper_getReal_def responds_def)
  obtain h where h: "h > 0" "probe_loop L w vr wrt u0 (g u0) probe_start (0, 0) ?st1
      = Some (fmi2_status_ok, (h, g (u0 + h)), ?st1\<lparr>inner := F (u0 + h)\<rparr>)"
    using probe_loop_returns[OF assms(1,6) probe_start_range(1-3) st1(1), of 0 0 u0 "g u0"] probe_start_range(4) by auto
  let ?st2 = "?st1\<lparr>inner := F (u0 + h)\<rparr>"
  obtain s2 where s2: "wrapper_restoreStates lib L w b (lend ?st2 s1) = Inr s2"
    "FMU (get_p s2) = me_set_continuous_states L (me_get_continuous_states L (F u0)) (me_set_time L (sim_t s) (F (u0 + h)))"
    using s1 assms(6,9) by (auto simp: wrapper_restoreStates_def lend_def Let_def integrated_def)
  have set: "wrapper_set lib L w ?st2 = Inr (give_back s2 ?st2)"
    using st1 s2(1) by (simp add: wrapper_set_def)
  have "wrapper_getPartial lib L w vr wrt st = Some (Inr ((fmi2_status_ok, Some ((g (u0 + h) - g u0) / h)), give_back s2 ?st2))"
    using assms(2,3) get in0 h(2) set by (simp add: wrapper_getPartial_def numeric_partial_def obind_def Let_def)
  moreover have "inner (give_back s2 ?st2) = me_set_continuous_states L (me_get_continuous_states L (F u0)) (me_set_time L (sim_t s) (F (u0 + h)))"
    using s2(2) by (simp add: give_back_def)
  ultimately show ?thesis using h(1) assms(6,10) by (auto simp: wrapper_getReal_def)
qed

subsection \<open>A wrapped FMU\<close>

text \<open>Its only state is an input; the output is twice the input. There are \<open>n\<close> event indicators, which are positive.\<close>

definition gain :: "nat \<Rightarrow> double me_fmu" where
  "gain n = \<lparr>me_set_time = \<lambda>t f. f, me_set_continuous_states = \<lambda>x f. f, me_get_continuous_states = \<lambda>f. [], me_get_derivatives = \<lambda>f. [],
     me_get_event_indicators = \<lambda>f. replicate n 1, me_enter_event_mode = \<lambda>f. f, me_new_discrete_states = \<lambda>f. (zero_event_info, f),
     me_enter_continuous_time_mode = \<lambda>f. (fmi2_status_ok, f), me_setup_experiment = \<lambda>t f. (fmi2_status_ok, f),
     me_enter_initialization_mode = \<lambda>f. (fmi2_status_ok, f), me_exit_initialization_mode = \<lambda>f. (fmi2_status_ok, f),
     me_number_of_states = \<lambda>f. 0, me_number_of_indicators = \<lambda>f. n,
     me_get_real = \<lambda>vrs f. (fmi2_status_ok, map (\<lambda>vr. if vr = 0 then f else 2 * f) vrs),
     me_set_real = \<lambda>vrs vs f. (fmi2_status_ok, hd vs), me_get_integer = \<lambda>vr f. (fmi2_status_ok, 0), me_set_integer = \<lambda>vr v f. (fmi2_status_ok, f),
     me_set_string = \<lambda>vr v f. (fmi2_status_ok, f), me_directional = None\<rparr>"

definition gain_config :: "nat \<Rightarrow> wrapper_config" where
  "gain_config n = \<lparr>NX = 0, NZ = n, real_output_vrs = [1], use_filter = False, n_reals = 2, VR_INTEGRATOR = 10, VR_OCTAVE_OUTPUT = 11, OCTAVE_SIZE = 100\<rparr>"

definition gain_simulation :: "nat \<Rightarrow> (double, unit) me_cgsl" where
  "gain_simulation n = projr (wrapper_prepare euler (gain n) (gain_config n) 3 4)"

definition gain_start :: "(double, unit) me_simulation" where
  "gain_start = \<lparr>w_sim = None, partials = [], inner = 3, w_backup = zero_backup (gain_config 0), num_averaged_outputs = 0,
     averaged_outputs = ([], []), md_integrator = 4, md_octave_output = []\<rparr>"

lemma gain_prepared: "wrapper_prepare euler (gain n) (gain_config n) 3 4 = Inr (gain_simulation n)"
  by (simp add: gain_simulation_def wrapper_prepare_def init_fmu_model_def gain_def gain_config_def cgsl_init_simulation_def
      cgsl_init_simulation_tolerance_def cgsl_get_integrator_def)

text \<open>An FMU whose state is the time; its event indicator falls through zero at 1/2.\<close>

definition clock :: "double me_fmu" where
  "clock = (gain 1)\<lparr>me_set_time := \<lambda>t f. t, me_get_event_indicators := \<lambda>f. [1 / 2 - f]\<rparr>"

definition clock_simulation :: "(double, unit) me_cgsl" where
  "clock_simulation = projr (wrapper_prepare euler clock (gain_config 1) 0 4)"

abbreviation two_and_a_half :: TimeLoop where
  "two_and_a_half \<equiv> \<lparr>t_safe = 0, dt_new = 5 / 2, t_crossed = 0, t_end = 5 / 2\<rparr>"

text \<open>The integrator evaluates the equations at 0, 1 and 2. The second evaluation sees the event, and the third does not move the FMU.\<close>

lemma clock_prepared: "wrapper_prepare euler clock (gain_config 1) 0 4 = Inr clock_simulation"
  by (simp add: clock_simulation_def wrapper_prepare_def init_fmu_model_def gain_def clock_def gain_config_def cgsl_init_simulation_def
      cgsl_init_simulation_tolerance_def cgsl_get_integrator_def)

lemma clock_model:
  "model clock_simulation = cgsl_model_default_alloc 0 None \<lparr>t_ok = 0, t_past = 0, f_count = 0, stateEvent = False, FMU = 0,
      p_backup = zero_backup (gain_config 1)\<rparr> (fmu_function clock (gain_config 1)) None None"
  "sim_t clock_simulation = 0" "fixed_step clock_simulation = False"
  by (simp_all add: clock_simulation_def wrapper_prepare_def init_fmu_model_def gain_def clock_def gain_config_def cgsl_init_simulation_def
      cgsl_init_simulation_tolerance_def cgsl_get_integrator_def cgsl_print_data_def cgsl_model_default_alloc_def integrated_def)

lemma euler_turn:
  assumes "\<not> fixed_step s" and "sim_t s < sim_t1 s"
  shows "fst (cgsl_step euler s) = 0" "sim_t (loop_turn euler s) = min (sim_t1 s) (sim_t s + 1)"
    "step_evaluations euler s = [(sim_t s, m_x (model s))]"
  using assms by (simp_all add: loop_turn_def cgsl_step_def step_evaluations_def euler_def Let_def split_beta)

lemma state_events_caught_witness:
  "\<exists>s'. me_step euler two_and_a_half clock_simulation = Some (Inr s') \<and> hasStateEvent s'
     \<and> t_ok (get_p s') = 0 \<and> t_past (get_p s') = 1 \<and> FMU (get_p s') = 1"
proof -
  let ?s0 = "loop_start euler 0 (5 / 2) (me_start two_and_a_half clock_simulation)"
  let ?s1 = "loop_turn euler ?s0" let ?s2 = "loop_turn euler ?s1" let ?s3 = "loop_turn euler ?s2"
  have r: "ready clock (gain_config 1) clock_simulation" using prepare_ready[OF clock_prepared] by simp
  have 0: "\<not> fixed_step ?s0" "sim_t ?s0 = 0" "sim_t1 ?s0 = 5 / 2" "iterations ?s0 = 0" by (simp_all add: me_start_def clock_model)
  have 1: "\<not> fixed_step ?s1" "sim_t ?s1 = 1" "sim_t1 ?s1 = 5 / 2" "iterations ?s1 = 1"
    using 0 euler_turn(2)[of ?s0] by (simp_all add: loop_turn_frame)
  have 2: "\<not> fixed_step ?s2" "sim_t ?s2 = 2" "sim_t1 ?s2 = 5 / 2" "iterations ?s2 = 2"
    using 1 euler_turn(2)[of ?s1] by (simp_all add: loop_turn_frame)
  have 3: "sim_t ?s3 = 5 / 2" "sim_t1 ?s3 = 5 / 2" "iterations ?s3 = 3"
    using 2 euler_turn(2)[of ?s2] by (simp_all add: loop_turn_frame)
  have "cgsl_loop euler ?s0 = Some (Inr ?s3)"
    using 0 1 2 3 euler_turn(1)[of ?s0] euler_turn(1)[of ?s1] euler_turn(1)[of ?s2] by (simp add: cgsl_loop_turn cgsl_loop_done)
  then have "cgsl_step_to euler 0 (5 / 2) (me_start two_and_a_half clock_simulation) = Some (Inr (call_post_step 0 (5 / 2) ?s3))"
    by (simp add: cgsl_step_to_loop)
  then obtain s' where s': "me_step euler two_and_a_half clock_simulation = Some (Inr s')" "iterations s' = 3"
    using 3 by (simp add: me_step_def me_start_def clock_model(2))
  obtain x y z where evs: "me_evaluations euler two_and_a_half clock_simulation 3 = [(0, x), (1, y), (2, z)]"
    using 0 1 2 euler_turn(3)[of ?s0] euler_turn(3)[of ?s1] euler_turn(3)[of ?s2]
    by (simp add: me_evaluations_def clock_model(2) numeral_3_eq_3)
  show ?thesis
    using state_events_caught[OF s'(1) r] s'
    by (simp add: evs gain_config_def visit_def clock_def gain_def clock_model(1) cgsl_model_default_alloc_def zero_backup_def Let_def)
qed

lemma numeric_partial_quotient_witness:
  "\<exists>h>0. \<exists>st'. wrapper_getPartial euler (gain 0) (gain_config 0) 1 0 (give_back (gain_simulation 0) gain_start)
       = Some (Inr ((fmi2_status_ok, Some ((2 * (3 + h) - 2 * 3) / h)), st'))
     \<and> wrapper_getReal (gain 0) (gain_config 0) [0] st' = (fmi2_status_ok, [3 + h])"
proof -
  note p = prepare_ready[OF gain_prepared[of 0]]
  have "responds (gain 0) 1 0 (\<lambda>u. u) (\<lambda>u. 2 * u)" by (simp add: responds_def gain_def)
  then have "\<exists>h>0. \<exists>st'. wrapper_getPartial euler (gain 0) (gain_config 0) 1 0 (give_back (gain_simulation 0) gain_start)
       = Some (Inr ((fmi2_status_ok, Some ((2 * (3 + h) - 2 * 3) / h)), st'))
     \<and> inner st' = me_set_continuous_states (gain 0) (me_get_continuous_states (gain 0) 3) (me_set_time (gain 0) (sim_t (gain_simulation 0)) (3 + h))
     \<and> wrapper_getReal (gain 0) (gain_config 0) [0] st' = (fmi2_status_ok, [3 + h])"
  proof (rule numeric_partial_quotient)
    show "n_variables (model (gain_simulation 0)) = integrated (gain_config 0)" using p by (simp add: ready_def)
    show "inner (give_back (gain_simulation 0) gain_start) = 3" using p by (simp add: give_back_def)
  qed (simp_all add: gain_def gain_config_def give_back_def gain_start_def)
  then show ?thesis by blast
qed

end
