(* ===== verification/Model_Exchange.thy ===== *)
theory Model_Exchange
  imports Wrapper_Props Storage Base_Master
begin

text \<open>
  The master for clusters with model exchange FMUs: \<^verbatim>\<open>BaseMaster::solveLoops\<close> (src/master/BaseMaster.cpp), \<^verbatim>\<open>ModelExchangeStepper\<close>
  (src/master/modelExchange.cpp) and \<^verbatim>\<open>JacobiMaster\<close> (include/master/WeakMasters.h). The equations of the integrator are exchanges of messages
  with all model exchange FMUs; their vectors arrive in the storage. GSL's integrators and its solver of equations are parameters, so are the kind and the sizes
  of an FMU, which FMI Library reads from its XML. Clients are positions, equal to their \<^verbatim>\<open>m_id\<close>. Messages to the log are left out.
\<close>

subsection \<open>Algebraic loops\<close>

text \<open>A search for a root asks for residuals; a solver sees the first one when it is set up and more in each iteration.\<close>

datatype 'r root_search = Root_done 'r | Residual "double list" "double list \<Rightarrow> 'r root_search"

primrec run_search :: "(double list \<Rightarrow> 'm \<Rightarrow> (double list \<times> 'm) res) \<Rightarrow> 'r root_search \<Rightarrow> 'm \<Rightarrow> ('r \<times> 'm) res" where
  "run_search f (Root_done r) m = Inr (r, m)"
| "run_search f (Residual x k) m = rbind (f x m) (\<lambda>(r, m). run_search f (k r) m)"

record 's root_solver =
  fsolver_set :: "double list \<Rightarrow> 's root_search"
  fsolver_iterate :: "'s \<Rightarrow> (int \<times> 's) root_search"
  fsolver_residual :: "'s \<Rightarrow> double list"   \<comment> \<open>\<^verbatim>\<open>s->f\<close>\<close>

text \<open>\<^verbatim>\<open>gsl_multiroot_test_residual\<close>: the sum of the absolute residuals is below the bound.\<close>

definition test_residual :: "double list \<Rightarrow> double \<Rightarrow> bool" where
  "test_residual f epsabs \<longleftrightarrow> sum_list (map abs f) < epsabs"

fun loop_iterations :: "'s root_solver \<Rightarrow> (double list \<Rightarrow> 'm \<Rightarrow> (double list \<times> 'm) res) \<Rightarrow> nat \<Rightarrow> 's \<Rightarrow> 'm \<Rightarrow> 'm res" where
  "loop_iterations R f 0 s m = Inl (Fatal ''Cannot solve the loop, giving up'')"
| "loop_iterations R f (Suc left) s m =
     rbind (run_search f (fsolver_iterate R s) m) (\<lambda>((st, s), m).
       if st \<noteq> 0 then Inl (Fatal ''Cannot solve the loop, giving up'')
       else if test_residual (fsolver_residual R s) (1 / 10 ^ 7) then Inr m
       else loop_iterations R f left s m)"

definition solveLoops :: "'w net \<Rightarrow> config \<Rightarrow> 's root_solver \<Rightarrow> 'w master \<Rightarrow> 'w master res" where
  "solveLoops net cfg R m =
     (let m = deleteCachedValues cfg False [] m in
      rbind (queueX_refs cfg (clientWeakRefs m) m) (\<lambda>m.
      rbind (wait net cfg (queueValueRequests m)) (\<lambda>m.
      rbind (getInputWeakRefsAndValues (m_clients m) (m_weakConnections m)) (\<lambda>inputs.
      let m = m\<lparr>initialNonReals := inputs\<rparr> in
      rbind (send_inputs inputs m) (\<lambda>m.
        let x0 = input_reals (length (m_clients m)) inputs in
        if length x0 = 0 then Inr m
        else rbind (run_search (loop_residual_f net cfg) (fsolver_set R x0) m) (\<lambda>(s, m).
          loop_iterations R (loop_residual_f net cfg) 100 s m))))))"

subsection \<open>State\<close>

datatype fmu_kind = fmu_kind_cs | fmu_kind_me | fmu_kind_other

record me_info =
  getFmuKind :: "nat \<Rightarrow> fmu_kind"
  getNumContinuousStates :: "nat \<Rightarrow> nat"
  getNumEventIndicators :: "nat \<Rightarrow> nat"

record ('w, 's, 'g) mx_env =
  e_net :: "'w net"
  e_cfg :: config
  e_roots :: "'s root_solver"
  e_gsl :: "'g gsl_lib"
  e_info :: me_info

record mx_Backup =
  mb_t :: double
  mb_h :: double
  mb_dydt :: "double list"
  mb_failed_steps :: nat

text \<open>\<^verbatim>\<open>fmu_parameters\<close> with the stepper they point to: its clients and the storage. \<open>ended\<close> is set when the process has ended
  inside the equations, which then only answer until the integrator is done.\<close>

record 'w mx_parameters =
  mp_t_ok :: double
  mp_t_past :: double
  mp_count :: int
  mp_stateEvent :: bool
  mp_clients :: "nat list"
  mp_backup :: mx_Backup
  sim_started :: bool
  stepper :: "'w master"
  m_fmigoStorage :: FmigoStorage
  ended :: "error option"

type_synonym ('w, 'g) mx_sim = "('w mx_parameters, 'g) cgsl_simulation"

abbreviation par :: "('w, 'g) mx_sim \<Rightarrow> 'w mx_parameters" where
  "par s \<equiv> parameters (model s)"

definition on_par :: "('w mx_parameters \<Rightarrow> 'w mx_parameters) \<Rightarrow> ('w, 'g) mx_sim \<Rightarrow> ('w, 'g) mx_sim" where
  "on_par f s = set_model_parameters (f (par s)) s"

definition try_par :: "('w mx_parameters \<Rightarrow> 'w mx_parameters res) \<Rightarrow> ('w, 'g) mx_sim \<Rightarrow> ('w, 'g) mx_sim res" where
  "try_par f s = rbind (f (par s)) (\<lambda>p. Inr (set_model_parameters p s))"

subsection \<open>Messages\<close>

definition mx_queue :: "request \<Rightarrow> nat \<Rightarrow> 'w mx_parameters \<Rightarrow> 'w mx_parameters" where
  "mx_queue r i p = p\<lparr>stepper := master_queueMessage i r (stepper p)\<rparr>"

text \<open>The vectors that have arrived are pushed to the storage.\<close>

definition take_pushes :: "'w mx_parameters \<Rightarrow> 'w mx_parameters res" where
  "take_pushes p =
     rbind (rfold (\<lambda>(i, ty, v). push_to i ty v) (storage_pushes (stepper p)) (m_fmigoStorage p)) (\<lambda>st.
       Inr (p\<lparr>stepper := (stepper p)\<lparr>storage_pushes := []\<rparr>, m_fmigoStorage := st\<rparr>))"

definition mx_wait :: "('w, 's, 'g) mx_env \<Rightarrow> 'w mx_parameters \<Rightarrow> 'w mx_parameters res" where
  "mx_wait env p = rbind (wait (e_net env) (e_cfg env) (stepper p)) (\<lambda>m. take_pushes (p\<lparr>stepper := m\<rparr>))"

definition mx_solveLoops :: "('w, 's, 'g) mx_env \<Rightarrow> 'w mx_parameters \<Rightarrow> 'w mx_parameters res" where
  "mx_solveLoops env p = rbind (solveLoops (e_net env) (e_cfg env) (e_roots env) (stepper p)) (\<lambda>m. take_pushes (p\<lparr>stepper := m\<rparr>))"

definition mx_sendWait :: "('w, 's, 'g) mx_env \<Rightarrow> nat list \<Rightarrow> request \<Rightarrow> 'w mx_parameters \<Rightarrow> 'w mx_parameters res" where
  "mx_sendWait env is r p = mx_wait env (fold (mx_queue r) is p)"

definition queue_get_states :: "me_info \<Rightarrow> nat \<Rightarrow> 'w mx_parameters \<Rightarrow> 'w mx_parameters" where
  "queue_get_states info i = mx_queue (get_continuous_states_req (int (getNumContinuousStates info i))) i"

definition queue_get_indicators :: "me_info \<Rightarrow> nat \<Rightarrow> 'w mx_parameters \<Rightarrow> 'w mx_parameters" where
  "queue_get_indicators info i = mx_queue (get_event_indicators_req (int (getNumEventIndicators info i))) i"

text \<open>\<^verbatim>\<open>data + offset\<close> behind the end of the data is undefined.\<close>

definition queue_set_states :: "me_info \<Rightarrow> double list \<Rightarrow> nat \<Rightarrow> 'w mx_parameters \<Rightarrow> 'w mx_parameters res" where
  "queue_set_states info x i p =
     rbind (get_offset i states (m_fmigoStorage p)) (\<lambda>ofs.
     rbind (fmi2_import_set_continuous_states (drop ofs x) (getNumContinuousStates info i)) (\<lambda>r. Inr (mx_queue r i p)))"

text \<open>The segments of the clients, copied from the storage.\<close>

definition read_segments :: "storage_type \<Rightarrow> nat list \<Rightarrow> FmigoStorage \<Rightarrow> double list \<Rightarrow> double list res" where
  "read_segments ty is st x = rfold (\<lambda>i x. get_current_into ty x i st) is x"

subsection \<open>The equations\<close>

definition evaluate_derivatives :: "('w, 's, 'g) mx_env \<Rightarrow> double \<Rightarrow> double list \<Rightarrow> 'w mx_parameters \<Rightarrow> (double list \<times> 'w mx_parameters) res" where
  "evaluate_derivatives env t x p =
     (let info = e_info env; is = mp_clients p in
      rbind (rfold (\<lambda>i p. queue_set_states info x i (mx_queue (set_time_req t) i p)) is p) (\<lambda>p.
      rbind (mx_wait env p) (\<lambda>p.
      rbind (mx_solveLoops env p) (\<lambda>p.
      rbind (mx_wait env (fold (\<lambda>i. mx_queue (get_derivatives_req (int (getNumContinuousStates info i))) i) is p)) (\<lambda>p.
      rbind (read_segments derivatives is (m_fmigoStorage p) (replicate (length x) 0)) (\<lambda>dx. Inr (dx, p)))))))"

text \<open>The first client whose indicators have changed sign ends the search.\<close>

fun detect_events :: "me_info \<Rightarrow> double \<Rightarrow> nat list \<Rightarrow> 'w mx_parameters \<Rightarrow> 'w mx_parameters res" where
  "detect_events info t [] p = Inr p"
| "detect_events info t (i # is) p =
     (if getNumEventIndicators info i > 0
      then rbind (past_event i (m_fmigoStorage p)) (\<lambda>b.
        if b then Inr (p\<lparr>mp_stateEvent := True, mp_t_past := t\<rparr>)
        else detect_events info t is (p\<lparr>mp_stateEvent := False, mp_t_ok := t\<rparr>))
      else detect_events info t is p)"

definition with_indicators :: "me_info \<Rightarrow> nat list \<Rightarrow> nat list" where
  "with_indicators info is = filter (\<lambda>i. getNumEventIndicators info i > 0) is"

definition mx_function :: "('w, 's, 'g) mx_env \<Rightarrow> 'w mx_parameters equations" where
  "mx_function env t x p =
     (let p = p\<lparr>mp_count := mp_count p + 1\<rparr> in
      if ended p \<noteq> None \<or> mp_stateEvent p then ((0, None), p)
      else case rbind (evaluate_derivatives env t x p) (\<lambda>(dx, p).
             rbind (mx_wait env (fold (queue_get_indicators (e_info env)) (with_indicators (e_info env) (mp_clients p)) p)) (\<lambda>p.
             rbind (detect_events (e_info env) t (mp_clients p) p) (\<lambda>p. Inr (dx, p)))) of
             Inl e \<Rightarrow> ((0, None), p\<lparr>ended := Some e\<rparr>)
           | Inr (dx, p) \<Rightarrow> ((0, Some dx), p))"

subsection \<open>Preparation\<close>

definition storage_alloc :: "me_info \<Rightarrow> nat list \<Rightarrow> FmigoStorage \<Rightarrow> FmigoStorage" where
  "storage_alloc info is = allocate_storage (map (getNumContinuousStates info) is) (map (getNumEventIndicators info) is)"

definition mx_parameters_of :: "nat list \<Rightarrow> nat \<Rightarrow> 'w master \<Rightarrow> FmigoStorage \<Rightarrow> 'w mx_parameters" where
  "mx_parameters_of is n m st = \<lparr>mp_t_ok = 0, mp_t_past = 0, mp_count = 0, mp_stateEvent = False, mp_clients = is,
     mp_backup = \<lparr>mb_t = 0, mb_h = 0, mb_dydt = replicate n 0, mb_failed_steps = 0\<rparr>, sim_started = False, stepper = m, m_fmigoStorage = st, ended = None\<rparr>"

definition init_me_model :: "('w, 's, 'g) mx_env \<Rightarrow> nat list \<Rightarrow> 'w master \<Rightarrow> FmigoStorage \<Rightarrow> 'w mx_parameters cgsl_model res" where
  "init_me_model env is m st =
     (let st = storage_alloc (e_info env) is st; n = length (get_current states st) in
      if n = 0 then Inl (Exit 0)
      else rbind (mx_wait env (fold (queue_get_states (e_info env)) is (mx_parameters_of is n m st))) (\<lambda>p.
        rbind (read_segments states is (m_fmigoStorage p) (replicate n 0)) (\<lambda>x.
          Inr ((cgsl_model_default_alloc n None p (mx_function env) None None)\<lparr>m_x := x\<rparr>))))"

definition prepareME :: "('w, 's, 'g) mx_env \<Rightarrow> nat list \<Rightarrow> 'w master \<Rightarrow> FmigoStorage \<Rightarrow> ('w, 'g) mx_sim res" where
  "prepareME env is m st =
     rbind (init_me_model env is m st) (\<lambda>md.
     rbind (cgsl_init_simulation (e_gsl env) md 4 (1 / 10 ^ 10) False False False None) (\<lambda>s.
       Inr (on_par (\<lambda>p. p\<lparr>m_fmigoStorage := sync (m_fmigoStorage p)\<rparr>) s)))"

subsection \<open>Saving and restoring\<close>

definition mx_restoreStates :: "('w, 'g) mx_sim \<Rightarrow> ('w, 'g) mx_sim res" where
  "mx_restoreStates s =
     (let p = par s; st = sync (cycle (m_fmigoStorage p)); b = mp_backup p in
      rbind (read_segments states (mp_clients p) st (m_x (model s))) (\<lambda>x.
        Inr (s\<lparr>model := (model s)\<lparr>m_x := x, parameters := p\<lparr>m_fmigoStorage := st\<rparr>\<rparr>, sim_t := mb_t b, sim_h := mb_h b,
               evolution := (evolution s)\<lparr>dydt_out := take (n_variables (model s)) (mb_dydt b) @ drop (n_variables (model s)) (dydt_out (evolution s)),
                 failed_steps := mb_failed_steps b\<rparr>\<rparr>)))"

definition mx_storeStates :: "('w, 's, 'g) mx_env \<Rightarrow> ('w, 'g) mx_sim \<Rightarrow> ('w, 'g) mx_sim res" where
  "mx_storeStates env s =
     (let p = fold (queue_get_states (e_info env)) (mp_clients (par s)) (par s); n = n_variables (model s);
          b = \<lparr>mb_t = sim_t s, mb_h = sim_h s, mb_dydt = take n (dydt_out (evolution s)) @ drop n (mb_dydt (mp_backup p)),
               mb_failed_steps = failed_steps (evolution s)\<rparr> in
      rbind (mx_wait env (p\<lparr>mp_backup := b\<rparr>)) (\<lambda>p.
      rbind (read_segments states (mp_clients p) (m_fmigoStorage p) (m_x (model s))) (\<lambda>x.
        Inr (s\<lparr>model := (model s)\<lparr>m_x := x, parameters := p\<lparr>m_fmigoStorage := sync (m_fmigoStorage p)\<rparr>\<rparr>\<rparr>))))"

subsection \<open>State events\<close>

definition mx_hasStateEvent :: "('w, 'g) mx_sim \<Rightarrow> bool" where
  "mx_hasStateEvent s = mp_stateEvent (par s)"

definition mx_getSafeAndCrossed :: "('w, 'g) mx_sim \<Rightarrow> TimeLoop \<Rightarrow> TimeLoop" where
  "mx_getSafeAndCrossed s lp = lp\<lparr>t_safe := mp_t_ok (par s), t_crossed := mp_t_past (par s)\<rparr>"

definition mx_getGoldenNewTime :: "('w, 's, 'g) mx_env \<Rightarrow> TimeLoop \<times> ('w, 'g) mx_sim \<Rightarrow> (TimeLoop \<times> ('w, 'g) mx_sim) res" where
  "mx_getGoldenNewTime env = (\<lambda>(lp, s).
     let phi = (1 + sqrt 5) / 2 in
     if mx_hasStateEvent s
     then let lp = mx_getSafeAndCrossed s lp in
       rbind (mx_restoreStates s) (\<lambda>s. Inr (lp\<lparr>dt_new := (t_crossed lp - sim_t s) / phi\<rparr>, s))
     else rbind (mx_storeStates env s) (\<lambda>s. let lp = lp\<lparr>t_safe := max (t_safe lp) (sim_t s)\<rparr>
       in Inr (lp\<lparr>dt_new := t_crossed lp - sim_t s - (t_crossed lp - t_safe lp) / phi\<rparr>, s)))"

definition mx_step :: "('w, 's, 'g) mx_env \<Rightarrow> TimeLoop \<Rightarrow> ('w, 'g) mx_sim \<Rightarrow> ('w, 'g) mx_sim res option" where
  "mx_step env lp s =
     (let s = on_par (\<lambda>p. p\<lparr>mp_stateEvent := False, mp_t_past := max (mp_t_past p) (sim_t s + dt_new lp), mp_t_ok := sim_t s\<rparr>) s
      in obind (cgsl_step_to (e_gsl env) (sim_t s) (dt_new lp) s) (\<lambda>s.
        case ended (par s) of Some e \<Rightarrow> Some (Inl e) | None \<Rightarrow> Some (Inr s)))"

definition mx_locate_turn :: "('w, 's, 'g) mx_env \<Rightarrow> TimeLoop \<times> ('w, 'g) mx_sim \<Rightarrow> (TimeLoop \<times> ('w, 'g) mx_sim) res option" where
  "mx_locate_turn env st =
     obind (Some (mx_getGoldenNewTime env st)) (\<lambda>(lp, s). obind (mx_step env lp s) (\<lambda>s.
       if dt_new lp = 0 then Some (Inl (Exit 1))
       else if mx_hasStateEvent s
       then obind (Some (mx_restoreStates s)) (\<lambda>s.
         let lp = mx_getSafeAndCrossed s lp; lp = lp\<lparr>dt_new := t_safe lp - sim_t s\<rparr> in
         obind (mx_step env lp s) (\<lambda>s.
           if mx_hasStateEvent s then Some (Inl (Exit 1))
           else obind (Some (mx_storeStates env s)) (\<lambda>s. let lp = lp\<lparr>dt_new := t_crossed lp - sim_t s\<rparr> in
             obind (mx_step env lp s) (\<lambda>s. if mx_hasStateEvent s then Some (Inr (lp, s)) else Some (Inl (Exit 1))))))
       else Some (Inr (lp, s))))"

partial_function (option) mx_stepToEvent :: "('w, 's, 'g) mx_env \<Rightarrow> TimeLoop \<times> ('w, 'g) mx_sim \<Rightarrow> (TimeLoop \<times> ('w, 'g) mx_sim) res option" where
  "mx_stepToEvent env st =
     (let tol = 1 / 10 ^ 9 in
      if \<not> mx_hasStateEvent (snd st) \<and> \<not> (absmin indicators (m_fmigoStorage (par (snd st))) < tol \<or> dt_new (fst st) < tol)
      then (case mx_locate_turn env st of
              None \<Rightarrow> None | Some (Inl e) \<Rightarrow> Some (Inl e) | Some (Inr st') \<Rightarrow> mx_stepToEvent env st')
      else Some (Inr st))"

text \<open>\<^verbatim>\<open>terminateSimulation\<close> of any client ends the process, \<^verbatim>\<open>newDiscreteStatesNeeded\<close> of any asks for another turn.\<close>

partial_function (option) mx_discrete_loop :: "('w, 's, 'g) mx_env \<Rightarrow> nat list \<Rightarrow> 'w mx_parameters \<Rightarrow> 'w mx_parameters res option" where
  "mx_discrete_loop env is p =
     (case mx_sendWait env is new_discrete_states_req p of
        Inl e \<Rightarrow> Some (Inl e)
      | Inr p \<Rightarrow> let infos = map (\<lambda>i. m_event_info (m_clients (stepper p) ! i)) is in
          if \<exists>info\<in>set infos. terminateSimulation info then Some (Inl (Exit 1))
          else if \<exists>info\<in>set infos. newDiscreteStatesNeeded info then mx_discrete_loop env is p
          else Some (Inr p))"

definition mx_newDiscreteStates :: "('w, 's, 'g) mx_env \<Rightarrow> ('w, 'g) mx_sim \<Rightarrow> ('w, 'g) mx_sim res option" where
  "mx_newDiscreteStates env s =
     (let is = mp_clients (par s) in
      obind (Some (mx_sendWait env is enter_event_mode_req (par s))) (\<lambda>p.
      obind (mx_discrete_loop env is p) (\<lambda>p.
      Some (rbind (mx_sendWait env is enter_continuous_time_mode_req p) (\<lambda>p.
            rbind (mx_wait env (fold (queue_get_indicators (e_info env)) is p)) (\<lambda>p. mx_storeStates env (set_model_parameters p s)))))))"

definition mx_safeTimeStep :: "('w, 'g) mx_sim \<Rightarrow> TimeLoop \<Rightarrow> TimeLoop" where
  "mx_safeTimeStep s lp =
     (if mx_hasStateEvent s
      then let am = absmin indicators (m_fmigoStorage (par s)) in lp\<lparr>dt_new := sim_h s * (if am > 0 then am else 1 / 10 ^ 5)\<rparr>
      else lp\<lparr>dt_new := t_end lp - sim_t s\<rparr>)"

definition mx_getSafeTime :: "double \<Rightarrow> event_info list \<Rightarrow> double \<Rightarrow> double" where
  "mx_getSafeTime t infos dt = fold (\<lambda>info dt. if nextEventTimeDefined info then min dt (nextEventTime info - t) else dt) infos dt"

subsection \<open>A communication step\<close>

definition mx_around_event :: "('w, 's, 'g) mx_env \<Rightarrow> TimeLoop \<times> ('w, 'g) mx_sim \<Rightarrow> (TimeLoop \<times> ('w, 'g) mx_sim) res option" where
  "mx_around_event env = (\<lambda>(lp, s).
     let lp = mx_getSafeAndCrossed s lp in
     obind (Some (mx_restoreStates s)) (\<lambda>s.
       let lp = lp\<lparr>dt_new := t_safe lp - sim_t s\<rparr> in
       obind (mx_step env lp s) (\<lambda>s.
       obind (Some (if mx_hasStateEvent s then Inr s else mx_storeStates env s)) (\<lambda>s.
         let lp = lp\<lparr>dt_new := t_crossed lp - sim_t s\<rparr> in
         obind (mx_step env lp s) (\<lambda>s. if mx_hasStateEvent s then mx_stepToEvent env (lp, s) else Some (Inr (lp, s)))))))"

definition mx_turn :: "('w, 's, 'g) mx_env \<Rightarrow> TimeLoop \<times> ('w, 'g) mx_sim \<Rightarrow> (TimeLoop \<times> ('w, 'g) mx_sim) res option" where
  "mx_turn env = (\<lambda>(lp, s).
     obind (mx_step env lp s) (\<lambda>s.
     obind (if mx_hasStateEvent s then mx_around_event env (lp, s)
            else Some (Inr (lp\<lparr>t_safe := sim_t s, t_crossed := t_end lp\<rparr>, s))) (\<lambda>(lp, s).
       let lp = mx_safeTimeStep s lp in
       obind (if mx_hasStateEvent s then mx_newDiscreteStates env s else Some (Inr s)) (\<lambda>s.
         Some (rbind (mx_storeStates env s) (\<lambda>s. Inr (lp, s)))))))"

partial_function (option) mx_loop :: "('w, 's, 'g) mx_env \<Rightarrow> TimeLoop \<times> ('w, 'g) mx_sim \<Rightarrow> (TimeLoop \<times> ('w, 'g) mx_sim) res option" where
  "mx_loop env st =
     (if t_safe (fst st) < t_end (fst st)
      then (case mx_turn env st of None \<Rightarrow> None | Some (Inl e) \<Rightarrow> Some (Inl e) | Some (Inr st') \<Rightarrow> mx_loop env st')
      else Some (Inr st))"

definition solveME :: "('w, 's, 'g) mx_env \<Rightarrow> double \<Rightarrow> double \<Rightarrow> TimeLoop \<times> ('w, 'g) mx_sim \<Rightarrow> (TimeLoop \<times> ('w, 'g) mx_sim) res option" where
  "solveME env t dt = (\<lambda>(lp, s).
     let p = par s; infos = map (\<lambda>i. m_event_info (m_clients (stepper p) ! i)) (mp_clients p);
         lp = lp\<lparr>t_safe := t, t_end := t + dt, dt_new := mx_getSafeTime t infos dt\<rparr> in
     obind (mx_newDiscreteStates env (on_par (\<lambda>p. p\<lparr>sim_started := True\<rparr>) s)) (\<lambda>s. mx_loop env (lp, s)))"

subsection \<open>JacobiMaster\<close>

text \<open>There is no simulation before \<^verbatim>\<open>prepare\<close>, and none without model exchange FMUs. While there is one, its parameters hold the clients between
  the calls of \<^verbatim>\<open>solveME\<close> too; here they are handed over.\<close>

record ('w, 'g) jmaster =
  j_base :: "'w master"
  cs_clients :: "nat list"
  me_clients :: "nat list"
  me_weakConnections :: "WeakConnection list"
  j_sim :: "('w, 'g) mx_sim option"
  timeLoop :: TimeLoop

definition new_JacobiMaster :: "me_info \<Rightarrow> client list \<Rightarrow> WeakConnection list \<Rightarrow> 'w \<Rightarrow> ('w, 'g) jmaster res" where
  "new_JacobiMaster info clients wcs w =
     (let is = [0..<length clients] in
      if \<exists>i\<in>set is. getFmuKind info i = fmu_kind_other then Inl (Exit 1)
      else Inr \<lparr>j_base = new_master clients wcs w, cs_clients = filter (\<lambda>i. getFmuKind info i = fmu_kind_cs) is,
        me_clients = filter (\<lambda>i. getFmuKind info i = fmu_kind_me) is,
        me_weakConnections = filter (\<lambda>wc. getFmuKind info (fromFMU wc) = fmu_kind_me \<and> getFmuKind info (toFMU wc) = fmu_kind_me) wcs,
        j_sim = None, timeLoop = \<lparr>t_safe = 0, dt_new = 0, t_crossed = 0, t_end = 0\<rparr>\<rparr>)"

definition jacobi_prepare :: "('w, 's, 'g) mx_env \<Rightarrow> ('w, 'g) jmaster \<Rightarrow> ('w, 'g) jmaster res" where
  "jacobi_prepare env j =
     (if me_clients j = [] then Inr j
      else rbind (prepareME env (me_clients j) (j_base j) empty_storage) (\<lambda>s. Inr (j\<lparr>j_sim := Some s, j_base := stepper (par s)\<rparr>)))"

definition jacobi_solveME :: "('w, 's, 'g) mx_env \<Rightarrow> double \<Rightarrow> double \<Rightarrow> ('w, 'g) jmaster \<Rightarrow> ('w, 'g) jmaster res option" where
  "jacobi_solveME env t dt j =
     (if me_clients j = [] then Some (Inr j)
      else case j_sim j of
        None \<Rightarrow> Some (Inl (UB ''m_sim''))
      | Some s \<Rightarrow> obind (solveME env t dt (timeLoop j, on_par (\<lambda>p. p\<lparr>stepper := j_base j\<rparr>) s)) (\<lambda>(lp, s).
          Some (Inr (j\<lparr>j_sim := Some s, j_base := stepper (par s), timeLoop := lp\<rparr>))))"

definition jacobi_runIteration :: "('w, 's, 'g) mx_env \<Rightarrow> double \<Rightarrow> double \<Rightarrow> ('w, 'g) jmaster \<Rightarrow> ('w, 'g) jmaster res option" where
  "jacobi_runIteration env t dt j =
     (let cfg = e_cfg env; refs = clientWeakRefs (j_base j) in
      obind (Some (rbind (queueX_refs cfg refs (j_base j)) (\<lambda>m.
        rbind (wait (e_net env) cfg (queueValueRequests m)) (\<lambda>m.
        rbind (getInputWeakRefsAndValues (m_clients m) (m_weakConnections m)) (\<lambda>inputs.
        rbind (send_inputs inputs m) (\<lambda>m.
          Inr (deleteCachedValues cfg False [] (queueMessage_all (cs_clients j) (fmi2_import_do_step t dt True) m)))))))) (\<lambda>m.
      obind (jacobi_solveME env t dt (j\<lparr>j_base := m\<rparr>)) (\<lambda>j.
        Some (rbind (queueX_refs cfg refs (j_base j)) (\<lambda>m. Inr (j\<lparr>j_base := m\<rparr>))))))"

end
