(* ===== verification/Startup.thy ===== *)
theory Startup
  imports Sim_Loop Command_Line Model_Exchange "HOL-Library.List_Lexorder" "HOL-Library.Char_ord"
begin

text \<open>
  \<^verbatim>\<open>main\<close> of the master (src/master/main.cpp, without MPI) around its loop: names of variables, the output files, the construction of the
  master, the initialization of the FMUs, the results socket, the end. Files, the transport, the results socket, expat, GSL, UMFPACK and the capabilities of
  the FMUs are parameters. What is printed to the output is the rows of the simulation; wall-clock pacing is left out. For clusters with model exchange FMUs
  the master is constructed here and its iteration is that of \<^verbatim>\<open>JacobiMaster\<close>; the loop around it is not repeated for it.
\<close>

subsection \<open>Parameters\<close>

record results_message =
  rs_version :: int
  rs_step :: int
  rs_t :: double
  rs_t_end :: double
  rs_dt :: double
  rs_results :: "fmu_results list"

record ('w, 's) program =
  pe_environment :: environment
  pe_net :: "'w net"
  pe_recv :: "nat \<Rightarrow> 'w \<Rightarrow> (response list \<times> 'w) option"   \<comment> \<open>the blocking \<^verbatim>\<open>recv\<close> of a client; \<open>None\<close>: nothing comes\<close>
  pe_push :: "results_message \<Rightarrow> 'w \<Rightarrow> 'w option"   \<comment> \<open>\<^verbatim>\<open>send\<close> of the results socket; \<open>None\<close>: nobody listens, it blocks\<close>
  pe_cfg :: config
  pe_umf :: umfpack
  pe_roots :: "'s root_solver"
  pe_info :: me_info
  pe_rollback :: "nat \<Rightarrow> bool"        \<comment> \<open>\<^verbatim>\<open>canGetAndSetFMUstate\<close>\<close>
  pe_can_open :: "string \<Rightarrow> bool"    \<comment> \<open>\<^verbatim>\<open>fopen\<close> for writing\<close>
  pe_matio :: bool                   \<comment> \<open>\<^verbatim>\<open>USE_MATIO\<close>\<close>
  pe_no_time :: "int \<Rightarrow> double"       \<comment> \<open>the times of a run without end (\<open>no_time\<close>)\<close>

subsection \<open>Blocking calls\<close>

text \<open>Before the master exists, a client counts its own pending requests.\<close>

definition early_sendMessageBlocking :: "('w, 's) program \<Rightarrow> nat \<Rightarrow> request \<Rightarrow> pclient \<Rightarrow> 'w \<Rightarrow> (pclient \<times> 'w) res" where
  "early_sendMessageBlocking pe i r pc w =
     (let (pending, c) = queueMessage r pc; (msgs, c) = sendQueuedMessages c; w = net_send (pe_net pe) i msgs w in
      case pe_recv pe i w of
        None \<Rightarrow> Inl (Blocked ''recv'')
      | Some (rs, w) \<Rightarrow> rbind (client_clientData (parse_xml (pe_cfg pe)) rs (pending, c)) (\<lambda>(pc, _). Inr (pc, w)))"

definition sendMessageBlocking :: "('w, 's) program \<Rightarrow> nat \<Rightarrow> request \<Rightarrow> 'w master \<Rightarrow> 'w master res" where
  "sendMessageBlocking pe i r m =
     (let m = send_client (pe_net pe) i (master_queueMessage i r m) in
      case pe_recv pe i (world m) of
        None \<Rightarrow> Inl (Blocked ''recv'')
      | Some (rs, w) \<Rightarrow> receiveAndHandleMessage (pe_cfg pe) (i, rs) (m\<lparr>world := w\<rparr>))"

text \<open>A client for each FMU, and then the model descriptions, one after the other.\<close>

definition setupClients :: "nat \<Rightarrow> pclient list" where
  "setupClients n = map (\<lambda>i. (0, new_client (int i))) [0..<n]"

definition setup_clients :: "('w, 's) program \<Rightarrow> nat \<Rightarrow> 'w \<Rightarrow> (pclient list \<times> 'w) res" where
  "setup_clients pe n w =
     rfold (\<lambda>pc (pcs, w). rbind (early_sendMessageBlocking pe (length pcs) get_xml_req pc w) (\<lambda>(pc, w). Inr (pcs @ [pc], w)))
       (setupClients n) ([], w)"

subsection \<open>Names of variables\<close>

definition resolve_connection :: "client list \<Rightarrow> connection_option \<Rightarrow> connection res" where
  "resolve_connection clients c =
     (let from = clients ! nat (c_fromFMU c); to' = clients ! nat (c_toFMU c) in
      rbind (vrFromKeyName from (c_from c)) (\<lambda>fvr.
      rbind (vrFromKeyName to' (c_to c)) (\<lambda>tvr.
      rbind (if c_needs_type c
             then (case (m_variables from (c_from c), m_variables to' (c_to c)) of
                     (Some v, Some v') \<Rightarrow> Inr (vtype v, vtype v')
                   | _ \<Rightarrow> Inl (UB ''find()->second''))
             else Inr (c_fromType c, c_toType c)) (\<lambda>(ft, tt).
        Inr \<lparr>fromType = ft, fromFMU = nat (c_fromFMU c), fromOutputVR = fvr, toType = tt, toFMU = nat (c_toFMU c), toInputVR = tvr,
             slope = c_slope c, intercept = c_intercept c\<rparr>))))"

definition check_references :: "strongconnection \<Rightarrow> unit res" where
  "check_references sc =
     (if odd (length (sc_vrORname sc)) \<and> sc_type sc \<noteq> ''multiway''
      then Inl (Fatal ''strong connection needs even number of connections for fmu0 and fmu1'') else Inr ())"

definition connectionNamesToVr :: "connection_option list \<Rightarrow> strongconnection list \<Rightarrow> client list \<Rightarrow> connection list res" where
  "connectionNamesToVr connections scs clients =
     rbind (rmap (resolve_connection clients) connections) (\<lambda>wcs. rbind (rmap check_references scs) (\<lambda>_. Inr wcs))"

subsection \<open>Output\<close>

definition getSeparator :: "FILEFORMAT \<Rightarrow> char" where
  "getSeparator f = (case f of csv \<Rightarrow> CHR '','' | tikz \<Rightarrow> CHR '' '' | _ \<Rightarrow> CHR 0x00)"

definition getFieldnames :: "FILEFORMAT \<Rightarrow> client list \<Rightarrow> string" where
  "getFieldnames f clients = (if f = tikz then ''t'' else ''#t'') @
     concat (map (\<lambda>c. concat (map (\<lambda>v. getSeparator f # ''fmu'' @ int_to_string (m_id c) @ ''_'' @ vname v) (m_outputs c))) clients)"

definition is_matlab :: "FILEFORMAT \<Rightarrow> bool" where
  "is_matlab f \<longleftrightarrow> f = mat5 \<or> f = mat5_zlib"

definition open_output :: "('w, 's) program \<Rightarrow> options \<Rightarrow> unit res" where
  "open_output pe o' =
     (let matlab = is_matlab (o_fileFormat o') in
      if matlab \<and> \<not> pe_matio pe then Inl (Fatal ''Matlab output not enabled'')
      else if o_outFilePath o' \<noteq> []
      then if \<not> matlab \<and> \<not> pe_can_open pe (o_outFilePath o') then Inl (Fatal ''Failed to open'') else Inr ()
      else if matlab then Inl (Fatal ''Cannot write Matlab output to stdout'') else Inr ())"

text \<open>The columns of the Matlab output: the time first among the reals. The capacity that is reserved only shows in \<open>expected_rows\<close>.\<close>

record MatlabOutput =
  mo_reals :: "double list list"
  mo_ints :: "int list list"
  mo_bools :: "bool list list"

definition expected_rows :: "int \<Rightarrow> int \<Rightarrow> int" where
  "expected_rows maxSamples numsteps =
     (let e = (if maxSamples > 0 then maxSamples else numsteps); extra = e div 100 + 1
      in if e > INT_MAX - extra then INT_MAX else e + extra)"

definition add_column :: "variable \<Rightarrow> MatlabOutput \<Rightarrow> MatlabOutput res" where
  "add_column var mo =
     (case vtype var of
        fmi2_base_type_real \<Rightarrow> Inr (mo\<lparr>mo_reals := mo_reals mo @ [[]]\<rparr>)
      | fmi2_base_type_int \<Rightarrow> Inr (mo\<lparr>mo_ints := mo_ints mo @ [[]]\<rparr>)
      | fmi2_base_type_bool \<Rightarrow> Inr (mo\<lparr>mo_bools := mo_bools mo @ [[]]\<rparr>)
      | fmi2_base_type_str \<Rightarrow> Inr mo
      | fmi2_base_type_enum \<Rightarrow> Inl (Fatal ''Enums are not allowed in Matlab output for now''))"

definition reserveMatlabOutput :: "client list \<Rightarrow> MatlabOutput res" where
  "reserveMatlabOutput clients =
     rfold add_column (concat (map m_outputs clients)) \<lparr>mo_reals = [[]], mo_ints = [], mo_bools = []\<rparr>"

text \<open>The values of a row go to the columns of their types, in order.\<close>

fun store_cells :: "cell list \<Rightarrow> nat \<Rightarrow> nat \<Rightarrow> nat \<Rightarrow> MatlabOutput \<Rightarrow> MatlabOutput res" where
  "store_cells [] realofs intofs boolofs mo = Inr mo"
| "store_cells (Out_real x # cs) realofs intofs boolofs mo =
     (if length (mo_reals mo) \<le> realofs then Inl (UB ''mo.reals'')
      else store_cells cs (realofs + 1) intofs boolofs (mo\<lparr>mo_reals := (mo_reals mo)[realofs := mo_reals mo ! realofs @ [x]]\<rparr>))"
| "store_cells (Out_int x # cs) realofs intofs boolofs mo =
     (if length (mo_ints mo) \<le> intofs then Inl (UB ''mo.ints'')
      else store_cells cs realofs (intofs + 1) boolofs (mo\<lparr>mo_ints := (mo_ints mo)[intofs := mo_ints mo ! intofs @ [x]]\<rparr>))"
| "store_cells (Out_bool x # cs) realofs intofs boolofs mo =
     (if length (mo_bools mo) \<le> boolofs then Inl (UB ''mo.bools'')
      else store_cells cs realofs intofs (boolofs + 1) (mo\<lparr>mo_bools := (mo_bools mo)[boolofs := mo_bools mo ! boolofs @ [x]]\<rparr>))"
| "store_cells (Out_str x # cs) realofs intofs boolofs mo = store_cells cs realofs intofs boolofs mo"

definition store_row :: "row \<Rightarrow> MatlabOutput \<Rightarrow> MatlabOutput res" where
  "store_row r mo = store_cells (Out_real (row_time r) # row_cells r) 0 0 0 mo"

text \<open>The file: the time, then a structure for each FMU with a field for each output that is no string.\<close>

datatype mat_column = Col_real "double list" | Col_int "int list" | Col_bool "bool list"

datatype mat_var = Mat_column string mat_column | Mat_struct string "(string \<times> mat_column) list"

text \<open>A column is read to the length of the time column.\<close>

definition take_column :: "nat \<Rightarrow> ('a list \<Rightarrow> mat_column) \<Rightarrow> 'a list list \<Rightarrow> nat \<Rightarrow> mat_column res" where
  "take_column n con cols k = (if length cols \<le> k \<or> length (cols ! k) < n then Inl (UB ''column'') else Inr (con (take n (cols ! k))))"

fun write_fields :: "nat \<Rightarrow> MatlabOutput \<Rightarrow> variable list \<Rightarrow> nat \<times> nat \<times> nat \<Rightarrow> ((string \<times> mat_column) list \<times> (nat \<times> nat \<times> nat)) res" where
  "write_fields n mo [] ofs = Inr ([], ofs)"
| "write_fields n mo (v # vs) (r, i, b) =
     (case vtype v of
        fmi2_base_type_str \<Rightarrow> write_fields n mo vs (r, i, b)
      | fmi2_base_type_real \<Rightarrow> rbind (take_column n Col_real (mo_reals mo) r) (\<lambda>c.
          rbind (write_fields n mo vs (r + 1, i, b)) (\<lambda>(fs, ofs). Inr ((vname v, c) # fs, ofs)))
      | fmi2_base_type_int \<Rightarrow> rbind (take_column n Col_int (mo_ints mo) i) (\<lambda>c.
          rbind (write_fields n mo vs (r, i + 1, b)) (\<lambda>(fs, ofs). Inr ((vname v, c) # fs, ofs)))
      | fmi2_base_type_bool \<Rightarrow> rbind (take_column n Col_bool (mo_bools mo) b) (\<lambda>c.
          rbind (write_fields n mo vs (r, i, b + 1)) (\<lambda>(fs, ofs). Inr ((vname v, c) # fs, ofs)))
      | fmi2_base_type_enum \<Rightarrow> Inl (Fatal ''Unexpected variable type in writeMatlabOutput()''))"

fun write_clients :: "nat \<Rightarrow> MatlabOutput \<Rightarrow> client list \<Rightarrow> nat \<times> nat \<times> nat \<Rightarrow> mat_var list res" where
  "write_clients n mo [] ofs = Inr []"
| "write_clients n mo (c # cs) ofs =
     rbind (write_fields n mo (m_outputs c) ofs) (\<lambda>(fs, ofs).
     rbind (write_clients n mo cs ofs) (\<lambda>vs. Inr (Mat_struct (''fmu'' @ int_to_string (m_id c)) fs # vs)))"

definition writeMatlabOutput :: "('w, 's) program \<Rightarrow> client list \<Rightarrow> MatlabOutput \<Rightarrow> string \<Rightarrow> mat_var list res" where
  "writeMatlabOutput pe clients mo path =
     (if \<not> pe_can_open pe path then Inl (Fatal ''Failed to open'')
      else let n = length (mo_reals mo ! 0) in
        rbind (write_clients n mo clients (1, 0, 0)) (\<lambda>vs. Inr (Mat_column ''t'' (Col_real (mo_reals mo ! 0)) # vs)))"

subsection \<open>The results socket\<close>

text \<open>The variables of the model description in the order of their names, all or the inputs and outputs only.\<close>

definition sorted_variables :: "config \<Rightarrow> client \<Rightarrow> variable list" where
  "sorted_variables cfg c = (case parse_xml cfg (m_xml c) of None \<Rightarrow> []
     | Some (vs, _) \<Rightarrow> map (\<lambda>n. the (m_variables c n)) (remdups (sort (map vname vs))))"

definition result_refs :: "config \<Rightarrow> bool \<Rightarrow> client \<Rightarrow> SendGetXType" where
  "result_refs cfg pushEverything c =
     (let vs = filter (\<lambda>v. pushEverything \<or> vcausality v = causality_input \<or> vcausality v = causality_output) (sorted_variables cfg c) in
      (\<lambda>ty. let vrs = map vvr (filter (\<lambda>v. vtype v = ty) vs) in if vrs = [] then None else Some vrs))"

definition refs_of :: "SendGetXType \<Rightarrow> fmi2_base_type \<Rightarrow> int list" where
  "refs_of refs ty = (case refs ty of None \<Rightarrow> [] | Some vrs \<Rightarrow> vrs)"

definition result_values :: "SendGetXType \<Rightarrow> client \<Rightarrow> fmu_results res" where
  "result_values refs c =
     rbind (getReals c (refs_of refs fmi2_base_type_real)) (\<lambda>rv. rbind (getInts c (refs_of refs fmi2_base_type_int)) (\<lambda>iv.
     rbind (getBools c (refs_of refs fmi2_base_type_bool)) (\<lambda>bv. rbind (getStrings c (refs_of refs fmi2_base_type_str)) (\<lambda>sv.
       Inr \<lparr>fmu_id = Some (m_id c), res_reals = Some (refs_of refs fmi2_base_type_real, rv), res_ints = Some (refs_of refs fmi2_base_type_int, iv),
            res_bools = Some (refs_of refs fmi2_base_type_bool, bv), res_strings = Some (refs_of refs fmi2_base_type_str, sv)\<rparr>))))"

text \<open>The results are sent in the order of a map keyed by pointers, which is taken to be the order of the clients.\<close>

definition pushResults :: "('w, 's) program \<Rightarrow> options \<Rightarrow> int \<Rightarrow> double \<Rightarrow> bool \<Rightarrow> 'w master \<Rightarrow> 'w master res" where
  "pushResults pe o' stp t pushEverything m =
     (let cfg = pe_cfg pe; n = length (m_clients m); refs = map (result_refs cfg pushEverything) (m_clients m) in
      rbind (rfold (\<lambda>i. master_queueX cfg i (refs ! i)) [0..<n] m) (\<lambda>m.
      rbind (wait (pe_net pe) cfg (queueValueRequests m)) (\<lambda>m.
      rbind (rmap (\<lambda>i. result_values (refs ! i) (m_clients m ! i)) [0..<n]) (\<lambda>rs.
        case pe_push pe \<lparr>rs_version = 1, rs_step = stp, rs_t = t, rs_t_end = o_tEnd o', rs_dt = o_timeStep o', rs_results = rs\<rparr> (world m) of
          None \<Rightarrow> Inl (Blocked ''send'')
        | Some w \<Rightarrow> Inr (m\<lparr>world := w\<rparr>)))))"

subsection \<open>Construction\<close>

definition hasModelExchangeFMUs :: "me_info \<Rightarrow> nat \<Rightarrow> bool" where
  "hasModelExchangeFMUs info n \<longleftrightarrow> (\<exists>i\<in>set [0..<n]. getFmuKind info i = fmu_kind_me)"

definition make_StrongMaster :: "('w, 's) program \<Rightarrow> options \<Rightarrow> client list \<Rightarrow> connection list \<Rightarrow> 'w \<Rightarrow> 'w smaster res" where
  "make_StrongMaster pe o' clients wcs w =
     rbind (setupConstraintsAndSolver clients (o_strongConnections o') ([], [])) (\<lambda>(solver, st).
       new_StrongMaster (new_master clients wcs w) (map_option (setSpookParams (o_relaxation o') (o_compliance o') (o_timeStep o')) solver) st
         (o_holonomic o') (o_executionOrder o') (pe_rollback pe))"

definition bind_control :: "options \<Rightarrow> 'w smaster \<Rightarrow> 'w smaster res" where
  "bind_control o' m =
     (if o_command_port o' > 0 then Inr (on_base (\<lambda>b. b\<lparr>zmqControl := True\<rparr>) m)
      else if o_paused o' then Inl (Fatal ''-Z requires -z'') else Inr m)"

subsection \<open>Initialization\<close>

definition instantiate_all :: "options \<Rightarrow> 'w master \<Rightarrow> 'w master" where
  "instantiate_all o' m =
     fold (\<lambda>x. master_queueMessage x (fmi2_import_instantiate2 (x < length (o_fmuVisibilities o') \<and> o_fmuVisibilities o' ! x \<noteq> 0)))
       [0..<length (m_clients m)] m"

definition set_fmu_states :: "fmu_lifecycle \<Rightarrow> 'w master \<Rightarrow> 'w master" where
  "set_fmu_states s m = m\<lparr>m_clients := map (\<lambda>c. c\<lparr>m_fmuState := s\<rparr>) (m_clients m)\<rparr>"

definition send_string_params :: "bool \<Rightarrow> options \<Rightarrow> 'w master \<Rightarrow> 'w master res" where
  "send_string_params initialization o' m =
     rbind (resolve_string_params (o_params o') (m_clients m)) (\<lambda>ps. sendUserParams initialization ps m)"

text \<open>The CSV files in the order of their FMUs.\<close>

definition csv_params :: "options \<Rightarrow> client list \<Rightarrow> (double \<times> param_map) list res" where
  "csv_params o' clients =
     (let fs = sort_key fst (o_csv_fmu o') in
      if \<exists>(i, _)\<in>set fs. i < 0 then Inl (UB ''clients'') else param_mapFromCSV (map (map_prod nat id) fs) clients)"

definition initialize :: "('w, 's) program \<Rightarrow> options \<Rightarrow> 'w master \<Rightarrow> ('w master \<times> (double \<times> param_map) list) res" where
  "initialize pe o' m =
     (let net = pe_net pe; cfg = pe_cfg pe; all = [0..<length (m_clients m)];
          m = queueMessage_all all (fmi2_import_setup_experiment True (1 / 10000) 0 (o_tEnd o' \<ge> 0) (o_tEnd o')) (instantiate_all o' m) in
      rbind (send_string_params False o' m) (\<lambda>m.
      rbind (wait net cfg m) (\<lambda>m.
      rbind (send_string_params True o' (queueMessage_all all enter_initialization_mode_req (set_fmu_states fmu_initializing m))) (\<lambda>m.
      rbind (csv_params o' (m_clients m)) (\<lambda>csvp.
      rbind (if o_solveLoops o' then solveLoops net cfg (pe_roots pe) m else Inr m) (\<lambda>m.
      rbind (wait net cfg (queueMessage_all all exit_initialization_mode_req m)) (\<lambda>m. Inr (m, csvp))))))))"

subsection \<open>The program\<close>

text \<open>Both ways out of \<^verbatim>\<open>main\<close> that are no error: the simulation with the header line, the file of field names and the Matlab file, or the master of a cluster with model exchange FMUs.\<close>

datatype 'w outcome =
    Finished "string option \<times> string option" "mat_var list" "'w sim"
  | Model_exchange "client list" "connection list" 'w

definition header_line :: "options \<Rightarrow> string \<Rightarrow> string option" where
  "header_line o' names = (if o_fileFormat o' = csv \<and> o_useHeadersInCSV o' \<or> o_fileFormat o' = tikz then Some names else None)"

definition fieldname_file :: "options \<Rightarrow> string \<Rightarrow> string option" where
  "fieldname_file o' names = (if o_fieldnameFilename o' \<noteq> [] then Some (names @ [CHR 0x0A]) else None)"

definition all_fieldnames :: "options \<Rightarrow> client list \<Rightarrow> 'w smaster \<Rightarrow> string" where
  "all_fieldnames o' clients m = getFieldnames (o_fileFormat o') clients
     @ (if o_writeSolverFields o' then getFieldNames (getSeparator (o_fileFormat o')) m else [])"

definition sim_config_of :: "('w, 's) program \<Rightarrow> options \<Rightarrow> (double \<times> param_map) list \<Rightarrow> sim_config" where
  "sim_config_of pe o' csvp = \<lparr>endTime = o_tEnd o', timeStep = o_timeStep o', nsteps = 0, period = 0, writes = (o_fileFormat o' \<noteq> no_output),
     matlab_output = is_matlab (o_fileFormat o'), csvParam = csvp, no_time = pe_no_time pe\<rparr>"

text \<open>An iteration, with the results after it.\<close>

definition main_iteration :: "('w, 's) program \<Rightarrow> options \<Rightarrow> int \<Rightarrow> double \<Rightarrow> double \<Rightarrow> 'w smaster \<Rightarrow> 'w smaster res" where
  "main_iteration pe o' k t dt m =
     rbind (runIteration (pe_umf pe) (pe_net pe) (pe_cfg pe) t dt m) (\<lambda>m.
       if o_results_port o' > 0 then on_base_res (pushResults pe o' (k + 1) (t + dt) False) m else Inr m)"

definition matlab_file :: "('w, 's) program \<Rightarrow> options \<Rightarrow> 'w sim \<Rightarrow> mat_var list res" where
  "matlab_file pe o' s =
     (if is_matlab (o_fileFormat o')
      then rbind (reserveMatlabOutput (clients_of (sim_master s))) (\<lambda>mo. rbind (rfold store_row (rows s) mo) (\<lambda>mo.
        writeMatlabOutput pe (clients_of (sim_master s)) mo (o_outFilePath o')))
      else Inr [])"

definition terminate_client :: "('w, 's) program \<Rightarrow> nat \<Rightarrow> 'w master \<Rightarrow> 'w master res" where
  "terminate_client pe i m =
     rbind (sendMessageBlocking pe i terminate_req (set_client i ((m_clients m ! i)\<lparr>m_fmuState := fmu_terminating\<rparr>) m)) (\<lambda>m.
     rbind (sendMessageBlocking pe i free_instance_req m) (\<lambda>m.
       Inr (set_client i ((m_clients m ! i)\<lparr>m_fmuState := fmu_terminated\<rparr>) m)))"

text \<open>The destructor of a client refuses requests that were pending before the master existed.\<close>

definition finish :: "('w, 's) program \<Rightarrow> options \<Rightarrow> nat list \<Rightarrow> string option \<times> string option \<Rightarrow> 'w sim \<Rightarrow> 'w outcome res" where
  "finish pe o' pendings hd_line s =
     rbind (matlab_file pe o' s) (\<lambda>mat.
     rbind (on_base_res (rfold (terminate_client pe) [0..<length (clients_of (sim_master s))]) (sim_master s)) (\<lambda>m.
       if \<exists>k\<in>set pendings. k \<noteq> 0 then Inl (Fatal ''Had m_pendingRequests in Client::~Client()'')
       else Inr (Finished hd_line mat (s\<lparr>sim_master := m\<rparr>))))"

text \<open>Everything before the loop.\<close>

definition prepare_strong :: "('w, 's) program \<Rightarrow> options \<Rightarrow> client list \<Rightarrow> connection list \<Rightarrow> 'w \<Rightarrow> ('w smaster \<times> (double \<times> param_map) list) res" where
  "prepare_strong pe o' clients wcs w =
     rbind (make_StrongMaster pe o' clients wcs w) (\<lambda>m.
     rbind (bind_control o' m) (\<lambda>m.
     rbind (initialize pe o' (base m)) (\<lambda>(b, csvp).
     rbind (strong_prepare (m\<lparr>base := b\<rparr>)) (\<lambda>m.
     rbind (if is_matlab (o_fileFormat o') then rbind (reserveMatlabOutput (clients_of m)) (\<lambda>_. Inr ()) else Inr ()) (\<lambda>_.
     rbind (if o_results_port o' > 0 then on_base_res (pushResults pe o' 0 0 True) m else Inr m) (\<lambda>m. Inr (m, csvp)))))))"

definition main_strong :: "('w, 's) program \<Rightarrow> options \<Rightarrow> pclient list \<Rightarrow> connection list \<Rightarrow> 'w \<Rightarrow> 'w outcome res option" where
  "main_strong pe o' pcs wcs w =
     obind (Some (prepare_strong pe o' (map snd pcs) wcs w)) (\<lambda>(m, csvp).
       let names = all_fieldnames o' (map snd pcs) m in
       map_option (\<lambda>r. rbind r (finish pe o' (map fst pcs) (header_line o' names, fieldname_file o' names)))
         (run_simulation (main_iteration pe o') (pe_net pe) (pe_cfg pe) (sim_config_of pe o' csvp) (o_maxSamples o') (o_paused o') m))"

definition main :: "('w, 's) program \<Rightarrow> jm_log_level \<Rightarrow> string list \<Rightarrow> 'w \<Rightarrow> 'w outcome res option" where
  "main pe loglevel args w =
     obind (parseArguments (pe_environment pe) loglevel args) (\<lambda>(o', paths).
     obind (Some (open_output pe o')) (\<lambda>_.
     obind (Some (setup_clients pe (length paths) w)) (\<lambda>(pcs, w).
     obind (Some (connectionNamesToVr (o_connections o') (o_strongConnections o') (map snd pcs))) (\<lambda>wcs.
       if hasModelExchangeFMUs (pe_info pe) (length paths)
       then Some (if o_strongConnections o' \<noteq> [] then Inl (Fatal ''Cannot do ModelExchange and kinematic coupling at the same time currently'')
                  else Inr (Model_exchange (map snd pcs) wcs w))
       else main_strong pe o' pcs wcs w))))"

end
