(* ===== verification/Command_Line_Props.thy ===== *)
theory Command_Line_Props
  imports Command_Line
begin

text \<open>
  What \<^verbatim>\<open>parseArguments\<close> promises: connections come back from their text, what is accepted refers to FMUs there are and has an
  execution order, reading the words of argument files ends when these files name no further ones, and does not end when one
  names itself in the form \<^verbatim>\<open>-afile\<close>.
\<close>

subsection \<open>The text of a connection\<close>

fun type_char :: "fmi2_base_type \<Rightarrow> string" where
  "type_char fmi2_base_type_int = ''i''"
| "type_char fmi2_base_type_bool = ''b''"
| "type_char fmi2_base_type_str = ''s''"
| "type_char _ = ''r''"

definition connection_parts :: "connection_option \<Rightarrow> string list" where
  "connection_parts c =
     (if c_needs_type c then [int_to_string (c_fromFMU c), c_from c, int_to_string (c_toFMU c), c_to c]
      else [type_char (c_fromType c), int_to_string (c_fromFMU c), c_from c, type_char (c_toType c), int_to_string (c_toFMU c), c_to c])"

definition connections_text :: "connection_option list \<Rightarrow> string" where
  "connections_text cs = join (CHR '':'') (map escape (map (\<lambda>c. join (CHR '','') (map escape (connection_parts c))) cs))"

text \<open>Connections between FMUs below \<open>n\<close> that have a text: by names, whose type is not known yet, or by type and value reference.\<close>

definition printable :: "nat \<Rightarrow> connection_option \<Rightarrow> bool" where
  "printable n c \<longleftrightarrow> 0 \<le> c_fromFMU c \<and> c_fromFMU c < int n \<and> 0 \<le> c_toFMU c \<and> c_toFMU c < int n \<and> c_slope c = 1 \<and> c_intercept c = 0
     \<and> (if c_needs_type c then \<not> isVR (c_from c) \<and> \<not> isVR (c_to c) \<and> c_fromType c = fmi2_base_type_real \<and> c_toType c = fmi2_base_type_real
        else c_fromType c \<noteq> fmi2_base_type_enum \<and> c_toType c \<noteq> fmi2_base_type_enum)"

lemma type_from_char_type_char [simp]: "t \<noteq> fmi2_base_type_enum \<Longrightarrow> type_from_char (type_char t) = Inr t"
  by (cases t) (simp_all add: type_from_char_def)

lemma isVR_int_to_string: "0 \<le> i \<Longrightarrow> isVR (int_to_string i)"
  by (simp add: isVR_def int_to_string_def nat_to_string_digits)

lemma parse_connection_parts:
  assumes "printable n c" and "n < 2 ^ 31"
  shows "parse_connection (connection_parts c) = Inr c"
proof -
  have i: "atoi (int_to_string (c_fromFMU c)) = c_fromFMU c" "atoi (int_to_string (c_toFMU c)) = c_toFMU c"
    using assms by (auto simp: printable_def intro!: atoi_int_to_string)
  show ?thesis
  proof (cases "c_needs_type c")
    case True
    then show ?thesis using assms i by (simp add: parse_connection_def connection_parts_def printable_def connection_of_def)
  next
    case False
    then show ?thesis using assms i by (simp add: parse_connection_def connection_parts_def printable_def connection_of_def isVR_int_to_string)
  qed
qed

lemma connection_parts_nonempty [simp]: "connection_parts c \<noteq> []"
  by (simp add: connection_parts_def)

lemma rmap_map_Inr: "(\<And>x. x \<in> set xs \<Longrightarrow> f (g x) = Inr x) \<Longrightarrow> rmap f (map g xs) = Inr xs"
  by (induction xs) simp_all

lemma connection_option_text:
  assumes "cs \<noteq> []" and "\<And>c. c \<in> set cs \<Longrightarrow> printable n c" and "n < 2 ^ 31"
  shows "option_with_argument env (CHR ''c'') (connections_text cs) o' = Inr (o'\<lparr>o_connections := o_connections o' @ cs\<rparr>)"
proof -
  have "escapeSplit (connections_text cs) (CHR '':'') = Inr (map (\<lambda>c. join (CHR '','') (map escape (connection_parts c))) cs)"
    unfolding connections_text_def by (rule escapeSplit_join) (use assms(1) in auto)
  moreover have "rmap (\<lambda>p. rbind (escapeSplit p (CHR '','')) parse_connection) (map (\<lambda>c. join (CHR '','') (map escape (connection_parts c))) cs) = Inr cs"
    by (rule rmap_map_Inr) (simp add: escapeSplit_join parse_connection_parts[OF assms(2,3)])
  ultimately show ?thesis by (simp add: option_with_argument_def)
qed

subsection \<open>Words that are no options\<close>

definition no_option :: "string \<Rightarrow> bool" where
  "no_option w \<longleftrightarrow> \<not> (length w > 1 \<and> hd w = CHR ''-'')"

lemma getopt_no_options:
  "list_all no_option (argv s) \<Longrightarrow> nextchar s = [] \<Longrightarrow> getopt s = (No_more, s\<lparr>argv := [], nonoptions := nonoptions s @ argv s, passed := passed s @ argv s\<rparr>)"
proof (induction "argv s" arbitrary: s)
  case Nil
  then show ?case by (subst getopt.simps) (cases s, simp)
next
  case (Cons a as)
  have "argv s = a # as" using Cons.hyps(2) by simp
  moreover have "a \<noteq> ''--''" using Cons.prems(1) calculation by (auto simp: no_option_def)
  moreover have "\<not> (length a > 1 \<and> hd a = CHR ''-'')" using Cons.prems(1) \<open>argv s = a # as\<close> by (auto simp: no_option_def)
  ultimately show ?case using Cons.hyps(1)[of "s\<lparr>argv := as, nonoptions := nonoptions s @ [a], passed := passed s @ [a]\<rparr>"] Cons.prems
    by (subst getopt.simps) auto
qed

lemma check_connections_ok:
  "(\<And>c. c \<in> set cs \<Longrightarrow> 0 \<le> c_fromFMU c \<and> c_fromFMU c < int n \<and> 0 \<le> c_toFMU c \<and> c_toFMU c < int n) \<Longrightarrow>
   rfold (\<lambda>c _. check_connection n c) cs () = Inr ()"
  by (induction cs) (fastforce simp: check_connection_def)+

lemma parse_text_connections:
  assumes "cs \<noteq> []" and "\<forall>c\<in>set cs. printable (length paths) c" and "length paths < 2 ^ 31" and "paths \<noteq> []" and "list_all no_option paths"
  shows "parseArguments env l ([''-c'', connections_text cs] @ paths)
     = Some (Inr ((default_options l)\<lparr>o_connections := cs, o_executionOrder := jacobiOrder (length paths)\<rparr>, paths))"
proof -
  let ?s = "start_scanner env ([''-c'', connections_text cs] @ paths)"
  let ?s1 = "?s\<lparr>argv := paths, passed := [''-c'', connections_text cs]\<rparr>"
  let ?o = "(default_options l)\<lparr>o_connections := cs\<rparr>"
  have "getopt ?s = (Found (CHR ''c'') (Some (connections_text cs)), ?s1)"
    by (subst getopt.simps) (simp add: found_in_word_def takes_argument_def start_scanner_def Let_def)
  moreover have "handle_found env (CHR ''c'') (Some (connections_text cs)) (default_options l, ?s1) = Inr (?o, ?s1)"
    using connection_option_text[OF assms(1) _ assms(3), of env "default_options l"] assms(2)
    by (simp add: handle_found_def default_options_def)
  moreover have "parse_loop env (?o, ?s1) = Some (Inr (?o, paths))"
    using getopt_no_options[of ?s1] assms(5) by (subst parse_loop.simps) (simp add: start_scanner_def)
  ultimately have loop: "parse_loop env (default_options l, ?s) = Some (Inr (?o, paths))"
    by (subst parse_loop.simps) simp
  have "rfold (\<lambda>c _. check_connection (length paths) c) cs () = Inr ()"
    by (rule check_connections_ok) (use assms(2) in \<open>auto simp: printable_def\<close>)
  then have "finish_parsing (?o, paths) = Inr (?o\<lparr>o_executionOrder := jacobiOrder (length paths)\<rparr>, paths)"
    using assms(4) by (simp add: finish_parsing_def choose_order_def default_options_def)
  then show ?thesis using loop by (simp add: parseArguments_def)
qed

text \<open>C20: connections survive the command line: for every list of connections between existing FMUs, given by names (of which
  nothing is assumed but that they are not all digits) or by types and value references, the option \<^verbatim>\<open>-c\<close> with their text, escaped for
  the commas and again for the colons, followed by the FMUs, is parsed to exactly these connections, the default values and
  the default execution order.\<close>

theorem connections_roundtrip:
  assumes "cs \<noteq> []" and "\<forall>c\<in>set cs. printable (length paths) c" and "length paths < 2 ^ 31" and "paths \<noteq> []" and "list_all no_option paths"
  shows "parseArguments env l ([''-c'', connections_text cs] @ paths)
     = Some (Inr ((default_options l)\<lparr>o_connections := cs, o_executionOrder := jacobiOrder (length paths)\<rparr>, paths))"
  using parse_text_connections[OF assms] .

definition example_environment :: "string \<Rightarrow> environment" where
  "example_environment t = \<lparr>file_content = (\<lambda>f. if f = ''file'' then Some t else None), standard_input = [], expat = (\<lambda>f. None)\<rparr>"

definition example_connections :: "connection_option list" where
  "example_connections = [connection_of True fmi2_base_type_real fmi2_base_type_real 1 0 ''0'' ''a:b,c'' ''1'' ''x'',
     connection_of False fmi2_base_type_int fmi2_base_type_real 1 0 ''1'' ''7'' ''0'' ''3'']"

lemma example_printable: "\<forall>c\<in>set example_connections. printable (length [''a.fmu'', ''b.fmu'']) c"
  by (simp add: example_connections_def connection_of_def printable_def isVR_def isdigit_def atoi_def strtol_def isspace_def
      digits_value_def digit_value_def to_int32_def)

lemma example_parse:
  "parseArguments env l ([''-c'', connections_text example_connections] @ [''a.fmu'', ''b.fmu''])
     = Some (Inr ((default_options l)\<lparr>o_connections := example_connections, o_executionOrder := jacobiOrder 2\<rparr>, [''a.fmu'', ''b.fmu'']))"
  using parse_text_connections[OF _ example_printable, of env l]
  by (simp add: example_connections_def no_option_def eval_nat_numeral(3)[symmetric] numeral_2_eq_2[symmetric])

theorem connections_roundtrip_witness:
  "parseArguments (example_environment ''-H'') jm_log_level_warning ([''-c'', connections_text example_connections] @ [''a.fmu'', ''b.fmu''])
     = Some (Inr ((default_options jm_log_level_warning)\<lparr>o_connections := example_connections, o_executionOrder := jacobiOrder 2\<rparr>, [''a.fmu'', ''b.fmu'']))"
proof -
  have "list_all no_option [''a.fmu'', ''b.fmu'']" by (simp add: no_option_def)
  then show ?thesis
    using connections_roundtrip[OF _ example_printable, of "example_environment ''-H''" jm_log_level_warning]
    by (simp add: example_connections_def eval_nat_numeral(3)[symmetric] numeral_2_eq_2[symmetric])
qed

subsection \<open>What is accepted\<close>

definition connection_in :: "nat \<Rightarrow> connection_option \<Rightarrow> bool" where
  "connection_in n c \<longleftrightarrow> 0 \<le> c_fromFMU c \<and> c_fromFMU c < int n \<and> 0 \<le> c_toFMU c \<and> c_toFMU c < int n"

definition strong_connection_in :: "nat \<Rightarrow> strongconnection \<Rightarrow> bool" where
  "strong_connection_in n sc \<longleftrightarrow> 2 \<le> length (sc_fmus sc) \<and> (\<forall>f\<in>set (sc_fmus sc). 0 \<le> f \<and> f < int n)"

text \<open>What every option keeps: parameters have three or four parts, strong connections two FMUs at least, and \<^verbatim>\<open>-g\<close> and \<^verbatim>\<open>-G\<close> are not both given.\<close>

definition options_ok :: "options \<Rightarrow> bool" where
  "options_ok o' \<longleftrightarrow> (\<forall>p\<in>set (o_params o'). length p \<in> {3, 4}) \<and> (\<forall>sc\<in>set (o_strongConnections o'). 2 \<le> length (sc_fmus sc))
     \<and> (o_g o' = [] \<or> o_executionOrder o' = [])"

lemma rmap_Inr_all: "rmap f xs = Inr ys \<Longrightarrow> (\<And>x y. x \<in> set xs \<Longrightarrow> f x = Inr y \<Longrightarrow> P y) \<Longrightarrow> \<forall>y\<in>set ys. P y"
  by (induction xs arbitrary: ys) fastforce+

lemma parse_strong_connection_fmus: "parse_strong_connection v = Inr sc \<Longrightarrow> 2 \<le> length (sc_fmus sc)"
  by (auto simp: parse_strong_connection_def Let_def split: if_splits)

lemma option_with_argument_ok:
  assumes "option_with_argument env c arg o' = Inr o''" and "options_ok o'"
  shows "options_ok o''"
proof -
  obtain parts where parts: "escapeSplit arg (CHR '':'') = Inr parts" using assms(1) by (auto simp: option_with_argument_def)
  have sc: "\<forall>sc\<in>set cs. 2 \<le> length (sc_fmus sc)"
    if "rmap (\<lambda>p. rbind (escapeSplit p (CHR '','')) parse_strong_connection) parts = Inr cs" for cs
    using that by (rule rmap_Inr_all) (auto intro: parse_strong_connection_fmus)
  have ps: "\<forall>p\<in>set ps. length p \<in> {3, 4}"
    if "rmap (\<lambda>p. rbind (escapeSplit p (CHR '','')) (\<lambda>v. if length v < 3 \<or> length v > 4
             then Inl (Fatal ''Parameters must have exactly 3 or 4 parts'') else Inr v)) parts = Inr ps" for ps
    using that by (rule rmap_Inr_all) (auto split: if_splits)
  show ?thesis
    using assms parts
    by (auto simp: option_with_argument_def options_ok_def port_option_def csv_option_def Let_def dest!: sc ps split: if_splits option.splits) (blast+)?
qed

lemma plain_option_ok: "plain_option c o' = Inr o'' \<Longrightarrow> options_ok o' \<Longrightarrow> options_ok o''"
  by (auto simp: plain_option_def options_ok_def split: if_splits)

lemma handle_found_ok:
  "handle_found env c arg st = Inr st' \<Longrightarrow> options_ok (fst st) \<Longrightarrow> options_ok (fst st')"
  by (cases st) (auto simp: handle_found_def intro: plain_option_ok option_with_argument_ok split: option.splits if_splits)

lemma parse_loop_inv:
  assumes "parse_loop env st = Some (Inr (o', paths))" and "P (fst st)"
    and keep: "\<And>env c arg st st'. handle_found env c arg st = Inr st' \<Longrightarrow> P (fst st) \<Longrightarrow> P (fst st')"
  shows "P o'"
proof -
  have "\<forall>o' paths. (r :: (options \<times> string list) res) = Inr (o', paths) \<longrightarrow> P (fst st) \<longrightarrow> P o'"
    if "parse_loop env st = Some r" for st r
    using that
  proof (rule parse_loop.raw_induct[where P = "\<lambda>env st (r :: (options \<times> string list) res). \<forall>o' paths. r = Inr (o', paths) \<longrightarrow> P (fst st) \<longrightarrow> P o'", rotated])
    fix loop :: "environment \<Rightarrow> options \<times> scanner \<Rightarrow> (options \<times> string list) res option" and env st r
    assume IH: "\<And>env st r. loop env st = Some r \<Longrightarrow> \<forall>o' paths. r = Inr (o', paths) \<longrightarrow> P (fst st) \<longrightarrow> P o'"
      and eq: "(case getopt (snd st) of
        (No_more, s) \<Rightarrow> Some (Inr (fst st, nonoptions s))
      | (Bad_option, s) \<Rightarrow> Some (Inl (Fatal ''Unknown option or missing argument''))
      | (Found c arg, s) \<Rightarrow>
          (case handle_found env c arg (fst st, s) of Inl e \<Rightarrow> Some (Inl e) | Inr st' \<Rightarrow> loop env st')) = Some r"
    obtain f s where g: "getopt (snd st) = (f, s)" by fastforce
    show "\<forall>o' paths. r = Inr (o', paths) \<longrightarrow> P (fst st) \<longrightarrow> P o'"
      using eq IH keep[of env _ _ "(fst st, s)"] unfolding g
      by (fastforce split: found.splits sum.splits)
  qed
  then show ?thesis using assms(1,2) by blast
qed

lemma parse_loop_ok: "parse_loop env st = Some (Inr (o', paths)) \<Longrightarrow> options_ok (fst st) \<Longrightarrow> options_ok o'"
  by (erule parse_loop_inv[where P = options_ok]) (auto intro: handle_found_ok)

lemma rfold_unit_Inr: "rfold (\<lambda>x _. f x) xs () = Inr () \<longleftrightarrow> (\<forall>x\<in>set xs. f x = Inr ())"
  by (induction xs) (auto simp: rbind_eq_Inr)

lemma check_connection_iff: "check_connection n c = Inr () \<longleftrightarrow> connection_in n c"
  by (auto simp: check_connection_def connection_in_def)

lemma check_strong_connection_iff: "check_strong_connection n sc = Inr () \<longleftrightarrow> (\<forall>f\<in>set (sc_fmus sc). 0 \<le> f \<and> f < int n)"
  by (auto simp: check_strong_connection_def not_less not_le)

lemma choose_order_same:
  "choose_order n o' = Inr o'' \<Longrightarrow> o_connections o'' = o_connections o' \<and> o_strongConnections o'' = o_strongConnections o' \<and> o_params o'' = o_params o'"
  by (auto simp: choose_order_def split: if_splits)

lemma parse_result:
  assumes "parseArguments env l args = Some (Inr (o', paths))"
  shows "paths \<noteq> [] \<and> list_all (connection_in (length paths)) (o_connections o')
     \<and> list_all (strong_connection_in (length paths)) (o_strongConnections o') \<and> list_all (\<lambda>p. length p \<in> {3, 4}) (o_params o')"
proof -
  obtain o1 ps where 1: "parse_loop env (default_options l, start_scanner env args) = Some (Inr (o1, ps))"
      "finish_parsing (o1, ps) = Inr (o', paths)"
    using assms by (auto simp: parseArguments_def)
  have "options_ok o1" by (rule parse_loop_ok[OF 1(1)]) (simp add: options_ok_def default_options_def)
  then show ?thesis
    using 1(2) by (auto simp: finish_parsing_def options_ok_def list_all_iff strong_connection_in_def rfold_unit_Inr
        check_connection_iff check_strong_connection_iff dest!: choose_order_same split: if_splits)
qed

text \<open>C18: what \<^verbatim>\<open>parseArguments\<close> accepts is safe to use: there is at least one FMU, every weak and strong connection refers only to FMUs that exist,
  strong connections join two of them at least, and parameters have three or four parts.\<close>

theorem accepted_options_correct:
  assumes "parseArguments env l args = Some (Inr (o', paths))"
  shows "paths \<noteq> [] \<and> list_all (connection_in (length paths)) (o_connections o')
     \<and> list_all (strong_connection_in (length paths)) (o_strongConnections o') \<and> list_all (\<lambda>p. length p \<in> {3, 4}) (o_params o')"
  using parse_result[OF assms] .

theorem accepted_options_correct_witness:
  "[''a.fmu'', ''b.fmu''] \<noteq> [] \<and> list_all (connection_in (length [''a.fmu'', ''b.fmu''])) example_connections"
  using accepted_options_correct[OF example_parse[of "example_environment []" jm_log_level_warning]] by simp

subsection \<open>Argument files\<close>

definition names_file :: "string \<Rightarrow> bool" where
  "names_file w \<longleftrightarrow> hd (w @ [CHR ''x'']) = CHR ''-'' \<and> CHR ''a'' \<in> set w"

text \<open>No file of the environment holds a word that may be read as option \<^verbatim>\<open>-a\<close>.\<close>

definition no_nested_files :: "environment \<Rightarrow> bool" where
  "no_nested_files env \<longleftrightarrow> (\<forall>f t. file_content env f = Some t \<longrightarrow> (\<forall>w\<in>set (tokens t). \<not> names_file w))"

definition file_options :: "scanner \<Rightarrow> nat" where
  "file_options s = length (filter names_file (argv s)) + length (filter names_file (tokens (stdin_text s))) + (if CHR ''a'' \<in> set (nextchar s) then 1 else 0)"

definition unread :: "scanner \<Rightarrow> nat" where
  "unread s = length (nextchar s) + sum_list (map (\<lambda>w. Suc (length w)) (argv s))"

lemma tokens_empty [simp]: "tokens [] = []"
  by (subst tokens.simps) simp

lemma found_in_word_progress:
  assumes "found_in_word s = (Found c arg, s')" and "nextchar s \<noteq> []"
  shows "file_options s' \<le> file_options s" and "unread s' < unread s" and "c = CHR ''a'' \<Longrightarrow> file_options s' < file_options s"
    and "arg \<noteq> None \<Longrightarrow> nextchar s' = []"
proof -
  obtain k cs where n: "nextchar s = k # cs" using assms(2) by (cases "nextchar s") auto
  show "file_options s' \<le> file_options s" "unread s' < unread s" "arg \<noteq> None \<Longrightarrow> nextchar s' = []"
    using assms(1) by (auto simp: found_in_word_def n file_options_def unread_def split: if_splits list.splits)
  show "file_options s' < file_options s" if "c = CHR ''a''"
    using assms(1) that by (auto simp: found_in_word_def n file_options_def is_plain_def split: if_splits list.splits)
qed

lemma getopt_progress:
  assumes "getopt s = (Found c arg, s')"
  shows "file_options s' \<le> file_options s \<and> unread s' < unread s \<and> (c = CHR ''a'' \<longrightarrow> file_options s' < file_options s)"
  using assms
proof (induction s rule: getopt.induct)
  case (1 s)
  show ?case
  proof (cases "nextchar s = []")
    case False
    then show ?thesis using found_in_word_progress[of s c arg s'] "1.prems" by (subst (asm) getopt.simps) simp
  next
    case n: True
    show ?thesis
    proof (cases "argv s")
      case Nil
      then show ?thesis using "1.prems" n by (subst (asm) getopt.simps) simp
    next
      case (Cons a as)
      consider "a = ''--''" | "a \<noteq> ''--''" "length a > 1" "hd a = CHR ''-''" | "a \<noteq> ''--''" "\<not> (length a > 1 \<and> hd a = CHR ''-'')" by blast
      then show ?thesis
      proof cases
        case 1
        then show ?thesis using "1.prems" n Cons by (subst (asm) getopt.simps) simp
      next
        case 2
        let ?s = "s\<lparr>nextchar := List.tl a, argv := as, passed := passed s @ [a], option_at := length (passed s)\<rparr>"
        obtain k ks where a: "a = CHR ''-'' # k # ks" using 2 by (cases a; cases "List.tl a") auto
        have "found_in_word ?s = (Found c arg, s')" using "1.prems" n Cons 2 by (subst (asm) getopt.simps) simp
        moreover have "file_options ?s = file_options s" "unread ?s < unread s"
          using a n Cons by (auto simp: file_options_def unread_def names_file_def)
        ultimately show ?thesis using found_in_word_progress[of ?s c arg s'] a by auto
      next
        case 3
        let ?s = "s\<lparr>argv := as, nonoptions := nonoptions s @ [a], passed := passed s @ [a]\<rparr>"
        have "getopt ?s = (Found c arg, s')" using "1.prems" n Cons 3 by (subst (asm) getopt.simps) auto
        moreover have "file_options ?s \<le> file_options s" "unread ?s < unread s"
          using Cons by (auto simp: file_options_def unread_def)
        ultimately show ?thesis using "1.IH"[OF _ Cons] n 3 by fastforce
      qed
    qed
  qed
qed

lemma add_args_file_options:
  assumes "add_args env f s = Inr s'" and "no_nested_files env"
  shows "file_options s' = file_options s"
proof -
  show ?thesis
  proof (cases "f = ''-''")
    case True
    then show ?thesis using assms(1) by (auto simp: add_args_def insert_tokens_def Let_def file_options_def split: if_splits)
  next
    case False
    then obtain t where t: "s' = s\<lparr>argv := tokens t @ argv s, nonoptions := nonoptions_again s\<rparr>" "file_content env f = Some t"
      using assms(1) by (auto simp: add_args_def insert_tokens_def Let_def split: if_splits option.splits)
    have "filter names_file (tokens t) = []" using t(2) assms(2) by (auto simp: no_nested_files_def filter_empty_conv)
    then show ?thesis by (simp add: t(1) file_options_def)
  qed
qed

lemma handle_found_scanner:
  assumes "handle_found env c arg (o', s) = Inr (o'', s')"
  shows "s' = s \<or> c = CHR ''a'' \<and> (\<exists>f. add_args env f s = Inr s')"
  using assms by (auto simp: handle_found_def split: option.splits if_splits)

lemma parse_loop_returns:
  assumes "no_nested_files env"
  shows "\<exists>r. parse_loop env st = Some r"
proof (induction st rule: wf_induct[OF wf_measures[of "[\<lambda>st. file_options (snd st), \<lambda>st. unread (snd st)]"]])
  case (1 st)
  obtain f s where g: "getopt (snd st) = (f, s)" by fastforce
  show ?case
  proof (cases f)
    case (Found c arg)
    show ?thesis
    proof (cases "handle_found env c arg (fst st, s)")
      case (Inr st')
      have p: "file_options s \<le> file_options (snd st)" "unread s < unread (snd st)" "c = CHR ''a'' \<longrightarrow> file_options s < file_options (snd st)"
        using getopt_progress[of "snd st" c arg s] g Found by auto
      consider "snd st' = s" | "c = CHR ''a''" "file_options (snd st') = file_options s"
        using handle_found_scanner[of env c arg "fst st" s "fst st'" "snd st'"] add_args_file_options[OF _ assms] Inr by fastforce
      then have "(st', st) \<in> measures [\<lambda>st. file_options (snd st), \<lambda>st. unread (snd st)]" using p by cases auto
      then have "\<exists>r. parse_loop env st' = Some r" using 1 by blast
      then show ?thesis using g Found Inr by (subst parse_loop.simps) simp
    qed (simp add: parse_loop.simps[of env st] g Found)
  qed (simp_all add: parse_loop.simps[of env st] g)
qed

text \<open>The command line is always read to its end when the argument files name no further argument files: with no
  word in them that may be read as the option \<^verbatim>\<open>-a\<close>, alone, with its file in the same word or behind other options, parsing returns, with options or with an
  error, however many argument files the command line has and whatever the standard input names.\<close>

theorem argument_files_end:
  assumes "no_nested_files env"
  shows "\<exists>r. parseArguments env l args = Some r"
  using parse_loop_returns[OF assms] by (auto simp: parseArguments_def)

lemma tokens_word:
  "w \<noteq> [] \<Longrightarrow> list_all (\<lambda>c. \<not> isspace c) w \<Longrightarrow> hd w \<noteq> CHR 0x22 \<Longrightarrow> tokens w = [w]"
proof -
  assume w: "w \<noteq> []" "list_all (\<lambda>c. \<not> isspace c) w" "hd w \<noteq> CHR 0x22"
  obtain c cs where c: "w = c # cs" using w(1) by (cases w) auto
  have "dropWhile isspace w = w" "takeWhile (\<lambda>c. \<not> isspace c) w = w" "dropWhile (\<lambda>c. \<not> isspace c) w = []" "tokens [] = []"
    using w(2) c by (auto simp: list_all_iff takeWhile_eq_all_conv dropWhile_eq_Nil_conv tokens.simps)
  then show "tokens w = [w]" using w(3) c by (subst tokens.simps) simp
qed

theorem argument_files_end_witness:
  "\<exists>r. parseArguments (example_environment ''-H'') jm_log_level_warning [''-afile'', ''-a'', ''file'', ''a.fmu''] = Some r"
proof -
  have "tokens ''-H'' = [''-H'']" by (rule tokens_word) (simp_all add: isspace_def)
  then have "no_nested_files (example_environment ''-H'')"
    by (auto simp: no_nested_files_def example_environment_def names_file_def)
  then show ?thesis by (rule argument_files_end)
qed

lemma escapeSplit_plain:
  assumes "list_all (\<lambda>c. \<not> escapable c) f"
  shows "escapeSplit f (CHR '':'') = Inr [f]"
proof -
  have "escape f = f" using assms by (induction f) (auto simp: escape_def)
  then show ?thesis using escapeSplit_join[of "CHR '':''" "[f]"] by simp
qed

lemma getopt_apart:
  assumes "nextchar s = []" and "argv s = [CHR ''-'', c] # a # as" and "takes_argument c" and "c \<noteq> CHR ''-''"
  shows "getopt s = (Found c (Some a), s\<lparr>argv := as, passed := passed s @ [[CHR ''-'', c], a], option_at := length (passed s)\<rparr>)"
  using assms by (subst getopt.simps) (simp add: found_in_word_def Let_def)

lemma getopt_skip:
  assumes "nextchar s = []" and "argv s = w # as" and "no_option w"
  shows "getopt s = getopt (s\<lparr>argv := as, nonoptions := nonoptions s @ [w], passed := passed s @ [w]\<rparr>)"
  using assms by (subst getopt.simps) (auto simp: no_option_def)

lemma parse_loop_found:
  assumes "getopt s = (Found c arg, s1)" and "handle_found env c arg (o', s1) = Inr st"
  shows "parse_loop env (o', s) = parse_loop env st"
  using assms by (subst parse_loop.simps) simp

lemma handle_o: "list_all (\<lambda>c. \<not> escapable c) a \<Longrightarrow>
   handle_found env (CHR ''o'') (Some a) (o', s) = Inr (o'\<lparr>o_outFilePath := a\<rparr>, s)"
  by (simp add: handle_found_def option_with_argument_def escapeSplit_plain)

lemma handle_empty_file:
  assumes "file_content env f = Some t" and "tokens t = []" and "f \<noteq> ''-''" and "list_all (\<lambda>c. \<not> escapable c) f"
  shows "handle_found env (CHR ''a'') (Some f) (o', s) = Inr (o', s\<lparr>nonoptions := nonoptions_again s\<rparr>)"
  using assms by (simp add: handle_found_def add_args_def insert_tokens_def escapeSplit_plain)

text \<open>C26: an argument file behind an FMU and another option replaces the FMU. With the path of an FMU, the option \<^verbatim>\<open>-o\<close> with a file, and an argument
  file without words, in this order, the master takes the output file for the FMU and the path of the FMU is lost; with the
  path at the end the same words are parsed as they are meant.\<close>

theorem argument_file_replaces_fmu:
  assumes "file_content env f = Some t" and "tokens t = []" and "f \<noteq> ''-''"
    and "list_all (\<lambda>c. \<not> escapable c) f" and "list_all (\<lambda>c. \<not> escapable c) out" and "no_option w"
  shows "parseArguments env l [w, ''-o'', out, ''-a'', f]
      = Some (Inr ((default_options l)\<lparr>o_outFilePath := out, o_executionOrder := jacobiOrder 1\<rparr>, [out]))
    \<and> parseArguments env l [''-o'', out, ''-a'', f, w]
      = Some (Inr ((default_options l)\<lparr>o_outFilePath := out, o_executionOrder := jacobiOrder 1\<rparr>, [w]))"
proof -
  let ?o = "(default_options l)\<lparr>o_outFilePath := out\<rparr>"
  let ?s = "start_scanner env [w, ''-o'', out, ''-a'', f]" and ?r = "start_scanner env [''-o'', out, ''-a'', f, w]"
  have o: "takes_argument (CHR ''o'')" "takes_argument (CHR ''a'')" by (simp_all add: takes_argument_def)
  have fin: "finish_parsing (?o, [p]) = Inr (?o\<lparr>o_executionOrder := jacobiOrder 1\<rparr>, [p])" for p
    by (simp add: finish_parsing_def choose_order_def default_options_def)
  let ?s1 = "?s\<lparr>argv := [''-a'', f], nonoptions := [w], passed := [w, ''-o'', out], option_at := 1\<rparr>"
  let ?s2 = "?s\<lparr>argv := [], nonoptions := [w], passed := [w, ''-o'', out, ''-a'', f], option_at := 3\<rparr>"
  have s1: "getopt ?s = (Found (CHR ''o'') (Some out), ?s1)"
    using getopt_skip[of ?s w "[''-o'', out, ''-a'', f]"] assms(6)
      getopt_apart[of "?s\<lparr>argv := [''-o'', out, ''-a'', f], nonoptions := [w], passed := [w]\<rparr>" "CHR ''o''" out "[''-a'', f]"] o
    by (simp add: start_scanner_def)
  have s2: "getopt ?s1 = (Found (CHR ''a'') (Some f), ?s2)"
    using getopt_apart[of ?s1 "CHR ''a''" f "[]"] o by (simp add: start_scanner_def)
  have n: "nonoptions_again ?s2 = [out]" by (simp add: nonoptions_again_def)
  have "parse_loop env (default_options l, ?s) = parse_loop env (?o, ?s2\<lparr>nonoptions := [out]\<rparr>)"
    using parse_loop_found[OF s1 handle_o[OF assms(5)]] parse_loop_found[OF s2 handle_empty_file[OF assms(1-4)]] n by simp
  also have "\<dots> = Some (Inr (?o, [out]))"
    using getopt_no_options[of "?s2\<lparr>nonoptions := [out]\<rparr>"] by (subst parse_loop.simps) (simp add: start_scanner_def)
  finally have 1: "parse_loop env (default_options l, ?s) = Some (Inr (?o, [out]))" .
  let ?r1 = "?r\<lparr>argv := [''-a'', f, w], passed := [''-o'', out], option_at := 0\<rparr>"
  let ?r2 = "?r\<lparr>argv := [w], passed := [''-o'', out, ''-a'', f], option_at := 2\<rparr>"
  have r1: "getopt ?r = (Found (CHR ''o'') (Some out), ?r1)"
    using getopt_apart[of ?r "CHR ''o''" out "[''-a'', f, w]"] o by (simp add: start_scanner_def)
  have r2: "getopt ?r1 = (Found (CHR ''a'') (Some f), ?r2)"
    using getopt_apart[of ?r1 "CHR ''a''" f "[w]"] o by (simp add: start_scanner_def)
  have "nonoptions_again ?r2 = []" by (simp add: nonoptions_again_def start_scanner_def)
  then have "parse_loop env (default_options l, ?r) = parse_loop env (?o, ?r2)"
    using parse_loop_found[OF r1 handle_o[OF assms(5)]] parse_loop_found[OF r2 handle_empty_file[OF assms(1-4)]] by (simp add: start_scanner_def)
  also have "\<dots> = Some (Inr (?o, [w]))"
    using getopt_no_options[of ?r2] assms(6) by (subst parse_loop.simps) (simp add: start_scanner_def)
  finally have 2: "parse_loop env (default_options l, ?r) = Some (Inr (?o, [w]))" .
  show ?thesis using 1 2 fin by (simp add: parseArguments_def)
qed

theorem argument_file_replaces_fmu_witness:
  "parseArguments (example_environment []) jm_log_level_warning [''a.fmu'', ''-o'', ''out.csv'', ''-a'', ''file'']
     = Some (Inr ((default_options jm_log_level_warning)\<lparr>o_outFilePath := ''out.csv'', o_executionOrder := jacobiOrder 1\<rparr>, [''out.csv'']))"
  using argument_file_replaces_fmu[of "example_environment []" "''file''" "[]" "''out.csv''" "''a.fmu''" jm_log_level_warning]
  by (simp add: example_environment_def escapable_def no_option_def)

text \<open>C21: the check against argument files that name themselves looks for the separate word \<^verbatim>\<open>-a\<close> only: a file \<open>f\<close> that holds \<^verbatim>\<open>-af\<close> as its
  only word is read again and again, and the command line that names it is never read to its end, whatever follows.\<close>

theorem argument_file_recursion:
  assumes "file_content env f = Some (''-a'' @ f)" and "f \<noteq> []" and "f \<noteq> ''-''" and "list_all (\<lambda>c. \<not> isspace c \<and> \<not> escapable c) f"
  shows "parseArguments env l ((''-a'' @ f) # args) = None"
proof -
  let ?loops = "\<lambda>s. nextchar s = [] \<and> argv s = (''-a'' @ f) # args \<and> nonoptions s = []"
  have t: "tokens (''-a'' @ f) = [''-a'' @ f]" by (rule tokens_word) (use assms(4) in \<open>auto simp: isspace_def list_all_iff\<close>)
  have e: "escapeSplit f (CHR '':'') = Inr [f]" by (rule escapeSplit_plain) (use assms(4) in \<open>auto simp: list_all_iff\<close>)
  have again: "\<exists>s1 s2. getopt s = (Found (CHR ''a'') (Some f), s1) \<and> handle_found env (CHR ''a'') (Some f) (o', s1) = Inr (o', s2) \<and> ?loops s2"
    if s: "?loops s" for s o'
  proof -
    let ?s1 = "s\<lparr>nextchar := [], argv := args, passed := passed s @ [''-a'' @ f], option_at := length (passed s)\<rparr>"
    have "getopt s = (Found (CHR ''a'') (Some f), ?s1)"
      using s assms(2) by (subst getopt.simps) (simp add: found_in_word_def takes_argument_def Let_def)
    moreover have "add_args env f ?s1 = Inr (?s1\<lparr>argv := (''-a'' @ f) # args, nonoptions := []\<rparr>)"
      using s assms(1-3) t by (simp add: add_args_def insert_tokens_def nonoptions_again_def)
    ultimately show ?thesis using s e by (simp add: handle_found_def)
  qed
  have "\<not> ?loops (snd st)" if "parse_loop env st = Some r" for st and r :: "(options \<times> string list) res"
  proof -
    have "env = env \<longrightarrow> \<not> ?loops (snd st)"
    proof (rule parse_loop.raw_induct[where P = "\<lambda>env' st (r :: (options \<times> string list) res). env' = env \<longrightarrow> \<not> ?loops (snd st)", OF _ that])
      fix loop :: "environment \<Rightarrow> options \<times> scanner \<Rightarrow> (options \<times> string list) res option" and env' st r
      assume IH: "\<And>env' st r. loop env' st = Some r \<Longrightarrow> env' = env \<longrightarrow> \<not> ?loops (snd st)"
        and eq: "(case getopt (snd st) of
        (No_more, s) \<Rightarrow> Some (Inr (fst st, nonoptions s))
      | (Bad_option, s) \<Rightarrow> Some (Inl (Fatal ''Unknown option or missing argument''))
      | (Found c arg, s) \<Rightarrow>
          (case handle_found env' c arg (fst st, s) of Inl e \<Rightarrow> Some (Inl e) | Inr st' \<Rightarrow> loop env' st')) = Some r"
      show "env' = env \<longrightarrow> \<not> ?loops (snd st)"
      proof (intro impI notI)
        assume env: "env' = env" and l: "?loops (snd st)"
        obtain s1 s2 where s: "getopt (snd st) = (Found (CHR ''a'') (Some f), s1)"
          "handle_found env (CHR ''a'') (Some f) (fst st, s1) = Inr (fst st, s2)" "?loops s2" using again[OF l] by blast
        then have "loop env (fst st, s2) = Some r" using eq env by simp
        then show False using IH s(3) by fastforce
      qed
    qed
    then show ?thesis by simp
  qed
  from this[of "(default_options l, start_scanner env ((''-a'' @ f) # args))"]
  have "parse_loop env (default_options l, start_scanner env ((''-a'' @ f) # args)) = None"
    by (cases "parse_loop env (default_options l, start_scanner env ((''-a'' @ f) # args))") (auto simp: start_scanner_def)
  then show ?thesis by (simp add: parseArguments_def)
qed

theorem argument_file_recursion_witness:
  "parseArguments (example_environment ''-afile'') jm_log_level_warning ((''-a'' @ ''file'') # [''a.fmu'']) = None"
  by (rule argument_file_recursion) (simp_all add: example_environment_def isspace_def escapable_def)

end
