(* ===== verification/Model_Exchange_Props.thy ===== *)
theory Model_Exchange_Props
  imports Model_Exchange
begin

text \<open>
  The master with model exchange FMUs: an iteration without them tells every FMU once to step, a step of the integrator can be undone, and
  FMUs for co-simulation in front of one for model exchange make the preparation fail.
\<close>

subsection \<open>Steps of co-simulation FMUs\<close>

lemma queue_all_steps:
  assumes "set is \<subseteq> {..<length (m_clients m)}"
  shows "do_steps (queueMessage_all is (do_step_req t dt b) m) = do_steps m @ map (\<lambda>i. (i, do_step_req t dt b)) is
     \<and> map m_id (m_clients (queueMessage_all is (do_step_req t dt b) m)) = map m_id (m_clients m)"
  using assms
proof (induction "is" arbitrary: m)
  case (Cons i "is")
  let ?m = "master_queueMessage i (do_step_req t dt b) m"
  have q: "queued i [do_step_req t dt b] m ?m" by (rule master_queueMessage_queued) (use Cons.prems in simp)
  have "do_steps ?m = do_steps m @ [(i, do_step_req t dt b)]" using q by (simp add: queued_def do_steps_def is_do_step_def)
  then show ?case using Cons.IH[of ?m] Cons.prems q queued_length[OF q] by (simp add: queueMessage_all_def queued_def)
qed (simp add: queueMessage_all_def)

lemma send_inputs_quiet: "send_inputs inputs m = Inr m' \<Longrightarrow> quiet m m'"
  unfolding send_inputs_def
proof (erule rfold_quiet_clients[rotated])
  show "quiet m m'" if "i < length (m_clients m)" "(case inputs i of None \<Rightarrow> Inr m | Some t \<Rightarrow> master_sendSetX i t m) = Inr m'" for i and m m' :: "'a master"
    using that queued_quiet[OF master_sendSetX_queued] setX_requests_step by (fastforce split: option.splits)
qed auto

lemma jacobi_iteration_steps:
  assumes "me_clients j = []" and "set (cs_clients j) \<subseteq> {..<length (m_clients (j_base j))}" and "jacobi_runIteration env t dt j = Some (Inr j2)"
  shows "do_steps (j_base j2) = do_steps (j_base j) @ map (\<lambda>i. (i, fmi2_import_do_step t dt True)) (cs_clients j)
     \<and> me_clients j2 = [] \<and> cs_clients j2 = cs_clients j \<and> length (m_clients (j_base j2)) = length (m_clients (j_base j))"
proof -
  obtain m1 m2 ins m3 where m: "queueX_refs (e_cfg env) (clientWeakRefs (j_base j)) (j_base j) = Inr m1"
      "wait (e_net env) (e_cfg env) (queueValueRequests m1) = Inr m2" "send_inputs ins m2 = Inr m3"
      "queueX_refs (e_cfg env) (clientWeakRefs (j_base j))
        (deleteCachedValues (e_cfg env) False [] (queueMessage_all (cs_clients j) (fmi2_import_do_step t dt True) m3)) = Inr (j_base j2)"
    and j2: "me_clients j2 = []" "cs_clients j2 = cs_clients j"
    using assms(1,3) by (auto simp: jacobi_runIteration_def jacobi_solveME_def obind_def Let_def rbind_eq_Inr split: sum.splits)
  have "quiet (j_base j) m3"
    using queueX_refs_quiet[OF m(1)] queueValueRequests_quiet wait_quiet[OF m(2)] send_inputs_quiet[OF m(3)] quiet_trans by blast
  then have q: "do_steps m3 = do_steps (j_base j)" "length (m_clients m3) = length (m_clients (j_base j))"
    using quiet_length unfolding quiet_def by blast+
  let ?m = "queueMessage_all (cs_clients j) (fmi2_import_do_step t dt True) m3"
  have s: "do_steps ?m = do_steps m3 @ map (\<lambda>i. (i, fmi2_import_do_step t dt True)) (cs_clients j)" "length (m_clients ?m) = length (m_clients m3)"
    using queue_all_steps[of "cs_clients j" m3 t dt True] assms(2) q(2) by (auto simp: fmi2_import_do_step_def dest: arg_cong[where f = length])
  have "quiet ?m (j_base j2)" using queueX_refs_quiet[OF m(4)] deleteCachedValues_quiet quiet_trans by blast
  then have "do_steps (j_base j2) = do_steps ?m" "length (m_clients (j_base j2)) = length (m_clients ?m)"
    using quiet_length unfolding quiet_def by blast+
  then show ?thesis using q s j2 by simp
qed

text \<open>Iterations one after another.\<close>

fun jacobi_iterations :: "('w, 's, 'g) mx_env \<Rightarrow> (double \<times> double) list \<Rightarrow> ('w, 'g) jmaster \<Rightarrow> ('w, 'g) jmaster res option" where
  "jacobi_iterations env [] j = Some (Inr j)"
| "jacobi_iterations env ((t, dt) # ts) j = obind (jacobi_runIteration env t dt j) (jacobi_iterations env ts)"

lemma jacobi_iterations_steps:
  "me_clients j = [] \<Longrightarrow> set (cs_clients j) \<subseteq> {..<length (m_clients (j_base j))} \<Longrightarrow> jacobi_iterations env ts j = Some (Inr j2) \<Longrightarrow>
   do_steps (j_base j2) = do_steps (j_base j) @ concat (map (\<lambda>(t, dt). map (\<lambda>i. (i, fmi2_import_do_step t dt True)) (cs_clients j)) ts)"
proof (induction ts arbitrary: j)
  case (Cons a ts)
  obtain t dt where a: "a = (t, dt)" by fastforce
  obtain j1 where 1: "jacobi_runIteration env t dt j = Some (Inr j1)" "jacobi_iterations env ts j1 = Some (Inr j2)"
    using Cons.prems(3) by (auto simp: a obind_def split: option.splits sum.splits)
  show ?case using Cons.IH[OF _ _ 1(2)] jacobi_iteration_steps[OF Cons.prems(1,2) 1(1)] Cons.prems(2) by (simp add: a)
qed simp

text \<open>C25: the steps of \<^verbatim>\<open>JacobiMaster\<close> over FMUs for co-simulation only. When any number of iterations have returned, from the construction of the
  master on, exactly these messages to step have been queued: in each iteration one for every FMU, over the interval of the iteration and in
  the order of the command line, whatever the connections and the answers are.\<close>

theorem jacobi_steps_once:
  assumes "\<forall>i < length clients. getFmuKind info i = fmu_kind_cs" and "new_JacobiMaster info clients wcs w = Inr j"
    and "jacobi_prepare env j = Inr j1" and "jacobi_iterations env ts j1 = Some (Inr j2)"
  shows "do_steps (j_base j2) = concat (map (\<lambda>(t, dt). map (\<lambda>i. (i, fmi2_import_do_step t dt True)) [0..<length clients]) ts)"
proof -
  have j: "cs_clients j = [0..<length clients]" "me_clients j = []" "j_base j = new_master clients wcs w"
    using assms(1,2) by (auto simp: new_JacobiMaster_def Let_def filter_id_conv filter_empty_conv split: if_splits)
  have j1: "j1 = j" using assms(3) j by (simp add: jacobi_prepare_def)
  have m: "do_steps (j_base j) = []" "length (m_clients (j_base j)) = length clients" by (simp_all add: j(3) new_master_def do_steps_def)
  show ?thesis using jacobi_iterations_steps[OF j(2) _ assms(4)[unfolded j1]] j(1) m by (simp add: atLeast0LessThan)
qed

subsection \<open>Positions of the clients\<close>

lemma read_segments_behind:
  assumes "i \<in> set is" and "length (get_bounds ty st) \<le> i"
  shows "\<not> ok (read_segments ty is st x)"
  using assms unfolding read_segments_def
proof (induction "is" arbitrary: x)
  case (Cons k "is")
  show ?case
  proof (cases "k = i")
    case True
    then show ?thesis using Cons.prems(2) by (simp add: get_current_into_def get_offset_def vec_at_def)
  next
    case False
    then show ?thesis using Cons by (cases "get_current_into ty x k st") auto
  qed
qed simp

lemma take_pushes_bounds:
  assumes "take_pushes p = Inr p'"
  shows "get_bounds ty (m_fmigoStorage p') = get_bounds ty (m_fmigoStorage p)"
proof -
  obtain st where st: "rfold (\<lambda>(i, ty, v). push_to i ty v) (storage_pushes (stepper p)) (m_fmigoStorage p) = Inr st" "m_fmigoStorage p' = st"
    using assms by (auto simp: take_pushes_def)
  have "get_bounds ty st = get_bounds ty (m_fmigoStorage p)"
    by (rule rfold_inv[where P = "\<lambda>s. get_bounds ty s = get_bounds ty (m_fmigoStorage p)", OF st(1)])
       (auto simp: push_to_def rbind_eq_Inr split: if_splits)
  then show ?thesis using st(2) by simp
qed

lemma mx_queue_simps [simp]:
  "m_fmigoStorage (mx_queue r i p) = m_fmigoStorage p" "mp_clients (mx_queue r i p) = mp_clients p" "mp_backup (mx_queue r i p) = mp_backup p"
  by (simp_all add: mx_queue_def)

lemma fold_same: "(\<And>x s. x \<in> set xs \<Longrightarrow> f (g x s) = f s) \<Longrightarrow> f (fold g xs s) = f s"
  by (induction xs arbitrary: s) simp_all

text \<open>C24: the storage has a segment for each FMU for model exchange, in their order, but is read at the position of the FMU among all FMUs: as soon as the position of one of them is
  not below their number, because an FMU for co-simulation comes before it, the preparation of the master does not succeed, whatever the FMUs answer.\<close>

theorem mixed_clients_fault:
  assumes "new_JacobiMaster info clients wcs w = Inr j" and "i \<in> set (me_clients j)" and "length (me_clients j) \<le> i"
  shows "\<not> ok (jacobi_prepare env j)"
proof
  assume "ok (jacobi_prepare env j)"
  then obtain md where md: "init_me_model env (me_clients j) (j_base j) empty_storage = Inr md"
    using assms(2) by (auto simp: ok_iff jacobi_prepare_def prepareME_def rbind_eq_Inr split: if_splits)
  define st where "st = storage_alloc (e_info env) (me_clients j) empty_storage"
  have b: "length (get_bounds states st) = length (me_clients j)"
    by (simp add: st_def storage_alloc_def allocate_storage_def allocate_storage_states_def add_bounds_eq bounds_of_def Let_def)
  obtain p n m x where p: "mx_wait env (fold (queue_get_states (e_info env)) (me_clients j) (mx_parameters_of (me_clients j) n m st)) = Inr p"
      "read_segments states (me_clients j) (m_fmigoStorage p) (replicate n 0) = Inr x"
    using md by (auto simp: init_me_model_def st_def Let_def rbind_eq_Inr split: if_splits)
  have "m_fmigoStorage (fold (queue_get_states (e_info env)) (me_clients j) (mx_parameters_of (me_clients j) n m st)) = st"
    by (subst fold_same) (simp_all add: queue_get_states_def mx_parameters_of_def)
  then have "get_bounds states (m_fmigoStorage p) = get_bounds states st"
    using p(1) take_pushes_bounds[of _ p states] by (fastforce simp: mx_wait_def rbind_eq_Inr)
  then show False using read_segments_behind[OF assms(2), of states "m_fmigoStorage p" "replicate n 0"] p(2) b assms(3) by simp
qed

theorem mixed_clients_fault_witness:
  "\<exists>j :: (unit, unit) jmaster. new_JacobiMaster \<lparr>getFmuKind = (\<lambda>i. if i = 0 then fmu_kind_cs else fmu_kind_me), getNumContinuousStates = (\<lambda>i. 1), getNumEventIndicators = (\<lambda>i. 0)\<rparr>
       [new_client 0, new_client 1] [] () = Inr j \<and> me_clients j = [1]
     \<and> (\<forall>env :: (unit, unit, unit) mx_env. \<not> ok (jacobi_prepare env j))"
proof -
  let ?info = "\<lparr>getFmuKind = (\<lambda>i. if i = 0 then fmu_kind_cs else fmu_kind_me), getNumContinuousStates = (\<lambda>i. 1), getNumEventIndicators = (\<lambda>i. 0)\<rparr>"
  define j :: "(unit, unit) jmaster" where "j = \<lparr>j_base = new_master [new_client 0, new_client 1] [] (), cs_clients = [0], me_clients = [1],
    me_weakConnections = [], j_sim = None, timeLoop = \<lparr>t_safe = 0, dt_new = 0, t_crossed = 0, t_end = 0\<rparr>\<rparr>"
  have j: "new_JacobiMaster ?info [new_client 0, new_client 1] [] () = Inr j" by (simp add: new_JacobiMaster_def j_def upt_rec)
  have "\<not> ok (jacobi_prepare env j)" for env :: "(unit, unit, unit) mx_env"
    by (rule mixed_clients_fault[OF j, of 1]) (simp_all add: j_def)
  with j show ?thesis by (intro exI[of _ j]) (simp add: j_def)
qed

subsection \<open>Going back before an event\<close>

text \<open>What the equations keep: the segments, the backup of the vectors, the backup of the integrator and the clients.\<close>

definition backed_up :: "nat list \<Rightarrow> nat list \<Rightarrow> 'w mx_parameters \<Rightarrow> 'w mx_parameters \<Rightarrow> bool" where
  "backed_up ns nz p p' \<longleftrightarrow> (storage_ok ns nz (m_fmigoStorage p) \<longrightarrow> storage_ok ns nz (m_fmigoStorage p') \<and>
     (\<forall>ty. get_backup ty (m_fmigoStorage p') = get_backup ty (m_fmigoStorage p)))
     \<and> mp_backup p' = mp_backup p \<and> mp_clients p' = mp_clients p"

lemma backed_up_refl [simp]: "backed_up ns nz p p"
  by (simp add: backed_up_def)

lemma backed_up_trans: "backed_up ns nz p p1 \<Longrightarrow> backed_up ns nz p1 p2 \<Longrightarrow> backed_up ns nz p p2"
  by (simp add: backed_up_def)

lemma backed_up_updates [simp]:
  "backed_up ns nz p (mx_queue r i p') = backed_up ns nz p p'"
  "backed_up ns nz p (p'\<lparr>stepper := m\<rparr>) = backed_up ns nz p p'" "backed_up ns nz p (p'\<lparr>ended := e\<rparr>) = backed_up ns nz p p'"
  "backed_up ns nz p (p'\<lparr>mp_count := c\<rparr>) = backed_up ns nz p p'" "backed_up ns nz p (p'\<lparr>mp_stateEvent := b\<rparr>) = backed_up ns nz p p'"
  "backed_up ns nz p (p'\<lparr>mp_t_past := t\<rparr>) = backed_up ns nz p p'" "backed_up ns nz p (p'\<lparr>mp_t_ok := t\<rparr>) = backed_up ns nz p p'"
  by (simp_all add: backed_up_def)

lemma take_pushes_backed_up: "take_pushes p = Inr p' \<Longrightarrow> backed_up ns nz p p'"
  using pushes_keep[of "storage_pushes (stepper p)" "m_fmigoStorage p" _ ns nz]
  by (auto simp: take_pushes_def backed_up_def pushes_def)

lemma fold_queue_backed_up: "(\<And>i p'. backed_up ns nz p (g i p') = backed_up ns nz p p') \<Longrightarrow> backed_up ns nz p (fold g is p') = backed_up ns nz p p'"
  by (induction "is" arbitrary: p') simp_all

lemma mx_wait_backed_up: "mx_wait env p = Inr p' \<Longrightarrow> backed_up ns nz p p'"
  unfolding mx_wait_def using take_pushes_backed_up backed_up_trans backed_up_updates(2) backed_up_refl by blast

lemma mx_solveLoops_backed_up: "mx_solveLoops env p = Inr p' \<Longrightarrow> backed_up ns nz p p'"
  unfolding mx_solveLoops_def using take_pushes_backed_up backed_up_trans backed_up_updates(2) backed_up_refl by blast

lemma detect_events_backed_up: "detect_events info t is p = Inr p' \<Longrightarrow> backed_up ns nz p p'"
proof (induction info t "is" p rule: detect_events.induct)
  case (2 info t i "is" p)
  then show ?case
    using backed_up_trans[of ns nz p "p\<lparr>mp_stateEvent := False, mp_t_ok := t\<rparr>" p'] by (auto split: if_splits)
qed simp

lemma evaluate_backed_up:
  assumes "evaluate_derivatives env t x p = Inr (dx, p')"
  shows "backed_up ns nz p p'"
proof -
  let ?is = "mp_clients p"
  let ?g = "fold (\<lambda>i. mx_queue (get_derivatives_req (int (getNumContinuousStates (e_info env) i))) i) ?is"
  obtain p1 p2 p3 where p: "rfold (\<lambda>i p. queue_set_states (e_info env) x i (mx_queue (set_time_req t) i p)) ?is p = Inr p1"
      "mx_wait env p1 = Inr p2" "mx_solveLoops env p2 = Inr p3" "mx_wait env (?g p3) = Inr p'"
    using assms by (auto simp: evaluate_derivatives_def Let_def rbind_eq_Inr)
  have "backed_up ns nz p p1"
    by (rule rfold_inv[where P = "backed_up ns nz p", OF p(1)]) (auto simp: queue_set_states_def rbind_eq_Inr)
  moreover have "backed_up ns nz p3 (?g p3)" by (subst fold_queue_backed_up) simp_all
  ultimately show ?thesis
    using mx_wait_backed_up[OF p(2), of ns nz] mx_solveLoops_backed_up[OF p(3), of ns nz] mx_wait_backed_up[OF p(4), of ns nz]
    by (meson backed_up_trans)
qed

lemma mx_function_backed_up: "backed_up ns nz p (snd (mx_function env t x p))"
proof -
  let ?p = "p\<lparr>mp_count := mp_count p + 1\<rparr>"
  let ?q = "\<lambda>p1. fold (queue_get_indicators (e_info env)) (with_indicators (e_info env) (mp_clients p1)) p1"
  let ?r = "rbind (evaluate_derivatives env t x ?p) (\<lambda>(dx, p). rbind (mx_wait env (?q p)) (\<lambda>p.
     rbind (detect_events (e_info env) t (mp_clients p) p) (\<lambda>p. Inr (dx, p))))"
  have start: "backed_up ns nz p ?p" by simp
  have r: "backed_up ns nz p p'" if ret: "?r = Inr (dx, p')" for dx p'
  proof -
    obtain p1 p2 where p: "evaluate_derivatives env t x ?p = Inr (dx, p1)" "mx_wait env (?q p1) = Inr p2"
        "detect_events (e_info env) t (mp_clients p2) p2 = Inr p'"
      using ret by (auto simp: rbind_eq_Inr split: prod.splits)
    have "backed_up ns nz p1 (?q p1)" by (subst fold_queue_backed_up) (simp_all add: queue_get_indicators_def)
    then show ?thesis
      using start evaluate_backed_up[OF p(1), of ns nz] mx_wait_backed_up[OF p(2), of ns nz] detect_events_backed_up[OF p(3), of ns nz]
      by (meson backed_up_trans)
  qed
  show ?thesis
  proof (cases "ended ?p \<noteq> None \<or> mp_stateEvent ?p")
    case True
    then show ?thesis by (simp add: mx_function_def Let_def)
  next
    case False
    then show ?thesis using start r by (cases ?r) (auto simp: mx_function_def Let_def simp del: backed_up_updates(4))
  qed
qed

text \<open>The simulations which the preparation makes.\<close>

definition mx_ready :: "('w, 's, 'g) mx_env \<Rightarrow> ('w, 'g) mx_sim \<Rightarrow> bool" where
  "mx_ready env s \<longleftrightarrow> ode_function (model s) = mx_function env \<and> pre_step (model s) = None \<and> post_step (model s) = None"

lemma on_par_simps [simp]:
  "par (on_par f s) = f (par s)" "sim_t (on_par f s) = sim_t s" "mx_ready env (on_par f s) = mx_ready env s"
  by (simp_all add: on_par_def set_model_parameters_def mx_ready_def)

lemma mx_step_backed_up:
  assumes "mx_step env lp s = Some (Inr s')" and "mx_ready env s"
  shows "backed_up ns nz (par s) (par s') \<and> mx_ready env s'"
proof -
  let ?s = "on_par (\<lambda>p. p\<lparr>mp_stateEvent := False, mp_t_past := max (mp_t_past p) (sim_t s + dt_new lp), mp_t_ok := sim_t s\<rparr>) s"
  have r: "mx_ready env ?s" using assms(2) by simp
  have st: "cgsl_step_to (e_gsl env) (sim_t s) (dt_new lp) ?s = Some (Inr s')"
    using assms(1) by (auto simp: mx_step_def obind_def Let_def split: option.splits sum.splits)
  have "backed_up ns nz (par s) (par s') \<and> keeps_setup ?s s'"
    by (rule cgsl_step_to_inv[OF st])
       (use r in \<open>auto simp: mx_ready_def intro: backed_up_trans mx_function_backed_up\<close>)
  then show ?thesis using r by (auto simp: keeps_setup_def mx_ready_def)
qed

text \<open>C23: a step over an event can be undone: after \<^verbatim>\<open>storeStates\<close>, a step of the integrator with all its exchanges of messages, and \<^verbatim>\<open>restoreStates\<close>, the time, the step size,
  the counter of failed steps and all vectors in the storage are those that were stored, and the continuous states of the simulation are read from these.\<close>

theorem event_rollback:
  assumes "mx_ready env s" and "storage_ok ns nz (m_fmigoStorage (par s))" and "mx_storeStates env s = Inr s1"
    and "mx_step env lp s1 = Some (Inr s2)" and "mx_restoreStates s2 = Inr s3"
  shows "sim_t s3 = sim_t s \<and> sim_h s3 = sim_h s \<and> failed_steps (evolution s3) = failed_steps (evolution s)
    \<and> (\<forall>ty. get_current ty (m_fmigoStorage (par s3)) = get_current ty (m_fmigoStorage (par s1)))
    \<and> read_segments states (mp_clients (par s)) (m_fmigoStorage (par s3)) (m_x (model s2)) = Inr (m_x (model s3))"
proof -
  let ?b = "\<lparr>mb_t = sim_t s, mb_h = sim_h s, mb_dydt = take (n_variables (model s)) (dydt_out (evolution s)) @ drop (n_variables (model s)) (mb_dydt (mp_backup (par s))),
     mb_failed_steps = failed_steps (evolution s)\<rparr>"
  let ?q = "fold (queue_get_states (e_info env)) (mp_clients (par s)) (par s)"
  have qb: "mp_backup ?q = mp_backup (par s)" by (rule fold_same) (simp add: queue_get_states_def)
  obtain p x where p: "mx_wait env (?q\<lparr>mp_backup := ?b\<rparr>) = Inr p"
      "s1 = s\<lparr>model := (model s)\<lparr>m_x := x, parameters := p\<lparr>m_fmigoStorage := sync (m_fmigoStorage p)\<rparr>\<rparr>\<rparr>"
    using assms(3) by (auto simp: mx_storeStates_def Let_def rbind_eq_Inr qb)
  have q: "backed_up ns nz (par s) ?q" by (subst fold_queue_backed_up) (simp_all add: queue_get_states_def)
  have w: "backed_up ns nz (?q\<lparr>mp_backup := ?b\<rparr>) p" by (rule mx_wait_backed_up[OF p(1)])
  have 1: "storage_ok ns nz (m_fmigoStorage p)" "mp_backup p = ?b" "mp_clients p = mp_clients (par s)"
    using q w assms(2) by (auto simp: backed_up_def)
  have s1: "mx_ready env s1" "m_fmigoStorage (par s1) = sync (m_fmigoStorage p)" "mp_backup (par s1) = ?b" "mp_clients (par s1) = mp_clients (par s)"
    using assms(1) 1 by (simp_all add: p(2) mx_ready_def)
  have 2: "backed_up ns nz (par s1) (par s2)" using mx_step_backed_up[OF assms(4) s1(1)] by simp
  have ok: "storage_ok ns nz (m_fmigoStorage (par s1))" using 1(1) sync_ok by (simp add: s1(2))
  have bk: "get_backup ty (m_fmigoStorage (par s1)) = get_current ty (m_fmigoStorage (par s1))" for ty
    using 1(1) sync_simps(3) by (simp add: s1(2))
  have s2: "mp_backup (par s2) = ?b" "mp_clients (par s2) = mp_clients (par s)"
      "get_backup ty (m_fmigoStorage (par s2)) = get_current ty (m_fmigoStorage (par s1))" for ty
    using 2 ok bk s1 by (simp_all add: backed_up_def)
  obtain y where y: "read_segments states (mp_clients (par s2)) (sync (cycle (m_fmigoStorage (par s2)))) (m_x (model s2)) = Inr y"
      "m_x (model s3) = y" "m_fmigoStorage (par s3) = sync (cycle (m_fmigoStorage (par s2)))" "sim_t s3 = mb_t (mp_backup (par s2))"
      "sim_h s3 = mb_h (mp_backup (par s2))" "failed_steps (evolution s3) = mb_failed_steps (mp_backup (par s2))"
    using assms(5) by (auto simp: mx_restoreStates_def Let_def rbind_eq_Inr)
  show ?thesis using y s2 by simp
qed

subsection \<open>Examples\<close>

text \<open>A transport that delivers what was sent to the first client, and an FMU with one state that answers 2 and can be stepped; an integrator that goes to the end at once.\<close>

fun example_answer :: "request \<Rightarrow> response list" where
  "example_answer (get_continuous_states_req n) = [get_continuous_states_res 0 [2]]"
| "example_answer (do_step_req t dt b) = [do_step_res 0]"
| "example_answer _ = []"

definition example_env :: "fmu_kind \<Rightarrow> (request list, unit, unit) mx_env" where
  "example_env k = \<lparr>e_net = \<lparr>net_send = (\<lambda>i rs w. w @ rs), net_poll = (\<lambda>w. ([(0, concat (map example_answer w))], [])), net_control = (\<lambda>w. ([], w))\<rparr>,
     e_cfg = \<lparr>DEBUG = False, parse_xml = (\<lambda>_. None)\<rparr>,
     e_roots = \<lparr>fsolver_set = (\<lambda>x. Root_done ()), fsolver_iterate = (\<lambda>s. Root_done (0, s)), fsolver_residual = (\<lambda>s. [])\<rparr>,
     e_gsl = \<lparr>gsl_alloc = (\<lambda>ty n a r. \<lparr>dydt_out = [0], failed_steps = 0, gsl_memory = ()\<rparr>),
       evolve_apply = (\<lambda>e t t1 h x. Finished (0, t1, h, x, e)), evolve_apply_fixed_step = (\<lambda>e t h x. Finished (0, t + h, x, e)),
       evolve_reset = id, step_reset = id, driver_reset = id\<rparr>,
     e_info = \<lparr>getFmuKind = (\<lambda>_. k), getNumContinuousStates = (\<lambda>_. 1), getNumEventIndicators = (\<lambda>_. 0)\<rparr>\<rparr>"

definition example_sim :: "(request list, unit) mx_sim" where
  "example_sim = \<lparr>model = cgsl_model_default_alloc 1 None (mx_parameters_of [0] 1 (new_master [new_client 0] [] []) (new_FmigoStorage [1] [0]))
       (mx_function (example_env fmu_kind_me)) None None, step_type = step_rk8pd,
     evolution = \<lparr>dydt_out = [0], failed_steps = 0, gsl_memory = ()\<rparr>, sim_t = 3, sim_t1 = 3, sim_h = 1, fixed_step = False, file_rows = None,
     store_data = False, saved_data = [], buffer_size = 0, sim_n = 0, save = False, print_on = False, iterations = 0\<rparr>"

lemma two_iterations:
  "case new_JacobiMaster (e_info (example_env fmu_kind_cs)) [new_client 0, new_client 1] [] [] of Inl _ \<Rightarrow> False
   | Inr j \<Rightarrow> (case jacobi_iterations (example_env fmu_kind_cs) [(0, 1), (1, 2)] j of None \<Rightarrow> False | Some r \<Rightarrow> \<not> isl r)"
  by code_simp

theorem jacobi_steps_once_witness:
  "\<exists>j j1 j2 :: (request list, unit) jmaster. new_JacobiMaster (e_info (example_env fmu_kind_cs)) [new_client 0, new_client 1] [] [] = Inr j
     \<and> jacobi_prepare (example_env fmu_kind_cs) j = Inr j1 \<and> jacobi_iterations (example_env fmu_kind_cs) [(0, 1), (1, 2)] j1 = Some (Inr j2)
     \<and> do_steps (j_base j2) = [(0, fmi2_import_do_step 0 1 True), (1, fmi2_import_do_step 0 1 True),
         (0, fmi2_import_do_step 1 2 True), (1, fmi2_import_do_step 1 2 True)]"
proof -
  let ?e = "example_env fmu_kind_cs"
  obtain j r where j: "new_JacobiMaster (e_info ?e) [new_client 0, new_client 1] [] [] = Inr j"
      and r: "jacobi_iterations ?e [(0, 1), (1, 2)] j = Some r" "\<not> isl r"
    using two_iterations by (auto simp del: jacobi_iterations.simps split: option.split_asm sum.split_asm)
  obtain j2 where j2: "jacobi_iterations ?e [(0, 1), (1, 2)] j = Some (Inr j2)" using r by (cases r) auto
  from j have "jacobi_prepare ?e j = Inr j" by (auto simp: new_JacobiMaster_def example_env_def jacobi_prepare_def)
  then show ?thesis using jacobi_steps_once[OF _ j _ j2] j j2 by (simp add: example_env_def)
qed

abbreviation example_storage :: FmigoStorage where
  "example_storage \<equiv> (new_FmigoStorage [1] [0])\<lparr>m_states := ([2], [0])\<rparr>"

lemma example_storage:
  "push_to 0 states [2] (new_FmigoStorage [1] [0]) = Inr example_storage"
  "read_segments states [0] example_storage x = Inr (copy_to [2] 0 x)" "sync example_storage = example_storage\<lparr>m_states := ([2], [2])\<rparr>"
  "storage_ok [1] [0] (new_FmigoStorage [1] [0])" "storage_ok [1] [0] (example_storage\<lparr>m_states := ([2], [2])\<rparr>)"
  by (simp_all add: new_storage_ok, code_simp,
      simp_all add: read_segments_def get_current_into_def get_offset_def get_end_def new_FmigoStorage_def allocate_storage_def allocate_storage_states_def
        add_bounds_def vec_at_def get_current_def Let_def sync_def sync_pair_def copy_to_def empty_storage_def storage_ok_def all_storage bounds_of_def starts_def get_backup_def)

lemma example_exchange:
  "\<exists>p. mx_wait (example_env fmu_kind_me) ((mx_queue (get_continuous_states_req 1) 0
       (mx_parameters_of [0] 1 (new_master [new_client 0] [] []) (new_FmigoStorage [1] [0])))\<lparr>mp_backup := b\<rparr>) = Inr p
     \<and> m_fmigoStorage p = example_storage \<and> mp_clients p = [0] \<and> ended p = None"
  using example_storage(1)
  by (simp add: mx_wait_def mx_queue_def mx_parameters_of_def example_env_def wait_def wait_loop.simps Let_def
      master_queueMessage_def queue_at_def queueMessage_def get_pclient_def set_pclient_def note_queued_def new_master_def new_client_def
      send_client_def sendQueuedMessages_def set_client_def handleZmqControl_def receiveAndHandleMessage_def client_clientDataInner_def take_pushes_def)

lemma example_stored:
  "\<exists>s1. mx_storeStates (example_env fmu_kind_me) example_sim = Inr s1
     \<and> model s1 = (model example_sim)\<lparr>m_x := [2], parameters := par s1\<rparr> \<and> s1 = example_sim\<lparr>model := model s1\<rparr> \<and> ended (par s1) = None
     \<and> mp_clients (par s1) = [0] \<and> m_fmigoStorage (par s1) = example_storage\<lparr>m_states := ([2], [2])\<rparr>"
proof -
  let ?b = "\<lparr>mb_t = 3, mb_h = 1, mb_dydt = [0], mb_failed_steps = 0\<rparr>"
  obtain p where p: "mx_wait (example_env fmu_kind_me) ((mx_queue (get_continuous_states_req 1) 0
       (mx_parameters_of [0] 1 (new_master [new_client 0] [] []) (new_FmigoStorage [1] [0])))\<lparr>mp_backup := ?b\<rparr>) = Inr p"
     "m_fmigoStorage p = example_storage" "mp_clients p = [0]" "ended p = None"
    using example_exchange by blast
  show ?thesis
    using p example_storage(2,3)
    by (simp add: mx_storeStates_def example_sim_def cgsl_model_default_alloc_def queue_get_states_def example_env_def mx_parameters_of_def copy_to_def)
qed

lemma example_step:
  assumes "s1 = example_sim\<lparr>model := model s1\<rparr>" and "pre_step (model s1) = None" and "post_step (model s1) = None" and "ended (par s1) = None"
  shows "\<exists>s2. mx_step (example_env fmu_kind_me) \<lparr>t_safe = 3, dt_new = 1, t_crossed = 4, t_end = 4\<rparr> s1 = Some (Inr s2)
     \<and> par s2 = (par s1)\<lparr>mp_stateEvent := False, mp_t_past := max (mp_t_past (par s1)) 4, mp_t_ok := 3\<rparr>"
  by (subst assms(1), subst assms(1))
     (simp add: mx_step_def example_env_def example_sim_def on_par_def set_model_parameters_def cgsl_step_to_def call_pre_step_def call_post_step_def
      record_step_def cgsl_print_data_def cgsl_loop.simps cgsl_step_def Let_def obind_def assms(2-))

theorem event_rollback_witness:
  "\<exists>s1 s2 s3. mx_storeStates (example_env fmu_kind_me) example_sim = Inr s1
     \<and> mx_step (example_env fmu_kind_me) \<lparr>t_safe = 3, dt_new = 1, t_crossed = 4, t_end = 4\<rparr> s1 = Some (Inr s2) \<and> mx_restoreStates s2 = Inr s3 \<and> sim_t s3 = 3"
proof -
  let ?e = "example_env fmu_kind_me"
  obtain s1 where s1: "mx_storeStates ?e example_sim = Inr s1" "model s1 = (model example_sim)\<lparr>m_x := [2], parameters := par s1\<rparr>"
      "s1 = example_sim\<lparr>model := model s1\<rparr>" "ended (par s1) = None" "mp_clients (par s1) = [0]"
      "m_fmigoStorage (par s1) = example_storage\<lparr>m_states := ([2], [2])\<rparr>"
    using example_stored by blast
  have pp: "pre_step (model s1) = None" "post_step (model s1) = None"
    by (subst s1(2), simp add: example_sim_def cgsl_model_default_alloc_def)+
  obtain s2 where s2: "mx_step ?e \<lparr>t_safe = 3, dt_new = 1, t_crossed = 4, t_end = 4\<rparr> s1 = Some (Inr s2)"
      "par s2 = (par s1)\<lparr>mp_stateEvent := False, mp_t_past := max (mp_t_past (par s1)) 4, mp_t_ok := 3\<rparr>"
    using example_step[OF s1(3) pp s1(4)] by blast
  have "\<exists>s3. mx_restoreStates s2 = Inr s3"
    using s1(5,6) by (simp add: mx_restoreStates_def s2(2) Let_def read_segments_def get_current_into_def get_offset_def get_end_def vec_at_def cycle_def sync_def
        new_FmigoStorage_def allocate_storage_def allocate_storage_states_def add_bounds_def empty_storage_def)
  then obtain s3 where s3: "mx_restoreStates s2 = Inr s3" by blast
  have "sim_t s3 = sim_t example_sim"
    using event_rollback[OF _ _ s1(1) s2(1) s3, of "[1]" "[0]"] example_storage(4)
    by (simp add: mx_ready_def example_sim_def cgsl_model_default_alloc_def mx_parameters_of_def)
  then show ?thesis using s1(1) s2(1) s3 by (simp add: example_sim_def)
qed

end
