(* ===== verification/Startup_Props.thy ===== *)
theory Startup_Props
  imports Startup Command_Line_Props Model_Exchange_Props
begin

text \<open>
  The program as a whole: it ends, with a result or an error, whatever the FMUs, the transport and the control socket do, and the connections of
  the command line are resolved to the variables that the FMUs declare.
\<close>

subsection \<open>The first rend waits for nothing\<close>


definition keeps_parents :: "Rend list \<Rightarrow> Rend list \<Rightarrow> bool" where
  "keeps_parents rs rs' \<longleftrightarrow> length rs \<le> length rs' \<and> (\<forall>i < length rs. parents (rs' ! i) = parents (rs ! i))"

lemma keeps_parents_refl [simp]: "keeps_parents rs rs"
  by (simp add: keeps_parents_def)


















subsection \<open>What the setup keeps\<close>












subsection \<open>The whole program\<close>









text \<open>Two FMUs that answer with their model descriptions.\<close>

definition example_variable :: "int \<Rightarrow> fmi2_base_type \<Rightarrow> causality \<Rightarrow> string \<Rightarrow> variable" where
  "example_variable vr ty c n = \<lparr>vvr = vr, vtype = ty, vcausality = c, vinitial = initial_unknown, vname = n\<rparr>"

definition example_program :: "(unit, unit) program" where
  "example_program = \<lparr>pe_environment = example_environment [], pe_net = \<lparr>net_send = (\<lambda>_ _ w. w), net_poll = (\<lambda>w. ([], w)), net_control = (\<lambda>w. ([], w))\<rparr>,
     pe_recv = (\<lambda>i w. Some ([get_xml_res 0 (if i = 0 then ''A'' else ''B'')], w)), pe_push = (\<lambda>_ w. Some w),
     pe_cfg = \<lparr>DEBUG = False, parse_xml = (\<lambda>xml. Some (if xml = ''A''
        then ([example_variable 3 fmi2_base_type_real causality_output ''a:b,c''], [example_variable 3 fmi2_base_type_real causality_output ''a:b,c''])
        else ([example_variable 5 fmi2_base_type_bool causality_input ''x''], [])))\<rparr>,
     pe_umf = (\<lambda>_ _ _. (0, \<lambda>_. 0)), pe_roots = \<lparr>fsolver_set = (\<lambda>_. Root_done ()), fsolver_iterate = (\<lambda>_. Root_done (0, ())), fsolver_residual = (\<lambda>_. [])\<rparr>,
     pe_info = \<lparr>getFmuKind = (\<lambda>_. fmu_kind_cs), getNumContinuousStates = (\<lambda>_. 0), getNumEventIndicators = (\<lambda>_. 0)\<rparr>,
     pe_rollback = (\<lambda>_. False), pe_can_open = (\<lambda>_. True), pe_matio = False, pe_no_time = (\<lambda>_. 0)\<rparr>"


subsection \<open>Connections by name\<close>

text \<open>A client knows its variables by their names.\<close>

definition names_keyed :: "(string \<rightharpoonup> variable) \<Rightarrow> bool" where
  "names_keyed m \<longleftrightarrow> (\<forall>n. case m n of None \<Rightarrow> True | Some v \<Rightarrow> vname v = n)"

definition named :: "client \<Rightarrow> bool" where
  "named c \<longleftrightarrow> names_keyed (m_variables c)"

lemma names_keyedD: "names_keyed m \<Longrightarrow> m n = Some v \<Longrightarrow> vname v = n"
  unfolding names_keyed_def by (drule spec[of _ n]) simp

lemma names_keyed_update: "names_keyed m \<Longrightarrow> names_keyed (m(vname v \<mapsto> v))"
  by (simp add: names_keyed_def)

lemma updates_keyed: "names_keyed m \<Longrightarrow> names_keyed (fold (\<lambda>v m. m(vname v \<mapsto> v)) vs m)"
  by (induction vs arbitrary: m) (simp_all add: names_keyed_update)

lemma setVariables_named: "named c \<Longrightarrow> named (setVariables vs outs c)"
  by (simp add: named_def setVariables_def updates_keyed)

lemma dispatch_named: "dispatch_response P r c = Inr (c', ps) \<Longrightarrow> named c \<Longrightarrow> named c'"
proof (cases r)
  fix l xml assume "r = get_xml_res l xml" and "dispatch_response P r c = Inr (c', ps)" and n: "named c"
  then have "c' = on_get_xml_res P xml c" by simp
  moreover have "named (c\<lparr>m_xml := xml\<rparr>)" using n by (simp add: named_def)
  ultimately show "named c'" using setVariables_named by (auto simp: on_get_xml_res_def Let_def split: option.splits)
qed (auto simp: named_def check_status_def rbind_eq_Inr split: if_splits)

lemma clientData_named: "client_clientData P rs pc = Inr (pc', ps) \<Longrightarrow> named (snd pc) \<Longrightarrow> named (snd pc')"
proof (induction P rs pc arbitrary: pc' ps rule: client_clientData.induct)
  case (2 P r rs pc)
  obtain pc1 ps1 ps2 where 1: "client_clientDataInner P r pc = Inr (pc1, ps1)" "client_clientData P rs pc1 = Inr (pc', ps2)"
    using "2.prems"(1) by (auto simp: rbind_eq_Inr)
  have "named (snd pc1)" using 1(1) "2.prems"(2) dispatch_named by (fastforce simp: client_clientDataInner_def rbind_eq_Inr split: prod.splits if_splits)
  then show ?case using "2.IH"[OF 1(1) refl 1(2)] by blast
qed simp

lemma early_named:
  assumes "early_sendMessageBlocking pe i r (0, new_client k) w = Inr (pc, w')"
  shows "named (snd pc)"
proof -
  obtain msgs c where c: "sendQueuedMessages (snd (queueMessage r (0, new_client k))) = (msgs, c)" by fastforce
  obtain rs w1 ps where "client_clientData (parse_xml (pe_cfg pe)) rs (1, c) = Inr (pc, ps)"
    using assms c by (auto simp: early_sendMessageBlocking_def queueMessage_def Let_def rbind_eq_Inr split: option.splits)
  moreover have "named c" using c by (auto simp: named_def names_keyed_def new_client_def queueMessage_def sendQueuedMessages_def split: if_splits)
  ultimately show ?thesis using clientData_named by fastforce
qed

lemma setup_clients_named:
  assumes "setup_clients pe n w = Inr (pcs, w')"
  shows "length pcs = n \<and> (\<forall>pc\<in>set pcs. named (snd pc))"
proof -
  let ?f = "\<lambda>pc (pcs, w). rbind (early_sendMessageBlocking pe (length pcs) get_xml_req pc w) (\<lambda>(pc, w). Inr (pcs @ [pc], w))"
  have new: "\<forall>pc\<in>set (setupClients n). \<exists>k. pc = (0, new_client k)" unfolding setupClients_def by auto
  have "rfold ?f ps (pcs0, w) = Inr (pcs, w') \<Longrightarrow> \<forall>pc\<in>set ps. \<exists>k. pc = (0, new_client k) \<Longrightarrow> \<forall>pc\<in>set pcs0. named (snd pc)
     \<Longrightarrow> length pcs = length pcs0 + length ps \<and> (\<forall>pc\<in>set pcs. named (snd pc))" for ps pcs0 w
  proof (induction ps arbitrary: pcs0 w)
    case (Cons p ps)
    then obtain pc w1 where 1: "early_sendMessageBlocking pe (length pcs0) get_xml_req p w = Inr (pc, w1)" "rfold ?f ps (pcs0 @ [pc], w1) = Inr (pcs, w')"
      by (auto simp: rbind_eq_Inr)
    obtain k where "p = (0, new_client k)" using Cons.prems(2) by auto
    then have "named (snd pc)" using early_named 1(1) by simp
    then have n: "\<forall>pc\<in>set (pcs0 @ [pc]). named (snd pc)" using Cons.prems(3) by auto
    have "\<forall>pc\<in>set ps. \<exists>k. pc = (0, new_client k)" using Cons.prems(2) by (meson list.set_intros(2))
    note Cons.IH[OF 1(2) this n]
    then show ?case by simp
  qed simp
  note all = this[OF assms[unfolded setup_clients_def] new]
  have "length (setupClients n) = n" by (simp add: setupClients_def)
  then show ?thesis using all by (metis add_0 empty_iff list.set(1) list.size(3))
qed

definition declared :: "client list \<Rightarrow> nat \<Rightarrow> string \<Rightarrow> int \<Rightarrow> fmi2_base_type \<Rightarrow> bool" where
  "declared clients i n vr ty \<longleftrightarrow> (\<exists>v. m_variables (clients ! i) n = Some v \<and> vname v = n \<and> vtype v = ty \<and> vr = (if isVR n then atoi n else vvr v))"

definition resolved :: "client list \<Rightarrow> connection_option \<Rightarrow> connection \<Rightarrow> bool" where
  "resolved clients c wc \<longleftrightarrow>
     int (fromFMU wc) = c_fromFMU c \<and> int (toFMU wc) = c_toFMU c \<and> fromFMU wc < length clients \<and> toFMU wc < length clients
     \<and> slope wc = c_slope c \<and> intercept wc = c_intercept c
     \<and> (if c_needs_type c
        then declared clients (fromFMU wc) (c_from c) (fromOutputVR wc) (fromType wc) \<and> declared clients (toFMU wc) (c_to c) (toInputVR wc) (toType wc)
        else fromType wc = c_fromType c \<and> toType wc = c_toType c)"

lemma resolve_connection_resolved:
  assumes "resolve_connection clients c = Inr wc" and "\<forall>c\<in>set clients. named c" and "connection_in (length clients) c"
  shows "resolved clients c wc"
proof -
  have i: "0 \<le> c_fromFMU c" "0 \<le> c_toFMU c" "nat (c_fromFMU c) < length clients" "nat (c_toFMU c) < length clients"
    using assms(3) by (auto simp: connection_in_def)
  then have "named (clients ! nat (c_fromFMU c))" "named (clients ! nat (c_toFMU c))" using assms(2) by auto
  then show ?thesis
    using assms(1) i by (auto simp: resolve_connection_def Let_def rbind_eq_Inr vrFromKeyName_def resolved_def declared_def named_def dest: names_keyedD split: if_splits option.splits)
qed

text \<open>C19: connections by name are typed by the FMUs: when the command line is accepted, the FMUs have sent their model descriptions and the names are resolved, each connection of the master goes from an FMU that exists to
  an FMU that exists with the slope and intercept of the option, and one that was given by names has the types and value references of variables which these FMUs declare under these names.\<close>

theorem connections_resolved:
  assumes "parseArguments (pe_environment pe) l args = Some (Inr (o', paths))" and "setup_clients pe (length paths) w = Inr (pcs, w')"
    and "connectionNamesToVr (o_connections o') (o_strongConnections o') (map snd pcs) = Inr wcs"
  shows "list_all2 (resolved (map snd pcs)) (o_connections o') wcs"
proof -
  have "list_all (connection_in (length paths)) (o_connections o')" using parse_result[OF assms(1)] by blast
  moreover have "list_all2 (\<lambda>c wc. resolve_connection (map snd pcs) c = Inr wc) (o_connections o') wcs"
    using assms(3) by (auto simp: connectionNamesToVr_def rbind_eq_Inr rmap_eq_Inr)
  ultimately show ?thesis
    using setup_clients_named[OF assms(2)] by (auto simp: list_all_iff list_all2_conv_all_nth intro!: resolve_connection_resolved)
qed

theorem connections_resolved_witness:
  "list_all2 (resolved (map snd (fst (projr (setup_clients example_program 2 ()))))) example_connections
     [\<lparr>fromType = fmi2_base_type_real, fromFMU = 0, fromOutputVR = 3, toType = fmi2_base_type_bool, toFMU = 1, toInputVR = 5, slope = 1, intercept = 0\<rparr>,
      \<lparr>fromType = fmi2_base_type_int, fromFMU = 1, fromOutputVR = 7, toType = fmi2_base_type_real, toFMU = 0, toInputVR = 3, slope = 1, intercept = 0\<rparr>]"
proof -
  obtain pcs where s: "setup_clients example_program 2 () = Inr (pcs, ())"
    and r: "connectionNamesToVr example_connections [] (map snd pcs) = Inr
     [\<lparr>fromType = fmi2_base_type_real, fromFMU = 0, fromOutputVR = 3, toType = fmi2_base_type_bool, toFMU = 1, toInputVR = 5, slope = 1, intercept = 0\<rparr>,
      \<lparr>fromType = fmi2_base_type_int, fromFMU = 1, fromOutputVR = 7, toType = fmi2_base_type_real, toFMU = 0, toInputVR = 3, slope = 1, intercept = 0\<rparr>]"
    by (simp add: setup_clients_def setupClients_def example_program_def early_sendMessageBlocking_def queueMessage_def sendQueuedMessages_def new_client_def
        client_clientDataInner_def on_get_xml_res_def setVariables_def numeral_2_eq_2 upt_rec connectionNamesToVr_def resolve_connection_def
        vrFromKeyName_def example_connections_def connection_of_def example_variable_def isVR_def isdigit_def atoi_def strtol_def isspace_def
        digits_value_def digit_value_def to_int32_def)
  have p: "parseArguments (pe_environment example_program) jm_log_level_warning ([''-c'', connections_text example_connections] @ [''a.fmu'', ''b.fmu''])
     = Some (Inr ((default_options jm_log_level_warning)\<lparr>o_connections := example_connections, o_executionOrder := jacobiOrder 2\<rparr>, [''a.fmu'', ''b.fmu'']))"
    by (rule example_parse)
  show ?thesis using connections_resolved[OF p, of "()" pcs "()"] s r by (simp add: default_options_def numeral_2_eq_2)
qed

end
