(* ===== verification/Matlab_Props.thy ===== *)
theory Matlab_Props
  imports Startup_Props
begin

text \<open>
  The Matlab output of \<^verbatim>\<open>main\<close>: the rows are cached by columns, one vector for each output and type, and written at the end. The positions in these
  vectors are counted three times: when they are made, for every row, and in the file. The three agree.
\<close>

subsection \<open>Columns\<close>

fun cell_type :: "cell \<Rightarrow> fmi2_base_type" where
  "cell_type (Out_real _) = fmi2_base_type_real"
| "cell_type (Out_int _) = fmi2_base_type_int"
| "cell_type (Out_bool _) = fmi2_base_type_bool"
| "cell_type (Out_str _) = fmi2_base_type_str"

fun real_of_cell :: "cell \<Rightarrow> double" where
  "real_of_cell (Out_real x) = x" | "real_of_cell _ = 0"

fun int_of_cell :: "cell \<Rightarrow> int" where
  "int_of_cell (Out_int x) = x" | "int_of_cell _ = 0"

fun bool_of_cell :: "cell \<Rightarrow> bool" where
  "bool_of_cell (Out_bool x) = x" | "bool_of_cell _ = False"

definition mat_of :: "fmi2_base_type \<Rightarrow> cell list \<Rightarrow> mat_column" where
  "mat_of ty cs = (if ty = fmi2_base_type_int then Col_int (map int_of_cell cs)
     else if ty = fmi2_base_type_bool then Col_bool (map bool_of_cell cs) else Col_real (map real_of_cell cs))"

text \<open>The outputs that have a column, and the part of the cache for one type.\<close>

definition stored :: "variable list \<Rightarrow> variable list" where
  "stored vs = filter (\<lambda>v. vtype v \<noteq> fmi2_base_type_str) vs"

fun sel :: "fmi2_base_type \<Rightarrow> (cell \<Rightarrow> 'a) \<Rightarrow> variable list \<Rightarrow> cell list list \<Rightarrow> 'a list list" where
  "sel ty f (v # vs) (c # cols) = (if vtype v = ty then map f c # sel ty f vs cols else sel ty f vs cols)"
| "sel ty f _ _ = []"

definition storable :: "variable list \<Rightarrow> bool" where
  "storable vs \<longleftrightarrow> (\<forall>v\<in>set vs. vtype v \<noteq> fmi2_base_type_str \<and> vtype v \<noteq> fmi2_base_type_enum)"

definition typed_cells :: "variable list \<Rightarrow> cell list \<Rightarrow> bool" where
  "typed_cells vs cs \<longleftrightarrow> list_all2 (\<lambda>v x. cell_type x = vtype v) vs cs"

definition cache :: "variable list \<Rightarrow> double list \<Rightarrow> cell list list \<Rightarrow> MatlabOutput" where
  "cache vs ts cols = \<lparr>mo_reals = ts # sel fmi2_base_type_real real_of_cell vs cols, mo_ints = sel fmi2_base_type_int int_of_cell vs cols,
     mo_bools = sel fmi2_base_type_bool bool_of_cell vs cols\<rparr>"

definition add_cells :: "cell list list \<Rightarrow> cell list \<Rightarrow> cell list list" where
  "add_cells cols cs = map2 (\<lambda>col x. col @ [x]) cols cs"

lemma sel_append: "length vs = length cols \<Longrightarrow> sel ty f (vs @ vs') (cols @ cols') = sel ty f vs cols @ sel ty f vs' cols'"
  by (induction vs cols rule: list_induct2) auto

lemma storable_Cons [simp]: "storable (v # vs) \<longleftrightarrow> (vtype v \<in> {fmi2_base_type_real, fmi2_base_type_int, fmi2_base_type_bool}) \<and> storable vs"
  by (cases "vtype v") (auto simp: storable_def)

subsection \<open>The rows fill the columns\<close>

lemma store_cells_columns:
  assumes "storable vs" and "typed_cells vs cs" and "length cols = length vs"
  shows "store_cells cs (length R) (length I) (length B)
      \<lparr>mo_reals = R @ sel fmi2_base_type_real real_of_cell vs cols, mo_ints = I @ sel fmi2_base_type_int int_of_cell vs cols,
       mo_bools = B @ sel fmi2_base_type_bool bool_of_cell vs cols\<rparr>
    = Inr \<lparr>mo_reals = R @ sel fmi2_base_type_real real_of_cell vs (add_cells cols cs), mo_ints = I @ sel fmi2_base_type_int int_of_cell vs (add_cells cols cs),
       mo_bools = B @ sel fmi2_base_type_bool bool_of_cell vs (add_cells cols cs)\<rparr>"
  using assms
proof (induction vs arbitrary: cs cols R I B)
  case Nil
  then show ?case by (simp add: typed_cells_def)
next
  case (Cons v vs)
  obtain x cs' where cs: "cs = x # cs'" "cell_type x = vtype v" "typed_cells vs cs'" using Cons.prems(2) by (auto simp: typed_cells_def list_all2_Cons1)
  obtain c cols' where cols: "cols = c # cols'" "length cols' = length vs" using Cons.prems(3) by (cases cols) auto
  have st: "storable vs" using Cons.prems(1) by simp
  note IH = Cons.IH[OF st cs(3) cols(2)]
  show ?case
  proof (cases x)
    case (Out_real r)
    then have v: "vtype v = fmi2_base_type_real" using cs(2) by simp
    show ?thesis using IH[of "R @ [map real_of_cell c @ [r]]" I B] v by (simp add: cs(1) cols(1) Out_real add_cells_def)
  next
    case (Out_int r)
    then have v: "vtype v = fmi2_base_type_int" using cs(2) by simp
    show ?thesis using IH[of R "I @ [map int_of_cell c @ [r]]" B] v by (simp add: cs(1) cols(1) Out_int add_cells_def)
  next
    case (Out_bool r)
    then have v: "vtype v = fmi2_base_type_bool" using cs(2) by simp
    show ?thesis using IH[of R I "B @ [map bool_of_cell c @ [r]]"] v by (simp add: cs(1) cols(1) Out_bool add_cells_def)
  next
    case (Out_str r)
    then show ?thesis using cs(2) Cons.prems(1) by auto
  qed
qed

lemma store_row_cache:
  assumes "storable vs" and "typed_cells vs (row_cells r)" and "length cols = length vs"
  shows "store_row r (cache vs ts cols) = Inr (cache vs (ts @ [row_time r]) (add_cells cols (row_cells r)))"
  using store_cells_columns[OF assms, of "[ts @ [row_time r]]" "[]" "[]"] by (simp add: store_row_def cache_def)

definition column :: "row list \<Rightarrow> nat \<Rightarrow> cell list" where
  "column rs k = map (\<lambda>r. row_cells r ! k) rs"

definition columns :: "row list \<Rightarrow> nat \<Rightarrow> cell list list" where
  "columns rs n = map (column rs) [0..<n]"

lemma columns_snoc: "length (row_cells r) = n \<Longrightarrow> columns (rs @ [r]) n = add_cells (columns rs n) (row_cells r)"
  by (rule nth_equalityI) (simp_all add: columns_def column_def add_cells_def)

lemma store_rows_cache:
  assumes "storable vs" and "\<forall>r\<in>set rs. typed_cells vs (row_cells r)"
  shows "rfold store_row rs (cache vs [] (columns [] (length vs))) = Inr (cache vs (map row_time rs) (columns rs (length vs)))"
  using assms(2)
proof (induction rs rule: rev_induct)
  case (snoc r rs)
  have r: "typed_cells vs (row_cells r)" "length (row_cells r) = length vs" using snoc.prems by (auto simp: typed_cells_def dest: list_all2_lengthD)
  have "length (columns rs (length vs)) = length vs" by (simp add: columns_def)
  from store_row_cache[OF assms(1) r(1) this, of "map row_time rs"] show ?case using snoc columns_snoc[OF r(2)] by (simp add: rfold_append)
qed simp

lemma reserve_cache:
  assumes "\<forall>v\<in>set vs. vtype v \<noteq> fmi2_base_type_enum"
  shows "rfold add_column vs \<lparr>mo_reals = R, mo_ints = I, mo_bools = B\<rparr>
    = Inr \<lparr>mo_reals = R @ sel fmi2_base_type_real real_of_cell (stored vs) (replicate (length (stored vs)) []),
       mo_ints = I @ sel fmi2_base_type_int int_of_cell (stored vs) (replicate (length (stored vs)) []),
       mo_bools = B @ sel fmi2_base_type_bool bool_of_cell (stored vs) (replicate (length (stored vs)) [])\<rparr>"
  using assms
proof (induction vs arbitrary: R I B)
  case (Cons v vs)
  then show ?case by (cases "vtype v") (auto simp: add_column_def stored_def)
qed (simp add: stored_def)

text \<open>What is reserved for a column: more than the rows that are expected, without an overflow.\<close>

lemma expected_rows_bounds:
  assumes "maxSamples \<le> INT_MAX" and "0 \<le> n" and "n \<le> INT_MAX"
  shows "(if maxSamples > 0 then maxSamples else n) \<le> expected_rows maxSamples n \<and> expected_rows maxSamples n \<le> INT_MAX"
  using assms by (auto simp: expected_rows_def Let_def)

subsection \<open>The columns are written\<close>

definition fields :: "variable list \<Rightarrow> cell list list \<Rightarrow> (string \<times> mat_column) list" where
  "fields vs cols = map2 (\<lambda>v c. (vname v, mat_of (vtype v) c)) vs cols"

lemma take_column_hit: "length c = n \<Longrightarrow> take_column n con (R @ c # R') (length R) = Inr (con c)"
  by (simp add: take_column_def nth_append)

lemma write_fields_columns:
  assumes "storable (stored us)" and "length cols = length (stored us)" and "\<forall>c\<in>set cols. length c = n"
    and "mo_reals mo = R @ sel fmi2_base_type_real real_of_cell (stored us) cols @ R'"
    and "mo_ints mo = I @ sel fmi2_base_type_int int_of_cell (stored us) cols @ I'"
    and "mo_bools mo = B @ sel fmi2_base_type_bool bool_of_cell (stored us) cols @ B'"
  shows "write_fields n mo us (length R, length I, length B) = Inr (fields (stored us) cols,
     (length (R @ sel fmi2_base_type_real real_of_cell (stored us) cols), length (I @ sel fmi2_base_type_int int_of_cell (stored us) cols),
      length (B @ sel fmi2_base_type_bool bool_of_cell (stored us) cols)))"
  using assms
proof (induction us arbitrary: cols R I B)
  case Nil
  then show ?case by (simp add: stored_def fields_def)
next
  case (Cons v us)
  show ?case
  proof (cases "vtype v = fmi2_base_type_str")
    case True
    then have "stored (v # us) = stored us" by (simp add: stored_def)
    then show ?thesis using Cons.IH[of cols R I B] Cons.prems True by simp
  next
    case False
    then have sv: "stored (v # us) = v # stored us" by (simp add: stored_def)
    obtain c cols' where cols: "cols = c # cols'" "length cols' = length (stored us)" using Cons.prems(2) sv by (cases cols) auto
    have c: "length c = n" "\<forall>c\<in>set cols'. length c = n" "storable (stored us)" using Cons.prems(1,3) sv cols(1) by auto
    note IH = Cons.IH[OF c(3) cols(2) c(2)]
    have "vtype v \<in> {fmi2_base_type_real, fmi2_base_type_int, fmi2_base_type_bool}" using Cons.prems(1) sv by simp
    then consider (r) "vtype v = fmi2_base_type_real" | (i) "vtype v = fmi2_base_type_int" | (b) "vtype v = fmi2_base_type_bool" by blast
    then show ?thesis
    proof cases
      case r
      then show ?thesis using IH[of "R @ [map real_of_cell c]" I B] Cons.prems(4-6) sv cols c(1)
        by (simp add: take_column_hit fields_def mat_of_def)
    next
      case i
      then show ?thesis using IH[of R "I @ [map int_of_cell c]" B] Cons.prems(4-6) sv cols c(1)
        by (simp add: take_column_hit fields_def mat_of_def)
    next
      case b
      then show ?thesis using IH[of R I "B @ [map bool_of_cell c]"] Cons.prems(4-6) sv cols c(1)
        by (simp add: take_column_hit fields_def mat_of_def)
    qed
  qed
qed

text \<open>The structures, one for each FMU, over the columns of all.\<close>

fun structs :: "client list \<Rightarrow> cell list list \<Rightarrow> mat_var list" where
  "structs [] cols = []"
| "structs (c # cs) cols = (let n = length (stored (m_outputs c)) in
     Mat_struct (''fmu'' @ int_to_string (m_id c)) (fields (stored (m_outputs c)) (take n cols)) # structs cs (drop n cols))"

abbreviation all_stored :: "client list \<Rightarrow> variable list" where
  "all_stored clients \<equiv> stored (concat (map m_outputs clients))"

lemma write_clients_columns:
  assumes "storable (all_stored clients)" and "length cols = length (all_stored clients)" and "\<forall>c\<in>set cols. length c = n"
    and "mo_reals mo = R @ sel fmi2_base_type_real real_of_cell (all_stored clients) cols"
    and "mo_ints mo = I @ sel fmi2_base_type_int int_of_cell (all_stored clients) cols"
    and "mo_bools mo = B @ sel fmi2_base_type_bool bool_of_cell (all_stored clients) cols"
  shows "write_clients n mo clients (length R, length I, length B) = Inr (structs clients cols)"
  using assms
proof (induction clients arbitrary: cols R I B)
  case (Cons c cs)
  let ?s = "stored (m_outputs c)" and ?k = "length (stored (m_outputs c))"
  let ?u = "take ?k cols" and ?d = "drop ?k cols"
  have app: "all_stored (c # cs) = ?s @ all_stored cs" by (simp add: stored_def)
  have len: "length ?u = length ?s" "length ?d = length (all_stored cs)" using Cons.prems(2) app by simp_all
  have st: "storable ?s" "storable (all_stored cs)" using Cons.prems(1) app by (auto simp: storable_def)
  have n: "\<forall>c\<in>set ?u. length c = n" "\<forall>c\<in>set ?d. length c = n" using Cons.prems(3) by (auto dest: in_set_takeD in_set_dropD)
  have sel: "sel ty f (all_stored (c # cs)) cols = sel ty f ?s ?u @ sel ty f (all_stored cs) ?d" for ty and f :: "cell \<Rightarrow> 'x"
    using sel_append[OF len(1)[symmetric], of ty f "all_stored cs" ?d] app by simp
  have mo: "mo_reals mo = R @ sel fmi2_base_type_real real_of_cell ?s ?u @ sel fmi2_base_type_real real_of_cell (all_stored cs) ?d"
      "mo_ints mo = I @ sel fmi2_base_type_int int_of_cell ?s ?u @ sel fmi2_base_type_int int_of_cell (all_stored cs) ?d"
      "mo_bools mo = B @ sel fmi2_base_type_bool bool_of_cell ?s ?u @ sel fmi2_base_type_bool bool_of_cell (all_stored cs) ?d"
    using Cons.prems(4-6) unfolding sel by simp_all
  have "write_clients n mo cs (length (R @ sel fmi2_base_type_real real_of_cell ?s ?u), length (I @ sel fmi2_base_type_int int_of_cell ?s ?u),
      length (B @ sel fmi2_base_type_bool bool_of_cell ?s ?u)) = Inr (structs cs ?d)"
    by (rule Cons.IH[OF st(2) len(2) n(2)]) (simp_all add: mo)
  with write_fields_columns[OF st(1) len(1) n(1) mo] show ?case by (simp add: Let_def)
qed simp

text \<open>The rows that \<^verbatim>\<open>printOutputs\<close> makes for a Matlab file are of this kind.\<close>

lemma output_cell_typed: "output_cell True c v = Inr xs \<Longrightarrow> typed_cells (stored [v]) xs"
  by (auto simp: output_cell_def typed_cells_def stored_def rbind_eq_Inr split: fmi2_base_type.splits)

lemma client_cells_typed:
  assumes "client_cells True c = Inr cells"
  shows "typed_cells (stored (m_outputs c)) cells"
proof -
  have "list_all2 (\<lambda>v xs. output_cell True c v = Inr xs) vs xss \<Longrightarrow> typed_cells (stored vs) (concat xss)" for vs xss
  proof (induction vs xss rule: list_all2_induct)
    case (Cons v vs xs xss)
    have "stored (v # vs) = stored [v] @ stored vs" by (simp add: stored_def)
    then show ?case using output_cell_typed[OF Cons.hyps(1)] Cons.IH by (simp add: typed_cells_def list_all2_appendI)
  qed (simp add: stored_def typed_cells_def)
  then show ?thesis using assms by (auto simp: client_cells_def rbind_eq_Inr rmap_eq_Inr)
qed

lemma printed_row_typed:
  assumes "printOutputs net cfg True t m = Inr (r, m')"
  shows "typed_cells (all_stored (clients_of m')) (row_cells r)"
proof -
  have "list_all2 (\<lambda>c cells. client_cells True c = Inr cells) cs css \<Longrightarrow> typed_cells (all_stored cs) (concat css)" for cs css
  proof (induction cs css rule: list_all2_induct)
    case (Cons c cs x css)
    have "all_stored (c # cs) = stored (m_outputs c) @ all_stored cs" by (simp add: stored_def)
    then show ?case using client_cells_typed[OF Cons.hyps(1)] Cons.IH by (simp add: typed_cells_def list_all2_appendI)
  qed (simp add: stored_def typed_cells_def)
  then show ?thesis using assms by (auto simp: printOutputs_def rbind_eq_Inr rmap_eq_Inr)
qed

text \<open>C38: the Matlab file is the transposition of the rows: without enumerations among the outputs and with rows that have a value of the right type for each output that is no string,
  the file has the times and then, for each FMU, a structure with a field for each of these outputs, which holds its value of every row in order.\<close>

theorem matlab_file_columns:
  assumes "is_matlab (o_fileFormat o')" and "pe_can_open pe (o_outFilePath o')"
    and "\<forall>c\<in>set (clients_of (sim_master s)). \<forall>v\<in>set (m_outputs c). vtype v \<noteq> fmi2_base_type_enum"
    and "\<forall>r\<in>set (rows s). typed_cells (all_stored (clients_of (sim_master s))) (row_cells r)"
  shows "matlab_file pe o' s = Inr (Mat_column ''t'' (Col_real (map row_time (rows s)))
     # structs (clients_of (sim_master s)) (columns (rows s) (length (all_stored (clients_of (sim_master s))))))"
proof -
  let ?cs = "clients_of (sim_master s)"
  let ?vs = "all_stored ?cs"
  have st: "storable ?vs" using assms(3) by (auto simp: storable_def stored_def)
  have e: "replicate (length ?vs) [] = columns [] (length ?vs)" by (rule nth_equalityI) (simp_all add: columns_def column_def)
  have "reserveMatlabOutput ?cs = Inr (cache ?vs [] (columns [] (length ?vs)))"
    unfolding reserveMatlabOutput_def cache_def e[symmetric] using reserve_cache[of "concat (map m_outputs ?cs)" "[[]]" "[]" "[]"] assms(3) by simp
  moreover have "rfold store_row (rows s) (cache ?vs [] (columns [] (length ?vs))) = Inr (cache ?vs (map row_time (rows s)) (columns (rows s) (length ?vs)))"
    by (rule store_rows_cache[OF st assms(4)])
  moreover have "write_clients (length (rows s)) (cache ?vs (map row_time (rows s)) (columns (rows s) (length ?vs))) ?cs (1, 0, 0)
      = Inr (structs ?cs (columns (rows s) (length ?vs)))"
    using write_clients_columns[OF st, of "columns (rows s) (length ?vs)" "length (rows s)" _ "[map row_time (rows s)]" "[]" "[]"]
    by (simp add: columns_def column_def cache_def)
  ultimately show ?thesis using assms(1,2) by (simp add: matlab_file_def writeMatlabOutput_def cache_def)
qed

definition example_master :: "unit smaster" where
  "example_master = \<lparr>base = new_master
       [(new_client 0)\<lparr>m_outputs := [example_variable 1 fmi2_base_type_real causality_output ''x'', example_variable 2 fmi2_base_type_str causality_output ''s'',
          example_variable 3 fmi2_base_type_int causality_output ''n'']\<rparr>,
        (new_client 1)\<lparr>m_outputs := [example_variable 1 fmi2_base_type_bool causality_output ''b'', example_variable 2 fmi2_base_type_real causality_output ''y'']\<rparr>] [] (),
     m_strongCouplingSolver = None, connector_store = ([], []), holonomic = True, rends = [], clientrend = [], kins = [],
     clientGetXs = (\<lambda>_. Map.empty), m_simpleConnections = Map.empty, m_simpleInputsVRs = Map.empty, m_complexConnections = [],
     m_refValues = Map.empty, forces = [], canGetAndSetFMUstate = (\<lambda>_. False)\<rparr>"

theorem matlab_file_columns_witness:
  "matlab_file example_program ((default_options jm_log_level_warning)\<lparr>o_fileFormat := mat5, o_outFilePath := ''out.mat''\<rparr>)
     \<lparr>sim_master = example_master, step = 1, suppress_output = False,
      rows = [\<lparr>row_time = 0, row_cells = [Out_real 10, Out_int 20, Out_bool True, Out_real 30]\<rparr>,
              \<lparr>row_time = 1, row_cells = [Out_real 11, Out_int 21, Out_bool False, Out_real 31]\<rparr>]\<rparr>
   = Inr [Mat_column ''t'' (Col_real [0, 1]),
      Mat_struct (''fmu'' @ int_to_string 0) [(''x'', Col_real [10, 11]), (''n'', Col_int [20, 21])],
      Mat_struct (''fmu'' @ int_to_string 1) [(''b'', Col_bool [True, False]), (''y'', Col_real [30, 31])]]"
  (is "matlab_file _ ?o ?s = _")
proof -
  have c: "clients_of (sim_master ?s) = clients_of example_master" by simp
  have "matlab_file example_program ?o ?s = Inr (Mat_column ''t'' (Col_real (map row_time (rows ?s)))
     # structs (clients_of (sim_master ?s)) (columns (rows ?s) (length (all_stored (clients_of (sim_master ?s))))))"
    by (rule matlab_file_columns)
       (simp_all add: is_matlab_def example_program_def example_master_def new_master_def example_variable_def stored_def typed_cells_def)
  then show ?thesis
    by (simp add: example_master_def new_master_def example_variable_def stored_def new_client_def columns_def column_def fields_def mat_of_def upt_rec Let_def)
qed

end
