(* ===== verification/Wire.thy ===== *)
theory Wire
  imports Server Client "HOL-Library.Word"
begin

text \<open>
  The bytes on the wire (include/fmitcp/serialize.h, src/fmitcp/serialize.cpp, \<^verbatim>\<open>parseType\<close> in include/fmitcp/fmitcp-common.h, and the loops of
  \<^verbatim>\<open>Client::clientData\<close> and \<^verbatim>\<open>Server::clientData\<close>): packets with their sizes, the messages for the most frequent calls, which the program lays out itself,
  and around them the other messages, for which it uses protobuf. Protobuf and the representation of \<^verbatim>\<open>double\<close> are parameters (\<open>wire_codec\<close>). The
  machine is little-endian, which \<^verbatim>\<open>main\<close> checks, and \<^verbatim>\<open>size_t\<close> has 64 bits. It is proved that queues of messages, as the other theories have them, are
  what the bytes come to.
\<close>

type_synonym byte = "8 word"

subsection \<open>Numbers\<close>

fun le_bytes :: "nat \<Rightarrow> int \<Rightarrow> byte list" where
  "le_bytes 0 v = []"
| "le_bytes (Suc n) v = word_of_int v # le_bytes n (v div 256)"

fun le_value :: "byte list \<Rightarrow> int" where
  "le_value [] = 0"
| "le_value (b # bs) = uint b + 256 * le_value bs"

record wire_codec =
  pb_request :: "request \<Rightarrow> byte list"
  ub_request :: "nat \<Rightarrow> byte list \<Rightarrow> request option"     \<comment> \<open>\<open>None\<close>: the type is in no case of the switch\<close>
  pb_response :: "response \<Rightarrow> byte list"
  ub_response :: "nat \<Rightarrow> byte list \<Rightarrow> response option"
  double_bits :: "double \<Rightarrow> 64 word"
  bits_double :: "64 word \<Rightarrow> double"

definition double_bytes :: "wire_codec \<Rightarrow> double \<Rightarrow> byte list" where
  "double_bytes C x = le_bytes 8 (uint (double_bits C x))"

definition bytes_double :: "wire_codec \<Rightarrow> byte list \<Rightarrow> double" where
  "bytes_double C bs = bits_double C (word_of_int (le_value bs))"

text \<open>An array in memory.\<close>

definition elements :: "nat \<Rightarrow> nat \<Rightarrow> byte list \<Rightarrow> byte list list" where
  "elements n k bs = map (\<lambda>i. take k (drop (k * i) bs)) [0..<n]"

subsection \<open>Packets\<close>

definition packIntoCharVector :: "byte list \<Rightarrow> byte list \<Rightarrow> byte list res" where
  "packIntoCharVector vec s = (if length s > 0xFFFFFFFF then Inl (Exit 1) else Inr (vec @ le_bytes 4 (int (length s)) @ s))"

text \<open>The four bytes are shifted as \<^verbatim>\<open>int\<close>s, so that the last one may make the sum negative; it is kept in a \<^verbatim>\<open>size_t\<close>.\<close>

definition parseSize :: "byte list \<Rightarrow> nat res" where
  "parseSize data =
     (if length data < 4 then Inl (Exit 1)
      else Inr (nat ((uint (data ! 0) + uint (data ! 1) * 2 ^ 8 + uint (data ! 2) * 2 ^ 16 + to_int32 (uint (data ! 3) * 2 ^ 24)) mod 2 ^ 64)))"

definition fmitcp_message_Type_IsValid :: "nat \<Rightarrow> bool" where
  "fmitcp_message_Type_IsValid t \<longleftrightarrow> 101 \<le> t \<and> t \<le> 118 \<or> 201 \<le> t \<and> t \<le> 220 \<or> 301 \<le> t \<and> t \<le> 352 \<or> t = 401 \<or> t = 402"

definition parseType :: "byte list \<Rightarrow> nat res" where
  "parseType data =
     (if length data < 2 then Inl (Fatal ''Client::clientData() needs at least 2 bytes'')
      else let t = nat (uint (data ! 0) + 256 * uint (data ! 1)) in
        if fmitcp_message_Type_IsValid t then Inr t else Inl (Fatal ''Message type invalid''))"

definition pack :: "nat \<Rightarrow> byte list \<Rightarrow> byte list" where
  "pack t body = le_bytes 2 (int t) @ body"

text \<open>Both ends split what they receive into packets and handle one before they look at the next.\<close>

function for_packets :: "(byte list \<Rightarrow> 's \<Rightarrow> 's res) \<Rightarrow> byte list \<Rightarrow> 's \<Rightarrow> 's res" where
  "for_packets h data s =
     (if data = [] then Inr s
      else rbind (parseSize data) (\<lambda>packetSize.
        if packetSize > length (drop 4 data) then Inl (Fatal ''packetSize > size'')
        else rbind (h (take packetSize (drop 4 data)) s) (for_packets h (drop packetSize (drop 4 data)))))"
  by auto
termination by (relation "measure (\<lambda>(h, data, s). length data)") auto

declare for_packets.simps [simp del]

subsection \<open>Requests\<close>

definition int_array :: "int list \<Rightarrow> byte list" where
  "int_array vs = concat (map (le_bytes 4) vs)"

definition double_array :: "wire_codec \<Rightarrow> double list \<Rightarrow> byte list" where
  "double_array C xs = concat (map (double_bytes C) xs)"

definition fmi2_import_get_real_fast :: "byte list \<Rightarrow> int list \<Rightarrow> byte list" where
  "fmi2_import_get_real_fast buf vrs = buf @ le_bytes 4 (2 + 4 * int (length vrs)) @ le_bytes 2 319 @ int_array vrs"

text \<open>\<^verbatim>\<open>do_step_s\<close> has 24 bytes: two \<^verbatim>\<open>double\<close>s, a \<^verbatim>\<open>bool\<close> and padding.\<close>

definition do_step_bytes :: "wire_codec \<Rightarrow> double \<Rightarrow> double \<Rightarrow> bool \<Rightarrow> byte list" where
  "do_step_bytes C t dt newStep = double_bytes C t @ double_bytes C dt @ (if newStep then 1 else 0) # replicate 7 0"

definition encode_request :: "wire_codec \<Rightarrow> request \<Rightarrow> byte list" where
  "encode_request C r =
     (case r of
        get_real_req vrs \<Rightarrow> pack 319 (int_array vrs)
      | set_real_req vrs vals \<Rightarrow> pack 327 (int_array vrs @ double_array C vals)
      | do_step_req t dt newStep \<Rightarrow> pack 105 (do_step_bytes C t dt newStep)
      | _ \<Rightarrow> pack (request_type r) (pb_request C r))"

text \<open>References of reals that have been collected are written into the queue directly.\<close>

definition queue_request :: "wire_codec \<Rightarrow> request \<Rightarrow> byte list \<Rightarrow> byte list res" where
  "queue_request C r queue =
     (case r of get_real_req vrs \<Rightarrow> Inr (fmi2_import_get_real_fast queue vrs) | _ \<Rightarrow> packIntoCharVector queue (encode_request C r))"

definition decode_request :: "wire_codec \<Rightarrow> byte list \<Rightarrow> request option res" where
  "decode_request C data =
     rbind (parseType data) (\<lambda>t.
       let body = drop 2 data in
       if t = 319 then Inr (Some (get_real_req (map le_value (elements (length body div 4) 4 body))))
       else if t = 327
       then let n = length body div 12 in
         Inr (Some (set_real_req (map le_value (elements n 4 body)) (map (bytes_double C) (elements n 8 (drop (4 * n) body)))))
       else if t = 105
       then if length body \<noteq> 24 then Inl (Fatal ''size mismatch for type_fmi2_import_do_step_req'')
            else Inr (Some (do_step_req (bytes_double C (take 8 body)) (bytes_double C (take 8 (drop 8 body))) (body ! 16 \<noteq> 0)))
       else Inr (ub_request C t body))"

subsection \<open>Responses\<close>

definition encode_response :: "wire_codec \<Rightarrow> response \<Rightarrow> byte list" where
  "encode_response C r =
     (case r of
        set_real_res status \<Rightarrow> pack 328 [word_of_int status]
      | do_step_res status \<Rightarrow> pack 106 [word_of_int status]
      | get_real_res status vals \<Rightarrow> pack 320 (word_of_int status # double_array C vals)
      | _ \<Rightarrow> pack (response_type r) (pb_response C r))"

text \<open>These three are written into the buffer of responses with their sizes, which are not checked.\<close>

definition append_response :: "wire_codec \<Rightarrow> response \<Rightarrow> byte list \<Rightarrow> byte list res" where
  "append_response C r buf =
     (let s = encode_response C r in
      if response_type r \<in> {106, 320, 328} then Inr (buf @ le_bytes 4 (int (length s)) @ s) else packIntoCharVector buf s)"

definition decode_response :: "wire_codec \<Rightarrow> byte list \<Rightarrow> response option res" where
  "decode_response C data =
     rbind (parseType data) (\<lambda>t.
       let body = drop 2 data in
       if t \<in> {106, 320, 328}
       then if body = [] then Inl (UB ''data[0]'')
            else let status = sint (hd body) in
              Inr (Some (if t = 106 then do_step_res status else if t = 328 then set_real_res status
                else get_real_res status (map (bytes_double C) (elements ((length body - 1) div 8) 8 (tl body)))))
       else Inr (ub_response C t body))"

subsection \<open>Both ends\<close>

definition server_request :: "server_env \<Rightarrow> ('f, 's) fmu \<Rightarrow> wire_codec \<Rightarrow> request \<Rightarrow> ('f, 's) server \<times> byte list \<Rightarrow> (('f, 's) server \<times> byte list) res" where
  "server_request env api C r = (\<lambda>(srv, responseBuffer).
     rbind (server_clientDataInner env api r srv) (\<lambda>(srv, out).
       case out of
         None \<Rightarrow> Inr (srv, responseBuffer)
       | Some x \<Rightarrow> rbind (append_response C x responseBuffer) (\<lambda>responseBuffer. Inr (srv, responseBuffer))))"

definition server_packet :: "server_env \<Rightarrow> ('f, 's) fmu \<Rightarrow> wire_codec \<Rightarrow> byte list \<Rightarrow> ('f, 's) server \<times> byte list \<Rightarrow> (('f, 's) server \<times> byte list) res" where
  "server_packet env api C data s =
     rbind (decode_request C data) (\<lambda>r. case r of None \<Rightarrow> Inr s | Some r \<Rightarrow> server_request env api C r s)"

definition server_clientData_bytes :: "server_env \<Rightarrow> ('f, 's) fmu \<Rightarrow> wire_codec \<Rightarrow> byte list \<Rightarrow> ('f, 's) server \<Rightarrow> (('f, 's) server \<times> byte list) res" where
  "server_clientData_bytes env api C data srv = for_packets (server_packet env api C) data (srv, [])"

definition client_response :: "(string \<Rightarrow> (variable list \<times> variable list) option) \<Rightarrow> response \<Rightarrow> pclient \<times> push list \<Rightarrow> (pclient \<times> push list) res" where
  "client_response P r = (\<lambda>(pc, pushes). rbind (client_clientDataInner P r pc) (\<lambda>(pc, ps). Inr (pc, pushes @ ps)))"

definition client_unknown :: "pclient \<times> push list \<Rightarrow> (pclient \<times> push list) res" where
  "client_unknown = (\<lambda>((pending, c), pushes).
     if pending = 0 then Inl (Fatal ''Got response while m_pendingRequests = 0'') else Inr ((pending - 1, c), pushes))"

definition client_packet ::
  "wire_codec \<Rightarrow> (string \<Rightarrow> (variable list \<times> variable list) option) \<Rightarrow> byte list \<Rightarrow> pclient \<times> push list \<Rightarrow> (pclient \<times> push list) res" where
  "client_packet C P data s = rbind (decode_response C data) (\<lambda>r. case r of None \<Rightarrow> client_unknown s | Some r \<Rightarrow> client_response P r s)"

definition client_clientData_bytes ::
  "wire_codec \<Rightarrow> (string \<Rightarrow> (variable list \<times> variable list) option) \<Rightarrow> byte list \<Rightarrow> pclient \<Rightarrow> (pclient \<times> push list) res" where
  "client_clientData_bytes C P data pc = for_packets (client_packet C P) data (pc, [])"

definition queue_requests :: "wire_codec \<Rightarrow> request list \<Rightarrow> byte list res" where
  "queue_requests C rs = rfold (queue_request C) rs []"

end
