(* ===== verification/Wire_Props.thy ===== *)
theory Wire_Props
  imports Wire Server_Props
begin

text \<open>
  Bytes carry messages: numbers, arrays and the messages laid out by the program come back, packets are found again, and a server and a client that
  exchange bytes do what they do with lists of messages, as long as no message has 2^31 bytes. What a codec of either direction promises is the locale
  \<open>framed_messages\<close>; requests and responses are its instances.
\<close>

subsection \<open>Numbers\<close>

lemma le_bytes_length [simp]: "length (le_bytes n v) = n"
  by (induction n arbitrary: v) simp_all

lemma le_value_bytes: "le_value (le_bytes n v) = v mod 256 ^ n"
proof (induction n arbitrary: v)
  case (Suc n)
  have "uint (word_of_int v :: byte) = v mod 256" by (simp add: uint_word_of_int)
  then show ?case using Suc zmod_zmult2_eq[of "256 ^ n" v 256] by (simp add: mult.commute add.commute)
qed simp

lemma le_value_small: "0 \<le> v \<Longrightarrow> v < 256 ^ n \<Longrightarrow> le_value (le_bytes n v) = v"
  by (simp add: le_value_bytes)

lemma double_bytes_length [simp]: "length (double_bytes C x) = 8"
  by (simp add: double_bytes_def)

lemma bytes_double: "bits_double C (double_bits C x) = x \<Longrightarrow> bytes_double C (double_bytes C x) = x"
  using uint_lt2p[of "double_bits C x"] by (simp add: double_bytes_def bytes_double_def le_value_small)

lemma elements_concat:
  assumes "\<And>x. x \<in> set xs \<Longrightarrow> length (f x) = k"
  shows "elements (length xs) k (concat (map f xs) @ rest) = map f xs"
  using assms
proof (induction xs)
  case (Cons x xs)
  have "elements (length (x # xs)) k bs = take k bs # elements (length xs) k (drop k bs)" for bs
    by (simp add: elements_def map_upt_Suc del: upt_Suc) (simp add: add.commute)
  moreover have "length (f x) = k" using Cons.prems by simp
  moreover have "elements (length xs) k (concat (map f xs) @ rest) = map f xs" using Cons by simp
  ultimately show ?case by simp
qed (simp add: elements_def)

lemma int_array_length [simp]: "length (int_array vs) = 4 * length vs"
  by (induction vs) (simp_all add: int_array_def)

lemma double_array_length [simp]: "length (double_array C xs) = 8 * length xs"
  by (induction xs) (simp_all add: double_array_def)

definition reference :: "int \<Rightarrow> bool" where
  "reference v \<longleftrightarrow> 0 \<le> v \<and> v < 2 ^ 32"

lemma int_array_read: "list_all reference vs \<Longrightarrow> map le_value (elements (length vs) 4 (int_array vs @ rest)) = vs"
  by (simp add: int_array_def elements_concat map_idI le_value_small reference_def list_all_iff)

definition exact :: "wire_codec \<Rightarrow> double \<Rightarrow> bool" where
  "exact C x \<longleftrightarrow> bits_double C (double_bits C x) = x"

lemma double_array_read: "list_all (exact C) xs \<Longrightarrow> map (bytes_double C) (elements (length xs) 8 (double_array C xs @ rest)) = xs"
  by (simp add: double_array_def elements_concat map_idI bytes_double exact_def list_all_iff)

subsection \<open>Packets\<close>

definition frame :: "byte list \<Rightarrow> byte list" where
  "frame s = le_bytes 4 (int (length s)) @ s"

lemma four_bytes: "le_bytes 4 v = [word_of_int v, word_of_int (v div 256), word_of_int (v div 256 div 256), word_of_int (v div 256 div 256 div 256)]"
  by (simp add: eval_nat_numeral)

lemma to_int32_high:
  assumes "2 ^ 31 \<le> y" and "y < 2 ^ 32"
  shows "to_int32 y = y - 2 ^ 32"
proof -
  have "(y + 2 ^ 31) mod 2 ^ 32 = (y + 2 ^ 31 - 2 ^ 32) mod 2 ^ 32" by (rule minus_mod_self2[symmetric])
  also have "\<dots> = y + 2 ^ 31 - 2 ^ 32" using assms by (intro mod_pos_pos_trivial) simp_all
  finally show ?thesis by (simp add: to_int32_def)
qed

lemma parseSize_frame:
  assumes "0 \<le> v" and "v < 2 ^ 32"
  shows "parseSize (le_bytes 4 v @ rest) = Inr (nat ((if v < 2 ^ 31 then v else v - 2 ^ 32) mod 2 ^ 64))"
proof -
  let ?b = "\<lambda>x. uint (word_of_int x :: byte)"
  let ?h = "v div 256 div 256 div 256"
  have sum: "?b v + ?b (v div 256) * 256 + ?b (v div 256 div 256) * 65536 + ?b ?h * 16777216 = v"
    using le_value_small[of v 4] assms by (simp add: four_bytes)
  have h: "?h = v div 16777216" by (simp add: zdiv_zmult2_eq[symmetric])
  have b: "?b ?h = ?h" using assms by (simp add: uint_word_of_int h)
  have "to_int32 (?h * 16777216) = (if v < 2 ^ 31 then ?h * 16777216 else ?h * 16777216 - 2 ^ 32)"
  proof (cases "v < 2 ^ 31")
    case True
    then have "0 \<le> ?h * 16777216" "?h * 16777216 < 2 ^ 31" using assms(1) unfolding h by simp_all
    then show ?thesis using True to_int32_id[of "?h * 16777216"] by simp
  next
    case False
    then have "2 ^ 31 \<le> ?h * 16777216" "?h * 16777216 < 2 ^ 32" using assms(2) unfolding h by simp_all
    then show ?thesis using False to_int32_high[of "?h * 16777216"] by simp
  qed
  then have "?b v + ?b (v div 256) * 2 ^ 8 + ?b (v div 256 div 256) * 2 ^ 16 + to_int32 (?b ?h * 2 ^ 24) = (if v < 2 ^ 31 then v else v - 2 ^ 32)"
    using sum unfolding b by simp
  then show ?thesis by (simp add: parseSize_def four_bytes)
qed

lemma for_packets_frame:
  assumes "length s < 2 ^ 31"
  shows "for_packets h (frame s @ rest) x = rbind (h s x) (for_packets h rest)"
proof -
  have n: "(int (length s)) mod 2 ^ 64 = int (length s)" using assms by simp
  have "parseSize (frame s @ rest) = Inr (length s)"
    using parseSize_frame[of "int (length s)" "s @ rest"] assms n by (simp add: frame_def)
  then show ?thesis by (subst for_packets.simps) (simp add: frame_def four_bytes)
qed

definition wire :: "byte list list \<Rightarrow> byte list" where
  "wire ms = concat (map frame ms)"

lemma for_packets_frames:
  "\<forall>s\<in>set ms. length s < 2 ^ 31 \<Longrightarrow> for_packets h (wire ms) x = rfold h ms x"
proof (induction ms arbitrary: x)
  case Nil
  then show ?case by (simp add: for_packets.simps wire_def)
next
  case (Cons s ms)
  then have "for_packets h (wire ms) = rfold h ms" by (intro ext) simp
  then show ?case using for_packets_frame[of s h "wire ms" x] Cons.prems by (simp add: wire_def)
qed

lemma wire_nonempty: "ms \<noteq> [] \<Longrightarrow> wire ms \<noteq> []"
  by (cases ms) (simp_all add: wire_def frame_def four_bytes)

text \<open>Messages of one direction: what is sendable is short enough and is decoded again.\<close>

locale framed_messages =
  fixes encode :: "'m \<Rightarrow> byte list" and decode :: "byte list \<Rightarrow> 'm option res" and sendable :: "'m \<Rightarrow> bool"
  assumes decode_encode: "sendable m \<Longrightarrow> decode (encode m) = Inr (Some m)"
    and short: "sendable m \<Longrightarrow> length (encode m) < 2 ^ 31"
begin

lemma packets:
  assumes "list_all sendable ms" and "\<And>d x. h d x = rbind (decode d) (\<lambda>r. case r of None \<Rightarrow> u x | Some m \<Rightarrow> g m x)"
  shows "for_packets h (wire (map encode ms)) x = rfold g ms x"
proof -
  have "rfold h (map encode ms) x = rfold g ms x"
    using assms(1) by (induction ms arbitrary: x) (simp_all add: assms(2) decode_encode cong: rbind_cong)
  then show ?thesis using assms(1) short by (subst for_packets_frames) (auto simp: list_all_iff)
qed

end

subsection \<open>Messages\<close>

lemma parseType_pack:
  assumes "fmitcp_message_Type_IsValid t"
  shows "parseType (pack t body) = Inr t"
proof -
  have "le_value (le_bytes 2 (int t)) = int t" using assms by (intro le_value_small) (auto simp: fmitcp_message_Type_IsValid_def)
  then show ?thesis using assms by (simp add: parseType_def pack_def numeral_2_eq_2)
qed

lemma drop_pack [simp]: "drop 2 (pack t body) = body"
  by (simp add: pack_def)

text \<open>Messages that have a form on the wire: with references of 32 bits, numbers that are representable, and, for the others, what protobuf parses again.\<close>

definition sendable_request :: "wire_codec \<Rightarrow> request \<Rightarrow> bool" where
  "sendable_request C r \<longleftrightarrow> length (encode_request C r) < 2 ^ 31
     \<and> (case r of
          get_real_req vrs \<Rightarrow> list_all reference vrs
        | set_real_req vrs vals \<Rightarrow> length vrs = length vals \<and> list_all reference vrs \<and> list_all (exact C) vals
        | do_step_req t dt newStep \<Rightarrow> exact C t \<and> exact C dt
        | _ \<Rightarrow> ub_request C (request_type r) (pb_request C r) = Some r)"

definition sendable_response :: "wire_codec \<Rightarrow> response \<Rightarrow> bool" where
  "sendable_response C r \<longleftrightarrow> length (encode_response C r) < 2 ^ 31
     \<and> (case r of
          set_real_res status \<Rightarrow> - 128 \<le> status \<and> status < 128
        | do_step_res status \<Rightarrow> - 128 \<le> status \<and> status < 128
        | get_real_res status vals \<Rightarrow> - 128 \<le> status \<and> status < 128 \<and> list_all (exact C) vals
        | _ \<Rightarrow> ub_response C (response_type r) (pb_response C r) = Some r)"

lemma do_step_read:
  assumes "exact C t" and "exact C dt"
  shows "decode_request C (pack 105 (do_step_bytes C t dt b)) = Inr (Some (do_step_req t dt b))"
  using assms by (simp add: decode_request_def parseType_pack fmitcp_message_Type_IsValid_def do_step_bytes_def exact_def bytes_double nth_append)

lemma get_real_read: "list_all reference vrs \<Longrightarrow> decode_request C (pack 319 (int_array vrs)) = Inr (Some (get_real_req vrs))"
  using int_array_read[of vrs "[]"] by (simp add: decode_request_def parseType_pack fmitcp_message_Type_IsValid_def)

lemma set_real_read:
  assumes "length vrs = length vals" and "list_all reference vrs" and "list_all (exact C) vals"
  shows "decode_request C (pack 327 (int_array vrs @ double_array C vals)) = Inr (Some (set_real_req vrs vals))"
proof -
  have "(4 * length vals + 8 * length vals) div 12 = length vals" by simp
  then show ?thesis
    using int_array_read[OF assms(2), of "double_array C vals"] double_array_read[OF assms(3), of "[]"] assms(1)
    by (simp add: decode_request_def parseType_pack fmitcp_message_Type_IsValid_def)
qed

lemma decode_encode_request: "sendable_request C r \<Longrightarrow> decode_request C (encode_request C r) = Inr (Some r)"
  by (cases r) (simp_all add: sendable_request_def encode_request_def do_step_read get_real_read set_real_read,
      simp_all add: decode_request_def parseType_pack fmitcp_message_Type_IsValid_def)

lemma status_read: "- 128 \<le> v \<Longrightarrow> v < 128 \<Longrightarrow> sint (word_of_int v :: byte) = v"
  by (simp add: sint_sbintrunc' signed_take_bit_int_eq_self)

lemma decode_encode_response: "sendable_response C r \<Longrightarrow> decode_response C (encode_response C r) = Inr (Some r)"
  using double_array_read[of C _ "[]"]
  by (cases r) (simp_all add: sendable_response_def encode_response_def decode_response_def parseType_pack fmitcp_message_Type_IsValid_def status_read)

interpretation requests: framed_messages "encode_request C" "decode_request C" "sendable_request C" for C
  by unfold_locales (rule decode_encode_request, simp_all add: sendable_request_def)

interpretation responses: framed_messages "encode_response C" "decode_response C" "sendable_response C" for C
  by unfold_locales (rule decode_encode_response, simp_all add: sendable_response_def)

subsection \<open>Queues\<close>

lemma queue_request_frame: "length (encode_request C r) \<le> 0xFFFFFFFF \<Longrightarrow> queue_request C r q = Inr (q @ frame (encode_request C r))"
proof (cases r)
  fix vrs assume "r = get_real_req vrs"
  then show ?thesis by (simp add: queue_request_def fmi2_import_get_real_fast_def encode_request_def frame_def pack_def)
qed (simp_all add: queue_request_def packIntoCharVector_def frame_def)

lemma append_response_frame: "length (encode_response C r) \<le> 0xFFFFFFFF \<Longrightarrow> append_response C r buf = Inr (buf @ frame (encode_response C r))"
  by (simp add: append_response_def packIntoCharVector_def frame_def Let_def)

lemma queue_requests_frames:
  assumes "list_all (sendable_request C) rs"
  shows "queue_requests C rs = Inr (wire (map (encode_request C) rs))"
proof -
  have "rfold (queue_request C) rs q = Inr (q @ concat (map frame (map (encode_request C) rs)))" for q
    using assms by (induction rs arbitrary: q) (simp_all add: queue_request_frame sendable_request_def)
  from this[of "[]"] show ?thesis by (simp add: queue_requests_def wire_def)
qed

lemma server_requests:
  assumes "server_clientData env api rs srv = Inr (srv', resps)" and "list_all (sendable_response C) resps"
  shows "rfold (server_request env api C) rs (srv, buf) = Inr (srv', buf @ wire (map (encode_response C) resps))"
  using assms
proof (induction rs arbitrary: srv resps buf)
  case (Cons r rs)
  obtain srv1 out outs where 1: "server_clientDataInner env api r srv = Inr (srv1, out)" "server_clientData env api rs srv1 = Inr (srv', outs)"
      "resps = (case out of None \<Rightarrow> outs | Some x \<Rightarrow> x # outs)"
    using Cons.prems(1) by (auto simp: rbind_eq_Inr)
  show ?case
  proof (cases out)
    case None
    then show ?thesis using Cons.IH[OF 1(2), of buf] Cons.prems(2) 1(1,3) by (simp add: server_request_def)
  next
    case (Some x)
    have x: "sendable_response C x" "list_all (sendable_response C) outs" using Cons.prems(2) 1(3) Some by simp_all
    then have "append_response C x buf = Inr (buf @ frame (encode_response C x))" by (intro append_response_frame) (simp add: sendable_response_def)
    then show ?thesis using Cons.IH[OF 1(2) x(2), of "buf @ frame (encode_response C x)"] 1(1,3) Some by (simp add: server_request_def wire_def)
  qed
qed (simp add: wire_def)

lemma client_responses: "rfold (client_response P) rs (pc, pushes) = rbind (client_clientData P rs pc) (\<lambda>(pc, ps). Inr (pc, pushes @ ps))"
proof (induction rs arbitrary: pc pushes)
  case (Cons r rs)
  then show ?case by (cases "client_clientDataInner P r pc") (auto simp: client_response_def rbind_assoc split_beta)
qed simp

lemma server_bytes_answer:
  assumes "list_all (sendable_request C) rs" and "server_clientData env api rs srv = Inr (srv', resps)" and "list_all (sendable_response C) resps"
  shows "server_clientData_bytes env api C (wire (map (encode_request C) rs)) srv = Inr (srv', wire (map (encode_response C) resps))"
  using requests.packets[OF assms(1), of "server_packet env api C" Inr "server_request env api C" "(srv, [])"] server_requests[OF assms(2,3), of "[]"]
  by (simp add: server_clientData_bytes_def server_packet_def)

lemma client_bytes:
  assumes "list_all (sendable_response C) rs"
  shows "client_clientData_bytes C P (wire (map (encode_response C) rs)) pc = client_clientData P rs pc"
  using responses.packets[OF assms, of "client_packet C P" client_unknown "client_response P" "(pc, [])"] client_responses[of P rs pc "[]"]
  by (simp add: client_clientData_bytes_def client_packet_def)

text \<open>C4: messages survive the wire: requests with references of 32 bits and representable numbers, each shorter than 2^31 bytes, are queued without an error; a server that gets the bytes of the queue does what it does with the
  list of requests; and a client that gets the bytes of the answer does what it does with the list of responses. What protobuf parses is assumed to be what it has written.\<close>

theorem wire_refines_messages:
  assumes "list_all (sendable_request C) rs" and "server_clientData env api rs srv = Inr (srv', resps)" and "list_all (sendable_response C) resps"
  shows "\<exists>data answer. queue_requests C rs = Inr data \<and> server_clientData_bytes env api C data srv = Inr (srv', answer)
     \<and> client_clientData_bytes C P answer pc = client_clientData P resps pc"
  using queue_requests_frames[OF assms(1)] server_bytes_answer[OF assms] client_bytes[OF assms(3), of P pc] by blast

text \<open>A codec for whole numbers and two messages without contents.\<close>

definition integer_codec :: wire_codec where
  "integer_codec = \<lparr>pb_request = (\<lambda>_. []), ub_request = (\<lambda>t _. if t = 401 then Some get_xml_req else if t = 307 then Some free_instance_req else None),
     pb_response = (\<lambda>_. []), ub_response = (\<lambda>t _. if t = 308 then Some free_instance_res else None),
     double_bits = (\<lambda>x. word_of_int \<lfloor>x\<rfloor>), bits_double = (\<lambda>w. real_of_int (sint w))\<rparr>"

theorem wire_refines_messages_witness:
  "\<exists>data srv' answer. queue_requests integer_codec [set_real_req [1] [3], get_real_req [0], do_step_req 0 1 True] = Inr data
     \<and> server_clientData_bytes quiet_env integrator integer_codec data (new_server integrator (5, 2)) = Inr (srv', answer)
     \<and> client_clientData_bytes integer_codec (\<lambda>_. None) answer (3, (new_client 0)\<lparr>m_outgoing_reals := [0]\<rparr>)
       = client_clientData (\<lambda>_. None) [set_real_res 0, get_real_res 0 [5], do_step_res 0] (3, (new_client 0)\<lparr>m_outgoing_reals := [0]\<rparr>)"
proof -
  let ?rs = "[set_real_req [1] [3], get_real_req [0], do_step_req 0 1 True]" and ?as = "[set_real_res 0, get_real_res 0 [5], do_step_res 0]"
  have e: "exact integer_codec 0" "exact integer_codec 1" "exact integer_codec 3" "exact integer_codec 5"
    by (simp_all add: exact_def integer_codec_def)
  have "list_all (sendable_request integer_codec) ?rs" "list_all (sendable_response integer_codec) ?as"
    using e by (simp_all add: sendable_request_def sendable_response_def encode_request_def encode_response_def pack_def do_step_bytes_def reference_def)
  moreover obtain srv' where "server_clientData quiet_env integrator ?rs (new_server integrator (5, 2)) = Inr (srv', ?as)"
    by (simp add: handle_set_real_def copy_values_def handle_get_real_def handle_do_step_def read_fmu_def call_fmu_def reply_def new_server_def integrator_def buffer_def)
  ultimately show ?thesis using wire_refines_messages by blast
qed

text \<open>C22: the limit is not where it is checked: a message of at least 2^31 and less than 2^32 bytes is put into a queue without an error, but the other end, which reads the size as a signed number, refuses it whatever follows.\<close>

theorem large_message_refused:
  assumes "2 ^ 31 \<le> length s" and "length s \<le> 0xFFFFFFFF"
  shows "\<exists>data. packIntoCharVector [] s = Inr data \<and> for_packets h data x = Inl (Fatal ''packetSize > size'')"
proof -
  have n: "nat ((int (length s) - 2 ^ 32) mod 2 ^ 64) > length s"
  proof -
    have "(int (length s) - 2 ^ 32) mod 2 ^ 64 = (int (length s) - 2 ^ 32 + 2 ^ 64) mod 2 ^ 64" by (rule mod_add_self2[symmetric])
    also have "\<dots> = int (length s) - 2 ^ 32 + 2 ^ 64" using assms(2) by (intro mod_pos_pos_trivial) simp_all
    finally show ?thesis by simp
  qed
  have "parseSize (le_bytes 4 (int (length s)) @ s) = Inr (nat ((int (length s) - 2 ^ 32) mod 2 ^ 64))"
    using parseSize_frame[of "int (length s)" s] assms by simp
  then have "for_packets h (le_bytes 4 (int (length s)) @ s) x = Inl (Fatal ''packetSize > size'')"
    using n by (subst for_packets.simps) (simp add: four_bytes)
  then show ?thesis using assms(2) by (simp add: packIntoCharVector_def)
qed

theorem large_message_refused_witness:
  "\<exists>data. packIntoCharVector [] (replicate (2 ^ 31) 0) = Inr data \<and> for_packets (\<lambda>_ n. Inr (n + 1)) data (0::nat) = Inl (Fatal ''packetSize > size'')"
  using large_message_refused[of "replicate (2 ^ 31) 0"] by simp

end
