(* ===== verification/Server_Main.thy ===== *)
theory Server_Main
  imports Wire_Props
begin

text \<open>
  The process of an FMU server (src/server/fmigo-server.cpp, src/server/parse_server_args.cpp and the constructor of \<^verbatim>\<open>Server\<close>): its arguments, the
  opening of the FMU, and the loop that answers transmissions until the instance is freed. What the FMI Library makes of the archive is a parameter
  (\<open>fmu_archive\<close>); so is what arrives at the socket. It is proved that the process serves a session as the handlers say and ends with it.
\<close>

subsection \<open>Arguments\<close>

record server_args =
  sa_fmuPath :: string
  sa_hdf5Filename :: string
  sa_debugLogging :: bool
  sa_log_level :: jm_log_level
  sa_port :: int
  sa_numericalDerivatives :: bool   \<comment> \<open>\<^verbatim>\<open>alwaysComputeNumericalDirectionalDerivatives\<close>\<close>

text \<open>\<^verbatim>\<open>ss >> *port\<close> leaves the port as it is when there is nothing but space.\<close>

definition read_port :: "string \<Rightarrow> int \<Rightarrow> int" where
  "read_port s port = (if dropWhile isspace s = [] then port else stream_int s)"

text \<open>With MPI there is no port. Only \<^verbatim>\<open>-5\<close> goes on behind its argument.\<close>

fun parse_arg_list :: "bool \<Rightarrow> string list \<Rightarrow> server_args \<Rightarrow> server_args res" where
  "parse_arg_list has_port [] s = Inr s"
| "parse_arg_list has_port (a # as) s =
     (if a = ''-h'' \<or> a = ''--help'' then Inl (Exit 0)
      else if a = ''-d'' \<or> a = ''--debugLogging'' then parse_arg_list has_port as (s\<lparr>sa_debugLogging := True\<rparr>)
      else if (a = ''-l'' \<or> a = ''--logging'') \<and> as \<noteq> []
      then rbind (logOptionToJMLogLevel (hd as)) (\<lambda>l. parse_arg_list has_port as (s\<lparr>sa_log_level := l\<rparr>))
      else if (a = ''--port'' \<or> a = ''-p'') \<and> as \<noteq> []
      then if \<not> has_port then Inl (Exit 1)
           else let port = read_port (hd as) (sa_port s) in
             if port \<le> 0 then Inl (Exit 1) else parse_arg_list has_port as (s\<lparr>sa_port := port\<rparr>)
      else if a = ''-5'' \<and> as \<noteq> [] then parse_arg_list has_port (List.tl as) (s\<lparr>sa_hdf5Filename := hd as\<rparr>)
      else if a = ''-D'' then parse_arg_list has_port as (s\<lparr>sa_numericalDerivatives := True\<rparr>)
      else parse_arg_list has_port as (s\<lparr>sa_fmuPath := a\<rparr>))"

definition parse_server_args :: "bool \<Rightarrow> string list \<Rightarrow> server_args \<Rightarrow> server_args res" where
  "parse_server_args has_port args s =
     rbind (parse_arg_list has_port args s) (\<lambda>s. if sa_fmuPath s = [] then Inl (Exit 1) else Inr s)"

definition default_server_args :: server_args where
  "default_server_args = \<lparr>sa_fmuPath = [], sa_hdf5Filename = [], sa_debugLogging = False, sa_log_level = jm_log_level_warning, sa_port = 3000,
     sa_numericalDerivatives = False\<rparr>"

subsection \<open>Opening the FMU\<close>

datatype fmi_version = fmi_version_unknown | fmi_version_1_0 | fmi_version_2_0 | fmi_version_unsupported

record ('f, 's) fmu_archive =
  fa_exists :: bool
  fa_temp_dir :: bool             \<comment> \<open>\<^verbatim>\<open>fmi_import_mk_temp_dir\<close>\<close>
  fa_version :: fmi_version
  fa_parses :: bool               \<comment> \<open>\<^verbatim>\<open>fmi2_import_parse_xml\<close>\<close>
  fa_kind_known :: bool           \<comment> \<open>co-simulation, model exchange or both\<close>
  fa_loads :: bool                \<comment> \<open>\<^verbatim>\<open>fmi2_import_create_dllfmu\<close>\<close>
  fa_api :: "('f, 's) fmu"
  fa_instance :: 'f

definition server_fields :: "('f, 's) fmu_archive \<Rightarrow> string \<Rightarrow> bool \<Rightarrow> ('f, 's) server" where
  "server_fields a hdf5 dummy = \<lparr>m_sendDummyResponses = dummy, m_fmi2Instance = fa_instance a, lastStateId = -1, nextStateId = 0,
     stateMap = Map.empty, currentCommunicationPoint = 0, communicationStepSize = 0, m_freed = False,
     hdf5Filename = hdf5, field_offset = [], rowsz = 0, nrecords = 0, hdf5data = []\<rparr>"

text \<open>The result is \<^verbatim>\<open>m_fmuParsed\<close> and the server.\<close>

definition Server_ctor :: "('f, 's) fmu_archive \<Rightarrow> string \<Rightarrow> string \<Rightarrow> (bool \<times> ('f, 's) server) res" where
  "Server_ctor a path hdf5 =
     (if path = ''dummy'' then Inr (True, server_fields a hdf5 True)
      else if \<not> fa_exists a then Inl (Fatal ''FMU does not exist'')
      else if \<not> fa_temp_dir a then Inl (Fatal ''fmi_import_mk_temp_dir() failed'')
      else if fa_version a = fmi_version_unknown \<or> fa_version a = fmi_version_unsupported
      then Inl (Fatal ''Unknown FMI version or FMU does not exist'')
      else if fa_version a \<noteq> fmi_version_2_0 \<or> \<not> fa_parses a \<or> \<not> fa_kind_known a \<or> \<not> fa_loads a then Inr (False, server_fields a hdf5 False)
      else rbind (getHDF5Info (fa_api a) (server_fields a hdf5 False)) (\<lambda>srv. Inr (True, srv)))"

subsection \<open>The loop\<close>

text \<open>The process is given the transmissions that arrive. A reply socket that has received must send before it receives again: after an
  empty answer, which is not sent, nothing arrives any more.\<close>

datatype ('f, 's) served =
    Ended "('f, 's) server" "byte list list"     \<comment> \<open>the answers that were sent\<close>
  | Waiting "('f, 's) server" "byte list list"

fun server_loop :: "server_env \<Rightarrow> ('f, 's) fmu \<Rightarrow> wire_codec \<Rightarrow> byte list list \<Rightarrow> byte list list \<Rightarrow> ('f, 's) server \<Rightarrow> ('f, 's) served res" where
  "server_loop env api C sent [] srv = Inr (Waiting srv sent)"
| "server_loop env api C sent (d # ds) srv =
     rbind (server_clientData_bytes env api C d srv) (\<lambda>(srv, answer).
       let sent = (if answer = [] then sent else sent @ [answer]) in
       if m_freed srv then Inr (Ended srv sent)
       else if answer = [] then Inl (Blocked ''poll'')
       else server_loop env api C sent ds srv)"

definition server_main :: "jm_log_level \<Rightarrow> (string \<Rightarrow> ('f, 's) fmu_archive) \<Rightarrow> wire_codec \<Rightarrow> string list \<Rightarrow> byte list list \<Rightarrow> ('f, 's) served res" where
  "server_main level archives C args ds =
     rbind (parse_server_args True args (default_server_args\<lparr>sa_log_level := level\<rparr>)) (\<lambda>s.
     let a = archives (sa_fmuPath s) in
     rbind (Server_ctor a (sa_fmuPath s) (sa_hdf5Filename s)) (\<lambda>(parsed, srv).
       if \<not> parsed then Inl (Exit 1)
       else server_loop \<lparr>fmigo_loglevel = sa_log_level s, alwaysComputeNumericalDirectionalDerivatives = sa_numericalDerivatives s\<rparr> (fa_api a) C [] ds srv))"

subsection \<open>A session\<close>

text \<open>The same with lists of messages: what is answered to each transmission until the instance is freed.\<close>

fun serve_messages :: "server_env \<Rightarrow> ('f, 's) fmu \<Rightarrow> request list list \<Rightarrow> ('f, 's) server \<Rightarrow> (('f, 's) server \<times> response list list) res" where
  "serve_messages env api [] srv = Inr (srv, [])"
| "serve_messages env api (rs # rss) srv =
     rbind (server_clientData env api rs srv) (\<lambda>(srv, resps).
       if m_freed srv then Inr (srv, [resps])
       else rbind (serve_messages env api rss srv) (\<lambda>(srv, respss). Inr (srv, resps # respss)))"

lemma server_loop_serves:
  assumes "list_all (list_all (sendable_request C)) rss" and "serve_messages env api rss srv = Inr (srv', respss)"
    and "list_all (\<lambda>resps. resps \<noteq> [] \<and> list_all (sendable_response C) resps) respss" and "m_freed srv'" and "\<not> m_freed srv"
  shows "server_loop env api C sent (map (\<lambda>rs. wire (map (encode_request C) rs)) rss) srv
     = Inr (Ended srv' (sent @ map (\<lambda>resps. wire (map (encode_response C) resps)) respss))"
  using assms
proof (induction rss arbitrary: srv respss sent)
  case (Cons rs rss)
  obtain srv1 resps where 1: "server_clientData env api rs srv = Inr (srv1, resps)" using Cons.prems(2) by (auto simp: rbind_eq_Inr)
  have s: "list_all (sendable_request C) rs" "list_all (list_all (sendable_request C)) rss" using Cons.prems(1) by simp_all
  show ?case
  proof (cases "m_freed srv1")
    case True
    then have "srv' = srv1" "respss = [resps]" using Cons.prems(2) 1 by simp_all
    then show ?thesis using Cons.prems(3) server_bytes_answer[OF s(1) 1] True wire_nonempty[of "map (encode_response C) resps"] by simp
  next
    case False
    obtain rest where 2: "serve_messages env api rss srv1 = Inr (srv', rest)" "respss = resps # rest"
      using Cons.prems(2) 1 False by (auto simp: rbind_eq_Inr)
    have r: "resps \<noteq> []" "list_all (sendable_response C) resps" "list_all (\<lambda>resps. resps \<noteq> [] \<and> list_all (sendable_response C) resps) rest"
      using Cons.prems(3) 2(2) by simp_all
    show ?thesis
      using Cons.IH[OF s(2) 2(1) r(3) Cons.prems(4) False, of "sent @ [wire (map (encode_response C) resps)]"]
        server_bytes_answer[OF s(1) 1 r(2)] wire_nonempty[of "map (encode_response C) resps"] r(1) False 2(2) by simp
  qed
qed simp

lemma Server_ctor_not_freed: "Server_ctor a path hdf5 = Inr (parsed, srv) \<Longrightarrow> \<not> m_freed srv"
  by (auto simp: Server_ctor_def server_fields_def getHDF5Info_def rbind_eq_Inr split: if_splits)

text \<open>C8: a server process serves a session to its end: when its arguments are accepted and the FMU can be opened, and the transmissions hold requests which the handlers answer until the instance is freed, at least one response to each
  transmission, the process sends the bytes of these responses, one answer to each transmission in order, and ends with the transmission that frees the instance.\<close>

theorem server_process_serves:
  assumes "parse_server_args True args (default_server_args\<lparr>sa_log_level := level\<rparr>) = Inr s"
    and "Server_ctor (archives (sa_fmuPath s)) (sa_fmuPath s) (sa_hdf5Filename s) = Inr (True, srv)"
    and "serve_messages \<lparr>fmigo_loglevel = sa_log_level s, alwaysComputeNumericalDirectionalDerivatives = sa_numericalDerivatives s\<rparr>
           (fa_api (archives (sa_fmuPath s))) rss srv = Inr (srv', respss)" and "m_freed srv'"
    and "list_all (list_all (sendable_request C)) rss" and "list_all (\<lambda>resps. resps \<noteq> [] \<and> list_all (sendable_response C) resps) respss"
  shows "server_main level archives C args (map (\<lambda>rs. wire (map (encode_request C) rs)) rss)
     = Inr (Ended srv' (map (\<lambda>resps. wire (map (encode_response C) resps)) respss))"
  using server_loop_serves[OF assms(5,3,6,4) Server_ctor_not_freed[OF assms(2)], of "[]"] assms(1,2) by (simp add: server_main_def Let_def)

definition integrator_archive :: "(double \<times> double, double \<times> double) fmu_archive" where
  "integrator_archive = \<lparr>fa_exists = True, fa_temp_dir = True, fa_version = fmi_version_2_0, fa_parses = True, fa_kind_known = True, fa_loads = True,
     fa_api = integrator, fa_instance = (5, 2)\<rparr>"

theorem server_process_serves_witness:
  "\<exists>srv'. server_main jm_log_level_warning (\<lambda>_. integrator_archive) integer_codec [''-D'', ''a.fmu'']
       (map (\<lambda>rs. wire (map (encode_request integer_codec) rs)) [[set_real_req [1] [3], do_step_req 0 1 True], [get_real_req [0], free_instance_req]])
     = Inr (Ended srv' (map (\<lambda>resps. wire (map (encode_response integer_codec) resps)) [[set_real_res 0, do_step_res 0], [get_real_res 0 [8], free_instance_res]]))"
proof -
  let ?s = "default_server_args\<lparr>sa_fmuPath := ''a.fmu'', sa_numericalDerivatives := True\<rparr>"
  let ?rss = "[[set_real_req [1] [3], do_step_req 0 1 True], [get_real_req [0], free_instance_req]]"
  let ?as = "[[set_real_res 0, do_step_res 0], [get_real_res 0 [8], free_instance_res]]"
  have s: "parse_server_args True [''-D'', ''a.fmu''] (default_server_args\<lparr>sa_log_level := jm_log_level_warning\<rparr>) = Inr ?s"
    by (simp add: parse_server_args_def default_server_args_def)
  have c: "Server_ctor integrator_archive (sa_fmuPath ?s) (sa_hdf5Filename ?s) = Inr (True, server_fields integrator_archive [] False)"
    by (simp add: Server_ctor_def integrator_archive_def server_fields_def getHDF5Info_def default_server_args_def)
  have "\<exists>srv'. serve_messages \<lparr>fmigo_loglevel = sa_log_level ?s, alwaysComputeNumericalDirectionalDerivatives = sa_numericalDerivatives ?s\<rparr>
      (fa_api integrator_archive) ?rss (server_fields integrator_archive [] False) = Inr (srv', ?as) \<and> m_freed srv'"
    by (simp add: integrator_archive_def server_fields_def handle_set_real_def copy_values_def handle_get_real_def handle_do_step_def handle_free_instance_def
        read_fmu_def call_fmu_def reply_def integrator_def buffer_def)
  then obtain srv' where m: "serve_messages \<lparr>fmigo_loglevel = sa_log_level ?s, alwaysComputeNumericalDirectionalDerivatives = sa_numericalDerivatives ?s\<rparr>
      (fa_api integrator_archive) ?rss (server_fields integrator_archive [] False) = Inr (srv', ?as)" "m_freed srv'" by blast
  have e: "exact integer_codec 0" "exact integer_codec 1" "exact integer_codec 3" "exact integer_codec 8"
    by (simp_all add: exact_def integer_codec_def)
  have q: "list_all (list_all (sendable_request integer_codec)) ?rss" "list_all (\<lambda>resps. resps \<noteq> [] \<and> list_all (sendable_response integer_codec) resps) ?as"
    using e by (simp_all add: sendable_request_def sendable_response_def encode_request_def encode_response_def pack_def do_step_bytes_def reference_def)
       (simp_all add: integer_codec_def)
  from server_process_serves[OF s, where archives = "\<lambda>_. integrator_archive", OF c m q] show ?thesis by blast
qed

text \<open>Where the arguments of \<^verbatim>\<open>-p\<close> and \<^verbatim>\<open>-l\<close> end up: they are read twice, the second time as the path of the FMU.\<close>

lemma port_overwrites_path:
  assumes "hd (n @ [CHR ''-'']) \<noteq> CHR ''-''" and "0 < read_port n (sa_port s)" and "hd (path @ [CHR ''-'']) \<noteq> CHR ''-''"
  shows "parse_server_args True [path, ''-p'', n] s = Inr (s\<lparr>sa_fmuPath := n, sa_port := read_port n (sa_port s)\<rparr>)"
  using assms by (cases n; cases path) (simp_all add: parse_server_args_def)

lemma port_overwrites_path_example:
  "parse_server_args True [''model.fmu'', ''-p'', ''5000''] default_server_args = Inr (default_server_args\<lparr>sa_fmuPath := ''5000'', sa_port := 5000\<rparr>)"
  using port_overwrites_path[of "''5000''" default_server_args "''model.fmu''"]
  by (simp add: read_port_def stream_int_def strtol_def isspace_def isdigit_def digits_value_def digit_value_def)

end
