(* ===== verification/Spec2Isabelle.thy ===== *)
theory Spec2Isabelle
  imports Exec_Order_Rends Storage Sim_Cosim Fmu_Session Matlab_Props Server_Main
begin

text \<open>
  FmiGo: a verification library for a distributed co-simulation master, its FMU servers and the libraries they are built from.

  \<^bold>\<open>The program.\<close> A master (\<^verbatim>\<open>src/master\<close>) connects to one server process for each FMU (\<^verbatim>\<open>src/server\<close>, \<^verbatim>\<open>src/fmitcp\<close>). It reads its command line,
  asks every server for the model description, resolves the connections, initializes the FMUs and then repeats communication steps:
  it fetches outputs, converts them and sets them as inputs (weak connections), lets FMUs that are coupled by constraints
  make trial steps and computes the coupling forces (strong connections), and tells the FMUs to step in the order of the
  rendezvous (\<^verbatim>\<open>Rend\<close>) that the execution order was translated to. All calls are messages that are queued for each client and sent
  as one transmission; \<^verbatim>\<open>BaseMaster::wait\<close> sends the queues and polls until every request is answered. FMUs for model exchange are
  integrated by the master itself (\<^verbatim>\<open>modelExchange.cpp\<close>) or are wrapped into an FMU for co-simulation (\<^verbatim>\<open>tools/wrapper\<close>). The FMUs
  that come with the repository are instances of a template (\<^verbatim>\<open>tools/fmi2template\<close>).

  \<^bold>\<open>Theories and sources.\<close>

  \<^item> \<^verbatim>\<open>Prelude\<close>: results that may be an error (\<^verbatim>\<open>fatal\<close>, \<^verbatim>\<open>exit\<close>, an uncaught exception, a call that blocks, undefined behaviour), folds that stop at the
    first error, 32-bit integers. \<^verbatim>\<open>Int_Set\<close>: the unordered sets of identifiers, as a locale with the laws their clients use. \<^verbatim>\<open>Text_Utils\<close>: numbers, escapes and CSV
    (\<^verbatim>\<open>common.cpp\<close>, \<^verbatim>\<open>CSV-parser.cpp\<close>).
  \<^item> \<^verbatim>\<open>Rends\<close>, \<^verbatim>\<open>Exec_Order\<close>, \<^verbatim>\<open>Exec_Order_Parse\<close>, \<^verbatim>\<open>Exec_Order_Rends\<close>: execution orders as XML, their parser and their translation to rends
    (\<^verbatim>\<open>parseargs.cpp\<close>, \<^verbatim>\<open>parseargs.h\<close>). \<^verbatim>\<open>Scheduler\<close>: the sets and counters with which \<^verbatim>\<open>StrongMaster\<close> steps the FMUs in that order, as the locales
    \<open>cranker\<close>, \<open>stepper\<close> and \<open>total_cranker\<close> over what a batch does.
  \<^item> \<^verbatim>\<open>Command_Line\<close>, \<^verbatim>\<open>Command_Line_Props\<close>: \<^verbatim>\<open>parseArguments\<close>.
  \<^item> \<^verbatim>\<open>Messages\<close>: requests and responses (\<^verbatim>\<open>serialize.cpp\<close>, \<^verbatim>\<open>fmitcp.proto\<close>). \<^verbatim>\<open>Wire\<close>, \<^verbatim>\<open>Wire_Props\<close>: packets and the bytes of the messages that are laid out by hand
    (\<^verbatim>\<open>serialize.h\<close>), with the locale \<open>framed_messages\<close> for either direction.
  \<^item> \<^verbatim>\<open>Server\<close>, \<^verbatim>\<open>Server_Props\<close>: the handler of every message (\<^verbatim>\<open>Server.cpp\<close>) over an FMU given as a record of functions. \<^verbatim>\<open>Server_Main\<close>: the process around it
    (\<^verbatim>\<open>fmigo-server.cpp\<close>, \<^verbatim>\<open>parse_server_args.cpp\<close>).
  \<^item> \<^verbatim>\<open>Client\<close> (\<^verbatim>\<open>Client.cpp\<close>, \<^verbatim>\<open>FMIClient.cpp\<close>), \<^verbatim>\<open>Weak_Connection\<close> (\<^verbatim>\<open>WeakConnection.cpp\<close>), \<^verbatim>\<open>Base_Master\<close> (\<^verbatim>\<open>BaseMaster.cpp\<close>): queues, cached values, connections, waiting,
    the control socket.
  \<^item> \<^verbatim>\<open>Sc_Math\<close>, \<^verbatim>\<open>Sc_Constraint\<close>, \<^verbatim>\<open>Sc_Solver\<close> (\<^verbatim>\<open>tools/strong-coupling-core\<close>): rigid body algebra, constraints and their Jacobians, the solver.
    \<^verbatim>\<open>Strong_Connector\<close>: the values of an FMU as a connector and the setup of the constraints (\<^verbatim>\<open>StrongConnector.cpp\<close>, \<^verbatim>\<open>main.cpp\<close>).
  \<^item> \<^verbatim>\<open>Strong_Master\<close> (\<^verbatim>\<open>StrongMaster.cpp\<close>): construction, preparation and the iteration. \<^verbatim>\<open>Master_Wait\<close>, \<^verbatim>\<open>Master_Progress\<close>: that waits and iterations come back over a
    transport with the laws of the locale \<open>responsive_net\<close>. \<^verbatim>\<open>System\<close>: a cluster of servers behind a transport that delays answers and lets those of different FMUs overtake each other, as interpretations of it.
    \<^verbatim>\<open>Cosim_Wait\<close>, \<^verbatim>\<open>Cosim\<close>: the master with such a cluster as an implementation of an abstract co-simulation.
  \<^item> \<^verbatim>\<open>User_Params\<close>, \<^verbatim>\<open>Sim_Loop\<close>, \<^verbatim>\<open>Sim_Cosim\<close>, \<^verbatim>\<open>Startup\<close>, \<^verbatim>\<open>Startup_Props\<close>, \<^verbatim>\<open>Matlab_Props\<close> (\<^verbatim>\<open>main.cpp\<close>): parameters, the main loop and its rows, the loop over an
    abstract co-simulation, everything before and after the loop, and the Matlab file.
  \<^item> \<^verbatim>\<open>Storage\<close> (\<^verbatim>\<open>fmigo_storage.cpp\<close>), \<^verbatim>\<open>Model_Exchange\<close>, \<^verbatim>\<open>Model_Exchange_Props\<close> (\<^verbatim>\<open>modelExchange.cpp\<close>, \<^verbatim>\<open>WeakMasters.h\<close>): the master for model exchange.
  \<^item> \<^verbatim>\<open>Fmu_Template\<close>, \<^verbatim>\<open>Fmu_Lifecycle\<close>, \<^verbatim>\<open>Fmu_Session\<close> (\<^verbatim>\<open>tools/fmi2template\<close>), \<^verbatim>\<open>Gsl_Interface\<close> (\<^verbatim>\<open>tools/cgsl\<close>), \<^verbatim>\<open>Wrapper\<close>, \<^verbatim>\<open>Wrapper_Props\<close>
    (\<^verbatim>\<open>tools/wrapper\<close>): the FMUs.

  Names are those of the sources; a record has the members of the class, a function takes the state and returns it. An instance behind a pointer is its
  position in a list. The states of a master grow by records: \<open>client\<close>, \<open>master\<close>, \<open>smaster\<close>, \<open>sim\<close>.

  \<^bold>\<open>What is shown.\<close> From the inside out: the wire carries messages and a server process answers a session (\<^verbatim>\<open>Wire_Props\<close>, \<^verbatim>\<open>Server_Main\<close>); every request gets its response,
  saved states come back, kinematic requests leave no trace (\<^verbatim>\<open>Server_Props\<close>); the translation of an execution order of the usual shape keeps the order and is accepted (others can be refused), the
  scheduler never gets stuck and steps everything once in that order (\<^verbatim>\<open>Exec_Order_Rends\<close>, \<^verbatim>\<open>Scheduler\<close>, and below from the XML on); the Jacobians are the
  derivatives of the constraints and the solver solves their equations where the matrix is nonsingular (\<^verbatim>\<open>Sc_Constraint\<close>, \<^verbatim>\<open>Sc_Solver\<close>); an iteration returns and tells each FMU once to step
  (\<^verbatim>\<open>System\<close>); iterations, and the rows that \<^verbatim>\<open>main\<close> writes, are those of the abstract co-simulation (\<^verbatim>\<open>Cosim\<close>, \<^verbatim>\<open>Sim_Cosim\<close>); the command line is
  parsed to connections between FMUs that exist, these are typed by the model descriptions, and \<^verbatim>\<open>main\<close> ends if the end time is not negative and argument files name no others (\<^verbatim>\<open>Command_Line_Props\<close>, \<^verbatim>\<open>Startup_Props\<close>); steps of the
  integrators end where they should, the wrapper catches the first state event among the evaluations of the equations, a step of the master for model exchange can be
  undone (\<^verbatim>\<open>Gsl_Interface\<close>, \<^verbatim>\<open>Wrapper_Props\<close>, \<^verbatim>\<open>Model_Exchange_Props\<close>); the FMU template keeps the order of calls and the states of the FMI
  standard (\<^verbatim>\<open>Fmu_Lifecycle\<close>, \<^verbatim>\<open>Fmu_Session\<close>). Some theorems say what goes wrong: sizes of 2^31 bytes,
  argument files that name themselves or come behind an FMU, co-simulation FMUs before one for model exchange, runs without an end but with a limit of samples.

  \<^bold>\<open>Loops.\<close> Loops over lists are structural. \<^verbatim>\<open>wait\<close> polls at most 60 times more than requests are pending, as in the code, and stops the program after that; over a
  transport where a poll with requests outstanding finds at least one response this is enough (\<^verbatim>\<open>Master_Wait\<close>). A receive to which nothing comes is the error \<open>Blocked\<close>. Loops that may run for ever are \<^verbatim>\<open>partial_function (option)\<close>, with \<open>None\<close> for no result: the main loop, \<^verbatim>\<open>getopt\<close> with argument files,
  the integrators, event iterations; that they end is proved where they do: the main loop, \<^verbatim>\<open>getopt\<close> without nested argument files, integrators with
  a fixed step size. With a variable step size GSL does not say how many steps it takes, and nothing is claimed. The search of \<^verbatim>\<open>getPartial\<close> halves an exponent range and takes
  12 rounds (\<open>probe_range\<close>); the solver of algebraic loops makes 100 iterations at most, as in the code.

  \<^bold>\<open>Idealizations.\<close> \<^verbatim>\<open>double\<close> is the type of reals, without rounding, infinities and NaN; a division by zero that would give one is an error, except that
  the times of a run without steps to count (\<open>nsteps\<close> zero), which are infinite or NaN, are a parameter (\<open>no_time\<close>). Integers keep their 32 bits where
  text or arithmetic can leave them. Logging, timers and wall-clock pacing are left out. Iteration orders that C++ leaves open are one of those allowed. The
  end of the process inside equations called from an integrator is a flag (\<open>ended\<close>). A program compiled with or without \<^verbatim>\<open>DEBUG\<close> is a parameter.

  \<^bold>\<open>Not modelled.\<close> ZeroMQ and MPI: the transport is a parameter with laws. What protobuf writes, the FMI Library (archives, XML, loading), expat, GSL, UMFPACK, matio and
  HDF5 files: parameters too, since their sources are not in the repository. Of UMFPACK a theorem takes that nonsingular systems are solved (\<open>umfpack_law\<close>, met by an
  elimination in \<^verbatim>\<open>Sc_Solver\<close>), of GSL what the documentation says of the time after a step (\<open>documented_times\<close>). How numbers are printed. The MPI variants of \<^verbatim>\<open>main\<close> and of the arguments, and the \<^verbatim>\<open>getopt\<close> for
  Windows. The loop of \<^verbatim>\<open>main\<close> around \<^verbatim>\<open>JacobiMaster\<close>, which is that around \<^verbatim>\<open>StrongMaster\<close> with another iteration. \<^verbatim>\<open>epce_post_step\<close>, which the sources say does not
  work. The unpacking of an FMU by the wrapper, the tests that are part of \<^verbatim>\<open>fmigo_storage.cpp\<close>, generated code and the FMUs of the tests.
\<close>

subsection \<open>From the XML to a finished step\<close>

text \<open>C3: from the XML to the rends. Take an execution order of the usual shape (\<open>ok_p\<close>: no parallel group is empty, every serial group has at least
  two elements, and a serial group that ends in a parallel group has only FMUs in that) that names every FMU exactly once and is nested
  less than \<^verbatim>\<open>MAX_DEPTH\<close> deep. Printed as XML it is read by the expat handlers and translated to rends which the master's constructor accepts and which order
  the FMUs as the serial groups say. Orders of another shape can be refused (\<open>executionOrder_nested_tail_refused\<close>).\<close>

theorem executionOrder_end_to_end:
  assumes "XML_Parse xml = Some (events_p p)" and "wf_p p" and "depth_p p < MAX_DEPTH" and "ok_p p" and "distinct (ids_p p)" and "set (ids_p p) = {0..<int n}"
  shows "\<exists>rs. executionOrderFromXML XML_Parse xml = Inr rs \<and> ok (checkRends n rs) \<and> topo_rends rs
     \<and> prec_p p \<subseteq> (precedes rs)\<^sup>+"
  using parse_events_p[OF assms(2,3)] executionOrderFromTree_ok[OF assms(4-6)] assms(1)
  by (auto simp: executionOrderFromXML_def ok_iff checkRends_eq)

theorem executionOrder_end_to_end_witness:
  "\<exists>rs. executionOrderFromXML (\<lambda>xml. Some (events_p (Parallel [2] [Serial [SE_f 0, SE_f 1]]))) ''some xml'' = Inr rs \<and> ok (checkRends 3 rs)
     \<and> topo_rends rs \<and> {(0, 1)} \<subseteq> (precedes rs)\<^sup>+"
proof -
  have "set [2, 0, 1] = {0..<int 3}" by auto
  then show ?thesis
    using executionOrder_end_to_end[of "\<lambda>xml. Some (events_p (Parallel [2] [Serial [SE_f 0, SE_f 1]]))"
        "''some xml''" "Parallel [2] [Serial [SE_f 0, SE_f 1]]" 3]
    by (simp add: int32_def MAX_DEPTH_def)
qed

end
